(* ===== verification/Tlsvpn_Prelude.thy ===== *)
theory Tlsvpn_Prelude
  imports "HOL-Library.Word"
begin

text \<open>
  Shared vocabulary of the development: the machine-integer types of the Rust sources
  (\<open>u8\<close>, \<open>u16\<close>, \<open>u32\<close>, \<open>u64\<close> are fixed-width words, \<open>usize\<close> lengths and indices are
  \<open>nat\<close>), the saturating and checked operations of the Rust standard library that the
  sources call, the big- and little-endian byte codecs (\<open>to_be_bytes\<close>, \<open>from_be_bytes\<close>,
  \<open>byteorder::BigEndian\<close>), and the list and word lemmas the components share.
\<close>

unbundle bit_operations_syntax

type_synonym u8 = "8 word"
type_synonym u16 = "16 word"
type_synonym u32 = "32 word"
type_synonym u64 = "64 word"
type_synonym bytes = "u8 list"

named_theorems codec_simps \<open>byte codec round trips and lengths\<close>

subsection \<open>Integer operations of the Rust standard library\<close>

definition saturating_add :: "'a::len word \<Rightarrow> 'a word \<Rightarrow> 'a word" where
  "saturating_add a b = (if unat a + unat b < 2 ^ LENGTH('a) then a + b else - 1)"

definition saturating_sub :: "'a::len word \<Rightarrow> 'a word \<Rightarrow> 'a word" where
  "saturating_sub a b = (if a < b then 0 else a - b)"

definition saturating_mul :: "'a::len word \<Rightarrow> 'a word \<Rightarrow> 'a word" where
  "saturating_mul a b = (if unat a * unat b < 2 ^ LENGTH('a) then a * b else - 1)"

definition checked_add :: "'a::len word \<Rightarrow> 'a word \<Rightarrow> 'a word option" where
  "checked_add a b = (if unat a + unat b < 2 ^ LENGTH('a) then Some (a + b) else None)"

text \<open>\<open>Ord::clamp\<close> on \<open>usize\<close>.\<close>

definition clamp :: "nat \<Rightarrow> nat \<Rightarrow> nat \<Rightarrow> nat" where
  "clamp lo hi x = (if x < lo then lo else if hi < x then hi else x)"

subsection \<open>Byte codecs\<close>

primrec be_enc :: "nat \<Rightarrow> nat \<Rightarrow> bytes" where
  "be_enc 0 x = []"
| "be_enc (Suc n) x = be_enc n (x div 256) @ [of_nat x]"

definition be_dec :: "bytes \<Rightarrow> nat" where
  "be_dec bs = foldl (\<lambda>a b. a * 256 + unat b) 0 bs"

definition be16 :: "u16 \<Rightarrow> bytes" where
  "be16 w = be_enc 2 (unat w)"

definition be32 :: "u32 \<Rightarrow> bytes" where
  "be32 w = be_enc 4 (unat w)"

definition be64 :: "u64 \<Rightarrow> bytes" where
  "be64 w = be_enc 8 (unat w)"

definition rd16 :: "bytes \<Rightarrow> u16" where
  "rd16 bs = of_nat (be_dec bs)"

definition rd32 :: "bytes \<Rightarrow> u32" where
  "rd32 bs = of_nat (be_dec bs)"

definition rd64 :: "bytes \<Rightarrow> u64" where
  "rd64 bs = of_nat (be_dec bs)"

definition le32 :: "u32 \<Rightarrow> bytes" where
  "le32 w = rev (be32 w)"

definition le64 :: "u64 \<Rightarrow> bytes" where
  "le64 w = rev (be64 w)"

definition rdle32 :: "bytes \<Rightarrow> u32" where
  "rdle32 bs = rd32 (rev bs)"

definition rdle64 :: "bytes \<Rightarrow> u64" where
  "rdle64 bs = rd64 (rev bs)"

text \<open>The slice \<open>xs[i..i+n]\<close>.\<close>

definition slice :: "nat \<Rightarrow> nat \<Rightarrow> 'a list \<Rightarrow> 'a list" where
  "slice i n xs = take n (drop i xs)"

subsection \<open>Lemmas on integer operations\<close>

lemma unat_saturating_add:
  "unat (saturating_add a b) = min (unat a + unat b) (2 ^ LENGTH('a) - 1)"
  for a b :: "'a::len word"
  by (auto simp: saturating_add_def unat_word_ariths unsigned_minus_1_eq_mask mask_eq_exp_minus_1)

lemma unat_saturating_sub: "unat (saturating_sub a b) = unat a - unat b"
  by (auto simp: saturating_sub_def unat_sub_if' word_less_nat_alt)

lemma saturating_add_ge: "a \<le> saturating_add a b"
  for a b :: "'a::len word"
proof -
  have "unat a < 2 ^ LENGTH('a)" by (rule unsigned_less)
  then have "unat a \<le> 2 ^ LENGTH('a) - 1" by linarith
  then show ?thesis by (simp add: word_le_nat_alt unat_saturating_add)
qed

lemma saturating_sub_le: "saturating_sub a b \<le> a"
  by (simp add: word_le_nat_alt unat_saturating_sub)

lemma saturating_add_0 [simp]: "saturating_add a 0 = a"
  by (simp add: saturating_add_def)

lemma clamp_bounds: "lo \<le> hi \<Longrightarrow> lo \<le> clamp lo hi x \<and> clamp lo hi x \<le> hi"
  by (auto simp: clamp_def)

lemma clamp_id: "lo \<le> x \<Longrightarrow> x \<le> hi \<Longrightarrow> clamp lo hi x = x"
  by (auto simp: clamp_def)

lemma word_xor_eq_0_iff [simp]: "a XOR b = 0 \<longleftrightarrow> a = b"
  for a b :: "'a::len word"
proof
  assume "a XOR b = 0"
  then have "(a XOR b) XOR b = 0 XOR b" by (simp only:)
  then show "a = b" by (simp add: xor.assoc)
qed simp

text \<open>Rounding a one-based number down and up to the next multiple of a group size.\<close>

lemma align_down:
  fixes s K :: nat
  assumes "0 < s" "0 < K"
  shows "1 \<le> s - (s - 1) mod K" "(s - (s - 1) mod K - 1) mod K = 0" "s < s - (s - 1) mod K + K"
proof -
  obtain t where s: "s = Suc t" using assms(1) by (cases s) auto
  define q r where "q = t div K" and "r = t mod K"
  have t: "t = K * q + r" and r: "r < K" using assms(2) by (simp_all add: q_def r_def)
  have e: "s - (s - 1) mod K = Suc (K * q)" using t r by (simp add: s)
  show "1 \<le> s - (s - 1) mod K" unfolding e by simp
  show "(s - (s - 1) mod K - 1) mod K = 0" unfolding e by simp
  show "s < s - (s - 1) mod K + K" unfolding e using s t r by simp
qed

lemma align_up:
  fixes s K :: nat
  assumes "0 < s" "0 < K"
  shows "(s + (K - (s - 1) mod K) - 1) mod K = 0"
    "(s - 1) mod K \<noteq> 0 \<Longrightarrow> s + (K - (s - 1) mod K) < s + K"
proof -
  obtain t where s: "s = Suc t" using assms(1) by (cases s) auto
  define q r where "q = t div K" and "r = t mod K"
  have t: "t = K * q + r" and r: "r < K" using assms(2) by (simp_all add: q_def r_def)
  have e: "s + (K - (s - 1) mod K) - 1 = K * Suc q"
    using t r by (simp add: s r_def [symmetric])
  show "(s + (K - (s - 1) mod K) - 1) mod K = 0" unfolding e by simp
  show "(s - 1) mod K \<noteq> 0 \<Longrightarrow> s + (K - (s - 1) mod K) < s + K" using assms by simp
qed

subsection \<open>Lemmas on byte codecs\<close>

lemma length_be_enc [simp, codec_simps]: "length (be_enc n x) = n"
  by (induction n arbitrary: x) auto

lemma be_dec_Nil [simp]: "be_dec [] = 0"
  by (simp add: be_dec_def)

lemma be_dec_snoc: "be_dec (bs @ [b]) = be_dec bs * 256 + unat b"
  by (simp add: be_dec_def)

lemma be_dec_enc [codec_simps]: "be_dec (be_enc n x) = x mod 256 ^ n"
proof (induction n arbitrary: x)
  case 0
  then show ?case by simp
next
  case (Suc n)
  have "x mod 256 ^ Suc n = 256 * (x div 256 mod 256 ^ n) + x mod 256"
    by (metis mod_mult2_eq power_Suc)
  then show ?case
    by (simp add: be_dec_snoc Suc.IH unat_of_nat)
qed

lemma be_dec_bound: "be_dec bs < 256 ^ length bs"
proof (induction bs rule: rev_induct)
  case Nil
  then show ?case by simp
next
  case (snoc b bs)
  have "unat b < 256" using unsigned_less [of b] by simp
  moreover have "(be_dec bs + 1) * 256 \<le> 256 ^ length bs * 256"
    using snoc by (intro mult_le_mono1) simp
  ultimately show ?case by (simp add: be_dec_snoc)
qed

lemma be_enc_dec [codec_simps]: "length bs = n \<Longrightarrow> be_enc n (be_dec bs) = bs"
proof (induction bs arbitrary: n rule: rev_induct)
  case Nil
  then show ?case by simp
next
  case (snoc b bs)
  then obtain m where m: "n = Suc m" "length bs = m" by auto
  have ub: "unat b < 256" using unsigned_less [of b] by simp
  have "(be_dec bs * 256 + unat b) div 256 = be_dec bs"
    using ub by simp
  moreover have "(of_nat (be_dec bs * 256 + unat b) :: u8) = b"
  proof -
    have "unat (of_nat (be_dec bs * 256 + unat b) :: u8) = unat b"
      using ub by (simp add: unat_of_nat del: of_nat_add of_nat_mult)
    then show ?thesis by (simp add: word_unat_eq_iff)
  qed
  ultimately show ?case
    using snoc.IH [OF m(2)] m(1) by (simp add: be_dec_snoc del: of_nat_add of_nat_mult)
qed

lemma length_be16 [simp, codec_simps]: "length (be16 w) = 2"
  by (simp add: be16_def)

lemma length_be32 [simp, codec_simps]: "length (be32 w) = 4"
  by (simp add: be32_def)

lemma length_be64 [simp, codec_simps]: "length (be64 w) = 8"
  by (simp add: be64_def)

lemma rd16_be16 [simp, codec_simps]: "rd16 (be16 w) = w"
proof -
  have "unat w < 256 ^ 2" using unsigned_less [of w] by simp
  then show ?thesis by (simp add: rd16_def be16_def be_dec_enc)
qed

lemma rd32_be32 [simp, codec_simps]: "rd32 (be32 w) = w"
proof -
  have "unat w < 256 ^ 4" using unsigned_less [of w] by simp
  then show ?thesis by (simp add: rd32_def be32_def be_dec_enc)
qed

lemma rd64_be64 [simp, codec_simps]: "rd64 (be64 w) = w"
proof -
  have "unat w < 256 ^ 8" using unsigned_less [of w] by simp
  then show ?thesis by (simp add: rd64_def be64_def be_dec_enc)
qed

lemma be16_rd16 [codec_simps]: "length bs = 2 \<Longrightarrow> be16 (rd16 bs) = bs"
  using be_dec_bound [of bs] by (simp add: be16_def rd16_def be_enc_dec unat_of_nat)

lemma be32_rd32 [codec_simps]: "length bs = 4 \<Longrightarrow> be32 (rd32 bs) = bs"
  using be_dec_bound [of bs] by (simp add: be32_def rd32_def be_enc_dec unat_of_nat)

lemma be64_rd64 [codec_simps]: "length bs = 8 \<Longrightarrow> be64 (rd64 bs) = bs"
  using be_dec_bound [of bs] by (simp add: be64_def rd64_def be_enc_dec unat_of_nat)

lemma unat_rd32: "length bs = 4 \<Longrightarrow> unat (rd32 bs) = be_dec bs"
  using be_dec_bound [of bs] by (simp add: rd32_def unat_of_nat)

lemma unat_rd16: "length bs = 2 \<Longrightarrow> unat (rd16 bs) = be_dec bs"
  using be_dec_bound [of bs] by (simp add: rd16_def unat_of_nat)

lemma length_le32 [simp, codec_simps]: "length (le32 w) = 4"
  by (simp add: le32_def)

lemma length_le64 [simp, codec_simps]: "length (le64 w) = 8"
  by (simp add: le64_def)

lemma rdle32_le32 [simp, codec_simps]: "rdle32 (le32 w) = w"
  by (simp add: rdle32_def le32_def)

lemma rdle64_le64 [simp, codec_simps]: "rdle64 (le64 w) = w"
  by (simp add: rdle64_def le64_def)

subsection \<open>Lemmas on slices\<close>

lemma length_slice [simp]: "length (slice i n xs) = min n (length xs - i)"
  by (simp add: slice_def)

lemma slice_append_left: "i + n \<le> length xs \<Longrightarrow> slice i n (xs @ ys) = slice i n xs"
  by (simp add: slice_def)

lemma slice_append_right: "length xs \<le> i \<Longrightarrow> slice i n (xs @ ys) = slice (i - length xs) n ys"
  by (simp add: slice_def)

lemma take_slice_drop: "p = take i p @ slice i n p @ drop (i + n) p"
  by (metis add.commute append_take_drop_id drop_drop slice_def)

lemma slice_all: "length xs \<le> n \<Longrightarrow> slice 0 n xs = xs"
  by (simp add: slice_def)

subsection \<open>Words and naturals\<close>

lemma unat_ucast_u32: "unat (ucast (w :: u32) :: u64) = unat w"
proof -
  have "unat w < 2 ^ 32" using unsigned_less [of w] by simp
  then show ?thesis by (simp add: unsigned_ucast_eq take_bit_eq_mod)
qed

lemma unat_u32_of_nat: "n < 2 ^ 32 \<Longrightarrow> unat (of_nat n :: u32) = n"
  by (simp only: unat_of_nat) (simp add: take_bit_nat_eq_self)

end
