(* ===== verification/Protocol.thy ===== *)
theory Protocol
  imports Tlsvpn_Prelude
begin

text \<open>
  Model of \<open>src/src/protocol.rs\<close>: the typed control record \<open>FEC_MODE\<close> and its 16-byte
  codec, the arithmetic of FEC group boundaries, the receiver's fence
  (\<open>FecRxFenceState\<close>) and the sender's topology state (\<open>FecTxModeState\<close>).
  An \<open>AtomicU64\<close> or a \<open>Mutex\<close>-guarded field is a field of the record: every operation of
  the source takes its locks for its whole body, so its effect is one state transition.
\<close>

subsection \<open>The control record\<close>

definition CONTROL_KIND_FEC_PARITY :: u8 where
  "CONTROL_KIND_FEC_PARITY = 1"

definition CONTROL_KIND_FEC_MODE :: u8 where
  "CONTROL_KIND_FEC_MODE = 2"

definition FEC_MODE_SUSPEND :: u8 where
  "FEC_MODE_SUSPEND = 1"

definition FEC_MODE_RESUME :: u8 where
  "FEC_MODE_RESUME = 2"

definition FEC_MODE_WIRE_LEN :: nat where
  "FEC_MODE_WIRE_LEN = 16"

lemmas protocol_consts =
  CONTROL_KIND_FEC_PARITY_def CONTROL_KIND_FEC_MODE_def
  FEC_MODE_SUSPEND_def FEC_MODE_RESUME_def FEC_MODE_WIRE_LEN_def

record fec_mode_control =
  fm_generation :: u64
  fm_op :: u8
  fm_boundary :: u32

datatype proto_error =
    Mode_Length nat
  | Not_Fec_Mode u8
  | Mode_Flags_Nonzero
  | Invalid_Mode_Op u8
  | Mode_Zero_Field
  | Empty_Is_Keepalive
  | Unsupported_Kind u8

definition encode_control :: "fec_mode_control \<Rightarrow> bytes" where
  "encode_control c =
     [CONTROL_KIND_FEC_MODE, fm_op c, 0, 0] @ be64 (fm_generation c) @ be32 (fm_boundary c)"

definition parse_control :: "bytes \<Rightarrow> proto_error + fec_mode_control" where
  "parse_control payload =
     (if length payload \<noteq> FEC_MODE_WIRE_LEN then Inl (Mode_Length (length payload))
      else if payload ! 0 \<noteq> CONTROL_KIND_FEC_MODE then Inl (Not_Fec_Mode (payload ! 0))
      else if payload ! 2 \<noteq> 0 \<or> payload ! 3 \<noteq> 0 then Inl Mode_Flags_Nonzero
      else let opc = payload ! 1 in
        if opc \<noteq> FEC_MODE_SUSPEND \<and> opc \<noteq> FEC_MODE_RESUME then Inl (Invalid_Mode_Op opc)
        else let generation = rd64 (slice 4 8 payload);
                 boundary = rd32 (slice 12 4 payload)
             in if generation = 0 \<or> boundary = 0 then Inl Mode_Zero_Field
                else Inr \<lparr>fm_generation = generation, fm_op = opc, fm_boundary = boundary\<rparr>)"

definition control_kind :: "bytes \<Rightarrow> proto_error + u8" where
  "control_kind payload =
     (case payload of
        [] \<Rightarrow> Inl Empty_Is_Keepalive
      | kind # _ \<Rightarrow>
          if kind = CONTROL_KIND_FEC_PARITY \<or> kind = CONTROL_KIND_FEC_MODE then Inr kind
          else Inl (Unsupported_Kind kind))"

subsection \<open>Group boundaries\<close>

definition fec_group_start :: "u32 \<Rightarrow> nat \<Rightarrow> u32" where
  "fec_group_start seq k =
     (if seq = 0 then 0
      else let k' = of_nat (clamp 2 64 k) in seq - ((seq - 1) mod k'))"

definition fec_next_group_start :: "u32 \<Rightarrow> nat \<Rightarrow> u32" where
  "fec_next_group_start seq k =
     (if seq = 0 then 0
      else let k' = (of_nat (clamp 2 64 k) :: u32);
               offset = (seq - 1) mod k'
           in if offset = 0 then seq
              else let delta = k' - offset
                   in (case checked_add (ucast seq :: u64) (ucast delta) of
                         None \<Rightarrow> 0
                       | Some nxt \<Rightarrow> if nxt \<le> ucast (- 1 :: u32) then ucast nxt else 0))"

subsection \<open>Receiver fence\<close>

definition pack_window :: "u32 \<Rightarrow> u32 \<Rightarrow> u64" where
  "pack_window frm until = push_bit 32 (ucast frm) OR ucast until"

definition unpack_window :: "u64 \<Rightarrow> u32 \<times> u32" where
  "unpack_window v = (ucast (drop_bit 32 v), ucast v)"

record fec_rx_fence =
  rx_generation :: u64
  rx_window :: u64

definition fence_default :: fec_rx_fence where
  "fence_default = \<lparr>rx_generation = 0, rx_window = 0\<rparr>"

definition fence_reset :: "fec_rx_fence \<Rightarrow> fec_rx_fence" where
  "fence_reset f = f\<lparr>rx_generation := 0, rx_window := 0\<rparr>"

definition fence_reset_actor :: "fec_rx_fence \<Rightarrow> fec_rx_fence" where
  "fence_reset_actor f = f\<lparr>rx_generation := 0, rx_window := 0\<rparr>"

definition fence_window :: "fec_rx_fence \<Rightarrow> u32 \<times> u32" where
  "fence_window f = unpack_window (rx_window f)"

definition fence_apply :: "fec_rx_fence \<Rightarrow> fec_mode_control \<Rightarrow> bool \<times> fec_rx_fence" where
  "fence_apply f control =
     (if fm_generation control = 0 \<or> fm_boundary control = 0
         \<or> (fm_op control \<noteq> FEC_MODE_SUSPEND \<and> fm_op control \<noteq> FEC_MODE_RESUME)
      then (False, f)
      else if fm_generation control \<le> rx_generation f then (False, f)
      else
        let (frm, _) = fence_window f;
            f1 = f\<lparr>rx_generation := fm_generation control\<rparr>
        in if fm_op control = FEC_MODE_SUSPEND
           then (True, f1\<lparr>rx_window := pack_window (fm_boundary control) 0\<rparr>)
           else if frm = 0 \<or> fm_boundary control \<le> frm
           then (True, f1\<lparr>rx_window := 0\<rparr>)
           else (True, f1\<lparr>rx_window := pack_window frm (fm_boundary control)\<rparr>))"

definition fence_apply_actor :: "fec_rx_fence \<Rightarrow> fec_mode_control \<Rightarrow> bool \<times> fec_rx_fence" where
  "fence_apply_actor f control =
     (if fm_generation control = 0 \<or> fm_boundary control = 0
         \<or> (fm_op control \<noteq> FEC_MODE_SUSPEND \<and> fm_op control \<noteq> FEC_MODE_RESUME)
      then (False, f)
      else
        let (frm, _) = fence_window f
        in if fm_generation control \<le> rx_generation f then (False, f)
           else
             let f1 = f\<lparr>rx_generation := fm_generation control\<rparr>
             in if fm_op control = FEC_MODE_SUSPEND
                then (True, f1\<lparr>rx_window := pack_window (fm_boundary control) 0\<rparr>)
                else if frm = 0 \<or> fm_boundary control \<le> frm
                then (True, f1\<lparr>rx_window := 0\<rparr>)
                else (True, f1\<lparr>rx_window := pack_window frm (fm_boundary control)\<rparr>))"

definition bypass_data :: "fec_rx_fence \<Rightarrow> u32 \<Rightarrow> bool" where
  "bypass_data f seq =
     (if seq = 0 then False
      else let (frm, until) = fence_window f
           in frm \<noteq> 0 \<and> frm \<le> seq \<and> (until = 0 \<or> seq < until))"

definition bypass_parity :: "fec_rx_fence \<Rightarrow> u32 \<Rightarrow> bool" where
  "bypass_parity f group_start =
     (if group_start = 0 then False
      else let (frm, until) = fence_window f
           in frm \<noteq> 0 \<and> frm \<le> group_start \<and> (until = 0 \<or> group_start < until))"

subsection \<open>Sender topology state\<close>

record fec_tx_mode =
  seen_multipath :: bool
  suspended :: bool
  tx_generation :: u64
  tx_current :: "fec_mode_control option"

definition tx_mode_default :: fec_tx_mode where
  "tx_mode_default =
     \<lparr>seen_multipath = False, suspended = False, tx_generation = 0, tx_current = None\<rparr>"

definition tx_mode_reset :: "fec_tx_mode \<Rightarrow> fec_tx_mode" where
  "tx_mode_reset s = tx_mode_default"

definition observe ::
  "fec_tx_mode \<Rightarrow> nat \<Rightarrow> u32 \<Rightarrow> nat \<Rightarrow> fec_mode_control option \<times> fec_tx_mode" where
  "observe s paths seq k =
     (if 2 \<le> paths then
        if \<not> seen_multipath s then (None, s\<lparr>seen_multipath := True\<rparr>)
        else if suspended s then
          let boundary = fec_next_group_start seq k
          in if boundary = 0 then (None, s)
             else
               let g = max (saturating_add (tx_generation s) 1) 1;
                   control = \<lparr>fm_generation = g, fm_op = FEC_MODE_RESUME, fm_boundary = boundary\<rparr>
               in (Some control,
                   s\<lparr>tx_generation := g, suspended := False, tx_current := Some control\<rparr>)
        else (None, s)
      else if paths = 1 \<and> seen_multipath s \<and> \<not> suspended s then
        let g = max (saturating_add (tx_generation s) 1) 1;
            control = \<lparr>fm_generation = g, fm_op = FEC_MODE_SUSPEND,
                       fm_boundary = fec_group_start seq k\<rparr>
        in (Some control, s\<lparr>tx_generation := g, suspended := True, tx_current := Some control\<rparr>)
      else (None, s))"

text \<open>
  The controls a sender emits over a run: one \<^const>\<open>observe\<close> per dispatched sequence
  number, with the physical path count at that moment.
\<close>

fun observe_run ::
  "fec_tx_mode \<Rightarrow> nat \<Rightarrow> (nat \<times> u32) list \<Rightarrow> fec_mode_control list \<times> fec_tx_mode" where
  "observe_run s k [] = ([], s)"
| "observe_run s k ((paths, seq) # evs) =
     (let (c, s1) = observe s paths seq k;
          (cs, s2) = observe_run s1 k evs
      in (case c of None \<Rightarrow> cs | Some x \<Rightarrow> x # cs, s2))"

definition fence_apply_all :: "fec_rx_fence \<Rightarrow> fec_mode_control list \<Rightarrow> fec_rx_fence" where
  "fence_apply_all f cs = foldl (\<lambda>g c. snd (fence_apply g c)) f cs"

subsection \<open>Codec lemmas\<close>

definition control_valid :: "fec_mode_control \<Rightarrow> bool" where
  "control_valid c \<longleftrightarrow>
     fm_generation c \<noteq> 0 \<and> fm_boundary c \<noteq> 0
     \<and> (fm_op c = FEC_MODE_SUSPEND \<or> fm_op c = FEC_MODE_RESUME)"

lemma length_encode_control [simp]: "length (encode_control c) = 16"
  by (simp add: encode_control_def)

lemma encode_control_fields:
  "slice 4 8 (encode_control c) = be64 (fm_generation c)"
  "slice 12 4 (encode_control c) = be32 (fm_boundary c)"
  "encode_control c ! 0 = CONTROL_KIND_FEC_MODE" "encode_control c ! Suc 0 = fm_op c"
  "encode_control c ! 2 = 0" "encode_control c ! 3 = 0"
  by (simp_all add: encode_control_def slice_def numeral_eq_Suc)

lemma sixteen_bytes_split:
  assumes "length p = 16"
  shows "p = [p ! 0, p ! 1, p ! 2, p ! 3] @ slice 4 8 p @ slice 12 4 p"
proof -
  have "p = take 4 p @ slice 4 8 p @ drop (4 + 8) p"
    by (rule take_slice_drop)
  moreover have "take 4 p = [p ! 0, p ! 1, p ! 2, p ! 3]"
    using assms by (intro nth_equalityI) (auto simp: less_Suc_eq numeral_eq_Suc)
  moreover have "slice 12 4 p = drop 12 p" using assms by (simp add: slice_def)
  ultimately show ?thesis by simp
qed

lemma parse_encode_control:
  "control_valid c \<Longrightarrow> parse_control (encode_control c) = Inr c"
  by (simp add: parse_control_def encode_control_fields control_valid_def Let_def
      FEC_MODE_WIRE_LEN_def)

lemma parse_control_InrD:
  assumes "parse_control p = Inr c"
  shows "control_valid c \<and> p = encode_control c"
proof -
  from assms have len: "length p = 16"
    and b: "p ! 0 = CONTROL_KIND_FEC_MODE" "p ! 2 = 0" "p ! 3 = 0"
    and c: "c = \<lparr>fm_generation = rd64 (slice 4 8 p), fm_op = p ! 1,
                 fm_boundary = rd32 (slice 12 4 p)\<rparr>" and v: "control_valid c"
    by (auto simp: parse_control_def Let_def FEC_MODE_WIRE_LEN_def control_valid_def
        split: if_splits)
  have "encode_control c = [p ! 0, p ! 1, p ! 2, p ! 3] @ slice 4 8 p @ slice 12 4 p"
    using len by (simp add: encode_control_def b c be64_rd64 be32_rd32)
  then show ?thesis using sixteen_bytes_split [OF len] v by simp
qed

subsection \<open>Boundary arithmetic\<close>

lemma ucast_u32_max [simp]: "(ucast (- 1 :: u32) :: u64) = 4294967295"
  by code_simp

lemma unat_minus_1: "seq \<noteq> 0 \<Longrightarrow> unat (seq - 1) = unat seq - 1" for seq :: u32
  by (simp add: unat_minus_one)

lemma unat_group_size: "unat (of_nat (clamp 2 64 k) :: u32) = clamp 2 64 k"
proof -
  have "clamp 2 64 k \<le> 64" using clamp_bounds [of 2 64 k] by simp
  then show ?thesis by (simp add: unat_of_nat)
qed

lemma unat_group_offset:
  "seq \<noteq> 0 \<Longrightarrow>
   unat ((seq - 1) mod (of_nat (clamp 2 64 k) :: u32)) = (unat seq - 1) mod clamp 2 64 k"
  by (simp add: unat_mod_distrib unat_minus_1 unat_group_size)

lemma unat_fec_group_start:
  assumes "seq \<noteq> 0"
  shows "unat (fec_group_start seq k) = unat seq - (unat seq - 1) mod clamp 2 64 k"
proof -
  let ?o = "(seq - 1) mod (of_nat (clamp 2 64 k) :: u32)"
  have "unat ?o \<le> unat seq - 1"
    using unat_group_offset [OF assms, of k] by simp
  then have "?o \<le> seq" by (simp add: word_le_nat_alt)
  then show ?thesis
    using unat_group_offset [OF assms, of k] assms
    by (simp add: fec_group_start_def Let_def unat_sub)
qed

lemma unat_fec_next_group_start:
  assumes "seq \<noteq> 0"
  shows "unat (fec_next_group_start seq k) =
    (let o' = (unat seq - 1) mod clamp 2 64 k;
         n = unat seq + (clamp 2 64 k - o')
     in if o' = 0 then unat seq else if n < 2 ^ 32 then n else 0)"
proof (cases "(seq - 1) mod (of_nat (clamp 2 64 k) :: u32) = 0")
  case True
  then have "(unat seq - 1) mod clamp 2 64 k = 0"
    using unat_group_offset [OF assms, of k] by simp
  then show ?thesis using True assms by (simp add: fec_next_group_start_def)
next
  case False
  let ?k = "of_nat (clamp 2 64 k) :: u32"
  let ?o = "(seq - 1) mod ?k"
  let ?o' = "(unat seq - 1) mod clamp 2 64 k"
  have kb: "2 \<le> clamp 2 64 k" "clamp 2 64 k \<le> 64" using clamp_bounds [of 2 64 k] by auto
  have uo: "unat ?o = ?o'" by (rule unat_group_offset [OF assms])
  have o0: "?o' \<noteq> 0" using False uo by (metis unat_eq_zero)
  have ud: "unat (?k - ?o) = clamp 2 64 k - ?o'"
  proof -
    have "?o \<le> ?k" using uo kb by (simp add: word_le_nat_alt unat_group_size)
    then show ?thesis by (simp add: unat_sub uo unat_group_size)
  qed
  have us: "unat seq < 2 ^ 32" using unsigned_less [of seq] by simp
  have u1: "unat (ucast seq :: u64) = unat seq" by (rule unat_ucast_u32)
  have u2: "unat (ucast (?k - ?o) :: u64) = clamp 2 64 k - ?o'"
    unfolding unat_ucast_u32 by (rule ud)
  have lt: "unat (ucast seq :: u64) + unat (ucast (?k - ?o) :: u64) < 2 ^ 64"
    unfolding u1 u2 using us kb by simp
  have usum: "unat ((ucast seq :: u64) + ucast (?k - ?o)) = unat seq + (clamp 2 64 k - ?o')"
    using lt unfolding u1 u2 by (simp add: unat_word_ariths u1 u2)
  have cmp: "(ucast seq :: u64) + ucast (?k - ?o) \<le> ucast (- 1 :: u32) \<longleftrightarrow>
    unat seq + (clamp 2 64 k - ?o') < 2 ^ 32"
    by (simp add: word_le_nat_alt usum unat_ucast_u32 unsigned_minus_1_eq_mask
        mask_eq_exp_minus_1) auto
  show ?thesis
    using False assms o0 lt cmp usum
    by (simp add: fec_next_group_start_def Let_def checked_add_def unsigned_ucast_eq take_bit_eq_mod)
qed

lemma fec_group_start_props:
  assumes "seq \<noteq> 0"
  shows "fec_group_start seq k \<noteq> 0" "fec_group_start seq k \<le> seq"
    "(unat (fec_group_start seq k) - 1) mod clamp 2 64 k = 0"
    "unat seq < unat (fec_group_start seq k) + clamp 2 64 k"
proof -
  have K: "0 < clamp 2 64 k" using clamp_bounds [of 2 64 k] by simp
  have s: "0 < unat seq" using assms by (simp add: unat_gt_0)
  note u = unat_fec_group_start [OF assms, of k]
  show "fec_group_start seq k \<noteq> 0" using align_down(1) [OF s K] u by (metis not_one_le_zero unat_0)
  show "fec_group_start seq k \<le> seq" by (simp add: word_le_nat_alt u)
  show "(unat (fec_group_start seq k) - 1) mod clamp 2 64 k = 0"
    unfolding u by (rule align_down(2) [OF s K])
  show "unat seq < unat (fec_group_start seq k) + clamp 2 64 k"
    unfolding u by (rule align_down(3) [OF s K])
qed

lemma fec_next_group_start_props:
  assumes "seq \<noteq> 0" "fec_next_group_start seq k \<noteq> 0"
  shows "seq \<le> fec_next_group_start seq k"
    "(unat (fec_next_group_start seq k) - 1) mod clamp 2 64 k = 0"
    "unat (fec_next_group_start seq k) < unat seq + clamp 2 64 k"
proof -
  let ?K = "clamp 2 64 k" and ?s = "unat seq" and ?n = "unat (fec_next_group_start seq k)"
  let ?o = "(?s - 1) mod ?K"
  have K: "0 < ?K" using clamp_bounds [of 2 64 k] by simp
  have s: "0 < ?s" using assms by (simp add: unat_gt_0)
  have n0: "?n \<noteq> 0" using assms(2) by (simp add: unat_eq_zero)
  have u: "?n = (if ?o = 0 then ?s else ?s + (?K - ?o))"
    using unat_fec_next_group_start [OF assms(1), of k] n0
    unfolding Let_def by (metis (full_types))
  show "seq \<le> fec_next_group_start seq k" by (simp add: word_le_nat_alt u)
  show "?n < ?s + ?K" using u K align_up(2) [OF s K] by (cases "?o = 0") simp_all
  show "(?n - 1) mod ?K = 0" using u align_up(1) [OF s K] by (cases "?o = 0") simp_all
qed

subsection \<open>Fence lemmas\<close>

lemma unpack_pack_window [simp]: "unpack_window (pack_window a b) = (a, b)"
proof -
  have "ucast (drop_bit 32 (push_bit 32 (ucast a :: u64) OR ucast b)) = a"
    by (rule bit_word_eqI) (auto simp: bit_simps dest: bit_imp_le_length)
  moreover have "ucast (push_bit 32 (ucast a :: u64) OR ucast b) = b"
    by (rule bit_word_eqI) (auto simp: bit_simps)
  ultimately show ?thesis by (simp add: unpack_window_def pack_window_def)
qed

lemma unpack_window_0 [simp]: "unpack_window 0 = (0, 0)"
  by (simp add: unpack_window_def)

lemma fence_apply_actor_eq: "fence_apply_actor f c = fence_apply f c"
  by (simp add: fence_apply_actor_def fence_apply_def Let_def split: prod.split)

lemma fence_apply_rejects:
  "\<not> control_valid c \<or> fm_generation c \<le> rx_generation f \<Longrightarrow> fence_apply f c = (False, f)"
  by (auto simp: fence_apply_def control_valid_def)

lemma fence_apply_suspend:
  "control_valid c \<Longrightarrow> rx_generation f < fm_generation c \<Longrightarrow> fm_op c = FEC_MODE_SUSPEND \<Longrightarrow>
   fence_apply f c = (True, \<lparr>rx_generation = fm_generation c,
     rx_window = pack_window (fm_boundary c) 0, \<dots> = fec_rx_fence.more f\<rparr>)"
  by (auto simp: fence_apply_def control_valid_def fence_window_def Let_def
      split: prod.split)

lemma fence_apply_resume:
  "control_valid c \<Longrightarrow> rx_generation f < fm_generation c \<Longrightarrow> fm_op c = FEC_MODE_RESUME \<Longrightarrow>
   fence_apply f c = (True, \<lparr>rx_generation = fm_generation c,
     rx_window = (if fst (fence_window f) = 0 \<or> fm_boundary c \<le> fst (fence_window f) then 0
                  else pack_window (fst (fence_window f)) (fm_boundary c)),
     \<dots> = fec_rx_fence.more f\<rparr>)"
  by (auto simp: fence_apply_def control_valid_def Let_def protocol_consts
      split: prod.split)

lemma fence_apply_generation:
  "rx_generation (snd (fence_apply f c)) =
     (if control_valid c \<and> rx_generation f < fm_generation c then fm_generation c
      else rx_generation f)"
  by (auto simp: fence_apply_def control_valid_def Let_def split: prod.split)

subsection \<open>Sender and receiver agree\<close>

text \<open>
  The link between the two ends: the same generation, and an open window exactly while the
  sender is suspended.
\<close>

definition fence_agrees :: "fec_tx_mode \<Rightarrow> fec_rx_fence \<Rightarrow> bool" where
  "fence_agrees s f \<longleftrightarrow>
     rx_generation f = tx_generation s \<and> (suspended s \<longrightarrow> seen_multipath s)
     \<and> (suspended s \<longleftrightarrow> fst (fence_window f) \<noteq> 0 \<and> snd (fence_window f) = 0)"

lemma next_generation:
  assumes "unat (g :: u64) < 2 ^ 64 - 1"
  shows "max (saturating_add g 1) 1 = g + 1" "unat (g + 1) = unat g + 1" "g < g + 1" "g + 1 \<noteq> 0"
proof -
  have u: "unat (g + 1) = unat g + 1" using assms by (simp add: unat_word_ariths)
  then show "unat (g + 1) = unat g + 1" "g < g + 1" "g + 1 \<noteq> 0"
    by (auto simp: word_less_nat_alt unat_eq_zero simp flip: unat_eq_zero)
  have "unat (saturating_add g 1) = unat g + 1" using assms by (simp add: unat_saturating_add)
  then have "saturating_add g 1 = g + 1" using u by (simp add: word_unat_eq_iff)
  moreover have "1 \<le> g + 1" using u by (simp add: word_le_nat_alt)
  ultimately show "max (saturating_add g 1) 1 = g + 1" by (simp add: max_def)
qed

lemma observe_cases:
  assumes "observe s paths seq k = (c, s')" "seq \<noteq> 0" "unat (tx_generation s) < 2 ^ 64 - 1"
  obtains (Silent) "c = None" "suspended s' = suspended s" "tx_generation s' = tx_generation s"
      "seen_multipath s \<longrightarrow> seen_multipath s'"
  | (Suspend) "\<not> suspended s" "suspended s'" "seen_multipath s'" "tx_generation s' = tx_generation s + 1"
      "c = Some \<lparr>fm_generation = tx_generation s + 1, fm_op = FEC_MODE_SUSPEND,
                 fm_boundary = fec_group_start seq k\<rparr>"
  | (Resume) "suspended s" "\<not> suspended s'" "tx_generation s' = tx_generation s + 1"
      "fec_next_group_start seq k \<noteq> 0"
      "c = Some \<lparr>fm_generation = tx_generation s + 1, fm_op = FEC_MODE_RESUME,
                 fm_boundary = fec_next_group_start seq k\<rparr>"
  using assms(1) next_generation(1) [OF assms(3)] that
  by (auto simp: observe_def Let_def split: if_splits)

lemma observe_agrees:
  assumes "observe s paths seq k = (c, s')" "seq \<noteq> 0" "unat (tx_generation s) < 2 ^ 64 - 1"
    and ag: "fence_agrees s f"
  shows "fence_agrees s' (case c of None \<Rightarrow> f | Some x \<Rightarrow> snd (fence_apply f x))"
    "unat (tx_generation s') = unat (tx_generation s) + length (case c of None \<Rightarrow> [] | Some x \<Rightarrow> [x])"
    "c = Some x \<Longrightarrow> fst (fence_apply f x) \<and> control_valid x"
proof -
  note g = next_generation [OF assms(3)]
  have rx: "rx_generation f = tx_generation s" using ag by (simp add: fence_agrees_def)
  have b: "fec_group_start seq k \<noteq> 0" by (rule fec_group_start_props(1) [OF assms(2)])
  consider (Silent) "c = None" "suspended s' = suspended s" "tx_generation s' = tx_generation s"
      "seen_multipath s \<longrightarrow> seen_multipath s'"
  | (Suspend) "\<not> suspended s" "suspended s'" "seen_multipath s'" "tx_generation s' = tx_generation s + 1"
      "c = Some \<lparr>fm_generation = tx_generation s + 1, fm_op = FEC_MODE_SUSPEND,
                 fm_boundary = fec_group_start seq k\<rparr>"
  | (Resume) "suspended s" "\<not> suspended s'" "tx_generation s' = tx_generation s + 1"
      "fec_next_group_start seq k \<noteq> 0"
      "c = Some \<lparr>fm_generation = tx_generation s + 1, fm_op = FEC_MODE_RESUME,
                 fm_boundary = fec_next_group_start seq k\<rparr>"
    by (rule observe_cases [OF assms(1-3)])
  then have "fence_agrees s' (case c of None \<Rightarrow> f | Some x \<Rightarrow> snd (fence_apply f x))
    \<and> unat (tx_generation s') = unat (tx_generation s) + length (case c of None \<Rightarrow> [] | Some x \<Rightarrow> [x])
    \<and> (c = Some x \<longrightarrow> fst (fence_apply f x) \<and> control_valid x)"
  proof cases
    case Silent then show ?thesis using ag by (auto simp: fence_agrees_def)
  next
    case Suspend then show ?thesis using rx g b
      by (auto simp: fence_apply_suspend control_valid_def fence_agrees_def fence_window_def)
  next
    case Resume then show ?thesis using rx g
      by (auto simp: fence_apply_resume control_valid_def fence_agrees_def fence_window_def)
  qed
  then show "fence_agrees s' (case c of None \<Rightarrow> f | Some x \<Rightarrow> snd (fence_apply f x))"
    "unat (tx_generation s') = unat (tx_generation s) + length (case c of None \<Rightarrow> [] | Some x \<Rightarrow> [x])"
    "c = Some x \<Longrightarrow> fst (fence_apply f x) \<and> control_valid x" by simp_all
qed

definition boundary_aligned :: "nat \<Rightarrow> fec_mode_control \<Rightarrow> bool" where
  "boundary_aligned k c \<longleftrightarrow> (unat (fm_boundary c) - 1) mod clamp 2 64 k = 0"

lemma observe_boundary_aligned:
  assumes "observe s paths seq k = (Some c, s')" "seq \<noteq> 0" "unat (tx_generation s) < 2 ^ 64 - 1"
  shows "boundary_aligned k c" "fm_generation c = tx_generation s + 1"
    "fm_op c = (if suspended s then FEC_MODE_RESUME else FEC_MODE_SUSPEND)"
    "suspended s' = (\<not> suspended s)"
  by (rule observe_cases [OF assms];
      simp add: boundary_aligned_def fec_group_start_props fec_next_group_start_props assms(2)
        del: One_nat_def)+

fun mode_schedule :: "bool \<Rightarrow> nat \<Rightarrow> fec_mode_control list \<Rightarrow> bool" where
  "mode_schedule susp g [] = True"
| "mode_schedule susp g (c # cs) =
     (fm_op c = (if susp then FEC_MODE_RESUME else FEC_MODE_SUSPEND)
      \<and> unat (fm_generation c) = g + 1 \<and> mode_schedule (\<not> susp) (g + 1) cs)"

lemma observe_run_agrees:
  assumes "observe_run s k evs = (cs, s')" "\<forall>(p, q) \<in> set evs. q \<noteq> 0"
    "unat (tx_generation s) + length evs < 2 ^ 64" "fence_agrees s f"
  shows "fence_agrees s' (fence_apply_all f cs)
    \<and> unat (tx_generation s') = unat (tx_generation s) + length cs
    \<and> mode_schedule (suspended s) (unat (tx_generation s)) cs
    \<and> list_all (\<lambda>c. control_valid c \<and> boundary_aligned k c) cs"
  using assms
proof (induction evs arbitrary: s f cs)
  case Nil
  then show ?case by (simp add: fence_apply_all_def)
next
  case (Cons ev evs)
  obtain p q where ev: "ev = (p, q)" by force
  obtain c s1 where o: "observe s p q k = (c, s1)" by force
  obtain cs1 s2 where r: "observe_run s1 k evs = (cs1, s2)" by force
  have q: "q \<noteq> 0" and g: "unat (tx_generation s) < 2 ^ 64 - 1" and ag: "fence_agrees s f"
    using Cons.prems ev by auto
  let ?f1 = "case c of None \<Rightarrow> f | Some x \<Rightarrow> snd (fence_apply f x)"
  note st = observe_agrees [OF o q g ag]
  have len: "unat (tx_generation s1) + length evs < 2 ^ 64"
    using st(2) Cons.prems(3) by (simp split: option.splits)
  have s2: "s2 = s'" and cs: "cs = (case c of None \<Rightarrow> cs1 | Some x \<Rightarrow> x # cs1)"
    using Cons.prems(1) o r ev by auto
  have "fence_agrees s' (fence_apply_all ?f1 cs1)
    \<and> unat (tx_generation s') = unat (tx_generation s1) + length cs1
    \<and> mode_schedule (suspended s1) (unat (tx_generation s1)) cs1
    \<and> list_all (\<lambda>c. control_valid c \<and> boundary_aligned k c) cs1"
    using Cons.IH [OF r [unfolded s2] _ len st(1)] Cons.prems(2) ev by auto
  note ih = this
  show ?case
  proof (cases c)
    case None
    then have "suspended s1 = suspended s" "tx_generation s1 = tx_generation s"
      by (auto intro: observe_cases [OF o q g])
    then show ?thesis using ih None by (simp add: cs)
  next
    case (Some x)
    note b = observe_boundary_aligned [OF o [unfolded Some] q g]
    have u: "unat (tx_generation s1) = unat (tx_generation s) + 1" using st(2) Some by simp
    have "control_valid x" using st(3) Some by simp
    moreover have "fence_apply_all f cs = fence_apply_all ?f1 cs1"
      by (simp add: cs Some fence_apply_all_def)
    ultimately show ?thesis using ih b u next_generation(2) [OF g] by (simp add: cs Some)
  qed
qed

subsection \<open>Properties\<close>

text \<open>
  C27. The \<open>FEC_MODE\<close> codec is exact: \<open>parse\<close> accepts a payload with result \<open>c\<close> if and only
  if the payload is byte for byte \<open>encode c\<close> and \<open>c\<close> is a valid control (known op, non-zero
  generation and boundary). There is one wire form per control and no other accepted input.
\<close>
theorem fec_mode_codec_exact:
  "parse_control p = Inr c \<longleftrightarrow> control_valid c \<and> p = encode_control c"
  using parse_control_InrD parse_encode_control by blast

text \<open>
  C15. Sender and receiver agree. For every run of \<open>FecTxModeState::observe\<close> from the initial
  state, over any path counts and non-zero sequence numbers, the emitted controls alternate
  SUSPEND and RESUME, carry the generations 1, 2, 3, ..., are valid and name first sequences
  of complete groups; and once they are applied in order to a fresh fence, the fence has the
  sender's generation and its bypass window is open exactly while the sender is suspended.
\<close>
theorem fec_mode_sender_receiver_agree:
  assumes "observe_run tx_mode_default k evs = (cs, s)"
    and "\<forall>(paths, seq) \<in> set evs. seq \<noteq> 0" and "length evs < 2 ^ 64"
  shows "mode_schedule False 0 cs
    \<and> list_all (\<lambda>c. control_valid c \<and> boundary_aligned k c) cs
    \<and> rx_generation (fence_apply_all fence_default cs) = tx_generation s
    \<and> unat (tx_generation s) = length cs
    \<and> (suspended s \<longleftrightarrow> (\<exists>b. b \<noteq> 0 \<and> fence_window (fence_apply_all fence_default cs) = (b, 0)))"
proof -
  have "fence_agrees tx_mode_default fence_default"
    by (simp add: fence_agrees_def tx_mode_default_def fence_default_def fence_window_def)
  from observe_run_agrees [OF assms(1,2) _ this] assms(3) show ?thesis
    by (simp add: tx_mode_default_def fence_agrees_def prod_eq_iff)
qed

theorem fec_mode_sender_receiver_agree_witness:
  "observe_run tx_mode_default 4 [(2, 1), (1, 6), (2, 11)] =
     ([\<lparr>fm_generation = 1, fm_op = 1, fm_boundary = 5\<rparr>, \<lparr>fm_generation = 2, fm_op = 2, fm_boundary = 13\<rparr>],
      \<lparr>seen_multipath = True, suspended = False, tx_generation = 2,
       tx_current = Some \<lparr>fm_generation = 2, fm_op = 2, fm_boundary = 13\<rparr>\<rparr>)
   \<and> mode_schedule False 0 [\<lparr>fm_generation = 1, fm_op = 1, fm_boundary = 5\<rparr>,
        \<lparr>fm_generation = 2, fm_op = 2, fm_boundary = 13\<rparr>]"
proof -
  have run: "observe_run tx_mode_default 4 [(2, 1), (1, 6), (2, 11)] =
     ([\<lparr>fm_generation = 1, fm_op = 1, fm_boundary = 5\<rparr>, \<lparr>fm_generation = 2, fm_op = 2, fm_boundary = 13\<rparr>],
      \<lparr>seen_multipath = True, suspended = False, tx_generation = 2,
       tx_current = Some \<lparr>fm_generation = 2, fm_op = 2, fm_boundary = 13\<rparr>\<rparr>)"
    by (simp add: observe_def tx_mode_default_def fec_group_start_def fec_next_group_start_def
        Let_def clamp_def saturating_add_def checked_add_def protocol_consts)
  show ?thesis using run fec_mode_sender_receiver_agree [OF run] by simp
qed

text \<open>
  C34. The fence is monotone under any delivery order, loss or duplication: after any list of
  controls its generation is the largest one of the valid controls delivered, the shared
  and the actor entry points agree, and a control that is invalid or not newer leaves the
  fence untouched and is reported as rejected.
\<close>
theorem fence_generation_is_newest:
  "rx_generation (fence_apply_all f cs) = fold max (map fm_generation (filter control_valid cs)) (rx_generation f)
   \<and> fence_apply_actor f c = fence_apply f c
   \<and> (if control_valid c \<and> rx_generation f < fm_generation c then fst (fence_apply f c)
      else fence_apply f c = (False, f))"
proof -
  have "rx_generation (fence_apply_all f cs) =
    fold max (map fm_generation (filter control_valid cs)) (rx_generation f)"
  proof (induction cs arbitrary: f)
    case (Cons c cs)
    then show ?case
      by (simp add: fence_apply_all_def fence_apply_generation max.commute max_absorb2 not_less
          split: if_splits)
  qed (simp add: fence_apply_all_def)
  moreover have "control_valid c \<Longrightarrow> rx_generation f < fm_generation c \<Longrightarrow> fst (fence_apply f c)"
    by (auto simp: fence_apply_def control_valid_def Let_def split: prod.splits)
  moreover have "\<not> (control_valid c \<and> rx_generation f < fm_generation c) \<Longrightarrow> fence_apply f c = (False, f)"
    by (rule fence_apply_rejects) auto
  ultimately show ?thesis by (simp add: fence_apply_actor_eq)
qed

end
