(* ===== verification/Utils.thy ===== *)
theory Utils
  imports Tlsvpn_Prelude
begin

text \<open>
  Model of \<open>src/src/utils.rs\<close>: the xorshift generator behind \<open>RNG\<close>, the validators of the
  identifiers a client reports about itself (client id, MAC, instance), the MAC parser and
  printer, and the list of \<open>ip\<close> commands that configures the TAP device.
  A Rust \<open>str\<close> is a \<^typ>\<open>string\<close>, one \<^typ>\<open>char\<close> per byte. \<open>hex::decode\<close> is the argument
  \<open>hexd\<close>.
\<close>

subsection \<open>Strings as bytes\<close>

definition as_bytes :: "string \<Rightarrow> bytes" where
  "as_bytes s = map of_char s"

text \<open>\<open>str::split\<close> on one character: always at least one part.\<close>

fun str_split :: "char \<Rightarrow> string \<Rightarrow> string list" where
  "str_split c [] = [[]]"
| "str_split c (x # xs) =
     (if x = c then [] # str_split c xs
      else case str_split c xs of [] \<Rightarrow> [[x]] | p # ps \<Rightarrow> (x # p) # ps)"

subsection \<open>The generator\<close>

definition fastrand_new :: "u64 \<Rightarrow> u64" where
  "fastrand_new nanos = (if nanos = 0 then 1 else nanos)"

definition fastrand_step :: "u64 \<Rightarrow> u64" where
  "fastrand_step s0 =
     (let s1 = s0 XOR push_bit 13 s0;
          s2 = s1 XOR drop_bit 7 s1
      in s2 XOR push_bit 17 s2)"

definition next_u32 :: "u64 \<Rightarrow> u32 \<times> u64" where
  "next_u32 s = (let s' = fastrand_step s in (ucast s', s'))"

definition gen_range :: "nat \<Rightarrow> nat \<Rightarrow> u64 \<Rightarrow> nat \<times> u64" where
  "gen_range mn mx s =
     (if mx \<le> mn then (mn, s)
      else let (r, s') = next_u32 s in (mn + unat r mod (mx - mn), s'))"

text \<open>\<open>fill\<close> on a little-endian target: one draw per chunk of at most four bytes.\<close>

function fill_bytes :: "nat \<Rightarrow> u64 \<Rightarrow> bytes \<times> u64" where
  "fill_bytes n s =
     (if n = 0 then ([], s)
      else let (r, s1) = next_u32 s;
               len = min 4 n;
               (rest, s2) = fill_bytes (n - len) s1
           in (take len (le32 r) @ rest, s2))"
  by pat_completeness auto
termination by (relation "measure fst") auto

declare fill_bytes.simps [simp del]

subsection \<open>Validators\<close>

definition is_hex_digit :: "char \<Rightarrow> bool" where
  "is_hex_digit c \<longleftrightarrow>
     c \<in> set ''0123456789'' \<or> c \<in> set ''abcdef'' \<or> c \<in> set ''ABCDEF''"

fun client_id_chars :: "nat \<Rightarrow> string \<Rightarrow> bool" where
  "client_id_chars i [] = True"
| "client_id_chars i (c # cs) =
     (if i = 8 \<or> i = 13 \<or> i = 18 \<or> i = 23
      then (if c \<noteq> CHR ''-'' then False else client_id_chars (i + 1) cs)
      else if \<not> is_hex_digit c then False else client_id_chars (i + 1) cs)"

definition is_valid_client_id :: "string \<Rightarrow> bool" where
  "is_valid_client_id s = (if length s \<noteq> 36 then False else client_id_chars 0 s)"

fun parse_mac_parts :: "(string \<Rightarrow> bytes option) \<Rightarrow> nat \<Rightarrow> bytes \<Rightarrow> string list \<Rightarrow> bytes option" where
  "parse_mac_parts hexd cur out [] = (if cur = 6 then Some out else None)"
| "parse_mac_parts hexd cur out (part # parts) =
     (if cur = 6 then None
      else case hexd part of
        None \<Rightarrow> None
      | Some b \<Rightarrow> if length b \<noteq> 1 then None
                   else parse_mac_parts hexd (cur + 1) (out[cur := b ! 0]) parts)"

definition parse_mac_key :: "(string \<Rightarrow> bytes option) \<Rightarrow> string \<Rightarrow> bytes option" where
  "parse_mac_key hexd s = parse_mac_parts hexd 0 (replicate 6 0) (str_split CHR '':'' s)"

datatype mac_config_error = Mac_Malformed string | Mac_Not_Unicast string

definition parse_config_mac ::
  "(string \<Rightarrow> bytes option) \<Rightarrow> string \<Rightarrow> mac_config_error + bytes option" where
  "parse_config_mac hexd s =
     (if s = [] then Inr None
      else case parse_mac_key hexd s of
        None \<Rightarrow> Inl (Mac_Malformed s)
      | Some m \<Rightarrow>
          if m = replicate 6 0 \<or> (m ! 0) AND 1 \<noteq> 0 then Inl (Mac_Not_Unicast s)
          else Inr (Some m))"

definition is_valid_mac_string :: "(string \<Rightarrow> bytes option) \<Rightarrow> string \<Rightarrow> bool" where
  "is_valid_mac_string hexd s \<longleftrightarrow> s = [] \<or> parse_mac_key hexd s \<noteq> None"

definition is_valid_session_mac :: "(string \<Rightarrow> bytes option) \<Rightarrow> string \<Rightarrow> bool" where
  "is_valid_session_mac hexd s =
     (case parse_mac_key hexd s of
        Some m \<Rightarrow> m \<noteq> replicate 6 0 \<and> (m ! 0) AND 1 = 0
      | None \<Rightarrow> False)"

definition hex_nibble :: "nat \<Rightarrow> char" where
  "hex_nibble n = (''0123456789abcdef'' ! (n mod 16))"

definition hex_byte :: "u8 \<Rightarrow> string" where
  "hex_byte b = [hex_nibble (unat b div 16), hex_nibble (unat b)]"

fun join_colon :: "string list \<Rightarrow> string" where
  "join_colon [] = []"
| "join_colon [p] = p"
| "join_colon (p # q # ps) = p @ CHR '':'' # join_colon (q # ps)"

definition mac_to_string :: "bytes \<Rightarrow> string" where
  "mac_to_string m = join_colon (map hex_byte m)"

definition canonical_mac :: "(string \<Rightarrow> bytes option) \<Rightarrow> string \<Rightarrow> string option" where
  "canonical_mac hexd s = map_option mac_to_string (parse_mac_key hexd s)"

definition is_ascii_alphanumeric :: "char \<Rightarrow> bool" where
  "is_ascii_alphanumeric c \<longleftrightarrow>
     (let n = (of_char c :: nat)
      in (48 \<le> n \<and> n \<le> 57) \<or> (65 \<le> n \<and> n \<le> 90) \<or> (97 \<le> n \<and> n \<le> 122))"

definition is_valid_client_instance :: "string \<Rightarrow> bool" where
  "is_valid_client_instance s \<longleftrightarrow>
     16 \<le> length s \<and> length s \<le> 64 \<and> list_all (\<lambda>c. is_ascii_alphanumeric c \<or> c = CHR ''-'') s"

definition tap_addr_cmds :: "string \<Rightarrow> string \<Rightarrow> string \<Rightarrow> string list list" where
  "tap_addr_cmds tap v4cidr v6cidr =
     [[''link'', ''set'', ''dev'', tap, ''up'']]
     @ (if v4cidr \<noteq> ''/'' \<and> v4cidr \<noteq> [] then [[''addr'', ''replace'', v4cidr, ''dev'', tap]] else [])
     @ (if v6cidr \<noteq> ''/'' \<and> v6cidr \<noteq> []
        then [[''-6'', ''addr'', ''replace'', ''nodad'', v6cidr, ''dev'', tap]] else [])"

subsection \<open>Lemmas\<close>

lemma length_as_bytes [simp]: "length (as_bytes s) = length s"
  by (simp add: as_bytes_def)

lemma as_bytes_inject [simp]: "as_bytes s = as_bytes t \<longleftrightarrow> s = t"
proof -
  have "inj (of_char :: char \<Rightarrow> u8)"
  proof (rule injI)
    fix x y :: char
    assume "of_char x = (of_char y :: u8)"
    then have "unat (of_nat (of_char x) :: u8) = unat (of_nat (of_char y) :: u8)"
      by (simp add: of_nat_of_char)
    then have "(of_char x :: nat) mod 256 = of_char y mod 256" by (simp add: unat_of_nat)
    then show "x = y" by (simp add: of_char_mod_256)
  qed
  then show ?thesis by (simp add: as_bytes_def inj_map_eq_map)
qed

lemma gen_range_bounds: "mn < mx \<Longrightarrow> mn \<le> fst (gen_range mn mx s) \<and> fst (gen_range mn mx s) < mx"
  by (simp add: gen_range_def split: prod.split)
    (metis add.commute add_diff_inverse_nat less_diff_conv mod_less_divisor not_less_iff_gr_or_eq
      order.asym zero_less_diff)

lemma xor_push_bit_zero:
  assumes "0 < k" "x XOR push_bit k x = (0 :: u64)"
  shows "x = 0"
proof (rule bit_word_eqI)
  fix n
  have e: "bit x n = (k \<le> n \<and> bit x (n - k))" if "n < 64" for n
  proof -
    have "bit (x XOR push_bit k x) n = False" by (simp only: assms(2) bit_0_eq bot_apply bot_bool_def)
    then show ?thesis using that by (auto simp add: bit_xor_iff bit_push_bit_iff)
  qed
  show "n < LENGTH(64) \<Longrightarrow> bit x n = bit (0 :: u64) n"
  proof (induction n rule: less_induct)
    case (less n)
    then show ?case using e [of n] assms(1) by simp
  qed
qed

lemma xor_drop_bit_zero:
  assumes "0 < k" "x XOR drop_bit k x = (0 :: u64)"
  shows "x = 0"
proof (rule bit_word_eqI)
  fix n
  have e: "bit x n = bit x (k + n)" for n
  proof -
    have "bit (x XOR drop_bit k x) n = False" by (simp only: assms(2) bit_0_eq bot_apply bot_bool_def)
    then show ?thesis by (auto simp add: bit_xor_iff bit_drop_bit_eq)
  qed
  have "m \<le> 64 \<Longrightarrow> \<not> bit x (64 - m)" for m
  proof (induction m rule: less_induct)
    case (less m)
    show ?case
    proof (cases "m \<le> k")
      case True
      then have "64 \<le> k + (64 - m)" using less.prems by simp
      then show ?thesis using e [of "64 - m"] bit_imp_le_length [of x "k + (64 - m)"] by auto
    next
      case False
      then have "k + (64 - m) = 64 - (m - k)" "m - k < m" using assms(1) less.prems by auto
      then show ?thesis using less.IH [of "m - k"] less.prems e [of "64 - m"] by simp
    qed
  qed
  from this [of "64 - n"] show "n < LENGTH(64) \<Longrightarrow> bit x n = bit (0 :: u64) n" by simp
qed

lemma fastrand_step_nonzero:
  assumes "s \<noteq> 0"
  shows "fastrand_step s \<noteq> 0"
proof -
  define s1 where "s1 = s XOR push_bit 13 s"
  define s2 where "s2 = s1 XOR drop_bit 7 s1"
  have "s1 \<noteq> 0" unfolding s1_def using xor_push_bit_zero [of 13 s, OF _] assms by (metis zero_less_numeral)
  then have "s2 \<noteq> 0" unfolding s2_def using xor_drop_bit_zero [of 7 s1] by (metis zero_less_numeral)
  then have "s2 XOR push_bit 17 s2 \<noteq> 0" using xor_push_bit_zero [of 17 s2] by (metis zero_less_numeral)
  then show ?thesis unfolding fastrand_step_def Let_def s1_def s2_def .
qed

lemma length_fill_bytes [simp]: "length (fst (fill_bytes n s)) = n"
proof (induction n s rule: fill_bytes.induct)
  case (1 n s)
  show ?case
  proof (cases "n = 0")
    case False
    obtain r s1 where r: "next_u32 s = (r, s1)" by force
    have "length (fst (fill_bytes (n - min 4 n) s1)) = n - min 4 n"
      using 1 [OF False r [symmetric] refl] by simp
    then show ?thesis using False r
      by (subst fill_bytes.simps) (auto simp: Let_def split: prod.split)
  qed (simp add: fill_bytes.simps)
qed

lemma parse_mac_parts_length:
  "parse_mac_parts hexd cur out parts = Some m \<Longrightarrow> length m = length out"
  by (induction hexd cur out parts rule: parse_mac_parts.induct)
    (auto split: if_splits option.splits)

lemma parse_mac_key_length: "parse_mac_key hexd s = Some m \<Longrightarrow> length m = 6"
  using parse_mac_parts_length by (fastforce simp: parse_mac_key_def)

lemma client_id_chars_safe:
  "client_id_chars i s \<Longrightarrow> c \<in> set s \<Longrightarrow> is_hex_digit c \<or> c = CHR ''-''"
  by (induction i s rule: client_id_chars.induct) (auto split: if_splits)

lemma str_split_append:
  "c \<notin> set p \<Longrightarrow> str_split c (p @ c # s) = p # str_split c s"
  by (induction p) auto

lemma str_split_single: "c \<notin> set p \<Longrightarrow> str_split c p = [p]"
  by (induction p) auto

lemma str_split_join:
  "ps \<noteq> [] \<Longrightarrow> \<forall>p \<in> set ps. CHR '':'' \<notin> set p \<Longrightarrow> str_split CHR '':'' (join_colon ps) = ps"
  by (induction ps rule: join_colon.induct) (auto simp: str_split_append str_split_single)

lemma hex_nibble_no_colon: "hex_nibble n \<noteq> CHR '':''"
proof -
  have "hex_nibble n \<in> set ''0123456789abcdef''"
    unfolding hex_nibble_def by (rule nth_mem) simp
  then show ?thesis by auto
qed

lemma parse_mac_parts_hex:
  assumes "\<And>b. hexd (hex_byte b) = Some [b]"
  shows "length out = 6 \<Longrightarrow> cur + length bs = 6 \<Longrightarrow>
    parse_mac_parts hexd cur out (map hex_byte bs) = Some (take cur out @ bs)"
proof (induction bs arbitrary: cur out)
  case (Cons b bs)
  have "take (Suc cur) (out[cur := b]) = take cur out @ [b]"
    using Cons.prems by (simp add: take_Suc_conv_app_nth)
  then show ?case using Cons.prems Cons.IH [of "out[cur := b]" "cur + 1"] assms by simp
qed simp

lemma parse_mac_to_string:
  assumes "\<And>b. hexd (hex_byte b) = Some [b]" "length m = 6"
  shows "parse_mac_key hexd (mac_to_string m) = Some m"
proof -
  have "str_split CHR '':'' (mac_to_string m) = map hex_byte m"
    unfolding mac_to_string_def using assms(2) hex_nibble_no_colon
    by (intro str_split_join) (auto simp: hex_byte_def eq_commute [of "CHR '':''"])
  then show ?thesis using parse_mac_parts_hex [OF assms(1), of "replicate 6 0" 0 m] assms(2)
    by (simp add: parse_mac_key_def)
qed

end
