(* ===== verification/Crypto.thy ===== *)
theory Crypto
  imports Utils
begin

text \<open>
  Model of \<open>src/src/crypto.rs\<close>: padding policy, strength floor, session tokens, key and
  nonce derivation and the unified inner AEAD. The primitives of the crates \<open>sha2\<close>, \<open>hmac\<close>,
  \<open>hex\<close>, \<open>ring\<close> and \<open>chacha20poly1305\<close> are the fields of the record \<open>crypto_lib\<close>, an argument
  of every definition that calls them; what the code relies on is the predicate
  \<open>crypto_lib_ok\<close>: output lengths and that opening undoes sealing under the same key, nonce
  and associated data.
\<close>

subsection \<open>Constants and the library record\<close>

definition ENC_ALGO_NONE :: int where "ENC_ALGO_NONE = 0"
definition ENC_ALGO_GCM :: int where "ENC_ALGO_GCM = 2"
definition ENC_ALGO_GCM128 :: int where "ENC_ALGO_GCM128 = 4"
definition ENC_ALGO_CHACHA20 :: int where "ENC_ALGO_CHACHA20 = 5"
definition ENC_ALGO_XCHACHA20 :: int where "ENC_ALGO_XCHACHA20 = 6"
definition GCM_TAG_SIZE :: nat where "GCM_TAG_SIZE = 16"
definition ENC_SALT_SIZE :: nat where "ENC_SALT_SIZE = 8"

lemmas enc_consts = ENC_ALGO_NONE_def ENC_ALGO_GCM_def ENC_ALGO_GCM128_def ENC_ALGO_CHACHA20_def
  ENC_ALGO_XCHACHA20_def GCM_TAG_SIZE_def ENC_SALT_SIZE_def

datatype aead_alg = AES_256_GCM | AES_128_GCM | ChaCha20Poly1305 | XChaCha20Poly1305

record crypto_lib =
  lib_sha256 :: "bytes \<Rightarrow> bytes"
  lib_hmac :: "bytes \<Rightarrow> bytes \<Rightarrow> bytes"
  lib_hex_encode :: "bytes \<Rightarrow> string"
  lib_hex_decode :: "string \<Rightarrow> bytes option"
  lib_seal :: "aead_alg \<Rightarrow> bytes \<Rightarrow> bytes \<Rightarrow> bytes \<Rightarrow> bytes \<Rightarrow> bytes \<times> bytes"
  lib_open :: "aead_alg \<Rightarrow> bytes \<Rightarrow> bytes \<Rightarrow> bytes \<Rightarrow> bytes \<Rightarrow> bytes \<Rightarrow> bytes option"

definition crypto_lib_ok :: "crypto_lib \<Rightarrow> bool" where
  "crypto_lib_ok L \<longleftrightarrow>
     (\<forall>m. length (lib_sha256 L m) = 32)
     \<and> (\<forall>k m. length (lib_hmac L k m) = 32)
     \<and> (\<forall>b. lib_hex_decode L (lib_hex_encode L b) = Some b)
     \<and> (\<forall>b. length (lib_hex_encode L b) = 2 * length b)
     \<and> (\<forall>a k n d p. length (fst (lib_seal L a k n d p)) = length p
                   \<and> length (snd (lib_seal L a k n d p)) = 16
                   \<and> lib_open L a k n d (snd (lib_seal L a k n d p)) (fst (lib_seal L a k n d p)) = Some p)
     \<and> (\<forall>a k n d t c p. lib_open L a k n d t c = Some p \<longrightarrow> length p = length c)"

subsection \<open>Comparison and tokens\<close>

definition constant_time_eq :: "bytes \<Rightarrow> bytes \<Rightarrow> bool" where
  "constant_time_eq a b =
     (if length a \<noteq> length b then False
      else foldl (\<lambda>diff (x, y). diff OR (x XOR y)) 0 (zip a b) = 0)"

definition hash_psk :: "crypto_lib \<Rightarrow> string \<Rightarrow> string" where
  "hash_psk L psk = lib_hex_encode L (lib_sha256 L (as_bytes psk))"

definition psk_key :: "crypto_lib \<Rightarrow> string \<Rightarrow> bytes" where
  "psk_key L psk = lib_sha256 L (as_bytes psk)"

definition session_token_mac :: "crypto_lib \<Rightarrow> string \<Rightarrow> string \<Rightarrow> bytes" where
  "session_token_mac L psk session_id =
     lib_hmac L (psk_key L psk) (as_bytes ''session-token-v1'' @ as_bytes session_id)"

definition compute_session_token :: "crypto_lib \<Rightarrow> string \<Rightarrow> string \<Rightarrow> string" where
  "compute_session_token L psk session_id = lib_hex_encode L (session_token_mac L psk session_id)"

definition verify_session_token :: "crypto_lib \<Rightarrow> string \<Rightarrow> string \<Rightarrow> string \<Rightarrow> bool" where
  "verify_session_token L psk session_id want =
     (case lib_hex_decode L want of
        Some b \<Rightarrow> if length b = 32 then session_token_mac L psk session_id = b else False
      | None \<Rightarrow> False)"

definition verify_random_session_token :: "string \<Rightarrow> string \<Rightarrow> bool" where
  "verify_random_session_token stored want \<longleftrightarrow>
     length stored = 64 \<and> length want = 64 \<and> constant_time_eq (as_bytes stored) (as_bytes want)"

text \<open>\<open>getrandom\<close> yields 32 bytes or fails.\<close>

definition new_session_token :: "crypto_lib \<Rightarrow> bytes option \<Rightarrow> string option" where
  "new_session_token L entropy = map_option (lib_hex_encode L) entropy"

subsection \<open>Padding policy\<close>

definition PAD_OFF :: u8 where "PAD_OFF = 0"
definition PAD_BUCKET :: u8 where "PAD_BUCKET = 1"

definition PAD_BUCKETS :: "nat list" where
  "PAD_BUCKETS = [128, 256, 384, 512, 768, 1024, 1280, 1600, 2048, 4096]"

definition FALLBACK_TCP_MSS :: nat where "FALLBACK_TCP_MSS = 1440"
definition TLS_RECORD_OVERHEAD_RESERVE :: nat where "TLS_RECORD_OVERHEAD_RESERVE = 32"

definition mss_padding_record_limit :: "nat \<Rightarrow> nat" where
  "mss_padding_record_limit mss =
     (let effective = (if mss < 256 then FALLBACK_TCP_MSS else mss)
      in max (effective - TLS_RECORD_OVERHEAD_RESERVE) 128)"

definition set_pad_mode :: "string \<Rightarrow> string \<times> u8" where
  "set_pad_mode mode = (if mode = ''off'' then (mode, PAD_OFF) else (''bucket'', PAD_BUCKET))"

definition pad_mode_name :: "u8 \<Rightarrow> string" where
  "pad_mode_name code = (if code = PAD_OFF then ''off'' else ''bucket'')"

fun pad_bucket_loop :: "nat \<Rightarrow> nat \<Rightarrow> nat list \<Rightarrow> nat option" where
  "pad_bucket_loop record_len record_limit [] = None"
| "pad_bucket_loop record_len record_limit (b # bs) =
     (let target = (if record_limit > 0 then min b record_limit else b)
      in if record_len < target then Some (target - record_len)
         else if record_limit > 0 \<and> b \<ge> record_limit then Some 0
         else pad_bucket_loop record_len record_limit bs)"

definition pad_bucket_with_limit :: "nat \<Rightarrow> nat \<Rightarrow> u64 \<Rightarrow> nat \<times> u64" where
  "pad_bucket_with_limit wire_len record_limit rng =
     (let record_len = 10 + wire_len
      in if record_limit > 0 \<and> record_len \<ge> record_limit then (0, rng)
         else case pad_bucket_loop record_len record_limit PAD_BUCKETS of
           Some p \<Rightarrow> (p, rng)
         | None \<Rightarrow>
             if record_limit > 0 then (0, rng)
             else let (r, rng') = gen_range 0 100 rng in (1 + r, rng'))"

definition pad_bucket :: "nat \<Rightarrow> u64 \<Rightarrow> nat \<times> u64" where
  "pad_bucket wire_len rng = pad_bucket_with_limit wire_len 0 rng"

definition pad_length_with_limit :: "u8 \<Rightarrow> nat \<Rightarrow> nat \<Rightarrow> u64 \<Rightarrow> nat \<times> u64" where
  "pad_length_with_limit code wire_len record_limit rng =
     (if code = PAD_OFF then (0, rng) else pad_bucket_with_limit wire_len record_limit rng)"

definition pad_length :: "u8 \<Rightarrow> nat \<Rightarrow> u64 \<Rightarrow> nat \<times> u64" where
  "pad_length code wire_len rng = pad_length_with_limit code wire_len 0 rng"

definition pad_mode_valid :: "string \<Rightarrow> bool" where
  "pad_mode_valid mode \<longleftrightarrow> mode = [] \<or> mode = ''off'' \<or> mode = ''bucket''"

subsection \<open>Algorithm selection\<close>

text \<open>
  \<open>str::trim\<close> and \<open>to_ascii_lowercase\<close>, on the ASCII white space that a configuration
  value can carry.
\<close>

definition ascii_ws :: "char \<Rightarrow> bool" where
  "ascii_ws c \<longleftrightarrow> (let n = (of_char c :: nat) in n = 32 \<or> (9 \<le> n \<and> n \<le> 13))"

definition str_trim :: "string \<Rightarrow> string" where
  "str_trim s = rev (dropWhile ascii_ws (rev (dropWhile ascii_ws s)))"

definition ascii_lower :: "char \<Rightarrow> char" where
  "ascii_lower c = (let n = (of_char c :: nat) in if 65 \<le> n \<and> n \<le> 90 then char_of (n + 32) else c)"

definition normalized :: "string \<Rightarrow> string" where
  "normalized s = map ascii_lower (str_trim s)"

definition min_enc_rank :: "string \<Rightarrow> int" where
  "min_enc_rank mode = (if normalized mode = ''gcm'' then 2 else 0)"

definition enc_algo_supported :: "int \<Rightarrow> int \<Rightarrow> bool" where
  "enc_algo_supported declared want \<longleftrightarrow> declared = want"

definition enc_algo_from_config :: "string \<Rightarrow> int" where
  "enc_algo_from_config mode =
     (let m = normalized mode
      in if m = ''gcm128'' then ENC_ALGO_GCM128
         else if m = ''chacha20'' then ENC_ALGO_CHACHA20
         else if m = ''xchacha20'' then ENC_ALGO_XCHACHA20
         else ENC_ALGO_GCM)"

definition enc_algo_label :: "int \<Rightarrow> string" where
  "enc_algo_label algo =
     (if algo = ENC_ALGO_GCM128 then ''gcm128''
      else if algo = ENC_ALGO_CHACHA20 then ''chacha20''
      else if algo = ENC_ALGO_XCHACHA20 then ''xchacha20''
      else if algo = ENC_ALGO_GCM then ''gcm256'' else ''none'')"

definition is_gcm_algo :: "int \<Rightarrow> bool" where
  "is_gcm_algo algo \<longleftrightarrow> algo = ENC_ALGO_GCM \<or> algo = ENC_ALGO_GCM128"

definition is_inner_aead_algo :: "int \<Rightarrow> bool" where
  "is_inner_aead_algo algo \<longleftrightarrow>
     is_gcm_algo algo \<or> algo = ENC_ALGO_CHACHA20 \<or> algo = ENC_ALGO_XCHACHA20"

subsection \<open>The inner cipher\<close>

text \<open>
  The constructors of \<open>InnerCipher\<close>; a keyed AEAD object is its key.
\<close>

datatype inner_cipher =
    Gcm256 bytes bytes
  | Gcm128 bytes bytes
  | ChaCha20 bytes bytes
  | XChaCha20 bytes bytes

datatype cipher_error =
    Bad_Salt_Length nat
  | Unknown_Domain string
  | Unsupported_Algo int
  | Invalid_Key

definition derive_key_labeled :: "crypto_lib \<Rightarrow> string \<Rightarrow> string \<Rightarrow> bytes" where
  "derive_key_labeled L psk label = lib_sha256 L (as_bytes (psk @ label))"

definition key_label :: "int \<Rightarrow> string option" where
  "key_label algo =
     (if algo = ENC_ALGO_GCM then Some ''_enc_key''
      else if algo = ENC_ALGO_GCM128 then Some ''_enc_key128''
      else if algo = ENC_ALGO_CHACHA20 then Some ''_enc_chacha20''
      else if algo = ENC_ALGO_XCHACHA20 then Some ''_enc_xchacha20''
      else None)"

definition domain_for_algo ::
  "crypto_lib \<Rightarrow> string \<Rightarrow> bytes \<Rightarrow> string \<Rightarrow> int \<Rightarrow> cipher_error + inner_cipher" where
  "domain_for_algo L psk salt domain algo =
     (if length salt \<noteq> ENC_SALT_SIZE then Inl (Bad_Salt_Length (length salt))
      else if domain \<noteq> ''data'' \<and> domain \<noteq> ''fec'' then Inl (Unknown_Domain domain)
      else case key_label algo of
        None \<Rightarrow> Inl (Unsupported_Algo algo)
      | Some base \<Rightarrow>
          let label = (if domain = ''fec'' then base @ ''_fec'' else base);
              key = derive_key_labeled L psk label
          in if algo = ENC_ALGO_GCM then
               (if length key = 32 then Inr (Gcm256 key salt) else Inl Invalid_Key)
             else if algo = ENC_ALGO_GCM128 then
               (if length (take 16 key) = 16 then Inr (Gcm128 (take 16 key) salt) else Inl Invalid_Key)
             else if algo = ENC_ALGO_CHACHA20 then
               (if length key = 32 then Inr (ChaCha20 key salt) else Inl Invalid_Key)
             else
               (if length key = 32
                then Inr (XChaCha20 key
                       (take 20 (lib_sha256 L (as_bytes ''tlsvpn-xchacha20-nonce-v1'' @ salt))))
                else Inl Invalid_Key))"

definition for_algo :: "crypto_lib \<Rightarrow> string \<Rightarrow> bytes \<Rightarrow> int \<Rightarrow> cipher_error + inner_cipher" where
  "for_algo L psk salt algo = domain_for_algo L psk salt ''data'' algo"

definition tag_len :: "inner_cipher \<Rightarrow> nat" where
  "tag_len ic = GCM_TAG_SIZE"

definition standard_nonce :: "bytes \<Rightarrow> u32 \<Rightarrow> bytes" where
  "standard_nonce salt seq = be32 seq @ salt"

definition xchacha_nonce :: "bytes \<Rightarrow> u32 \<Rightarrow> bytes" where
  "xchacha_nonce prefix seq = prefix @ be32 seq"

definition gcm_aad :: "u32 \<Rightarrow> u32 \<Rightarrow> bytes" where
  "gcm_aad wire_len seq = be32 wire_len @ be32 seq"

fun cipher_seal :: "crypto_lib \<Rightarrow> inner_cipher \<Rightarrow> u32 \<Rightarrow> bytes \<Rightarrow> bytes \<Rightarrow> bytes \<times> bytes" where
  "cipher_seal L (Gcm256 k salt) seq aad pt = lib_seal L AES_256_GCM k (standard_nonce salt seq) aad pt"
| "cipher_seal L (Gcm128 k salt) seq aad pt = lib_seal L AES_128_GCM k (standard_nonce salt seq) aad pt"
| "cipher_seal L (ChaCha20 k salt) seq aad pt =
     lib_seal L ChaCha20Poly1305 k (standard_nonce salt seq) aad pt"
| "cipher_seal L (XChaCha20 k prefix) seq aad pt =
     lib_seal L XChaCha20Poly1305 k (xchacha_nonce prefix seq) aad pt"

fun cipher_open :: "crypto_lib \<Rightarrow> inner_cipher \<Rightarrow> u32 \<Rightarrow> bytes \<Rightarrow> bytes \<Rightarrow> bytes \<Rightarrow> bytes option" where
  "cipher_open L (Gcm256 k salt) seq aad tag ct =
     lib_open L AES_256_GCM k (standard_nonce salt seq) aad tag ct"
| "cipher_open L (Gcm128 k salt) seq aad tag ct =
     lib_open L AES_128_GCM k (standard_nonce salt seq) aad tag ct"
| "cipher_open L (ChaCha20 k salt) seq aad tag ct =
     lib_open L ChaCha20Poly1305 k (standard_nonce salt seq) aad tag ct"
| "cipher_open L (XChaCha20 k prefix) seq aad tag ct =
     lib_open L XChaCha20Poly1305 k (xchacha_nonce prefix seq) aad tag ct"

text \<open>
  \<open>seal_in_place\<close> overwrites the first \<open>pt_len\<close> bytes of the region with the ciphertext and
  the next sixteen with the tag. \<open>None\<close> is the panic of a region that is too short.
\<close>

definition seal_in_place ::
  "crypto_lib \<Rightarrow> inner_cipher \<Rightarrow> bytes \<Rightarrow> nat \<Rightarrow> u32 \<Rightarrow> u32 \<Rightarrow> bytes option" where
  "seal_in_place L ic region pt_len seq wire_len =
     (if pt_len = 0 then Some region
      else if length region < pt_len + GCM_TAG_SIZE then None
      else let aad = gcm_aad wire_len seq;
               (ct, tag) = cipher_seal L ic seq aad (take pt_len region)
           in Some (ct @ tag @ drop (pt_len + GCM_TAG_SIZE) region))"

text \<open>\<open>open_in_place\<close>: \<open>None\<close> is the error result; the success value is the plaintext slice.\<close>

definition open_in_place ::
  "crypto_lib \<Rightarrow> inner_cipher \<Rightarrow> bytes \<Rightarrow> u32 \<Rightarrow> u32 \<Rightarrow> bytes option" where
  "open_in_place L ic data seq wire_len =
     (if data = [] then Some data
      else if length data < GCM_TAG_SIZE then None
      else let aad = gcm_aad wire_len seq;
               n = length data - GCM_TAG_SIZE
           in cipher_open L ic seq aad (drop n data) (take n data))"

definition open_to ::
  "crypto_lib \<Rightarrow> inner_cipher \<Rightarrow> nat \<Rightarrow> bytes \<Rightarrow> u32 \<Rightarrow> bytes \<Rightarrow> bytes option" where
  "open_to L ic dst_len src seq aad =
     (if length src < GCM_TAG_SIZE then None
      else let n = length src - GCM_TAG_SIZE
           in if dst_len < n then None
              else cipher_open L ic seq aad (drop n src) (take n src))"

subsection \<open>Lemmas\<close>

lemma fold_or_zero:
  "foldl (\<lambda>diff (x, y). diff OR (x XOR y)) d ps = (0 :: u8) \<longleftrightarrow>
     d = 0 \<and> (\<forall>(x, y) \<in> set ps. x = y)"
  by (induction ps arbitrary: d) (auto simp: or_eq_0_iff)

lemma constant_time_eq_iff [simp]: "constant_time_eq a b \<longleftrightarrow> a = b"
  by (auto simp: constant_time_eq_def fold_or_zero set_zip list_eq_iff_nth_eq)

lemma crypto_lib_okD:
  assumes "crypto_lib_ok L"
  shows "length (lib_sha256 L m) = 32" "length (lib_hmac L k m) = 32"
    "lib_hex_decode L (lib_hex_encode L b) = Some b" "length (lib_hex_encode L b) = 2 * length b"
    "length (fst (lib_seal L a k n d p)) = length p" "length (snd (lib_seal L a k n d p)) = 16"
    "lib_open L a k n d (snd (lib_seal L a k n d p)) (fst (lib_seal L a k n d p)) = Some p"
    "lib_open L a k n d t c = Some p \<Longrightarrow> length p = length c"
  using assms unfolding crypto_lib_ok_def by blast+

lemma cipher_laws:
  assumes "crypto_lib_ok L"
  shows "length (fst (cipher_seal L ic seq aad p)) = length p"
    "length (snd (cipher_seal L ic seq aad p)) = 16"
    "cipher_open L ic seq aad (snd (cipher_seal L ic seq aad p)) (fst (cipher_seal L ic seq aad p)) = Some p"
    "cipher_open L ic seq aad t c = Some p \<Longrightarrow> length p = length c"
  using crypto_lib_okD [OF assms] by (cases ic; simp)+

lemma seal_in_place_eq:
  assumes "length pt \<noteq> 0" "length tg = 16"
  shows "seal_in_place L ic (pt @ tg) (length pt) seq w =
    Some (fst (cipher_seal L ic seq (gcm_aad w seq) pt) @ snd (cipher_seal L ic seq (gcm_aad w seq) pt))"
  using assms by (simp add: seal_in_place_def enc_consts Let_def split: prod.split)

lemma open_sealed:
  assumes "crypto_lib_ok L"
  shows "open_in_place L ic (fst (cipher_seal L ic seq (gcm_aad w seq) pt)
           @ snd (cipher_seal L ic seq (gcm_aad w seq) pt)) seq w = Some pt"
  using cipher_laws(1-3) [OF assms, of ic seq "gcm_aad w seq" pt]
  by (auto simp: open_in_place_def enc_consts Let_def)

lemma open_in_place_length:
  assumes "crypto_lib_ok L" "open_in_place L ic data seq w = Some p"
  shows "length p = length data - 16"
  using assms cipher_laws(4) [OF assms(1)]
  by (fastforce simp: open_in_place_def enc_consts Let_def split: if_splits)

lemma pad_bucket_loop_bound:
  "pad_bucket_loop r l bs = Some p \<Longrightarrow> 0 < l \<Longrightarrow> r < l \<Longrightarrow> r + p \<le> l"
  by (induction r l bs rule: pad_bucket_loop.induct) (auto simp: Let_def split: if_splits)

lemma pad_bucket_loop_max:
  "pad_bucket_loop r l bs = Some p \<Longrightarrow> \<forall>b \<in> set bs. b \<le> m \<Longrightarrow> p \<le> m"
  by (induction r l bs rule: pad_bucket_loop.induct) (auto simp: Let_def split: if_splits)

lemma pad_bucket_with_limit_bound:
  "0 < l \<Longrightarrow> 10 + w < l \<Longrightarrow> 10 + w + fst (pad_bucket_with_limit w l rng) \<le> l"
  using pad_bucket_loop_bound [of "10 + w" l PAD_BUCKETS]
  by (auto simp: pad_bucket_with_limit_def Let_def split: option.split)

lemma pad_bucket_with_limit_none:
  "0 < l \<Longrightarrow> l \<le> 10 + w \<Longrightarrow> pad_bucket_with_limit w l rng = (0, rng)"
  by (simp add: pad_bucket_with_limit_def Let_def)

lemma pad_bucket_with_limit_max: "fst (pad_bucket_with_limit w l rng) \<le> 4096"
proof -
  have "pad_bucket_loop (10 + w) l PAD_BUCKETS = Some p \<Longrightarrow> p \<le> 4096" for p
    by (erule pad_bucket_loop_max) (simp add: PAD_BUCKETS_def)
  moreover have "fst (gen_range 0 100 rng) < 100" using gen_range_bounds [of 0 100] by simp
  ultimately show ?thesis
    by (auto simp: pad_bucket_with_limit_def Let_def split: option.split prod.split)
qed

lemma pad_length_max: "fst (pad_length_with_limit code w l rng) \<le> 4096"
  using pad_bucket_with_limit_max by (simp add: pad_length_with_limit_def)

lemma pad_bucket_loop_find:
  "l = 0 \<or> r < l \<Longrightarrow>
   pad_bucket_loop r l bs = map_option (\<lambda>b. (if 0 < l then min b l else b) - r) (find (\<lambda>b. r < b) bs)"
  by (induction r l bs rule: pad_bucket_loop.induct) (auto simp: Let_def)

lemma be32_inject [simp]: "be32 a = be32 b \<longleftrightarrow> a = b"
  by (metis rd32_be32)

text \<open>
  A concrete instance of the library record, with the laws the code relies on: the cipher
  leaves the text unchanged and appends sixteen zero bytes.
\<close>

fun sample_unhex :: "string \<Rightarrow> bytes option" where
  "sample_unhex [] = Some []"
| "sample_unhex [c] = None"
| "sample_unhex (c # d # cs) = map_option ((#) (of_char c)) (sample_unhex cs)"

definition sample_lib :: crypto_lib where
  "sample_lib = \<lparr>lib_sha256 = (\<lambda>m. replicate 32 0), lib_hmac = (\<lambda>k m. replicate 32 0),
     lib_hex_encode = (\<lambda>b. concat (map (\<lambda>x. [char_of (unat x), CHR ''0'']) b)),
     lib_hex_decode = sample_unhex,
     lib_seal = (\<lambda>a k n d p. (p, replicate 16 0)),
     lib_open = (\<lambda>a k n d t c. if t = replicate 16 0 then Some c else None)\<rparr>"

lemma of_char_char_of_byte: "(of_char (char_of (unat (x :: u8))) :: u8) = x"
proof -
  have "unat x < 256" using unsigned_less [of x] by simp
  then have "(of_char (char_of (unat x)) :: nat) = unat x" by simp
  then have "(of_nat (of_char (char_of (unat x))) :: u8) = x" by (simp only: of_nat_unat ucast_id)
  then show ?thesis by (simp only: of_nat_of_char)
qed

lemma sample_unhex_encode:
  "sample_unhex (concat (map (\<lambda>x. [char_of (unat x), CHR ''0'']) b)) = Some b"
  by (induction b) (simp_all add: of_char_char_of_byte)

lemma sample_lib_ok: "crypto_lib_ok sample_lib"
proof -
  have "length (concat (map (\<lambda>x. [char_of (unat x), CHR ''0'']) b)) = 2 * length b" for b :: bytes
    by (induction b) auto
  then show ?thesis
    unfolding crypto_lib_ok_def sample_lib_def
    by (simp add: sample_unhex_encode del: length_concat)
qed

subsection \<open>Properties\<close>

text \<open>
  C12. Inner AEAD: with the documented laws of the AEAD crates, \<open>domain_for_algo\<close> builds a
  cipher exactly for an eight-byte salt, one of the two domains and one of the four
  algorithms; and for every cipher, what \<open>seal_in_place\<close> writes over a plaintext and its tag
  space is sixteen bytes longer than the plaintext and is opened again, by \<open>open_in_place\<close>
  under the same sequence number and wire length, to that plaintext.
\<close>
theorem inner_aead_roundtrip:
  assumes "crypto_lib_ok L" "pt \<noteq> []" "length tag_space = 16"
  shows "((\<exists>c. domain_for_algo L psk salt domain algo = Inr c) \<longleftrightarrow>
           length salt = 8 \<and> (domain = ''data'' \<or> domain = ''fec'') \<and> is_inner_aead_algo algo)
    \<and> (\<exists>region. seal_in_place L ic (pt @ tag_space) (length pt) seq w = Some region
          \<and> length region = length pt + 16
          \<and> open_in_place L ic region seq w = Some pt)"
proof -
  have "(\<exists>c. domain_for_algo L psk salt domain algo = Inr c) \<longleftrightarrow>
    length salt = 8 \<and> (domain = ''data'' \<or> domain = ''fec'') \<and> is_inner_aead_algo algo"
    using crypto_lib_okD(1) [OF assms(1)]
    by (auto simp: domain_for_algo_def key_label_def derive_key_labeled_def is_inner_aead_algo_def
        is_gcm_algo_def enc_consts Let_def)
  moreover have "seal_in_place L ic (pt @ tag_space) (length pt) seq w =
    Some (fst (cipher_seal L ic seq (gcm_aad w seq) pt) @ snd (cipher_seal L ic seq (gcm_aad w seq) pt))"
    using assms(2,3) by (intro seal_in_place_eq) auto
  ultimately show ?thesis
    using cipher_laws(1,2) [OF assms(1)] open_sealed [OF assms(1)] by simp
qed

theorem inner_aead_roundtrip_witness:
  "\<exists>region. seal_in_place sample_lib (Gcm256 [] []) ([1, 2] @ replicate 16 0) (length [1 :: u8, 2]) 7 18 = Some region
     \<and> length region = length [1 :: u8, 2] + 16
     \<and> open_in_place sample_lib (Gcm256 [] []) region 7 18 = Some [1, 2]"
  using inner_aead_roundtrip [OF sample_lib_ok, of "[1, 2]" "replicate 16 0" "[]" "[]" "[]" 0 "Gcm256 [] []" 7 18]
  by simp


text \<open>
  C28. Size of a padded record. With padding off, or with a record that already reaches the
  limit, nothing is added. Otherwise the ten-byte header, the wire length and the padding
  together are exactly the smallest static bucket above the record, capped by the limit; a
  record beyond the last bucket gets 1 to 100 bytes without a limit and none with one.
\<close>
theorem padded_record_size:
  "let total = 10 + w + fst (pad_length_with_limit code w l rng)
   in if code = PAD_OFF \<or> (0 < l \<and> l \<le> 10 + w) then total = 10 + w
      else case find (\<lambda>b. 10 + w < b) PAD_BUCKETS of
        Some b \<Rightarrow> total = (if l = 0 then b else min b l)
      | None \<Rightarrow> if l = 0 then 10 + w < total \<and> total \<le> 10 + w + 100 else total = 10 + w"
proof (cases "code = PAD_OFF \<or> (0 < l \<and> l \<le> 10 + w)")
  case True
  then show ?thesis by (auto simp: pad_length_with_limit_def pad_bucket_with_limit_def Let_def)
next
  case False
  then have l: "l = 0 \<or> 10 + w < l" and c: "code \<noteq> PAD_OFF" by auto
  have s: "find (\<lambda>b. 10 + w < b) PAD_BUCKETS = Some b \<Longrightarrow> 10 + w < b" for b
    by (auto simp: find_Some_iff)
  have g: "fst (gen_range 0 100 rng) < 100" using gen_range_bounds [of 0 100] by simp
  note lp = pad_bucket_loop_find [OF l, of PAD_BUCKETS]
  show ?thesis
  proof (cases "find (\<lambda>b. 10 + w < b) PAD_BUCKETS")
    case None
    then have "pad_bucket_loop (10 + w) l PAD_BUCKETS = None" using lp by simp
    then show ?thesis using False None g
      by (auto simp: pad_length_with_limit_def pad_bucket_with_limit_def Let_def split: prod.split)
  next
    case (Some b)
    then have "pad_bucket_loop (10 + w) l PAD_BUCKETS = Some ((if 0 < l then min b l else b) - (10 + w))"
      using lp by simp
    then show ?thesis using False l Some s [OF Some]
      by (auto simp: pad_length_with_limit_def pad_bucket_with_limit_def Let_def)
  qed
qed

text \<open>
  C31. Session tokens: the token computed for a session verifies; a token verifies only when
  its hex decoding is the MAC of that session; and the random-token check accepts exactly the
  stored 64-character token.
\<close>
theorem session_token_exact:
  assumes "crypto_lib_ok L"
  shows "verify_session_token L psk sid (compute_session_token L psk sid)
    \<and> (verify_session_token L psk sid want \<longleftrightarrow> lib_hex_decode L want = Some (session_token_mac L psk sid))
    \<and> (verify_random_session_token stored want \<longleftrightarrow> stored = want \<and> length stored = 64)"
proof -
  have "length (session_token_mac L psk sid) = 32"
    using crypto_lib_okD(2) [OF assms] by (simp add: session_token_mac_def)
  then show ?thesis
    using crypto_lib_okD(3) [OF assms]
    by (auto simp: verify_session_token_def compute_session_token_def verify_random_session_token_def
        split: option.split)
qed

theorem session_token_exact_witness:
  "verify_session_token sample_lib ''k'' ''s'' (compute_session_token sample_lib ''k'' ''s'')"
  using session_token_exact [OF sample_lib_ok, of "''k''" "''s''" "[]" "[]"] by simp

end
