(* ===== verification/Frame.thy ===== *)
theory Frame
  imports Crypto
begin

text \<open>
  Model of \<open>src/src/frame.rs\<close>: framing with cover padding and inner encryption, the tail
  padding of a batch, the incremental \<open>FrameScanner\<close> and the frame batch record.
  The scanner's \<open>Vec\<close> is its contents and its capacity; \<open>reserve\<close> grows the capacity as the
  standard library does (doubling, at least what was asked for). The reader is the list of
  outcomes its next calls have. \<open>PADDING_CACHE\<close> is the argument \<open>cache\<close>, the thread's
  generator state the argument \<open>rng\<close>, \<open>PAD_MODE_CODE\<close> the argument \<open>code\<close>.
  \<open>None\<close> results of the encoders stand for a panic.
\<close>

subsection \<open>Framing\<close>

definition HEADER_SIZE :: nat where "HEADER_SIZE = 10"
definition MAX_DATA_LENGTH :: nat where "MAX_DATA_LENGTH = 65535 * 2"
definition HANDSHAKE_DATA_LENGTH :: nat where "HANDSHAKE_DATA_LENGTH = 16 * 1024"

definition PADDING_CACHE :: "u64 \<Rightarrow> bytes" where
  "PADDING_CACHE nanos = fst (fill_bytes (1024 * 1024) (fastrand_new nanos))"

text \<open>The random slice of the cache that covers a frame.\<close>

definition cover_bytes :: "bytes \<Rightarrow> nat \<Rightarrow> u64 \<Rightarrow> (bytes \<times> u64) option" where
  "cover_bytes cache pad_len rng =
     (let (offset, rng') = gen_range 0 (length cache - pad_len) rng
      in if offset + pad_len > length cache then None
         else Some (slice offset pad_len cache, rng'))"

definition append_padded_frame_with_limit ::
  "crypto_lib \<Rightarrow> u8 \<Rightarrow> bytes \<Rightarrow> bytes \<Rightarrow> u32 \<Rightarrow> bytes \<Rightarrow> inner_cipher option \<Rightarrow> nat \<Rightarrow> u64 \<Rightarrow> (bytes \<times> u64) option" where
  "append_padded_frame_with_limit L code cache buf seq data ic record_limit rng =
     (let data_len = length data;
          enc_tag = (case ic of
              Some c \<Rightarrow> if seq \<noteq> 0 \<and> data_len > 0 then tag_len c else 0
            | None \<Rightarrow> 0);
          (pad_len, rng1) = pad_length_with_limit code (data_len + enc_tag) record_limit rng;
          start_idx = length buf;
          wire_len = (of_nat (data_len + enc_tag) :: u32);
          buf1 = buf @ be32 wire_len @ be16 (of_nat pad_len) @ be32 seq @ data @ replicate enc_tag 0;
          payload_start = start_idx + 10;
          buf2 = (if data_len > 0 then
                    case ic of
                      Some c \<Rightarrow>
                        if seq \<noteq> 0 then
                          map_option
                            (\<lambda>r. take payload_start buf1 @ r @ drop (payload_start + data_len + enc_tag) buf1)
                            (seal_in_place L c (slice payload_start (data_len + enc_tag) buf1) data_len seq wire_len)
                        else Some buf1
                    | None \<Rightarrow> Some buf1
                  else Some buf1)
      in case buf2 of
           None \<Rightarrow> None
         | Some b \<Rightarrow>
             if pad_len > 0 then
               (case cover_bytes cache pad_len rng1 of
                  None \<Rightarrow> None
                | Some (cover, rng2) \<Rightarrow> Some (b @ cover, rng2))
             else Some (b, rng1))"

definition append_padded_frame ::
  "crypto_lib \<Rightarrow> u8 \<Rightarrow> bytes \<Rightarrow> bytes \<Rightarrow> u32 \<Rightarrow> bytes \<Rightarrow> inner_cipher option \<Rightarrow> u64 \<Rightarrow> (bytes \<times> u64) option" where
  "append_padded_frame L code cache buf seq data ic rng =
     append_padded_frame_with_limit L code cache buf seq data ic 0 rng"

definition write_stream_frame_with_limit ::
  "crypto_lib \<Rightarrow> u8 \<Rightarrow> bytes \<Rightarrow> bytes \<Rightarrow> bytes \<Rightarrow> nat \<Rightarrow> u64 \<Rightarrow> (bytes \<times> u64) option" where
  "write_stream_frame_with_limit L code cache buf frame record_limit rng =
     append_padded_frame_with_limit L code cache [] 0 frame None record_limit rng"

definition write_stream_frame ::
  "crypto_lib \<Rightarrow> u8 \<Rightarrow> bytes \<Rightarrow> bytes \<Rightarrow> bytes \<Rightarrow> u64 \<Rightarrow> (bytes \<times> u64) option" where
  "write_stream_frame L code cache buf frame rng =
     write_stream_frame_with_limit L code cache buf frame 0 rng"

definition append_unpadded_frame ::
  "crypto_lib \<Rightarrow> u8 \<Rightarrow> bytes \<Rightarrow> bytes \<Rightarrow> u32 \<Rightarrow> bytes \<Rightarrow> inner_cipher option \<Rightarrow> u64 \<Rightarrow> (nat \<times> bytes \<times> u64) option" where
  "append_unpadded_frame L code cache buf seq data ic rng =
     (let start = length buf
      in map_option (\<lambda>(b, r). (start, b, r))
           (append_padded_frame_with_limit L code cache buf seq data ic 1 rng))"

subsection \<open>Tail padding of a batch\<close>

definition STREAM_TLS_BATCH_SOFT_LIMIT :: nat where "STREAM_TLS_BATCH_SOFT_LIMIT = 12 * 1024"
definition MAX_TLS_PLAINTEXT_RECORD :: nat where "MAX_TLS_PLAINTEXT_RECORD = 16 * 1024"
definition STREAM_PAD_RATIO_PERCENT :: nat where "STREAM_PAD_RATIO_PERCENT = 10"
definition STREAM_PAD_ABSOLUTE_LIMIT :: nat where "STREAM_PAD_ABSOLUTE_LIMIT = 512"

lemmas frame_consts = HEADER_SIZE_def MAX_DATA_LENGTH_def HANDSHAKE_DATA_LENGTH_def
  STREAM_TLS_BATCH_SOFT_LIMIT_def MAX_TLS_PLAINTEXT_RECORD_def STREAM_PAD_RATIO_PERCENT_def
  STREAM_PAD_ABSOLUTE_LIMIT_def TLS_RECORD_OVERHEAD_RESERVE_def FALLBACK_TCP_MSS_def

definition stream_aligned_tls_plaintext_target :: "nat \<Rightarrow> nat \<Rightarrow> nat" where
  "stream_aligned_tls_plaintext_target n record_limit =
     (if n = 0 then 0
      else let mss0 = record_limit + TLS_RECORD_OVERHEAD_RESERVE;
               mss = (if mss0 < 256 then FALLBACK_TCP_MSS else mss0);
               segs = (n + TLS_RECORD_OVERHEAD_RESERVE + mss - 1) div mss;
               target = segs * mss - TLS_RECORD_OVERHEAD_RESERVE
           in if target < n \<or> target > MAX_TLS_PLAINTEXT_RECORD then n else target)"

definition stream_padding_budget :: "nat \<Rightarrow> nat" where
  "stream_padding_budget batch_len =
     (if batch_len = 0 then 0
      else min (batch_len * STREAM_PAD_RATIO_PERCENT div 100) STREAM_PAD_ABSOLUTE_LIMIT)"

definition write_u16_at :: "nat \<Rightarrow> u16 \<Rightarrow> bytes \<Rightarrow> bytes" where
  "write_u16_at i v buf = take i buf @ be16 v @ drop (i + 2) buf"

definition pad_stream_batch_tail ::
  "u8 \<Rightarrow> bytes \<Rightarrow> bytes \<Rightarrow> nat option \<Rightarrow> nat \<Rightarrow> u64 \<Rightarrow> (nat \<times> bytes \<times> u64) option" where
  "pad_stream_batch_tail code cache buf last_frame_start record_limit rng =
     (if pad_mode_name code = ''off'' \<or> buf = [] then Some (0, buf, rng)
      else case last_frame_start of
        None \<Rightarrow> Some (0, buf, rng)
      | Some start \<Rightarrow>
          if start + 10 > length buf then Some (0, buf, rng)
          else
            let target = stream_aligned_tls_plaintext_target (length buf) record_limit;
                pad_len = target - length buf
            in if pad_len = 0 \<or> pad_len > 65535 then Some (0, buf, rng)
               else if pad_len > stream_padding_budget (length buf) then Some (0, buf, rng)
               else
                 let old_pad = unat (rd16 (slice (start + 4) 2 buf))
                 in if old_pad + pad_len > 65535 \<or> pad_len \<ge> length cache then Some (0, buf, rng)
                    else
                      let buf1 = write_u16_at (start + 4) (of_nat (old_pad + pad_len)) buf
                      in case cover_bytes cache pad_len rng of
                           None \<Rightarrow> None
                         | Some (cover, rng') \<Rightarrow> Some (pad_len, buf1 @ cover, rng'))"

subsection \<open>The scanner\<close>

record frame_scanner =
  sc_buffer :: bytes
  sc_capacity :: nat
  lazy_compact :: bool
  sc_offset :: nat
  max_data_len :: nat

datatype io_error = InvalidData | OtherIo

datatype read_event = Chunk bytes | WouldBlock | IoFail

definition scanner_new :: "bool \<Rightarrow> frame_scanner" where
  "scanner_new lazy = \<lparr>sc_buffer = [], sc_capacity = HANDSHAKE_DATA_LENGTH, lazy_compact = lazy,
     sc_offset = 0, max_data_len = MAX_DATA_LENGTH\<rparr>"

definition set_max_data_len :: "frame_scanner \<Rightarrow> nat \<Rightarrow> frame_scanner" where
  "set_max_data_len sc n = sc\<lparr>max_data_len := n\<rparr>"

definition peek_first_byte :: "frame_scanner \<Rightarrow> u8 option" where
  "peek_first_byte sc =
     (if length (sc_buffer sc) > sc_offset sc then Some (sc_buffer sc ! sc_offset sc) else None)"

definition compact_consumed :: "bool \<Rightarrow> frame_scanner \<Rightarrow> frame_scanner" where
  "compact_consumed before_read sc =
     (if lazy_compact sc \<and> sc_offset sc \<noteq> length (sc_buffer sc)
         \<and> (\<not> before_read \<or> length (sc_buffer sc) < sc_capacity sc) then sc
      else if sc_offset sc > 0
         \<and> (sc_offset sc = length (sc_buffer sc)
            \<or> (if lazy_compact sc then length (sc_buffer sc) = sc_capacity sc
               else sc_offset sc > 16384))
      then sc\<lparr>sc_buffer := drop (sc_offset sc) (sc_buffer sc), sc_offset := 0\<rparr>
      else sc)"

definition take_buffered_frame ::
  "frame_scanner \<Rightarrow> (io_error + (bytes \<times> u32) option) \<times> frame_scanner" where
  "take_buffered_frame sc =
     (let available = length (sc_buffer sc) - sc_offset sc
      in if available < HEADER_SIZE then (Inr None, sc)
         else
           let off = sc_offset sc;
               data_len = unat (rd32 (slice off 4 (sc_buffer sc)));
               pad_len = unat (rd16 (slice (off + 4) 2 (sc_buffer sc)));
               seq = rd32 (slice (off + 6) 4 (sc_buffer sc))
           in if data_len > max_data_len sc
              then (Inl InvalidData, sc\<lparr>sc_buffer := [], sc_offset := 0\<rparr>)
              else
                let total_len = data_len + pad_len
                in if available < HEADER_SIZE + total_len then (Inr None, sc)
                   else
                     let payload_start = off + HEADER_SIZE;
                         sc1 = sc\<lparr>sc_offset := off + (HEADER_SIZE + total_len)\<rparr>;
                         out = (if data_len = 0 then ([], seq)
                                else (slice payload_start data_len (sc_buffer sc), seq))
                     in (Inr (Some out), compact_consumed False sc1))"

definition vec_reserve :: "nat \<Rightarrow> nat \<Rightarrow> nat \<Rightarrow> nat" where
  "vec_reserve cap len additional =
     (if cap - len \<ge> additional then cap else max (2 * cap) (len + additional))"

text \<open>One \<open>Read::read\<close> into a buffer of \<open>spare\<close> bytes; a reader with no outcome left blocks.\<close>

definition read_some :: "nat \<Rightarrow> read_event list \<Rightarrow> (io_error option + bytes) \<times> read_event list" where
  "read_some spare evs =
     (case evs of
        [] \<Rightarrow> (Inl None, [])
      | WouldBlock # es \<Rightarrow> (Inl None, es)
      | IoFail # es \<Rightarrow> (Inl (Some OtherIo), es)
      | Chunk bs # es \<Rightarrow>
          if length bs \<le> spare then (Inr bs, es)
          else (Inr (take spare bs), Chunk (drop spare bs) # es))"

definition grow_for_read :: "frame_scanner \<Rightarrow> frame_scanner" where
  "grow_for_read sc =
     (if length (sc_buffer sc) = sc_capacity sc
      then sc\<lparr>sc_capacity := vec_reserve (sc_capacity sc) (length (sc_buffer sc)) 16384\<rparr>
      else sc)"

fun ev_size :: "read_event \<Rightarrow> nat" where
  "ev_size (Chunk bs) = Suc (length bs)"
| "ev_size WouldBlock = 1"
| "ev_size IoFail = 1"

lemma read_some_decreases:
  "read_some n evs = (Inr bs, evs') \<Longrightarrow> bs \<noteq> [] \<Longrightarrow>
   sum_list (map ev_size evs') < sum_list (map ev_size evs)"
  by (auto simp: read_some_def split: list.splits read_event.splits if_splits)

function read_frame ::
  "frame_scanner \<Rightarrow> read_event list \<Rightarrow>
   (io_error + (bytes \<times> u32) option) \<times> frame_scanner \<times> read_event list" where
  "read_frame sc evs =
     (case take_buffered_frame sc of
        (Inl e, sc1) \<Rightarrow> (Inl e, sc1, evs)
      | (Inr (Some f), sc1) \<Rightarrow> (Inr (Some f), sc1, evs)
      | (Inr None, sc1) \<Rightarrow>
          let sc2 = grow_for_read (compact_consumed True sc1);
              spare = min (sc_capacity sc2 - length (sc_buffer sc2)) 16384
          in case read_some spare evs of
               (Inl None, es) \<Rightarrow> (Inr None, sc2, es)
             | (Inl (Some e), es) \<Rightarrow> (Inl e, sc2, es)
             | (Inr bs, es) \<Rightarrow>
                 if bs = [] then (Inr None, sc2, es)
                 else read_frame (sc2\<lparr>sc_buffer := sc_buffer sc2 @ bs\<rparr>) es)"
  by pat_completeness auto
termination
  by (relation "measure (\<lambda>(sc, evs). sum_list (map ev_size evs))")
    (auto intro: read_some_decreases [OF sym])

declare read_frame.simps [simp del]

subsection \<open>Payload ownership and batches\<close>

text \<open>
  \<open>FramePayload\<close>: an exclusively owned buffer, or a shared one with its strong count.
\<close>

datatype frame_payload = Owned bytes | Shared nat bytes

definition from_shared :: "nat \<Rightarrow> bytes \<Rightarrow> frame_payload" where
  "from_shared strong_count data = (if strong_count = 1 then Owned data else Shared strong_count data)"

fun as_slice :: "frame_payload \<Rightarrow> bytes" where
  "as_slice (Owned buf) = buf"
| "as_slice (Shared rc buf) = buf"

record vpn_frame =
  vf_seq :: u32
  vf_data :: frame_payload

record vpn_frame_batch =
  fb_frames :: "vpn_frame list"
  fb_bytes :: u64

definition batch_empty :: vpn_frame_batch where
  "batch_empty = \<lparr>fb_frames = [], fb_bytes = 0\<rparr>"

definition batch_push :: "vpn_frame_batch \<Rightarrow> vpn_frame \<Rightarrow> u64 \<Rightarrow> vpn_frame_batch" where
  "batch_push b frame n = b\<lparr>fb_frames := fb_frames b @ [frame], fb_bytes := saturating_add (fb_bytes b) n\<rparr>"

definition batch_from_frame :: "vpn_frame \<Rightarrow> u64 \<Rightarrow> vpn_frame_batch" where
  "batch_from_frame frame n = batch_push batch_empty frame n"

subsection \<open>Reference decoder\<close>

definition next_frame :: "nat \<Rightarrow> bytes \<Rightarrow> io_error + ((bytes \<times> u32) \<times> bytes) option" where
  "next_frame mx bs =
     (if length bs < 10 then Inr None
      else let dl = unat (rd32 (slice 0 4 bs)); pl = unat (rd16 (slice 4 2 bs))
           in if mx < dl then Inl InvalidData
              else if length bs < 10 + dl + pl then Inr None
              else Inr (Some ((slice 10 dl bs, rd32 (slice 6 4 bs)), drop (10 + dl + pl) bs)))"

lemma next_frame_shrinks: "next_frame mx bs = Inr (Some (f, rest)) \<Longrightarrow> length rest + 10 \<le> length bs"
  by (auto simp: next_frame_def Let_def split: if_splits)

function parse_all :: "nat \<Rightarrow> bytes \<Rightarrow> (bytes \<times> u32) list \<times> io_error option" where
  "parse_all mx bs =
     (case next_frame mx bs of
        Inl e \<Rightarrow> ([], Some e)
      | Inr None \<Rightarrow> ([], None)
      | Inr (Some (f, rest)) \<Rightarrow> (let (fs, e) = parse_all mx rest in (f # fs, e)))"
  by pat_completeness auto
termination
  by (relation "measure (\<lambda>(mx, bs). length bs)") (auto dest: next_frame_shrinks)

declare parse_all.simps [simp del]

text \<open>The connection's read loop: \<open>read_frame\<close> is called again until the input is used up.\<close>

fun read_all :: "nat \<Rightarrow> frame_scanner \<Rightarrow> read_event list \<Rightarrow> (bytes \<times> u32) list \<times> io_error option" where
  "read_all 0 sc evs = ([], None)"
| "read_all (Suc k) sc evs =
     (case read_frame sc evs of
        (Inl e, sc', es) \<Rightarrow> ([], Some e)
      | (Inr (Some f), sc', es) \<Rightarrow> (let (fs, e) = read_all k sc' es in (f # fs, e))
      | (Inr None, sc', es) \<Rightarrow> read_all k sc' es)"

definition unread :: "frame_scanner \<Rightarrow> bytes" where
  "unread sc = drop (sc_offset sc) (sc_buffer sc)"

definition scanner_wf :: "frame_scanner \<Rightarrow> bool" where
  "scanner_wf sc \<longleftrightarrow> sc_offset sc \<le> length (sc_buffer sc) \<and> length (sc_buffer sc) \<le> sc_capacity sc"

fun ev_bytes :: "read_event list \<Rightarrow> bytes" where
  "ev_bytes [] = []"
| "ev_bytes (Chunk bs # es) = bs @ ev_bytes es"
| "ev_bytes (_ # es) = ev_bytes es"

subsection \<open>The scanner refines the reference decoder\<close>

lemma slice_unread:
  "slice (sc_offset sc + i) n (sc_buffer sc) = slice i n (unread sc)"
  by (simp add: slice_def unread_def add.commute)

lemma slice_unread_0: "slice (sc_offset sc) n (sc_buffer sc) = slice 0 n (unread sc)"
  using slice_unread [of sc 0] by simp

lemma compact_consumed_abs:
  "unread (compact_consumed b sc) = unread sc"
  "max_data_len (compact_consumed b sc) = max_data_len sc"
  "scanner_wf sc \<Longrightarrow> scanner_wf (compact_consumed b sc)"
  by (auto simp: compact_consumed_def unread_def scanner_wf_def)

lemma take_buffered_eq:
  assumes "scanner_wf sc"
  shows "take_buffered_frame sc =
    (case next_frame (max_data_len sc) (unread sc) of
       Inl e \<Rightarrow> (Inl e, sc\<lparr>sc_buffer := [], sc_offset := 0\<rparr>)
     | Inr None \<Rightarrow> (Inr None, sc)
     | Inr (Some (f, rest)) \<Rightarrow>
         (Inr (Some f), compact_consumed False (sc\<lparr>sc_offset := length (sc_buffer sc) - length rest\<rparr>)))"
proof -
  have len: "length (sc_buffer sc) - sc_offset sc = length (unread sc)" by (simp add: unread_def)
  have z: "slice n 0 xs = []" for n and xs :: bytes by (simp add: slice_def)
  have off: "length (sc_buffer sc) + m - length (unread sc) = sc_offset sc + m" for m
    using assms by (auto simp: scanner_wf_def unread_def)
  show ?thesis
    by (simp add: take_buffered_frame_def next_frame_def Let_def frame_consts slice_unread slice_unread_0
        len z add.assoc off not_less)
qed

lemma take_buffered_refines:
  assumes "scanner_wf sc" "take_buffered_frame sc = (r, sc')"
  shows "scanner_wf sc' \<and> max_data_len sc' = max_data_len sc
    \<and> (case next_frame (max_data_len sc) (unread sc) of
         Inl e \<Rightarrow> r = Inl e
       | Inr None \<Rightarrow> r = Inr None \<and> sc' = sc
       | Inr (Some (f, rest)) \<Rightarrow> r = Inr (Some f) \<and> unread sc' = rest)"
proof (cases "next_frame (max_data_len sc) (unread sc)")
  case (Inl e)
  then show ?thesis using assms by (auto simp: take_buffered_eq scanner_wf_def)
next
  case (Inr o')
  show ?thesis
  proof (cases o')
    case None
    then show ?thesis using assms Inr by (simp add: take_buffered_eq)
  next
    case (Some p)
    obtain f rest where p: "p = (f, rest)" by (cases p)
    let ?sc1 = "sc\<lparr>sc_offset := length (sc_buffer sc) - length rest\<rparr>"
    have r: "rest = drop (length (unread sc) - length rest) (unread sc)"
      using Inr Some p by (auto simp: next_frame_def Let_def split: if_splits)
    have l: "length rest \<le> length (unread sc)"
      using next_frame_shrinks [OF Inr [unfolded Some p]] by simp
    have "scanner_wf ?sc1" "unread ?sc1 = rest"
      using assms(1) l r by (auto simp: scanner_wf_def unread_def)
    moreover have "sc' = compact_consumed False ?sc1" "r = Inr (Some f)"
      using assms Inr Some p by (simp_all add: take_buffered_eq)
    ultimately show ?thesis using Inr Some p by (simp add: compact_consumed_abs)
  qed
qed

lemma next_frame_append:
  "next_frame mx bs = Inr (Some (f, rest)) \<Longrightarrow> next_frame mx (bs @ xs) = Inr (Some (f, rest @ xs))"
  "next_frame mx bs = Inl e \<Longrightarrow> next_frame mx (bs @ xs) = Inl e"
  by (auto simp: next_frame_def Let_def slice_def split: if_splits)

lemma grow_for_read_abs:
  "unread (grow_for_read sc) = unread sc" "max_data_len (grow_for_read sc) = max_data_len sc"
  "scanner_wf sc \<Longrightarrow> scanner_wf (grow_for_read sc)"
  "scanner_wf sc \<Longrightarrow> length (sc_buffer (grow_for_read sc)) < sc_capacity (grow_for_read sc)"
  by (auto simp: grow_for_read_def unread_def scanner_wf_def vec_reserve_def)

lemma read_some_bytes:
  assumes "read_some n evs = (x, es)" "IoFail \<notin> set evs"
  shows "IoFail \<notin> set es"
    "x = Inr bs \<Longrightarrow> ev_bytes evs = bs @ ev_bytes es \<and> length bs \<le> n"
    "x = Inr [] \<Longrightarrow> 0 < n \<Longrightarrow> sum_list (map ev_size es) < sum_list (map ev_size evs)"
    "x = Inl e \<Longrightarrow> e = None \<and> ev_bytes evs = ev_bytes es \<and>
       (evs = [] \<or> sum_list (map ev_size es) < sum_list (map ev_size evs))"
  using assms by (auto simp: read_some_def split: list.splits read_event.splits if_splits)

text \<open>Bytes and events still to be handled: every call with input left lowers it.\<close>

definition pending :: "frame_scanner \<Rightarrow> read_event list \<Rightarrow> nat" where
  "pending sc evs = length (unread sc) + sum_list (map ev_size evs)"

definition read_frame_post ::
  "frame_scanner \<Rightarrow> read_event list \<Rightarrow> (io_error + (bytes \<times> u32) option) \<times> frame_scanner \<times> read_event list \<Rightarrow> bool" where
  "read_frame_post sc evs out =
     (case out of (r, sc', es) \<Rightarrow>
        scanner_wf sc' \<and> max_data_len sc' = max_data_len sc \<and> IoFail \<notin> set es
        \<and> (case r of
             Inl e \<Rightarrow> next_frame (max_data_len sc) (unread sc @ ev_bytes evs) = Inl e
           | Inr (Some f) \<Rightarrow>
               next_frame (max_data_len sc) (unread sc @ ev_bytes evs) = Inr (Some (f, unread sc' @ ev_bytes es))
               \<and> pending sc' es < pending sc evs
           | Inr None \<Rightarrow>
               unread sc' @ ev_bytes es = unread sc @ ev_bytes evs
               \<and> next_frame (max_data_len sc) (unread sc') = Inr None
               \<and> (if evs = [] then es = [] else pending sc' es < pending sc evs)))"

lemma ev_bytes_size: "length (ev_bytes evs) + length evs \<le> sum_list (map ev_size evs)"
  by (induction evs rule: ev_bytes.induct) auto

lemma ev_bytes_size_less: "evs \<noteq> [] \<Longrightarrow> length (ev_bytes evs) < sum_list (map ev_size evs)"
  using ev_bytes_size [of evs] by (cases evs) auto

lemma read_frame_refines:
  "scanner_wf sc \<Longrightarrow> IoFail \<notin> set evs \<Longrightarrow> read_frame_post sc evs (read_frame sc evs)"
proof (induction sc evs rule: read_frame.induct)
  case (1 sc evs)
  obtain r sc1 where tb: "take_buffered_frame sc = (r, sc1)" by force
  note ref = take_buffered_refines [OF 1(2) tb]
  show ?case
  proof (cases r)
    case (Inl e)
    then have "next_frame (max_data_len sc) (unread sc) = Inl e"
      using ref by (auto split: sum.splits option.splits)
    then show ?thesis using tb Inl ref 1(3)
      by (subst read_frame.simps) (simp add: read_frame_post_def next_frame_append)
  next
    case (Inr o')
    show ?thesis
    proof (cases o')
      case (Some f)
      then have nf: "next_frame (max_data_len sc) (unread sc) = Inr (Some (f, unread sc1))"
        using ref Inr by (auto split: sum.splits option.splits prod.splits)
      then have "length (unread sc1) < length (unread sc)" using next_frame_shrinks by fastforce
      then show ?thesis using tb Inr Some ref nf 1(3)
        by (subst read_frame.simps) (simp add: read_frame_post_def next_frame_append pending_def)
    next
      case None
      have nn: "next_frame (max_data_len sc) (unread sc) = Inr None" and sc1: "sc1 = sc"
        using ref Inr None by (auto split: sum.splits option.splits prod.splits)
      define sc2 where "sc2 = grow_for_read (compact_consumed True sc)"
      define spare where "spare = min (sc_capacity sc2 - length (sc_buffer sc2)) 16384"
      have ab: "unread sc2 = unread sc" "max_data_len sc2 = max_data_len sc" "scanner_wf sc2" "0 < spare"
        using 1(2) by (simp_all add: sc2_def spare_def grow_for_read_abs compact_consumed_abs)
      obtain x es where rs: "read_some spare evs = (x, es)" by force
      note rb = read_some_bytes [OF rs 1(3)]
      have step: "read_frame sc evs =
        (case x of Inl None \<Rightarrow> (Inr None, sc2, es) | Inl (Some e) \<Rightarrow> (Inl e, sc2, es)
         | Inr bs \<Rightarrow> if bs = [] then (Inr None, sc2, es)
                     else read_frame (sc2\<lparr>sc_buffer := sc_buffer sc2 @ bs\<rparr>) es)"
        using tb Inr None sc1 rs unfolding spare_def sc2_def
        by (subst read_frame.simps) (simp add: Let_def)
      show ?thesis
      proof (cases x)
        case (Inl e)
        then show ?thesis using step rb(1) rb(4) [OF Inl] ab nn rs
          by (auto simp: read_frame_post_def pending_def read_some_def)
      next
        case (Inr bs)
        show ?thesis
        proof (cases "bs = []")
          case True
          then show ?thesis using step Inr rb(1) rb(2) [OF Inr] rb(3) ab nn rs
            by (auto simp: read_frame_post_def pending_def read_some_def)
        next
          case False
          let ?sc3 = "sc2\<lparr>sc_buffer := sc_buffer sc2 @ bs\<rparr>"
          have b: "ev_bytes evs = bs @ ev_bytes es" "length bs \<le> spare" using rb(2) [OF Inr] by auto
          have w: "scanner_wf ?sc3" using ab(3) b(2) by (auto simp: scanner_wf_def spare_def)
          have u: "unread ?sc3 = unread sc @ bs" using ab by (simp add: unread_def scanner_wf_def)
          have ev: "evs \<noteq> []" using rs Inr by (auto simp: read_some_def)
          have le: "pending ?sc3 es \<le> pending sc evs" "sum_list (map ev_size es) < sum_list (map ev_size evs)"
            using rs Inr u False
            by (auto simp: pending_def read_some_def split: list.splits read_event.splits if_splits)
          have "read_frame_post ?sc3 es (read_frame ?sc3 es)"
            using 1(1) [OF tb [symmetric] \<open>r = Inr o'\<close> None _ _ rs [symmetric, unfolded spare_def sc2_def] Inr False w rb(1)] by (simp add: sc1 sc2_def)
          moreover have "read_frame sc evs = read_frame ?sc3 es" using step Inr False by simp
          moreover have "unread ?sc3 @ ev_bytes es = unread sc @ ev_bytes evs" using u b by simp
          moreover have "max_data_len ?sc3 = max_data_len sc" using ab(2) by simp
          ultimately show ?thesis
            using ev le ev_bytes_size_less [OF ev] unfolding read_frame_post_def
            by (auto simp: pending_def split: prod.splits sum.splits option.splits if_splits)
        qed
      qed
    qed
  qed
qed

lemma read_all_idle:
  "scanner_wf sc \<Longrightarrow> next_frame (max_data_len sc) (unread sc) = Inr None \<Longrightarrow> read_all k sc [] = ([], None)"
proof (induction k arbitrary: sc)
  case (Suc k)
  obtain r sc' es where rf: "read_frame sc [] = (r, sc', es)" by (metis prod_cases3)
  note post = read_frame_refines [OF Suc.prems(1), of "[]", unfolded rf read_frame_post_def, simplified]
  then show ?case using rf Suc.prems Suc.IH [of sc'] by (auto split: sum.splits option.splits)
qed simp

lemma read_all_correct:
  "scanner_wf sc \<Longrightarrow> IoFail \<notin> set evs \<Longrightarrow> pending sc evs < k \<Longrightarrow>
   read_all k sc evs = parse_all (max_data_len sc) (unread sc @ ev_bytes evs)"
proof (induction k arbitrary: sc evs)
  case (Suc k)
  obtain r sc' es where rf: "read_frame sc evs = (r, sc', es)" by (metis prod_cases3)
  note post = read_frame_refines [OF Suc.prems(1,2), unfolded rf read_frame_post_def, simplified]
  show ?case
  proof (cases r)
    case (Inl e)
    then show ?thesis using post rf by (subst parse_all.simps) simp
  next
    case (Inr o')
    show ?thesis
    proof (cases o')
      case (Some f)
      have "read_all k sc' es = parse_all (max_data_len sc) (unread sc' @ ev_bytes es)"
        using Suc.IH [of sc' es] post Inr Some Suc.prems by simp
      then show ?thesis using post rf Inr Some by (subst parse_all.simps) simp
    next
      case None
      show ?thesis
      proof (cases "evs = []")
        case True
        then have nn: "next_frame (max_data_len sc) (unread sc) = Inr None" and "es = []"
          and u: "unread sc' = unread sc" using post Inr None by auto
        have "read_all k sc' [] = ([], None)"
          by (rule read_all_idle) (use post Inr None u nn in simp_all)
        then show ?thesis using True rf Inr None \<open>es = []\<close> nn by (subst parse_all.simps) simp
      next
        case False
        then show ?thesis using Suc.IH [of sc' es] post rf Inr None Suc.prems by simp
      qed
    qed
  qed
qed simp

subsection \<open>The encoder writes one wire frame\<close>

definition wire_frame :: "u32 \<Rightarrow> bytes \<Rightarrow> bytes \<Rightarrow> bytes" where
  "wire_frame seq body pad =
     be32 (of_nat (length body)) @ be16 (of_nat (length pad)) @ be32 seq @ body @ pad"

lemma next_frame_wire:
  assumes "length body \<le> mx" "length body < 2 ^ 32" "length pad < 2 ^ 16"
  shows "next_frame mx (wire_frame seq body pad @ rest) = Inr (Some ((body, seq), rest))"
  using assms by (simp add: next_frame_def wire_frame_def slice_def unat_of_nat codec_simps)

definition sealed :: "crypto_lib \<Rightarrow> inner_cipher option \<Rightarrow> u32 \<Rightarrow> bytes \<Rightarrow> bytes" where
  "sealed L ic seq data =
     (case ic of
        Some c \<Rightarrow>
          if seq \<noteq> 0 \<and> data \<noteq> [] then
            let ct = cipher_seal L c seq (gcm_aad (of_nat (length data + 16)) seq) data in fst ct @ snd ct
          else data
      | None \<Rightarrow> data)"

lemma cover_bytes_some:
  assumes "p \<le> length cache"
  shows "\<exists>cover rng'. cover_bytes cache p rng = Some (cover, rng') \<and> length cover = p"
proof -
  obtain off rng' where g: "gen_range 0 (length cache - p) rng = (off, rng')" by force
  have "off + p \<le> length cache"
    using gen_range_bounds [of 0 "length cache - p" rng] g assms
    by (cases "length cache - p = 0") (auto simp: gen_range_def)
  then show ?thesis using g by (simp add: cover_bytes_def slice_def)
qed

lemma append_padded_frame_wire:
  assumes "crypto_lib_ok L" "4096 \<le> length cache"
  shows "\<exists>pad rng'. append_padded_frame_with_limit L code cache buf seq data ic limit rng =
      Some (buf @ wire_frame seq (sealed L ic seq data) pad, rng')
    \<and> length pad = fst (pad_length_with_limit code (length (sealed L ic seq data)) limit rng)"
proof -
  obtain tg where tg: "tg = (case ic of Some c \<Rightarrow> if seq \<noteq> 0 \<and> length data > 0 then tag_len c else 0 | None \<Rightarrow> 0)"
    by blast
  have len: "length (sealed L ic seq data) = length data + tg"
    using cipher_laws(1,2) [OF assms(1)]
    by (auto simp: sealed_def tg tag_len_def enc_consts Let_def split: option.split)
  obtain p rng1 where p: "pad_length_with_limit code (length data + tg) limit rng = (p, rng1)" by force
  have p4: "p \<le> length cache" using pad_length_max [of code "length data + tg" limit rng] p assms(2) by simp
  obtain cover rng2 where cv: "cover_bytes cache p rng1 = Some (cover, rng2)" "length cover = p"
    using cover_bytes_some [OF p4] by blast
  let ?hd = "be32 (of_nat (length data + tg)) @ be16 (of_nat p) @ be32 seq"
  have seal: "seal_in_place L c (data @ replicate 16 0) (length data) seq (of_nat (length data + 16)) = Some (sealed L (Some c) seq data)"
    if "seq \<noteq> 0" "data \<noteq> []" for c
    using that by (simp add: seal_in_place_eq sealed_def Let_def)
  have body: "append_padded_frame_with_limit L code cache buf seq data ic limit rng =
     (if p > 0 then Some (buf @ ?hd @ sealed L ic seq data @ cover, rng2) else Some (buf @ ?hd @ sealed L ic seq data, rng1))"
    using seal tg p cv
    by (cases ic) (auto simp: append_padded_frame_with_limit_def Let_def tag_len_def enc_consts slice_def sealed_def)
  show ?thesis
    by (rule exI [of _ cover], cases "p = 0") (use body len p cv in \<open>auto simp: wire_frame_def\<close>)
qed

lemma parse_all_wire:
  assumes "\<forall>(seq, body, pad) \<in> set ws. length body \<le> mx \<and> length body < 2 ^ 32 \<and> length pad < 2 ^ 16"
  shows "parse_all mx (concat (map (\<lambda>(seq, body, pad). wire_frame seq body pad) ws) @ rest) =
    (map (\<lambda>(seq, body, pad). (body, seq)) ws @ fst (parse_all mx rest), snd (parse_all mx rest))"
  using assms
proof (induction ws)
  case (Cons w ws)
  then show ?case
    by (cases w, subst parse_all.simps) (auto simp: next_frame_wire split: prod.split)
qed simp

lemma parse_all_Nil [simp]: "parse_all mx [] = ([], None)"
  by (subst parse_all.simps) (simp add: next_frame_def)

text \<open>A sender's run: the frames of one connection appended one after the other.\<close>

fun encode_run ::
  "crypto_lib \<Rightarrow> u8 \<Rightarrow> bytes \<Rightarrow> inner_cipher option \<Rightarrow> nat \<Rightarrow> bytes \<Rightarrow> (u32 \<times> bytes) list \<Rightarrow> u64 \<Rightarrow> bytes option" where
  "encode_run L code cache ic limit buf [] rng = Some buf"
| "encode_run L code cache ic limit buf ((seq, data) # fs) rng =
     (case append_padded_frame_with_limit L code cache buf seq data ic limit rng of
        None \<Rightarrow> None
      | Some (buf', rng') \<Rightarrow> encode_run L code cache ic limit buf' fs rng')"

text \<open>What a receiver does with one scanned frame: data frames are opened, control frames are not.\<close>

definition open_payload :: "crypto_lib \<Rightarrow> inner_cipher option \<Rightarrow> bytes \<times> u32 \<Rightarrow> bytes option" where
  "open_payload L ic f =
     (case f of (body, seq) \<Rightarrow>
        case ic of
          Some c \<Rightarrow> if seq \<noteq> 0 then open_in_place L c body seq (of_nat (length body)) else Some body
        | None \<Rightarrow> Some body)"

lemma open_payload_sealed:
  assumes "crypto_lib_ok L"
  shows "open_payload L ic (sealed L ic seq data, seq) = Some data"
proof -
  have "open_in_place L c [] seq w = Some []" for c w by (simp add: open_in_place_def)
  then show ?thesis
    using open_sealed [OF assms] cipher_laws(1,2) [OF assms]
    by (auto simp: open_payload_def sealed_def Let_def split: option.split)
qed

lemma length_sealed:
  "crypto_lib_ok L \<Longrightarrow> length (sealed L ic seq data) \<le> length data + 16"
  using cipher_laws(1,2) by (auto simp: sealed_def Let_def split: option.split)

lemma encode_run_wire:
  assumes "crypto_lib_ok L" "4096 \<le> length cache"
  shows "\<exists>ws. encode_run L code cache ic limit buf fs rng =
      Some (buf @ concat (map (\<lambda>(seq, body, pad). wire_frame seq body pad) ws))
    \<and> map (\<lambda>(seq, body, pad). (body, seq)) ws = map (\<lambda>(seq, data). (sealed L ic seq data, seq)) fs
    \<and> (\<forall>(seq, body, pad) \<in> set ws. length pad \<le> 4096)"
proof (induction fs arbitrary: buf rng)
  case Nil
  show ?case by (rule exI [of _ "[]"]) simp
next
  case (Cons f fs)
  obtain seq data where f: "f = (seq, data)" by (cases f)
  obtain pad rng' where ap: "append_padded_frame_with_limit L code cache buf seq data ic limit rng =
      Some (buf @ wire_frame seq (sealed L ic seq data) pad, rng')"
    and pl: "length pad = fst (pad_length_with_limit code (length (sealed L ic seq data)) limit rng)"
    using append_padded_frame_wire [OF assms] by blast
  obtain ws where ws: "encode_run L code cache ic limit (buf @ wire_frame seq (sealed L ic seq data) pad) fs rng' =
      Some ((buf @ wire_frame seq (sealed L ic seq data) pad) @ concat (map (\<lambda>(seq, body, pad). wire_frame seq body pad) ws))"
    "map (\<lambda>(seq, body, pad). (body, seq)) ws = map (\<lambda>(seq, data). (sealed L ic seq data, seq)) fs"
    "\<forall>(seq, body, pad) \<in> set ws. length pad \<le> 4096"
    using Cons.IH by blast
  show ?case
    by (rule exI [of _ "(seq, sealed L ic seq data, pad) # ws"])
      (use f ap ws pl pad_length_max in simp)
qed

subsection \<open>Properties\<close>

text \<open>
  C6. Transport of frames: whatever list of frames is appended to the stream, with or without
  inner encryption, with any padding mode and record limit, and however the network cuts the
  stream into reads, in either compaction mode of the scanner, the receiver's loop over
  \<open>read_frame\<close> yields exactly those frames, in order, without error, and every payload opens
  to the bytes that were sent.
\<close>
theorem frame_stream_roundtrip:
  assumes "crypto_lib_ok L" "4096 \<le> length cache"
    and "\<forall>(seq, data) \<in> set fs. length data + 16 \<le> MAX_DATA_LENGTH"
  shows "\<exists>stream. encode_run L code cache ic limit [] fs rng = Some stream
    \<and> (\<forall>evs k lazy. IoFail \<notin> set evs \<and> ev_bytes evs = stream \<and> sum_list (map ev_size evs) < k \<longrightarrow>
         (case read_all k (scanner_new lazy) evs of (out, err) \<Rightarrow>
            err = None \<and> map snd out = map fst fs
            \<and> map (open_payload L ic) out = map (\<lambda>(seq, data). Some data) fs))"
proof -
  obtain ws where ws: "encode_run L code cache ic limit [] fs rng =
      Some (concat (map (\<lambda>(seq, body, pad). wire_frame seq body pad) ws))"
    "map (\<lambda>(seq, body, pad). (body, seq)) ws = map (\<lambda>(seq, data). (sealed L ic seq data, seq)) fs"
    "\<forall>(seq, body, pad) \<in> set ws. length pad \<le> 4096"
    using encode_run_wire [OF assms(1,2), of code ic limit "[]" fs rng] by auto
  have body: "length body \<le> MAX_DATA_LENGTH" if "(seq, body, pad) \<in> set ws" for seq body pad
  proof -
    have "(body, seq) \<in> set (map (\<lambda>(seq, data). (sealed L ic seq data, seq)) fs)"
      using that unfolding ws(2) [symmetric] by force
    then obtain data where "(seq, data) \<in> set fs" "body = sealed L ic seq data" by auto
    then show ?thesis using assms(3) length_sealed [OF assms(1), of ic seq data] by fastforce
  qed
  have p: "parse_all MAX_DATA_LENGTH (concat (map (\<lambda>(seq, body, pad). wire_frame seq body pad) ws)) =
      (map (\<lambda>(seq, data). (sealed L ic seq data, seq)) fs, None)"
    using parse_all_wire [of ws MAX_DATA_LENGTH "[]"] body ws by (fastforce simp: frame_consts)
  have "read_all k (scanner_new lazy) evs = (map (\<lambda>(seq, data). (sealed L ic seq data, seq)) fs, None)"
    if "IoFail \<notin> set evs" "ev_bytes evs = concat (map (\<lambda>(seq, body, pad). wire_frame seq body pad) ws)"
      "sum_list (map ev_size evs) < k" for evs k lazy
    using read_all_correct [of "scanner_new lazy" evs k] that p
    by (simp add: scanner_new_def scanner_wf_def pending_def unread_def)
  then show ?thesis using ws(1) open_payload_sealed [OF assms(1)] by (auto split: prod.splits)
qed

theorem frame_stream_roundtrip_witness:
  "\<exists>stream. encode_run sample_lib PAD_BUCKET (replicate 4096 0) (Some (Gcm256 [] [])) 0 [] [(1, [5, 6]), (0, [7])] 9 = Some stream"
  using frame_stream_roundtrip [OF sample_lib_ok, of "replicate 4096 0" "[(1, [5, 6]), (0, [7])]"
      PAD_BUCKET "Some (Gcm256 [] [])" 0 9]
  by (auto simp: MAX_DATA_LENGTH_def)

text \<open>
  C16. The scanner depends only on the bytes: for any input, also a malformed one, any cut of
  it into reads (interleaved with calls that would block) and any reachable scanner state,
  the loop over \<open>read_frame\<close> ends and gives what the one-shot reference decoder gives on the
  unread bytes followed by the input, the length error included.
\<close>
theorem scanner_chunking_independent:
  assumes "scanner_wf sc" "IoFail \<notin> set evs" "IoFail \<notin> set evs'" "ev_bytes evs = ev_bytes evs'"
    and "pending sc evs < k" "pending sc evs' < k'"
  shows "read_all k sc evs = read_all k' sc evs'
    \<and> read_all k sc evs = parse_all (max_data_len sc) (unread sc @ ev_bytes evs)"
  using assms by (simp add: read_all_correct)

theorem scanner_chunking_independent_witness:
  "read_all 40 (scanner_new True) [Chunk (be32 2 @ be16 0), WouldBlock, Chunk (be32 9 @ [1, 2])]
   = read_all 40 (scanner_new True) [Chunk (be32 2 @ be16 0 @ be32 9 @ [1, 2])]"
  using scanner_chunking_independent [of "scanner_new True"
      "[Chunk (be32 2 @ be16 0), WouldBlock, Chunk (be32 9 @ [1, 2])]"
      "[Chunk (be32 2 @ be16 0 @ be32 9 @ [1, 2])]" 40 40]
  by (simp add: scanner_new_def scanner_wf_def pending_def unread_def)

lemma write_u16_wire:
  "length body < 2 ^ 32 \<Longrightarrow>
   write_u16_at (length pre + 4) (of_nat (length pad + n)) (pre @ wire_frame seq body pad) @ cover =
   pre @ wire_frame seq body (pad @ cover)" if "length cover = n"
  using that by (simp add: write_u16_at_def wire_frame_def)

lemma old_pad_wire:
  "length pad < 2 ^ 16 \<Longrightarrow>
   unat (rd16 (slice (length pre + 4) 2 (pre @ wire_frame seq body pad))) = length pad"
  by (simp add: slice_def wire_frame_def unat_of_nat codec_simps)

lemma aligned_target_bounds:
  "n \<le> stream_aligned_tls_plaintext_target n l"
  "n \<le> MAX_TLS_PLAINTEXT_RECORD \<Longrightarrow> stream_aligned_tls_plaintext_target n l \<le> MAX_TLS_PLAINTEXT_RECORD"
  by (auto simp: stream_aligned_tls_plaintext_target_def Let_def)

lemma pad_tail_wire:
  assumes "length body < 2 ^ 32" "length pad < 2 ^ 16" and batch: "buf = pre @ wire_frame seq body pad"
  shows "\<exists>cover rng'.
    pad_stream_batch_tail code cache buf (Some (length pre)) limit rng =
      Some (length cover, pre @ wire_frame seq body (pad @ cover), rng')
    \<and> 10 * length cover \<le> length buf \<and> length cover \<le> 512
    \<and> length buf + length cover \<le> max 16384 (length buf) \<and> length (pad @ cover) < 2 ^ 16"
proof -
  let ?n = "stream_aligned_tls_plaintext_target (length buf) limit - length buf"
  show ?thesis
  proof (cases "pad_mode_name code = ''off'' \<or> ?n = 0 \<or> ?n > 65535 \<or> ?n > stream_padding_budget (length buf)
      \<or> length pad + ?n > 65535 \<or> length cache \<le> ?n")
    case True
    then have "pad_stream_batch_tail code cache buf (Some (length pre)) limit rng = Some (0, buf, rng)"
      using old_pad_wire [OF assms(2), of pre seq body] batch
      by (auto simp: pad_stream_batch_tail_def Let_def)
    then show ?thesis using assms(2) batch by (intro exI [of _ "[]"]) simp
  next
    case False
    then obtain cover rng' where cv: "cover_bytes cache ?n rng = Some (cover, rng')" "length cover = ?n"
      using cover_bytes_some [of ?n cache rng] by auto
    have w: "10 \<le> length (wire_frame seq body pad)" by (simp add: wire_frame_def)
    then have "wire_frame seq body pad \<noteq> []" by auto
    note w = w this
    have new: "write_u16_at (length pre + 4) (of_nat (length pad + ?n)) buf @ cover
        = pre @ wire_frame seq body (pad @ cover)"
      unfolding batch using write_u16_wire [OF cv(2) assms(1), of pre pad seq] batch by simp
    have "pad_stream_batch_tail code cache buf (Some (length pre)) limit rng =
        Some (?n, pre @ wire_frame seq body (pad @ cover), rng')"
      using False cv(1) old_pad_wire [OF assms(2), of pre seq body] batch w new [symmetric]
      by (auto simp: pad_stream_batch_tail_def Let_def)
    moreover have "10 * ?n \<le> length buf" "?n \<le> 512"
      using False by (auto simp: stream_padding_budget_def frame_consts split: if_splits)
    moreover have "length buf + ?n \<le> max 16384 (length buf)"
      using aligned_target_bounds [of "length buf" limit] False
      by (auto simp: frame_consts stream_aligned_tls_plaintext_target_def Let_def split: if_splits)
    moreover have "length (pad @ cover) < 2 ^ 16" using False cv(2) by auto
    ultimately show ?thesis using cv(2) [symmetric] by (intro exI [of _ cover] exI [of _ rng']) simp
  qed
qed

text \<open>
  C24. Tail padding of an aggregated batch: for a batch that ends in a frame at the recorded
  offset, \<open>pad_stream_batch_tail\<close> never panics; it only lengthens the padding of that last
  frame, by at most a tenth of the batch and at most 512 bytes, keeps a batch of one TLS
  record within one TLS record, and the receiver decodes the same frames as before.
\<close>
theorem batch_tail_padding_transparent:
  assumes "length body < 2 ^ 32" "length pad < 2 ^ 16" "length body \<le> mx"
    and batch: "buf = concat (map (\<lambda>(s, b, p). wire_frame s b p) ws) @ wire_frame seq body pad"
    and "\<forall>(s, b, p) \<in> set ws. length b \<le> mx \<and> length b < 2 ^ 32 \<and> length p < 2 ^ 16"
  shows "\<exists>n buf' rng'.
    pad_stream_batch_tail code cache buf (Some (length (concat (map (\<lambda>(s, b, p). wire_frame s b p) ws)))) limit rng
      = Some (n, buf', rng')
    \<and> length buf' = length buf + n \<and> 10 * n \<le> length buf \<and> n \<le> 512
    \<and> length buf' \<le> max 16384 (length buf)
    \<and> parse_all mx buf' = parse_all mx buf"
proof -
  let ?pre = "concat (map (\<lambda>(s, b, p). wire_frame s b p) ws)"
  obtain cover rng' where res: "pad_stream_batch_tail code cache buf (Some (length ?pre)) limit rng =
      Some (length cover, ?pre @ wire_frame seq body (pad @ cover), rng')"
    and bounds: "10 * length cover \<le> length buf" "length cover \<le> 512" "length buf + length cover \<le> max 16384 (length buf)"
    and l: "length (pad @ cover) < 2 ^ 16"
    using pad_tail_wire [OF assms(1,2) batch, of code cache limit rng] by blast
  have "parse_all mx (?pre @ wire_frame seq body (pad @ cover)) = parse_all mx buf"
    using parse_all_wire [of "ws @ [(seq, body, pad @ cover)]" mx "[]"]
      parse_all_wire [of "ws @ [(seq, body, pad)]" mx "[]"] assms l by auto
  then show ?thesis using res bounds batch by (auto simp: wire_frame_def)
qed

theorem batch_tail_padding_transparent_witness:
  "\<exists>n buf' rng'. pad_stream_batch_tail PAD_BUCKET (replicate 4096 0) (wire_frame 1 (replicate 1380 7) []) (Some 0) 1408 5
      = Some (n, buf', rng') \<and> parse_all 1400 buf' = parse_all 1400 (wire_frame 1 (replicate 1380 7) [])"
  using batch_tail_padding_transparent [of "replicate 1380 7" "[]" 1400 "wire_frame 1 (replicate 1380 7) []" "[]" 1
      PAD_BUCKET "replicate 4096 0" 1408 5] by auto

end
