(* ===== verification/Buffer.thy ===== *)
theory Buffer
  imports Tlsvpn_Prelude
begin

text \<open>
  Model of \<open>src/src/buffer.rs\<close>: the per-thread frame pools, the fixed-window deduplicator and
  the reorder buffer. An \<open>Instant\<close> is a natural number of nanoseconds, an argument of the
  operations that read the clock. A \<open>Vec\<close> whose capacity is observed is a record of contents
  and capacity. The ring, the sequence slots and the bitmap are kept as the code has them.
\<close>

subsection \<open>Frame pools\<close>

definition FRAME_CLASSES :: "nat list" where
  "FRAME_CLASSES = [2 * 1024, 4 * 1024, 8 * 1024, 16 * 1024, 32 * 1024, 64 * 1024, 128 * 1024]"

definition FRAME_CLASS_LIMITS :: "nat list" where
  "FRAME_CLASS_LIMITS = [32, 8, 4, 2, 1, 1, 1]"

record pooled_vec =
  pv_data :: bytes
  pv_cap :: nat

definition frame_class_index :: "nat \<Rightarrow> nat option" where
  "frame_class_index len =
     (if 1 \<le> len \<and> len \<le> 2048 then Some 0
      else if 2049 \<le> len \<and> len \<le> 4096 then Some 1
      else if 4097 \<le> len \<and> len \<le> 8192 then Some 2
      else if 8193 \<le> len \<and> len \<le> 16384 then Some 3
      else if 16385 \<le> len \<and> len \<le> 32768 then Some 4
      else if 32769 \<le> len \<and> len \<le> 65536 then Some 5
      else if 65537 \<le> len \<and> len \<le> 131072 then Some 6
      else None)"

fun list_position :: "'a \<Rightarrow> 'a list \<Rightarrow> nat option" where
  "list_position a [] = None"
| "list_position a (x # xs) = (if x = a then Some 0 else map_option Suc (list_position a xs))"

definition frame_capacity_class :: "nat \<Rightarrow> nat option" where
  "frame_capacity_class capacity = list_position capacity FRAME_CLASSES"

text \<open>The pools: one stack of vectors per class, the top at the end.\<close>

definition acquire_frame_vec_recycled ::
  "nat \<Rightarrow> pooled_vec list list \<Rightarrow> pooled_vec \<times> pooled_vec list list" where
  "acquire_frame_vec_recycled len pools =
     (if len = 0 then (\<lparr>pv_data = [], pv_cap = 0\<rparr>, pools)
      else case frame_class_index len of
        None \<Rightarrow> (\<lparr>pv_data = [], pv_cap = len\<rparr>, pools)
      | Some idx \<Rightarrow>
          let class = FRAME_CLASSES ! idx
          in if pools ! idx = [] then (\<lparr>pv_data = [], pv_cap = class\<rparr>, pools)
             else (last (pools ! idx), pools[idx := butlast (pools ! idx)]))"

definition vec_resize :: "nat \<Rightarrow> pooled_vec \<Rightarrow> pooled_vec" where
  "vec_resize len v = v\<lparr>pv_data := take len (pv_data v) @ replicate (len - length (pv_data v)) 0\<rparr>"

definition acquire_frame_vec ::
  "nat \<Rightarrow> pooled_vec list list \<Rightarrow> pooled_vec \<times> pooled_vec list list" where
  "acquire_frame_vec len pools =
     (let (buf, pools') = acquire_frame_vec_recycled len pools
      in ((vec_resize len buf)\<lparr>pv_data := replicate len 0\<rparr>, pools'))"

definition acquire_frame_vec_overwrite ::
  "nat \<Rightarrow> pooled_vec list list \<Rightarrow> pooled_vec \<times> pooled_vec list list" where
  "acquire_frame_vec_overwrite len pools =
     (let (buf, pools') = acquire_frame_vec_recycled len pools
      in if length (pv_data buf) < len then (vec_resize len buf, pools')
         else (buf\<lparr>pv_data := take len (pv_data buf)\<rparr>, pools'))"

definition release_frame_vec :: "pooled_vec \<Rightarrow> pooled_vec list list \<Rightarrow> pooled_vec list list" where
  "release_frame_vec buf pools =
     (case frame_capacity_class (pv_cap buf) of
        None \<Rightarrow> pools
      | Some idx \<Rightarrow>
          if length (pools ! idx) < FRAME_CLASS_LIMITS ! idx
          then pools[idx := pools ! idx @ [buf]] else pools)"

definition release_shared_frame ::
  "nat \<Rightarrow> pooled_vec \<Rightarrow> pooled_vec list list \<Rightarrow> pooled_vec list list" where
  "release_shared_frame strong_count buf pools =
     (if strong_count = 1 then release_frame_vec buf pools else pools)"

subsection \<open>Deduplicator\<close>

definition DEDUP_WINDOW :: nat where "DEDUP_WINDOW = 4096"

definition dedup_new :: "u32 list" where
  "dedup_new = replicate DEDUP_WINDOW 0"

definition is_duplicate :: "u32 list \<Rightarrow> u32 \<Rightarrow> bool \<times> u32 list" where
  "is_duplicate slots seq =
     (if seq = 0 then (False, slots)
      else let idx = unat seq mod DEDUP_WINDOW
           in (slots ! idx = seq, slots[idx := seq]))"

definition dedup_reset :: "u32 list \<Rightarrow> u32 list" where
  "dedup_reset slots = map (\<lambda>_. 0) slots"

subsection \<open>Reorder buffer\<close>

definition REORDER_INITIAL_WINDOW :: nat where "REORDER_INITIAL_WINDOW = 2048"
definition REORDER_MAX_WINDOW :: nat where "REORDER_MAX_WINDOW = 65536"
definition REORDER_SKIP_DELAY :: nat where "REORDER_SKIP_DELAY = 50000000"

lemmas reorder_consts = REORDER_INITIAL_WINDOW_def REORDER_MAX_WINDOW_def REORDER_SKIP_DELAY_def

record reorder_stats =
  gap_events :: u64
  timeout_flushes :: u64
  skipped_frames :: u64

record reorder_buffer =
  expected_seq :: u32
  ring :: "bytes option list"
  seq_slots :: "u32 list"
  bitmap :: "u64 list"
  window_mask :: u32
  gap_since :: "nat option"
  rstats :: reorder_stats

definition reorder_new :: reorder_buffer where
  "reorder_new =
     \<lparr>expected_seq = 0, ring = replicate REORDER_INITIAL_WINDOW None,
      seq_slots = replicate REORDER_INITIAL_WINDOW 0,
      bitmap = replicate (REORDER_INITIAL_WINDOW div 64) 0,
      window_mask = of_nat REORDER_INITIAL_WINDOW - 1, gap_since = None,
      rstats = \<lparr>gap_events = 0, timeout_flushes = 0, skipped_frames = 0\<rparr>\<rparr>"

definition slot_index :: "reorder_buffer \<Rightarrow> u32 \<Rightarrow> nat" where
  "slot_index rb seq = unat (seq AND window_mask rb)"

definition bitmap_set :: "nat \<Rightarrow> u64 list \<Rightarrow> u64 list" where
  "bitmap_set idx bm = bm[idx div 64 := (bm ! (idx div 64)) OR push_bit (idx mod 64) 1]"

definition bitmap_clear :: "nat \<Rightarrow> u64 list \<Rightarrow> u64 list" where
  "bitmap_clear idx bm = bm[idx div 64 := (bm ! (idx div 64)) AND NOT (push_bit (idx mod 64) 1)]"

definition has_gap :: "reorder_buffer \<Rightarrow> bool" where
  "has_gap rb \<longleftrightarrow>
     expected_seq rb \<noteq> 0 \<and> ring rb ! slot_index rb (expected_seq rb) = None
     \<and> list_ex (\<lambda>word. word \<noteq> 0) (bitmap rb)"

definition refresh_gap :: "nat \<Rightarrow> reorder_buffer \<Rightarrow> reorder_buffer" where
  "refresh_gap now rb =
     (if has_gap rb then
        if gap_since rb = None
        then rb\<lparr>gap_since := Some now,
                rstats := (rstats rb)\<lparr>gap_events := saturating_add (gap_events (rstats rb)) 1\<rparr>\<rparr>
        else rb
      else rb\<lparr>gap_since := None\<rparr>)"

text \<open>
  The delivery loop. A slot index is masked by \<open>window_mask\<close>, hence in range in every
  reachable state; out of range the loop stops here where the code would panic.
\<close>

definition slot_at :: "reorder_buffer \<Rightarrow> nat \<Rightarrow> bytes option" where
  "slot_at rb idx = (if idx < length (ring rb) then ring rb ! idx else None)"

definition take_slot :: "reorder_buffer \<Rightarrow> nat \<Rightarrow> reorder_buffer" where
  "take_slot rb idx =
     rb\<lparr>ring := (ring rb)[idx := None], seq_slots := (seq_slots rb)[idx := 0],
        bitmap := bitmap_clear idx (bitmap rb), expected_seq := expected_seq rb + 1\<rparr>"

lemma take_slot_decreases:
  assumes "slot_at rb idx = Some d"
  shows "length (filter (\<lambda>x. x \<noteq> None) (ring (take_slot rb idx))) < length (filter (\<lambda>x. x \<noteq> None) (ring rb))"
proof -
  have i: "idx < length (ring rb)" "ring rb ! idx = Some d"
    using assms by (auto simp: slot_at_def split: if_splits)
  have "filter (\<lambda>x. x \<noteq> None) (ring rb) =
      filter (\<lambda>x. x \<noteq> None) (take idx (ring rb)) @ Some d # filter (\<lambda>x. x \<noteq> None) (drop (Suc idx) (ring rb))"
    by (subst id_take_nth_drop [OF i(1)]) (simp add: i(2))
  moreover have "filter (\<lambda>x. x \<noteq> None) ((ring rb)[idx := None]) =
      filter (\<lambda>x. x \<noteq> None) (take idx (ring rb)) @ filter (\<lambda>x. x \<noteq> None) (drop (Suc idx) (ring rb))"
    by (simp add: upd_conv_take_nth_drop [OF i(1)])
  ultimately show ?thesis by (simp add: take_slot_def)
qed

function flush_loop :: "reorder_buffer \<Rightarrow> bytes list \<times> reorder_buffer" where
  "flush_loop rb =
     (let idx = slot_index rb (expected_seq rb)
      in case slot_at rb idx of
           None \<Rightarrow> ([], rb)
         | Some frame \<Rightarrow>
             let (ready, rb') = flush_loop (take_slot rb idx)
             in (if frame \<noteq> [] then frame # ready else ready, rb'))"
  by pat_completeness auto
termination
  by (relation "measure (\<lambda>rb. length (filter (\<lambda>x. x \<noteq> None) (ring rb)))")
    (auto simp del: not_None_eq intro: take_slot_decreases)

declare flush_loop.simps [simp del]

definition flush_locked_into :: "nat \<Rightarrow> reorder_buffer \<Rightarrow> bytes list \<times> reorder_buffer" where
  "flush_locked_into now rb =
     (let (ready, rb') = flush_loop (rb\<lparr>gap_since := None\<rparr>) in (ready, refresh_gap now rb'))"

text \<open>The doubling loop of \<open>grow_window\<close>; the window is never empty, so doubling makes progress.\<close>

function grow_size :: "nat \<Rightarrow> nat \<Rightarrow> nat" where
  "grow_size required sz =
     (if sz < required \<and> sz < REORDER_MAX_WINDOW \<and> 0 < sz then grow_size required (2 * sz) else sz)"
  by pat_completeness auto
termination
  by (relation "measure (\<lambda>(r, s). REORDER_MAX_WINDOW - s)") auto

declare grow_size.simps [simp del]

fun rehash :: "u32 \<Rightarrow> (bytes option \<times> u32) list \<Rightarrow>
    bytes option list \<times> u32 list \<times> u64 list \<Rightarrow> bytes option list \<times> u32 list \<times> u64 list" where
  "rehash new_mask [] acc = acc"
| "rehash new_mask ((None, _) # rest) acc = rehash new_mask rest acc"
| "rehash new_mask ((Some frame, seq) # rest) (r, ss, bm) =
     (let new_idx = unat (seq AND new_mask)
      in rehash new_mask rest (r[new_idx := Some frame], ss[new_idx := seq], bitmap_set new_idx bm))"

definition grow_window :: "nat \<Rightarrow> reorder_buffer \<Rightarrow> bool \<times> reorder_buffer" where
  "grow_window required_distance rb =
     (let old_size = length (ring rb)
      in if old_size \<ge> REORDER_MAX_WINDOW then (False, rb)
         else
           let new_size = min (grow_size required_distance old_size) REORDER_MAX_WINDOW
           in if new_size < required_distance then (False, rb)
              else
                let new_mask = (of_nat (new_size - 1) :: u32);
                    (r, ss, bm) = rehash new_mask (zip (ring rb) (seq_slots rb))
                      (replicate new_size None, replicate new_size 0, replicate (new_size div 64) 0)
                in (True, rb\<lparr>ring := r, seq_slots := ss, bitmap := bm, window_mask := new_mask\<rparr>))"

definition insert_into ::
  "nat \<Rightarrow> u32 \<Rightarrow> bytes \<Rightarrow> reorder_buffer \<Rightarrow> bytes list \<times> reorder_buffer" where
  "insert_into now seq data rb =
     (if seq = 0 then ([], rb)
      else
        let rb1 = (if expected_seq rb = 0 then rb\<lparr>expected_seq := seq\<rparr> else rb);
            diff = seq - expected_seq rb1
        in if sint diff < 0 then ([], rb1)
           else
             let distance = unat diff;
                 (fits, rb2) =
                   (if distance \<ge> length (ring rb1)
                    then if distance \<ge> REORDER_MAX_WINDOW then (False, rb1)
                         else grow_window (distance + 1) rb1
                    else (True, rb1))
             in if \<not> fits then ([], rb2)
                else
                  let idx = slot_index rb2 seq
                  in if ring rb2 ! idx \<noteq> None then ([], rb2)
                     else
                       let rb3 = rb2\<lparr>ring := (ring rb2)[idx := Some data],
                                     seq_slots := (seq_slots rb2)[idx := seq],
                                     bitmap := bitmap_set idx (bitmap rb2)\<rparr>
                       in if seq = expected_seq rb3 then flush_locked_into now rb3
                          else ([], refresh_gap now rb3))"

fun advance_loop :: "bool \<Rightarrow> u32 \<Rightarrow> u32 list \<Rightarrow> (bool \<times> u32) option" where
  "advance_loop seen expected [] = Some (seen, expected)"
| "advance_loop seen expected (seq # seqs) =
     (let expected1 = (if \<not> seen \<and> expected = 0 then seq else expected)
      in if seq = 0 \<or> seq \<noteq> expected1 then None
         else advance_loop True (expected1 + 1) seqs)"

definition try_advance_sequences :: "u32 list \<Rightarrow> reorder_buffer \<Rightarrow> bool \<times> reorder_buffer" where
  "try_advance_sequences seqs rb =
     (if gap_since rb \<noteq> None then (False, rb)
      else case advance_loop False (expected_seq rb) seqs of
        None \<Rightarrow> (False, rb)
      | Some (seen, expected) \<Rightarrow>
          if \<not> seen then (False, rb) else (True, rb\<lparr>expected_seq := expected\<rparr>))"

definition try_direct_batch ::
  "(u32 \<times> bytes) list \<Rightarrow> reorder_buffer \<Rightarrow> bool \<times> bytes list \<times> (u32 \<times> bytes) list \<times> reorder_buffer" where
  "try_direct_batch input rb =
     (case try_advance_sequences (map fst input) rb of
        (False, rb') \<Rightarrow> (False, [], input, rb')
      | (True, rb') \<Rightarrow> (True, filter (\<lambda>frame. frame \<noteq> []) (map snd input), [], rb'))"

definition reorder_reset :: "reorder_buffer \<Rightarrow> reorder_buffer" where
  "reorder_reset rb =
     rb\<lparr>expected_seq := 0, ring := map (\<lambda>_. None) (ring rb), seq_slots := map (\<lambda>_. 0) (seq_slots rb),
        bitmap := map (\<lambda>_. 0) (bitmap rb), gap_since := None\<rparr>"

definition next_timeout :: "nat \<Rightarrow> reorder_buffer \<Rightarrow> nat option" where
  "next_timeout now rb = map_option (\<lambda>since. REORDER_SKIP_DELAY - (now - since)) (gap_since rb)"

definition flush_timeout_into :: "nat \<Rightarrow> reorder_buffer \<Rightarrow> bytes list \<times> reorder_buffer" where
  "flush_timeout_into now rb =
     (case gap_since rb of
        None \<Rightarrow> ([], rb)
      | Some since \<Rightarrow>
          if now - since < REORDER_SKIP_DELAY \<or> \<not> has_gap rb then ([], rb)
          else
            case find (\<lambda>delta. ring rb ! slot_index rb (expected_seq rb + of_nat delta) \<noteq> None)
                   [1 ..< length (ring rb)] of
              None \<Rightarrow> ([], rb\<lparr>gap_since := None\<rparr>)
            | Some delta \<Rightarrow>
                flush_locked_into now
                  (rb\<lparr>expected_seq := expected_seq rb + of_nat delta, gap_since := None,
                      rstats := (rstats rb)
                        \<lparr>timeout_flushes := saturating_add (timeout_flushes (rstats rb)) 1,
                         skipped_frames := saturating_add (skipped_frames (rstats rb)) (of_nat delta)\<rparr>\<rparr>))"

subsection \<open>Properties of the deduplicator and the pools\<close>

fun dedup_run :: "u32 list \<Rightarrow> u32 list \<Rightarrow> u32 list" where
  "dedup_run slots [] = slots"
| "dedup_run slots (s # ss) = dedup_run (snd (is_duplicate slots s)) ss"

text \<open>The numbers that share the slot of \<open>s\<close>.\<close>

definition same_slot :: "u32 \<Rightarrow> u32 list \<Rightarrow> u32 list" where
  "same_slot s ss = filter (\<lambda>x. x \<noteq> 0 \<and> unat x mod DEDUP_WINDOW = unat s mod DEDUP_WINDOW) ss"

lemma length_dedup_run [simp]: "length (dedup_run slots ss) = length slots"
  by (induction slots ss rule: dedup_run.induct) (auto simp: is_duplicate_def Let_def)

lemma dedup_run_append: "dedup_run slots (xs @ ys) = dedup_run (dedup_run slots xs) ys"
  by (induction slots xs rule: dedup_run.induct) auto

lemma dedup_slot:
  "dedup_run dedup_new ss ! (unat s mod DEDUP_WINDOW) = (if same_slot s ss = [] then 0 else last (same_slot s ss))"
proof (induction ss rule: rev_induct)
  case Nil
  have "unat s mod DEDUP_WINDOW < DEDUP_WINDOW" by (simp add: DEDUP_WINDOW_def)
  then show ?case by (simp add: dedup_new_def same_slot_def)
next
  case (snoc x xs)
  let ?r = "dedup_run dedup_new xs"
  have i: "unat x mod DEDUP_WINDOW < length ?r" by (simp add: dedup_new_def DEDUP_WINDOW_def)
  show ?case
  proof (cases "x \<noteq> 0 \<and> unat x mod DEDUP_WINDOW = unat s mod DEDUP_WINDOW")
    case True
    then show ?thesis using i by (simp add: dedup_run_append is_duplicate_def Let_def same_slot_def)
  next
    case False
    then have "same_slot s (xs @ [x]) = same_slot s xs" by (auto simp: same_slot_def)
    moreover have "dedup_run dedup_new (xs @ [x]) ! (unat s mod DEDUP_WINDOW) = ?r ! (unat s mod DEDUP_WINDOW)"
      using False by (auto simp: dedup_run_append is_duplicate_def Let_def)
    ultimately show ?thesis using snoc.IH by simp
  qed
qed

text \<open>
  C33. The deduplicator reports a number as duplicate if and only if it is non-zero and the
  last number seen in its slot of the 4096-slot window is that very number: a different
  frame is never taken for a duplicate, and a repetition is caught unless a colliding number
  came in between.
\<close>
theorem dedup_exact:
  "fst (is_duplicate (dedup_run dedup_new ss) s) \<longleftrightarrow>
     s \<noteq> 0 \<and> same_slot s ss \<noteq> [] \<and> last (same_slot s ss) = s"
  by (auto simp: is_duplicate_def Let_def dedup_slot)

definition pools_ok :: "pooled_vec list list \<Rightarrow> bool" where
  "pools_ok pools \<longleftrightarrow>
     length pools = 7
     \<and> (\<forall>i < 7. length (pools ! i) \<le> FRAME_CLASS_LIMITS ! i
           \<and> (\<forall>v \<in> set (pools ! i). pv_cap v = FRAME_CLASSES ! i \<and> length (pv_data v) \<le> FRAME_CLASSES ! i))"

definition retained :: "pooled_vec list list \<Rightarrow> nat" where
  "retained pools = sum_list (map (\<lambda>p. sum_list (map pv_cap p)) pools)"

lemma frame_class_index_fits:
  "frame_class_index len = Some i \<Longrightarrow> i < 7 \<and> len \<le> FRAME_CLASSES ! i"
  by (auto simp: frame_class_index_def FRAME_CLASSES_def split: if_splits)

lemma list_position_Some: "list_position a xs = Some i \<Longrightarrow> i < length xs \<and> xs ! i = a"
  by (induction xs arbitrary: i) (auto split: if_splits)

lemma sum_list_caps: "\<forall>v \<in> set vs. pv_cap v = c \<Longrightarrow> sum_list (map pv_cap vs) = length vs * c"
  by (induction vs) auto

lemma acquire_recycled_ok:
  assumes "pools_ok pools" "acquire_frame_vec_recycled len pools = (buf, pools')"
  shows "pools_ok pools' \<and> len \<le> pv_cap buf \<and> length (pv_data buf) \<le> pv_cap buf"
proof (cases "frame_class_index len")
  case None
  then show ?thesis using assms by (auto simp: acquire_frame_vec_recycled_def split: if_splits)
next
  case (Some i)
  note fit = frame_class_index_fits [OF Some]
  have upd: "pools_ok (pools[i := butlast (pools ! i)])"
    using assms(1) fit by (auto simp: pools_ok_def nth_list_update dest: in_set_butlastD)
  have top: "pools ! i \<noteq> [] \<Longrightarrow> last (pools ! i) \<in> set (pools ! i)" by simp
  show ?thesis
    using assms Some fit upd top
    by (auto simp: acquire_frame_vec_recycled_def pools_ok_def Let_def split: if_splits)
qed

text \<open>
  C35. Frame pools: from any pool state with the invariant (at most the class limit of
  vectors per class, each of exactly the class capacity), acquiring gives a vector of exactly
  the requested length within its capacity, acquiring and releasing keep the invariant, and
  the memory a thread retains is at most 384 KiB.
\<close>
theorem frame_pools_bounded:
  assumes "pools_ok pools" "length (pv_data v) \<le> pv_cap v"
  shows "(case acquire_frame_vec_overwrite len pools of (buf, pools') \<Rightarrow>
            length (pv_data buf) = len \<and> len \<le> pv_cap buf \<and> pools_ok pools')
    \<and> (case acquire_frame_vec len pools of (buf, pools') \<Rightarrow>
            pv_data buf = replicate len 0 \<and> len \<le> pv_cap buf \<and> pools_ok pools')
    \<and> pools_ok (release_frame_vec v pools)
    \<and> retained pools \<le> 384 * 1024"
proof -
  obtain buf pools' where a: "acquire_frame_vec_recycled len pools = (buf, pools')" by force
  note ok = acquire_recycled_ok [OF assms(1) a]
  have "pools_ok (release_frame_vec v pools)"
  proof (cases "frame_capacity_class (pv_cap v)")
    case (Some i)
    then have "i < 7" "FRAME_CLASSES ! i = pv_cap v"
      using list_position_Some [OF Some [unfolded frame_capacity_class_def]] by (simp_all add: FRAME_CLASSES_def)
    then show ?thesis using assms Some by (auto simp: release_frame_vec_def pools_ok_def nth_list_update)
  qed (use assms in \<open>simp add: release_frame_vec_def\<close>)
  moreover have "retained pools \<le> 384 * 1024"
  proof -
    have len: "length pools = 7" using assms(1) by (simp add: pools_ok_def)
    have one: "sum_list (map pv_cap (pools ! i)) \<le> FRAME_CLASS_LIMITS ! i * FRAME_CLASSES ! i" if "i < 7" for i
    proof -
      have "\<forall>v \<in> set (pools ! i). pv_cap v = FRAME_CLASSES ! i"
        using assms(1) that by (simp add: pools_ok_def)
      then have "sum_list (map pv_cap (pools ! i)) = length (pools ! i) * FRAME_CLASSES ! i"
        by (rule sum_list_caps)
      then show ?thesis using assms(1) that by (simp add: pools_ok_def)
    qed
    have "map (\<lambda>p. sum_list (map pv_cap p)) pools = map (\<lambda>i. sum_list (map pv_cap (pools ! i))) [0 ..< 7]"
      using len by (intro nth_equalityI) simp_all
    then have "retained pools = (\<Sum>i \<leftarrow> [0 ..< 7]. sum_list (map pv_cap (pools ! i)))"
      by (simp only: retained_def)
    also have "\<dots> \<le> (\<Sum>i \<leftarrow> [0 ..< 7]. FRAME_CLASS_LIMITS ! i * FRAME_CLASSES ! i)"
      by (rule sum_list_mono) (use one in auto)
    also have "\<dots> = 384 * 1024"
    proof -
      have "[0 ..< 7] = [0, 1, 2, 3, 4, 5, 6 :: nat]" by (simp add: upt_rec)
      then show ?thesis by (simp add: FRAME_CLASS_LIMITS_def FRAME_CLASSES_def)
    qed
    finally show ?thesis .
  qed
  ultimately show ?thesis
    using a ok by (auto simp: acquire_frame_vec_overwrite_def acquire_frame_vec_def vec_resize_def)
qed

theorem frame_pools_bounded_witness:
  "pools_ok (release_frame_vec \<lparr>pv_data = [1, 2], pv_cap = 2048\<rparr> (replicate 7 []))"
proof -
  have "pools_ok (replicate 7 [])" by (simp add: pools_ok_def)
  then show ?thesis using frame_pools_bounded [of "replicate 7 []" "\<lparr>pv_data = [1, 2], pv_cap = 2048\<rparr>" 0] by simp
qed

end
