(* ===== verification/Reorder.thy ===== *)
theory Reorder
  imports Buffer
begin

text \<open>
  Correctness of the reorder buffer of \<open>src/src/buffer.rs\<close>: ring, slots and bitmap represent a
  finite map from sequence numbers to waiting frames, every operation keeps the invariant
  and acts on that map and the expected number as an abstract reorder buffer would.
\<close>

subsection \<open>The arrays represent a finite map\<close>

text \<open>
  The abstract state of the buffer: the next sequence number and the map \<open>M\<close> of the frames
  that wait. \<open>arr_ok q\<close> says that ring, slots and bitmap of size \<open>2 ^ q\<close> hold exactly \<open>M\<close>.
\<close>

definition ix :: "nat \<Rightarrow> u32 \<Rightarrow> nat" where
  "ix q s = unat s mod 2 ^ q"

definition arr_ok ::
  "nat \<Rightarrow> bytes option list \<Rightarrow> u32 list \<Rightarrow> u64 list \<Rightarrow> (u32 \<rightharpoonup> bytes) \<Rightarrow> bool" where
  "arr_ok q r ss bm M \<longleftrightarrow>
     length r = 2 ^ q \<and> length ss = 2 ^ q \<and> length bm = 2 ^ q div 64
     \<and> (\<forall>j < 2 ^ q. bit (bm ! (j div 64)) (j mod 64) \<longleftrightarrow> r ! j \<noteq> None)
     \<and> (\<forall>j < 2 ^ q. \<forall>d. r ! j = Some d \<longrightarrow> M (ss ! j) = Some d \<and> ix q (ss ! j) = j)
     \<and> (\<forall>s d. M s = Some d \<longrightarrow> r ! ix q s = Some d \<and> ss ! ix q s = s)"

lemma arr_okD:
  assumes "arr_ok q r ss bm M"
  shows "j < 2 ^ q \<Longrightarrow> r ! j = Some d \<Longrightarrow> M (ss ! j) = Some d"
    "j < 2 ^ q \<Longrightarrow> r ! j = Some d \<Longrightarrow> ix q (ss ! j) = j"
    "M s = Some d \<Longrightarrow> r ! ix q s = Some d" "M s = Some d \<Longrightarrow> ss ! ix q s = s"
    "length r = 2 ^ q" "length ss = 2 ^ q" "length bm = 2 ^ q div 64"
  using assms unfolding arr_ok_def by blast+

lemma ix_less [simp]: "ix q s < 2 ^ q"
  by (simp add: ix_def)

lemma unat_take_bit_ix: "unat (take_bit q s) = ix q s" for s :: u32
  unfolding ix_def unsigned_take_bit_eq by (rule take_bit_eq_mod)

lemma unat_and_mask: "unat (s AND mask q) = ix q s" for s :: u32
  by (simp only: unat_take_bit_ix flip: take_bit_eq_mask)

lemma bitmap_bit:
  assumes "i div 64 < length bm" "j div 64 < length bm"
  shows "bit (bitmap_set i bm ! (j div 64)) (j mod 64) \<longleftrightarrow> j = i \<or> bit (bm ! (j div 64)) (j mod 64)"
    "bit (bitmap_clear i bm ! (j div 64)) (j mod 64) \<longleftrightarrow> j \<noteq> i \<and> bit (bm ! (j div 64)) (j mod 64)"
proof -
  have e: "j div 64 = i div 64 \<and> j mod 64 = i mod 64 \<longleftrightarrow> j = i" by (metis div_mult_mod_eq)
  have b: "bit (push_bit (i mod 64) 1 :: u64) (j mod 64) \<longleftrightarrow> j mod 64 = i mod 64"
    by (auto simp: bit_simps)
  have m: "j mod 64 < LENGTH(64)" by simp
  show "bit (bitmap_set i bm ! (j div 64)) (j mod 64) \<longleftrightarrow> j = i \<or> bit (bm ! (j div 64)) (j mod 64)"
    using assms b e by (cases "j div 64 = i div 64") (auto simp: bitmap_set_def bit_or_iff)
  show "bit (bitmap_clear i bm ! (j div 64)) (j mod 64) \<longleftrightarrow> j \<noteq> i \<and> bit (bm ! (j div 64)) (j mod 64)"
    using assms b e m
    by (cases "j div 64 = i div 64") (auto simp: bitmap_clear_def bit_and_iff bit_not_iff)
qed

lemma length_bitmap_upd [simp]:
  "length (bitmap_set i bm) = length bm" "length (bitmap_clear i bm) = length bm"
  by (simp_all add: bitmap_set_def bitmap_clear_def)

lemma bitmap_index:
  assumes "6 \<le> q" "j < 2 ^ q"
  shows "j div 64 < 2 ^ q div (64 :: nat)"
proof -
  obtain k where "q = 6 + k" using assms(1) le_Suc_ex by blast
  then have "(2 :: nat) ^ q = 64 * 2 ^ k" by (simp add: power_add)
  then show ?thesis using assms(2) by (simp add: less_mult_imp_div_less)
qed

lemma arr_ok_put:
  assumes "arr_ok q r ss bm M" "6 \<le> q" "\<And>s'. M s' \<noteq> None \<Longrightarrow> ix q s' \<noteq> ix q s"
  shows "arr_ok q (r[ix q s := Some d]) (ss[ix q s := s]) (bitmap_set (ix q s) bm) (M(s \<mapsto> d))"
proof -
  have l: "length r = 2 ^ q" "length ss = 2 ^ q" "length bm = 2 ^ q div 64"
    using assms(1) by (simp_all add: arr_ok_def)
  have bit: "\<forall>j < 2 ^ q. bit (bitmap_set (ix q s) bm ! (j div 64)) (j mod 64) \<longleftrightarrow> r[ix q s := Some d] ! j \<noteq> None"
    using assms(1) l bitmap_index [OF assms(2)] by (auto simp: arr_ok_def bitmap_bit nth_list_update)
  have fwd: "\<forall>j < 2 ^ q. \<forall>e. r[ix q s := Some d] ! j = Some e \<longrightarrow>
      (M(s \<mapsto> d)) (ss[ix q s := s] ! j) = Some e \<and> ix q (ss[ix q s := s] ! j) = j"
    using assms(1) l by (auto simp: arr_ok_def nth_list_update)
  have bwd: "\<forall>s' e. (M(s \<mapsto> d)) s' = Some e \<longrightarrow>
      r[ix q s := Some d] ! ix q s' = Some e \<and> ss[ix q s := s] ! ix q s' = s'"
  proof (intro allI impI)
    fix s' e
    assume "(M(s \<mapsto> d)) s' = Some e"
    then show "r[ix q s := Some d] ! ix q s' = Some e \<and> ss[ix q s := s] ! ix q s' = s'"
      using assms(1) assms(3) [of s'] l by (cases "s' = s") (auto simp: arr_ok_def)
  qed
  show ?thesis unfolding arr_ok_def using l bit fwd bwd by simp
qed

lemma arr_ok_clear:
  assumes "arr_ok q r ss bm M" "6 \<le> q" "M s = Some d"
  shows "arr_ok q (r[ix q s := None]) (ss[ix q s := 0]) (bitmap_clear (ix q s) bm) (M(s := None))"
proof -
  have l: "length r = 2 ^ q" "length ss = 2 ^ q" "length bm = 2 ^ q div 64"
    using assms(1) by (simp_all add: arr_ok_def)
  have at: "M s' = Some e \<Longrightarrow> ss ! ix q s' = s'" "M s' = Some e \<Longrightarrow> r ! ix q s' = Some e" for s' e
    using assms(1) unfolding arr_ok_def by blast+
  have bit: "\<forall>j < 2 ^ q. bit (bitmap_clear (ix q s) bm ! (j div 64)) (j mod 64) \<longleftrightarrow> r[ix q s := None] ! j \<noteq> None"
    using assms(1) l bitmap_index [OF assms(2)] by (auto simp: arr_ok_def bitmap_bit nth_list_update)
  have fwd: "\<forall>j < 2 ^ q. \<forall>e. r[ix q s := None] ! j = Some e \<longrightarrow>
      (M(s := None)) (ss[ix q s := 0] ! j) = Some e \<and> ix q (ss[ix q s := 0] ! j) = j"
    using assms(1) l by (auto simp: arr_ok_def nth_list_update)
  have bwd: "\<forall>s' e. (M(s := None)) s' = Some e \<longrightarrow>
      r[ix q s := None] ! ix q s' = Some e \<and> ss[ix q s := 0] ! ix q s' = s'"
    using at l assms(3) by (metis fun_upd_apply ix_less nth_list_update_neq option.distinct(1))
  show ?thesis unfolding arr_ok_def using l bit fwd bwd by simp
qed

lemma arr_ok_empty:
  "arr_ok q (replicate (2 ^ q) None) (replicate (2 ^ q) 0) (replicate (2 ^ q div 64) 0) Map.empty"
  if "6 \<le> q"
  using bitmap_index [OF that] by (auto simp: arr_ok_def)

lemma arr_ok_unique: "arr_ok q r ss bm M \<Longrightarrow> arr_ok q r ss bm M' \<Longrightarrow> M = M'"
proof -
  assume "arr_ok q r ss bm M" "arr_ok q r ss bm M'"
  then have "M s = Some d \<longleftrightarrow> M' s = Some d" for s d
    unfolding arr_ok_def by (metis ix_less)
  then show "M = M'" by (metis ext option.exhaust)
qed

lemma window_inject:
  fixes a b e :: u32
  assumes "unat (a - e) < 2 ^ q" "unat (b - e) < 2 ^ q" "q \<le> 32" "ix q a = ix q b"
  shows "a = b"
proof -
  have dv: "(2 :: int) ^ q dvd 4294967296" using le_imp_power_dvd [OF assms(3), of "2 :: int"] by simp
  have u: "uint (x - e) mod 2 ^ q = (uint x mod 2 ^ q - uint e) mod 2 ^ q" for x
    by (simp add: uint_word_ariths mod_mod_cancel [OF dv] mod_diff_left_eq)
  have "int (unat a mod 2 ^ q) = int (unat b mod 2 ^ q)" using assms(4) by (simp only: ix_def)
  then have "uint a mod 2 ^ q = uint b mod 2 ^ q" by (simp add: zmod_int)
  then have "uint (a - e) mod 2 ^ q = uint (b - e) mod 2 ^ q" by (simp only: u)
  then have "int (unat (a - e) mod 2 ^ q) = int (unat (b - e) mod 2 ^ q)" by (simp add: zmod_int)
  then have "unat (a - e) mod 2 ^ q = unat (b - e) mod 2 ^ q" by (simp only: of_nat_eq_iff)
  then have "unat (a - e) = unat (b - e)" using assms(1,2) by (simp only: mod_less)
  then have "a - e = b - e" by (simp only: word_unat_eq_iff)
  then show ?thesis by simp
qed

subsection \<open>Invariant and abstraction\<close>

definition rb_rep :: "nat \<Rightarrow> reorder_buffer \<Rightarrow> (u32 \<rightharpoonup> bytes) \<Rightarrow> bool" where
  "rb_rep q rb M \<longleftrightarrow>
     11 \<le> q \<and> q \<le> 16 \<and> window_mask rb = mask q \<and> arr_ok q (ring rb) (seq_slots rb) (bitmap rb) M"

definition in_window :: "nat \<Rightarrow> u32 \<Rightarrow> (u32 \<rightharpoonup> bytes) \<Rightarrow> bool" where
  "in_window n e M \<longleftrightarrow>
     (\<forall>s. M s \<noteq> None \<longrightarrow> s \<noteq> 0 \<and> s \<noteq> - 1 \<and> unat (s - e) < n)"

text \<open>
  The state between two operations: the arrays hold \<open>M\<close>, every waiting frame lies in the
  window above the expected number, the expected frame itself does not wait, nothing waits
  before the first number is learnt, and the gap timer runs exactly while something waits.
\<close>

definition rb_inv :: "reorder_buffer \<Rightarrow> (u32 \<rightharpoonup> bytes) \<Rightarrow> bool" where
  "rb_inv rb M \<longleftrightarrow>
     (\<exists>q. rb_rep q rb M \<and> in_window (2 ^ q) (expected_seq rb) M)
     \<and> M (expected_seq rb) = None
     \<and> (if expected_seq rb = 0 then M = Map.empty \<and> gap_since rb = None
        else (gap_since rb \<noteq> None \<longleftrightarrow> M \<noteq> Map.empty))"

definition pend :: "reorder_buffer \<Rightarrow> u32 \<rightharpoonup> bytes" where
  "pend rb s = (if seq_slots rb ! slot_index rb s = s then ring rb ! slot_index rb s else None)"

lemma rb_repD:
  assumes "rb_rep q rb M"
  shows "6 \<le> q" "q \<le> 16" "slot_index rb s = ix q s" "length (ring rb) = 2 ^ q"
    "arr_ok q (ring rb) (seq_slots rb) (bitmap rb) M" "window_mask rb = mask q"
  using assms by (auto simp: rb_rep_def slot_index_def unat_and_mask arr_ok_def)

lemma rb_rep_slot:
  assumes "rb_rep q rb M" "in_window (2 ^ q) e M" "unat (s - e) < 2 ^ q"
  shows "ring rb ! ix q s = M s"
proof (cases "ring rb ! ix q s")
  case None
  then show ?thesis using rb_repD(5) [OF assms(1)] by (cases "M s") (auto simp: arr_ok_def)
next
  case (Some d)
  let ?t = "seq_slots rb ! ix q s"
  have t: "M ?t = Some d" "ix q ?t = ix q s"
    using rb_repD(5) [OF assms(1)] Some unfolding arr_ok_def by (meson ix_less)+
  then have "unat (?t - e) < 2 ^ q" using assms(2) by (auto simp: in_window_def)
  then have "?t = s" using window_inject [OF _ assms(3) _ t(2)] rb_repD(2) [OF assms(1)] by simp
  then show ?thesis using t(1) Some by simp
qed

lemma list_ex_bitmap:
  assumes "rb_rep q rb M"
  shows "list_ex (\<lambda>w. w \<noteq> 0) (bitmap rb) \<longleftrightarrow> M \<noteq> Map.empty"
proof
  note a = rb_repD(5) [OF assms]
  assume "list_ex (\<lambda>w. w \<noteq> 0) (bitmap rb)"
  then obtain i where i: "i < length (bitmap rb)" "bitmap rb ! i \<noteq> 0" by (auto simp: list_ex_length)
  then obtain b where b: "bit (bitmap rb ! i) b" by (auto simp: bit_eq_iff)
  then have "b < 64" using bit_imp_le_length by fastforce
  then have j: "(64 * i + b) div 64 = i" "(64 * i + b) mod 64 = b" by auto
  have l: "length (bitmap rb) = 2 ^ q div 64" using a by (simp add: arr_ok_def)
  have "64 * i + b < 2 ^ q" using i(1) l \<open>b < 64\<close> by linarith
  then have "ring rb ! (64 * i + b) \<noteq> None" using a b j unfolding arr_ok_def by metis
  then show "M \<noteq> Map.empty"
    using a \<open>64 * i + b < 2 ^ q\<close> unfolding arr_ok_def by (metis not_None_eq)
next
  note a = rb_repD(5) [OF assms]
  assume "M \<noteq> Map.empty"
  then obtain s d where "M s = Some d" by (metis ext not_None_eq)
  then have "bit (bitmap rb ! (ix q s div 64)) (ix q s mod 64)"
    using a unfolding arr_ok_def by (metis ix_less option.distinct(1))
  then have "bitmap rb ! (ix q s div 64) \<noteq> 0" by auto
  moreover have "ix q s div 64 < length (bitmap rb)"
    using bitmap_index [OF rb_repD(1) [OF assms], of "ix q s"] a by (simp add: arr_ok_def)
  ultimately show "list_ex (\<lambda>w. w \<noteq> 0) (bitmap rb)" by (auto simp: list_ex_length)
qed

lemma rb_inv_pend: "rb_inv rb M \<Longrightarrow> pend rb = M"
proof
  fix s
  assume "rb_inv rb M"
  then obtain q where r: "rb_rep q rb M" by (auto simp: rb_inv_def)
  have "pend rb s = Some d \<longleftrightarrow> M s = Some d" for d
    unfolding pend_def rb_repD(3) [OF r]
    using rb_repD(5) [OF r] unfolding arr_ok_def by (metis ix_less option.distinct(1))
  then show "pend rb s = M s" by (metis option.exhaust)
qed

lemma rb_inv_new: "rb_inv reorder_new Map.empty"
proof -
  have "(of_nat 2048 - 1 :: u32) = mask 11" by (simp add: mask_eq_exp_minus_1)
  then have "rb_rep 11 reorder_new Map.empty"
    using arr_ok_empty [of 11] by (simp add: rb_rep_def reorder_new_def reorder_consts)
  then show ?thesis by (auto simp: rb_inv_def in_window_def reorder_new_def)
qed

subsection \<open>Delivery\<close>

lemma unat_diff_step:
  fixes s e :: u32
  assumes "s \<noteq> e"
  shows "unat (s - (e + 1)) = unat (s - e) - 1" "0 < unat (s - e)"
proof -
  have n: "s - e \<noteq> 0" using assms by simp
  have "s - (e + 1) = (s - e) - 1" by simp
  then show "unat (s - (e + 1)) = unat (s - e) - 1" using unat_minus_one [OF n] by (simp only:)
  show "0 < unat (s - e)" using n unat_gt_0 by blast
qed

lemma take_slot_rep:
  assumes "rb_rep q rb M" "in_window (2 ^ q) (expected_seq rb) M" "M (expected_seq rb) = Some d"
  shows "rb_rep q (take_slot rb (slot_index rb (expected_seq rb))) (M(expected_seq rb := None))"
    "in_window (2 ^ q) (expected_seq rb + 1) (M(expected_seq rb := None))"
    "expected_seq rb + 1 \<noteq> 0" "slot_at rb (slot_index rb (expected_seq rb)) = Some d"
proof -
  let ?e = "expected_seq rb"
  note r = rb_repD [OF assms(1)]
  show "rb_rep q (take_slot rb (slot_index rb ?e)) (M(?e := None))"
    using assms(1) arr_ok_clear [OF r(5,1) assms(3)] r(3)
    by (simp add: rb_rep_def take_slot_def)
  show "in_window (2 ^ q) (?e + 1) (M(?e := None))"
    using assms(2) unat_diff_step by (auto simp: in_window_def)
  have "?e \<noteq> - 1" using assms(2,3) by (auto simp: in_window_def)
  then show "?e + 1 \<noteq> 0" by (simp only: eq_neg_iff_add_eq_0 [symmetric] not_False_eq_True)
  show "slot_at rb (slot_index rb ?e) = Some d"
    using r(3,4) r(5) assms(3) by (auto simp: slot_at_def arr_ok_def)
qed

lemma flush_loop_spec:
  assumes "rb_rep q rb M" "in_window (2 ^ q) (expected_seq rb) M" "n < 2 ^ 32"
    "\<forall>i < n. M (expected_seq rb + of_nat i) \<noteq> None" "M (expected_seq rb + of_nat n) = None"
  shows "\<exists>rb'. flush_loop rb =
      (filter (\<lambda>f. f \<noteq> []) (map (\<lambda>i. the (M (expected_seq rb + of_nat i))) [0 ..< n]), rb')
    \<and> rb_rep q rb' (\<lambda>s. if unat (s - expected_seq rb) < n then None else M s)
    \<and> in_window (2 ^ q) (expected_seq rb') (\<lambda>s. if unat (s - expected_seq rb) < n then None else M s)
    \<and> expected_seq rb' = expected_seq rb + of_nat n
    \<and> gap_since rb' = gap_since rb \<and> rstats rb' = rstats rb"
  using assms
proof (induction n arbitrary: rb M)
  case 0
  have "slot_at rb (slot_index rb (expected_seq rb)) = None"
    using rb_rep_slot [OF 0(1,2), of "expected_seq rb"] 0 rb_repD(3) [OF 0(1)]
    by (simp add: slot_at_def)
  then show ?case using 0 by (subst flush_loop.simps) simp
next
  case (Suc n)
  let ?e = "expected_seq rb"
  obtain d where d: "M ?e = Some d" using Suc.prems(4) by force
  note ts = take_slot_rep [OF Suc.prems(1,2) d]
  let ?rb1 = "take_slot rb (slot_index rb ?e)" and ?M1 = "M(?e := None)"
  have e1: "expected_seq ?rb1 = ?e + 1" "gap_since ?rb1 = gap_since rb" "rstats ?rb1 = rstats rb"
    by (simp_all add: take_slot_def)
  have shift: "?M1 (?e + 1 + of_nat i) = M (?e + of_nat (Suc i))" if "i < 2 ^ 32 - 1" for i
  proof -
    have "unat (of_nat (Suc i) :: u32) = Suc i" using that by (simp only: unat_of_nat) simp
    then have "(of_nat (Suc i) :: u32) \<noteq> 0" by (metis unat_0 nat.distinct(1))
    then show ?thesis by (simp add: add.assoc)
  qed
  have map1: "(\<lambda>s. if unat (s - (?e + 1)) < n then None else ?M1 s) =
      (\<lambda>s. if unat (s - ?e) < Suc n then None else M s)"
    using unat_diff_step by (fastforce simp: fun_eq_iff)
  have n1: "n < 2 ^ 32" using Suc.prems(3) by simp
  have w1: "in_window (2 ^ q) (expected_seq ?rb1) ?M1" using ts(2) by (simp only: e1)
  have c4: "\<forall>i < n. ?M1 (expected_seq ?rb1 + of_nat i) \<noteq> None"
  proof (intro allI impI)
    fix i
    assume "i < n"
    then show "?M1 (expected_seq ?rb1 + of_nat i) \<noteq> None"
      unfolding e1 using shift [of i] Suc.prems(3) Suc.prems(4) by (metis Suc_less_eq less_diff_conv Suc_eq_plus1 order.strict_trans)
  qed
  have c5: "?M1 (expected_seq ?rb1 + of_nat n) = None"
    unfolding e1 using shift [of n] Suc.prems(3,5) by (metis less_diff_conv Suc_eq_plus1)
  obtain rb' where IH: "flush_loop ?rb1 =
      (filter (\<lambda>f. f \<noteq> []) (map (\<lambda>i. the (?M1 (?e + 1 + of_nat i))) [0 ..< n]), rb')"
    "rb_rep q rb' (\<lambda>s. if unat (s - (?e + 1)) < n then None else ?M1 s)"
    "in_window (2 ^ q) (expected_seq rb') (\<lambda>s. if unat (s - (?e + 1)) < n then None else ?M1 s)"
    "expected_seq rb' = ?e + 1 + of_nat n" "gap_since rb' = gap_since rb" "rstats rb' = rstats rb"
    using Suc.IH [OF ts(1) w1 n1 c4 c5] unfolding e1 by blast
  have out: "map (\<lambda>i. the (?M1 (?e + 1 + of_nat i))) [0 ..< n] =
      map (\<lambda>i. the (M (?e + of_nat (Suc i)))) [0 ..< n]"
    using shift Suc.prems(3) by (intro map_cong) auto
  have upt: "map (\<lambda>i. the (M (?e + of_nat i))) [0 ..< Suc n] =
      d # map (\<lambda>i. the (M (?e + of_nat (Suc i)))) [0 ..< n]"
    using d by (subst upt_conv_Cons) (simp_all add: map_Suc_upt [symmetric] del: upt_Suc)
  have "flush_loop rb = (filter (\<lambda>f. f \<noteq> []) (map (\<lambda>i. the (M (?e + of_nat i))) [0 ..< Suc n]), rb')"
    unfolding upt using ts(4) IH(1) [unfolded out]
    by (subst flush_loop.simps) (simp add: Let_def del: of_nat_Suc)
  then show ?case using IH(2-6) unfolding map1 by (simp add: add.assoc)
qed

definition run_len :: "(u32 \<rightharpoonup> bytes) \<Rightarrow> u32 \<Rightarrow> nat" where
  "run_len M e = (LEAST n. M (e + of_nat n) = None)"

lemma run_len_props:
  assumes "in_window w e M" "w \<le> 65536"
  shows "M (e + of_nat (run_len M e)) = None" "run_len M e \<le> w"
    "i < run_len M e \<Longrightarrow> M (e + of_nat i) \<noteq> None"
proof -
  have "unat (e + of_nat w - e) = w" using assms(2) by (simp add: unat_of_nat)
  then have w: "M (e + of_nat w) = None" using assms(1) unfolding in_window_def by (metis less_irrefl)
  show "M (e + of_nat (run_len M e)) = None"
    unfolding run_len_def by (rule LeastI [where P = "\<lambda>n. M (e + of_nat n) = None", OF w])
  show "run_len M e \<le> w" unfolding run_len_def by (rule Least_le [where P = "\<lambda>n. M (e + of_nat n) = None", OF w])
  show "i < run_len M e \<Longrightarrow> M (e + of_nat i) \<noteq> None"
    unfolding run_len_def by (rule not_less_Least)
qed

lemma run_len_eqI:
  "M (e + of_nat n) = None \<Longrightarrow> (\<And>i. i < n \<Longrightarrow> M (e + of_nat i) \<noteq> None) \<Longrightarrow> run_len M e = n"
  unfolding run_len_def by (rule Least_equality) (use leI in blast)+

lemma refresh_gap_inv:
  assumes "rb_rep q rb M" "in_window (2 ^ q) (expected_seq rb) M"
    "expected_seq rb \<noteq> 0" "M (expected_seq rb) = None"
  shows "rb_inv (refresh_gap now rb) M" "expected_seq (refresh_gap now rb) = expected_seq rb"
proof -
  have "ring rb ! slot_index rb (expected_seq rb) = None"
    using rb_rep_slot [OF assms(1,2), of "expected_seq rb"] assms(4) rb_repD(3) [OF assms(1)] by simp
  then have g: "has_gap rb \<longleftrightarrow> M \<noteq> Map.empty"
    using assms(3) list_ex_bitmap [OF assms(1)] by (simp add: has_gap_def)
  show "expected_seq (refresh_gap now rb) = expected_seq rb" by (simp add: refresh_gap_def)
  have "rb_rep q (refresh_gap now rb) M"
    using assms(1) by (simp add: refresh_gap_def rb_rep_def)
  moreover have "gap_since (refresh_gap now rb) \<noteq> None \<longleftrightarrow> M \<noteq> Map.empty"
    using g by (auto simp: refresh_gap_def)
  ultimately show "rb_inv (refresh_gap now rb) M"
    using assms \<open>expected_seq (refresh_gap now rb) = expected_seq rb\<close> by (auto simp: rb_inv_def)
qed

definition drop_run :: "nat \<Rightarrow> u32 \<Rightarrow> (u32 \<rightharpoonup> bytes) \<Rightarrow> u32 \<rightharpoonup> bytes" where
  "drop_run n e M = (\<lambda>s. if unat (s - e) < n then None else M s)"

definition run_frames :: "(u32 \<rightharpoonup> bytes) \<Rightarrow> u32 \<Rightarrow> nat \<Rightarrow> bytes list" where
  "run_frames M e n = filter (\<lambda>f. f \<noteq> []) (map (\<lambda>i. the (M (e + of_nat i))) [0 ..< n])"

lemma flush_locked_spec:
  assumes "rb_rep q rb M" "in_window (2 ^ q) (expected_seq rb) M" "expected_seq rb \<noteq> 0"
  defines "n \<equiv> run_len M (expected_seq rb)"
  shows "\<exists>rb'. flush_locked_into now rb = (run_frames M (expected_seq rb) n, rb')
    \<and> rb_inv rb' (drop_run n (expected_seq rb) M) \<and> expected_seq rb' = expected_seq rb + of_nat n"
proof -
  let ?e = "expected_seq rb" and ?M = "drop_run n (expected_seq rb) M"
  have q: "(2 :: nat) ^ q \<le> 65536" using power_increasing [OF rb_repD(2) [OF assms(1)], of "2 :: nat"] by simp
  note rl = run_len_props [OF assms(2) q, folded n_def]
  have n: "n < 2 ^ 32" using rl(2) q by simp
  have rep0: "rb_rep q (rb\<lparr>gap_since := None\<rparr>) M" using assms(1) by (simp add: rb_rep_def)
  obtain rb' where fl: "flush_loop (rb\<lparr>gap_since := None\<rparr>) = (run_frames M ?e n, rb')"
    "rb_rep q rb' ?M" "in_window (2 ^ q) (expected_seq rb') ?M" "expected_seq rb' = ?e + of_nat n"
    using flush_loop_spec [OF rep0, of n] assms(2) n rl
    by (auto simp: run_frames_def drop_run_def)
  have ne: "?e + of_nat n \<noteq> 0"
  proof (cases n)
    case (Suc k)
    then have "M (?e + of_nat k) \<noteq> None" using rl(3) by blast
    then have "?e + of_nat k \<noteq> - 1" using assms(2) by (auto simp: in_window_def)
    then have "(?e + of_nat k) + 1 \<noteq> 0" by (simp only: eq_neg_iff_add_eq_0 [symmetric] not_False_eq_True)
    then show ?thesis by (simp add: Suc add_ac)
  qed (use assms(3) in simp)
  have "?M (?e + of_nat n) = None" using rl(1) by (simp add: drop_run_def)
  then have "rb_inv (refresh_gap now rb') ?M" "expected_seq (refresh_gap now rb') = expected_seq rb'"
    using refresh_gap_inv [OF fl(2,3)] fl(4) ne by auto
  then show ?thesis using fl by (simp add: flush_locked_into_def)
qed

subsection \<open>Growing the window\<close>

lemma grow_size_pow:
  "q \<le> 16 \<Longrightarrow> \<exists>q'. grow_size n (2 ^ q) = 2 ^ q' \<and> q \<le> q' \<and> q' \<le> 16 \<and> (n \<le> 65536 \<longrightarrow> n \<le> 2 ^ q')
     \<and> (q < q' \<longrightarrow> 2 ^ (q' - 1) < n)"
proof (induction "16 - q" arbitrary: q)
  case 0
  then show ?case by (intro exI [of _ q], subst grow_size.simps) (simp add: reorder_consts)
next
  case (Suc k)
  show ?case
  proof (cases "2 ^ q < n")
    case False
    then show ?thesis using Suc.prems by (intro exI [of _ q], subst grow_size.simps) auto
  next
    case True
    have "q < 16" using Suc.hyps(2) by simp
    then have "(2 :: nat) ^ q < 2 ^ 16" by (rule power_strict_increasing) simp
    then have step: "grow_size n (2 ^ q) = grow_size n (2 ^ Suc q)"
      using True by (subst grow_size.simps) (simp add: reorder_consts)
    have "k = 16 - Suc q" "Suc q \<le> 16" using Suc.hyps(2) \<open>q < 16\<close> by auto
    then obtain q' where "grow_size n (2 ^ Suc q) = 2 ^ q'" "Suc q \<le> q'" "q' \<le> 16"
      "n \<le> 65536 \<longrightarrow> n \<le> 2 ^ q'" "Suc q < q' \<longrightarrow> 2 ^ (q' - 1) < n"
      using Suc.hyps(1) by blast
    then show ?thesis using step True by (intro exI [of _ q']) (cases "Suc q = q'"; auto)
  qed
qed

lemma rehash_ok:
  assumes "arr_ok q r ss bm M0" "6 \<le> q" "M0 \<subseteq>\<^sub>m F"
    and "\<And>s s'. F s \<noteq> None \<Longrightarrow> F s' \<noteq> None \<Longrightarrow> ix q s = ix q s' \<Longrightarrow> s = s'"
    and "\<And>f s. (Some f, s) \<in> set es \<Longrightarrow> F s = Some f"
    and "distinct (map snd (filter (\<lambda>x. fst x \<noteq> None) es))"
    and "\<And>f s. (Some f, s) \<in> set es \<Longrightarrow> M0 s = None"
  shows "\<exists>r' ss' bm'. rehash (mask q) es (r, ss, bm) = (r', ss', bm')
    \<and> arr_ok q r' ss' bm' (\<lambda>s. if (\<exists>f. (Some f, s) \<in> set es) then F s else M0 s)"
  using assms
proof (induction es arbitrary: r ss bm M0)
  case Nil
  then show ?case by simp
next
  case (Cons x rest)
  obtain fo seq where x: "x = (fo, seq)" by (cases x)
  note p = Cons.prems [unfolded x]
  show ?case
  proof (cases fo)
    case None
    have "\<exists>r' ss' bm'. rehash (mask q) rest (r, ss, bm) = (r', ss', bm')
      \<and> arr_ok q r' ss' bm' (\<lambda>s. if (\<exists>f. (Some f, s) \<in> set rest) then F s else M0 s)"
      by (rule Cons.IH [OF p(1-4)]) (use p(5-7) None in auto)
    then show ?thesis by (simp add: x None)
  next
    case (Some frame)
    let ?M = "M0(seq \<mapsto> frame)"
    have Fs: "F seq = Some frame" and n0: "M0 seq = None" using p(5,7) Some by auto
    have put: "arr_ok q (r[ix q seq := Some frame]) (ss[ix q seq := seq]) (bitmap_set (ix q seq) bm) ?M"
    proof (rule arr_ok_put [OF p(1,2)])
      fix s' assume s': "M0 s' \<noteq> None"
      then have "F s' \<noteq> None" using p(3) by (auto simp: map_le_def dom_def)
      then show "ix q s' \<noteq> ix q seq" using p(4) [of s' seq] Fs s' n0 by auto
    qed
    have le: "?M \<subseteq>\<^sub>m F" using p(3) Fs by (auto simp: map_le_def)
    have fresh: "s \<noteq> seq" if "(Some f, s) \<in> set rest" for f s
    proof -
      have "s \<in> set (map snd (filter (\<lambda>x. fst x \<noteq> None) rest))" using that by force
      then show ?thesis using p(6) Some by auto
    qed
    have "\<exists>r' ss' bm'. rehash (mask q) rest
        (r[ix q seq := Some frame], ss[ix q seq := seq], bitmap_set (ix q seq) bm) = (r', ss', bm')
      \<and> arr_ok q r' ss' bm' (\<lambda>s. if (\<exists>f. (Some f, s) \<in> set rest) then F s else ?M s)"
    proof (rule Cons.IH [OF put p(2) le p(4)])
      show "distinct (map snd (filter (\<lambda>x. fst x \<noteq> None) rest))" using p(6) Some by simp
      show "F s = Some f" if "(Some f, s) \<in> set rest" for f s using p(5) that by auto
      show "?M s = None" if "(Some f, s) \<in> set rest" for f s
        using p(7) [of f s] fresh [OF that] that by simp
    qed
    moreover have "(\<lambda>s. if (\<exists>f. (Some f, s) \<in> set rest) then F s else ?M s) =
        (\<lambda>s. if (\<exists>f. (Some f, s) \<in> set (x # rest)) then F s else M0 s)"
      using Fs Some x by (auto simp: fun_eq_iff)
    ultimately show ?thesis by (simp add: x Some unat_and_mask Let_def)
  qed
qed

lemma distinct_filtered_zip:
  assumes "length xs = length ys"
    "\<And>i j. i < length xs \<Longrightarrow> j < length xs \<Longrightarrow> xs ! i \<noteq> None \<Longrightarrow> xs ! j \<noteq> None \<Longrightarrow> ys ! i = ys ! j \<Longrightarrow> i = j"
  shows "distinct (map snd (filter (\<lambda>x. fst x \<noteq> None) (zip xs ys)))"
  using assms
proof (induction xs ys rule: list_induct2)
  case (Cons x xs y ys)
  have "distinct (map snd (filter (\<lambda>x. fst x \<noteq> None) (zip xs ys)))"
    by (rule Cons.IH) (use Cons.prems [of "Suc i" "Suc j" for i j] in auto)
  moreover have "y \<notin> set (map snd (filter (\<lambda>x. fst x \<noteq> None) (zip xs ys)))" if "x \<noteq> None"
  proof
    assume "y \<in> set (map snd (filter (\<lambda>x. fst x \<noteq> None) (zip xs ys)))"
    then obtain j where "j < length xs" "xs ! j \<noteq> None" "ys ! j = y"
      using Cons.hyps by (auto simp: set_zip)
    then show False using Cons.prems [of 0 "Suc j"] that by simp
  qed
  ultimately show ?case by simp
qed simp

lemma mask_of_nat: "q \<le> 32 \<Longrightarrow> (of_nat (2 ^ q - 1) :: u32) = mask q"
  by (simp add: mask_eq_exp_minus_1 of_nat_diff)

lemma grow_window_spec:
  assumes "rb_rep q rb M" "in_window (2 ^ q) e M" "2 ^ q \<le> d" "d < 65536"
  shows "\<exists>q' rb'. grow_window (d + 1) rb = (True, rb') \<and> rb_rep q' rb' M \<and> q \<le> q' \<and> d < 2 ^ q'
    \<and> expected_seq rb' = expected_seq rb \<and> gap_since rb' = gap_since rb"
proof -
  note r = rb_repD [OF assms(1)]
  obtain q' where q': "grow_size (d + 1) (2 ^ q) = 2 ^ q'" "q \<le> q'" "q' \<le> 16" "d + 1 \<le> 2 ^ q'"
    using grow_size_pow [OF r(2), of "d + 1"] assms(4) by auto
  have sz: "(2 :: nat) ^ q' \<le> 65536" using power_increasing [OF q'(3), of "2 :: nat"] by simp
  have "(2 :: nat) ^ q \<le> 2 ^ q'" using q'(2) by simp
  let ?es = "zip (ring rb) (seq_slots rb)"
  have len: "length (ring rb) = 2 ^ q" "length (seq_slots rb) = 2 ^ q" using arr_okD(5,6) [OF r(5)] by simp_all
  have ent: "(Some f, s) \<in> set ?es \<longleftrightarrow> M s = Some f" for f s
  proof
    assume "(Some f, s) \<in> set ?es"
    then obtain j where "j < 2 ^ q" "ring rb ! j = Some f" "seq_slots rb ! j = s" by (auto simp: set_zip len)
    then show "M s = Some f" using arr_okD(1) [OF r(5)] by blast
  next
    assume "M s = Some f"
    then have "ring rb ! ix q s = Some f" "seq_slots rb ! ix q s = s" using arr_okD(3,4) [OF r(5)] by blast+
    then show "(Some f, s) \<in> set ?es" by (auto simp: set_zip len intro!: exI [of _ "ix q s"])
  qed
  have near: "unat (s - e) < 2 ^ q'" if "M s \<noteq> None" for s
  proof -
    have "unat (s - e) < 2 ^ q" using assms(2) that unfolding in_window_def by blast
    then show ?thesis using \<open>(2 :: nat) ^ q \<le> 2 ^ q'\<close> by (rule order_less_le_trans)
  qed
  have "q' \<le> 32" using q'(3) by simp
  then have inj: "s = s'" if "M s \<noteq> None" "M s' \<noteq> None" "ix q' s = ix q' s'" for s s'
    using window_inject [OF near near] that by blast
  have own: "ix q (seq_slots rb ! i) = i" if "i < length (ring rb)" "ring rb ! i \<noteq> None" for i
    using arr_okD(2) [OF r(5), of i] that len(1) by (cases "ring rb ! i") simp_all
  have dist: "distinct (map snd (filter (\<lambda>x. fst x \<noteq> None) ?es))"
  proof (rule distinct_filtered_zip)
    show "length (ring rb) = length (seq_slots rb)" by (simp only: len)
    fix i j
    assume h: "i < length (ring rb)" "j < length (ring rb)" "ring rb ! i \<noteq> None" "ring rb ! j \<noteq> None"
      "seq_slots rb ! i = seq_slots rb ! j"
    have "i = ix q (seq_slots rb ! i)" by (rule own [OF h(1,3), symmetric])
    also have "\<dots> = ix q (seq_slots rb ! j)" by (rule arg_cong [OF h(5)])
    also have "\<dots> = j" by (rule own [OF h(2,4)])
    finally show "i = j" .
  qed
  have m: "(\<lambda>s. if (\<exists>f. (Some f, s) \<in> set ?es) then M s else Map.empty s) = M"
    unfolding ent by (rule ext) (metis not_None_eq)
  have q6: "6 \<le> q'" using r(1) q'(2) by simp
  have "\<exists>r' ss' bm'. rehash (mask q') ?es
      (replicate (2 ^ q') None, replicate (2 ^ q') 0, replicate (2 ^ q' div 64) 0) = (r', ss', bm')
    \<and> arr_ok q' r' ss' bm' (\<lambda>s. if (\<exists>f. (Some f, s) \<in> set ?es) then M s else Map.empty s)"
    by (rule rehash_ok [OF arr_ok_empty [OF q6] q6 map_le_empty _ _ dist]) (use inj ent in blast)+
  then obtain r' ss' bm' where rh: "rehash (mask q') ?es
      (replicate (2 ^ q') None, replicate (2 ^ q') 0, replicate (2 ^ q' div 64) 0) = (r', ss', bm')"
    "arr_ok q' r' ss' bm' M"
    unfolding m by blast
  have "(2 :: nat) ^ q < 65536" using assms(3,4) by simp
  then have "grow_window (d + 1) rb = (True, rb\<lparr>ring := r', seq_slots := ss', bitmap := bm', window_mask := mask q'\<rparr>)"
    using rh(1) q'(1,4) sz mask_of_nat [of q'] q'(3) len
    by (simp add: grow_window_def reorder_consts Let_def min_absorb1 del: of_nat_diff)
  moreover have "rb_rep q' (rb\<lparr>ring := r', seq_slots := ss', bitmap := bm', window_mask := mask q'\<rparr>) M"
    using rh(2) assms(1) q' by (simp add: rb_rep_def)
  ultimately show ?thesis using q' by auto
qed

subsection \<open>The operations on the abstract state\<close>

lemma sint_neg_iff: "sint w < 0 \<longleftrightarrow> 2 ^ 31 \<le> unat w" for w :: u32
proof -
  have "unat w < 2 ^ 32" using unsigned_less [of w] by simp
  then have "odd (unat w div 2 ^ 31) \<longleftrightarrow> 2 ^ 31 \<le> unat w"
  proof (cases "2 ^ 31 \<le> unat w")
    case True
    then have "unat w div 2 ^ 31 = 1" using \<open>unat w < 2 ^ 32\<close> by (intro div_nat_eqI) auto
    then show ?thesis using True by simp
  qed simp
  moreover have "sint w < 0 \<longleftrightarrow> bit w 31" by (simp add: sint_uint bit_uint_iff)
  moreover have "bit w 31 \<longleftrightarrow> bit (unat w) 31" by (simp add: bit_unsigned_iff)
  ultimately show ?thesis by (simp only: bit_iff_odd [of "unat w"])
qed

lemma in_window_mono: "in_window n e M \<Longrightarrow> n \<le> m \<Longrightarrow> in_window m e M"
  by (auto simp: in_window_def intro: order_less_le_trans)

text \<open>Storing a frame in a free place of the window.\<close>

lemma store_rep:
  fixes d :: bytes
  assumes "rb_rep q rb M" "in_window (2 ^ q) e M" "unat (s - e) < 2 ^ q" "M s = None" "s \<noteq> 0" "s \<noteq> - 1"
  defines "rb' \<equiv> rb\<lparr>ring := (ring rb)[slot_index rb s := Some d],
    seq_slots := (seq_slots rb)[slot_index rb s := s], bitmap := bitmap_set (slot_index rb s) (bitmap rb)\<rparr>"
  shows "rb_rep q rb' (M(s \<mapsto> d))" "in_window (2 ^ q) e (M(s \<mapsto> d))"
proof -
  note r = rb_repD [OF assms(1)]
  have "ix q s' \<noteq> ix q s" if "M s' \<noteq> None" for s'
  proof
    assume "ix q s' = ix q s"
    moreover have "unat (s' - e) < 2 ^ q" using assms(2) that by (auto simp: in_window_def)
    ultimately have "s' = s" using window_inject [of s' e q s] assms(3) r(2) by simp
    then show False using that assms(4) by simp
  qed
  then have "arr_ok q ((ring rb)[ix q s := Some d]) ((seq_slots rb)[ix q s := s])
      (bitmap_set (ix q s) (bitmap rb)) (M(s \<mapsto> d))"
    by (rule arr_ok_put [OF r(5,1)])
  then show "rb_rep q rb' (M(s \<mapsto> d))" using assms(1) by (simp add: rb'_def r(3) rb_rep_def)
  show "in_window (2 ^ q) e (M(s \<mapsto> d))" using assms(2,3,5,6) by (auto simp: in_window_def)
qed

definition learn :: "u32 \<Rightarrow> u32 \<Rightarrow> u32" where
  "learn e s = (if e = 0 then s else e)"

lemma insert_into_spec:
  assumes inv: "rb_inv rb M" and s: "s \<noteq> 0" "s \<noteq> - 1"
  defines "e \<equiv> learn (expected_seq rb) s"
  shows "\<exists>out rb'. insert_into now s d rb = (out, rb')
    \<and> (if unat (s - e) < 65536 \<and> M s = None then
         (if s = e then
            let n = run_len (M(s \<mapsto> d)) e
            in out = run_frames (M(s \<mapsto> d)) e n \<and> rb_inv rb' (drop_run n e (M(s \<mapsto> d)))
               \<and> expected_seq rb' = e + of_nat n
          else out = [] \<and> rb_inv rb' (M(s \<mapsto> d)) \<and> expected_seq rb' = e)
       else out = [] \<and> rb_inv rb' M \<and> expected_seq rb' = e)"
proof -
  obtain q where rep: "rb_rep q rb M" and win: "in_window (2 ^ q) (expected_seq rb) M"
    using inv by (auto simp: rb_inv_def)
  define rb1 where "rb1 = (if expected_seq rb = 0 then rb\<lparr>expected_seq := s\<rparr> else rb)"
  have e0: "e \<noteq> 0" using s by (simp add: e_def learn_def)
  have ex1: "expected_seq rb1 = e" by (simp add: rb1_def e_def learn_def)
  have inv1: "rb_inv rb1 M" and Me: "M e = None" and win1: "in_window (2 ^ q) e M" and rep1: "rb_rep q rb1 M"
    using inv rep win s by (auto simp: rb1_def rb_inv_def rb_rep_def e_def learn_def in_window_def)
  have sz: "length (ring rb1) = 2 ^ q" "(2 :: nat) ^ q \<le> 65536"
    using rb_repD(4) [OF rep1] power_increasing [OF rb_repD(2) [OF rep1], of "2 :: nat"] by simp_all
  show ?thesis
  proof (cases "unat (s - e) < 65536")
    case False
    then have "insert_into now s d rb = ([], rb1)"
      using s sz by (auto simp: insert_into_def Let_def ex1 rb1_def [symmetric] reorder_consts)
    then show ?thesis using False inv1 ex1 by simp
  next
    case near: True
    have nn: "\<not> sint (s - e) < 0" using near by (simp add: sint_neg_iff)
    obtain q' rb2 where g: "(if unat (s - e) \<ge> length (ring rb1)
        then if unat (s - e) \<ge> REORDER_MAX_WINDOW then (False, rb1) else grow_window (unat (s - e) + 1) rb1
        else (True, rb1)) = (True, rb2)"
      "rb_rep q' rb2 M" "unat (s - e) < 2 ^ q'" "q \<le> q'" "expected_seq rb2 = e" "gap_since rb2 = gap_since rb1"
    proof (cases "unat (s - e) \<ge> length (ring rb1)")
      case True
      then show ?thesis using grow_window_spec [OF rep1 win1, of "unat (s - e)"] near sz ex1 that
        by (auto simp: reorder_consts)
    next
      case False
      then show ?thesis using that [of rb1 q] rep1 sz ex1 by simp
    qed
    have win2: "in_window (2 ^ q') e M" using in_window_mono [OF win1] g(4) by simp
    have slot: "ring rb2 ! slot_index rb2 s = M s"
      using rb_rep_slot [OF g(2) win2 g(3)] rb_repD(3) [OF g(2)] by simp
    define rb3 where "rb3 = rb2\<lparr>ring := (ring rb2)[slot_index rb2 s := Some d],
      seq_slots := (seq_slots rb2)[slot_index rb2 s := s], bitmap := bitmap_set (slot_index rb2 s) (bitmap rb2)\<rparr>"
    have ins: "insert_into now s d rb = (if M s \<noteq> None then ([], rb2)
       else if s = e then flush_locked_into now rb3 else ([], refresh_gap now rb3))"
      using s nn g(1,5) slot
      by (simp add: insert_into_def Let_def ex1 rb1_def [symmetric] rb3_def del: not_None_eq)
    show ?thesis
    proof (cases "M s")
      case (Some f)
      have "rb_inv rb2 M"
        using inv1 g(2,5,6) win2 ex1 by (auto simp: rb_inv_def)
      then show ?thesis using ins Some g(5) by simp
    next
      case None
      note st = store_rep [OF g(2) win2 g(3) None s, of d, folded rb3_def]
      have ex3: "expected_seq rb3 = e" using g(5) by (simp add: rb3_def)
      show ?thesis
      proof (cases "s = e")
        case True
        then show ?thesis using flush_locked_spec [OF st(1), of now] st(2) ex3 e0 ins None near
          by (auto simp: Let_def)
      next
        case False
        have "rb_inv (refresh_gap now rb3) (M(s \<mapsto> d))" "expected_seq (refresh_gap now rb3) = e"
          using refresh_gap_inv [OF st(1), of now] st(2) ex3 e0 Me False by auto
        then show ?thesis using ins None near False by simp
      qed
    qed
  qed
qed

end
