(* ===== verification/Reorder_Delivery.thy ===== *)
theory Reorder_Delivery
  imports Reorder
begin

text \<open>
  The contract of the reorder buffer as a locale, what a client concludes from it (frames
  that arrive in any order leave in order, each once), and its interpretation on
  \<open>insert_into\<close>; then the timeout, the direct batch and the deduplicator of
  \<open>src/src/buffer.rs\<close>.
\<close>

fun feed :: "(nat \<Rightarrow> u32 \<Rightarrow> bytes \<Rightarrow> 's \<Rightarrow> bytes list \<times> 's) \<Rightarrow> (nat \<times> u32 \<times> bytes) list \<Rightarrow> 's \<Rightarrow> bytes list \<times> 's" where
  "feed ins [] s = ([], s)"
| "feed ins ((now, q, d) # xs) s =
     (let (o1, s1) = ins now q d s; (o2, s2) = feed ins xs s1 in (o1 @ o2, s2))"

lemma feed_append:
  "feed ins (xs @ ys) s =
     (let (o1, s1) = feed ins xs s; (o2, s2) = feed ins ys s1 in (o1 @ o2, s2))"
  by (induction ins xs s rule: feed.induct) (auto simp: Let_def split: prod.splits)

lemma unat_diff_shift:
  fixes q a :: u32
  assumes "k < 2 ^ 32"
  shows "unat (q - (a + of_nat k)) =
    (if k \<le> unat (q - a) then unat (q - a) - k else 2 ^ 32 + unat (q - a) - k)"
proof -
  have u: "unat (of_nat k :: u32) = k" using assms by (simp add: unat_of_nat)
  have "q - (a + of_nat k) = (q - a) - of_nat k" by simp
  then have "unat (q - (a + of_nat k)) = unat ((q - a) - of_nat k)" by (simp only:)
  also have "\<dots> = (if k \<le> unat (q - a) then unat (q - a) - k else 2 ^ 32 + unat (q - a) - k)"
    unfolding unat_sub_if' u by (auto simp: word_le_nat_alt u)
  finally show ?thesis .
qed

lemma unat_offset: "i < 2 ^ 32 \<Longrightarrow> unat ((a :: u32) + of_nat i - a) = i"
  by (simp add: unat_of_nat)

locale reorder_contract =
  fixes ins :: "nat \<Rightarrow> u32 \<Rightarrow> bytes \<Rightarrow> 's \<Rightarrow> bytes list \<times> 's"
    and inv :: "'s \<Rightarrow> bool" and ex :: "'s \<Rightarrow> u32" and wait :: "'s \<Rightarrow> u32 \<Rightarrow> bytes option"
  assumes ins_inv: "inv s \<Longrightarrow> q \<noteq> 0 \<Longrightarrow> q \<noteq> - 1 \<Longrightarrow> inv (snd (ins now q d s))"
    and ins_park: "inv s \<Longrightarrow> q \<noteq> 0 \<Longrightarrow> q \<noteq> - 1 \<Longrightarrow> ex s \<noteq> 0 \<Longrightarrow> q \<noteq> ex s \<Longrightarrow> unat (q - ex s) < 65536 \<Longrightarrow>
      wait s q = None \<Longrightarrow>
      fst (ins now q d s) = [] \<and> ex (snd (ins now q d s)) = ex s \<and> wait (snd (ins now q d s)) = (wait s)(q \<mapsto> d)"
    and ins_deliver: "inv s \<Longrightarrow> q \<noteq> 0 \<Longrightarrow> q \<noteq> - 1 \<Longrightarrow> q = ex s \<Longrightarrow>
      run_len ((wait s)(q \<mapsto> d)) q = n \<Longrightarrow>
      fst (ins now q d s) = run_frames ((wait s)(q \<mapsto> d)) q n \<and> ex (snd (ins now q d s)) = q + of_nat n
      \<and> wait (snd (ins now q d s)) = drop_run n q ((wait s)(q \<mapsto> d))"
    and ins_drop: "inv s \<Longrightarrow> q \<noteq> 0 \<Longrightarrow> q \<noteq> - 1 \<Longrightarrow> ex s \<noteq> 0 \<Longrightarrow> 65536 \<le> unat (q - ex s) \<or> wait s q \<noteq> None \<Longrightarrow>
      fst (ins now q d s) = [] \<and> ex (snd (ins now q d s)) = ex s \<and> wait (snd (ins now q d s)) = wait s"
begin

text \<open>
  The state when the frames at the offsets \<open>S\<close> from \<open>a\<close> have arrived and those below \<open>k\<close> have left.
\<close>

definition arrived :: "u32 \<Rightarrow> (nat \<Rightarrow> bytes) \<Rightarrow> nat \<Rightarrow> nat set \<Rightarrow> nat \<Rightarrow> 's \<Rightarrow> bool" where
  "arrived a f n S k s \<longleftrightarrow>
     inv s \<and> ex s = a + of_nat k \<and> S \<subseteq> {..<n} \<and> {..<k} \<subseteq> S \<and> k \<notin> S
     \<and> wait s = (\<lambda>q. if unat (q - a) \<in> S \<and> k < unat (q - a) then Some (f (unat (q - a))) else None)"

lemma arrived_step:
  assumes "arrived a f n S k s" "i < n" "i \<notin> S" "a \<noteq> 0" "n \<le> 65536" "unat a + n < 2 ^ 32"
  shows "\<exists>k'. k \<le> k' \<and> fst (ins now (a + of_nat i) (f i) s) = filter (\<lambda>x. x \<noteq> []) (map f [k ..< k'])
    \<and> arrived a f n (insert i S) k' (snd (ins now (a + of_nat i) (f i) s))"
proof -
  let ?q = "a + of_nat i"
  have st: "inv s" "ex s = a + of_nat k" "S \<subseteq> {..<n}" "{..<k} \<subseteq> S" "k \<notin> S"
    "wait s = (\<lambda>q. if unat (q - a) \<in> S \<and> k < unat (q - a) then Some (f (unat (q - a))) else None)"
    using assms(1) by (simp_all add: arrived_def)
  have "k \<le> i" using st(4) assms(3) by (metis lessThan_iff not_le subsetD)
  have un: "unat (a + of_nat j) = unat a + j" if "j \<le> n" for j
    using that assms(6) by (simp add: unat_word_ariths unat_of_nat)
  have q0: "?q \<noteq> 0" "?q \<noteq> - 1"
  proof -
    have "unat a > 0" using assms(4) unat_gt_0 by blast
    then have "unat ?q \<noteq> 0" "unat ?q \<noteq> 2 ^ 32 - 1" using un [of i] assms(2,6) by simp_all
    then show "?q \<noteq> 0" "?q \<noteq> - 1" by (auto simp: unsigned_minus_1_eq_mask mask_eq_exp_minus_1)
  qed
  have e0: "ex s \<noteq> 0"
  proof -
    have "unat (a + of_nat k) = unat a + k" using un [of k] \<open>k \<le> i\<close> assms(2) by simp
    moreover have "unat a > 0" using assms(4) unat_gt_0 by blast
    ultimately show ?thesis unfolding st(2) by (metis add_gr_0 less_irrefl unat_0)
  qed
  have k32: "k < 2 ^ 32" "i < 2 ^ 32" using \<open>k \<le> i\<close> assms(2,5) by simp_all
  have qa: "unat (?q - a) = i" by (rule unat_offset [OF k32(2)])
  have wq: "wait s ?q = None" unfolding st(6) qa using assms(3) by simp
  have keep: "inv (snd (ins now ?q (f i) s))" by (rule ins_inv [OF st(1) q0])
  show ?thesis
  proof (cases "i = k")
    case False
    have d: "unat (?q - ex s) = i - k"
      unfolding st(2) unat_diff_shift [OF k32(1)] qa using \<open>k \<le> i\<close> by simp
    then have ne: "?q \<noteq> ex s" using False \<open>k \<le> i\<close> by (metis diff_is_0_eq diff_self le_antisym unat_0)
    note park = ins_park [OF st(1) q0 e0 ne _ wq, of now "f i"]
    have upd: "(wait s)(?q \<mapsto> f i) =
        (\<lambda>q. if unat (q - a) \<in> insert i S \<and> k < unat (q - a) then Some (f (unat (q - a))) else None)"
    proof
      fix q
      have "unat (q - a) = i \<longleftrightarrow> q = ?q" using qa by (metis add_diff_cancel_left' diff_add_cancel word_unat_eq_iff)
      then show "((wait s)(?q \<mapsto> f i)) q =
          (if unat (q - a) \<in> insert i S \<and> k < unat (q - a) then Some (f (unat (q - a))) else None)"
        using False \<open>k \<le> i\<close> qa by (auto simp: st(6))
    qed
    have "arrived a f n (insert i S) k (snd (ins now ?q (f i) s))"
      using park d assms(2,5) keep st upd False \<open>k \<le> i\<close> by (auto simp: arrived_def)
    then show ?thesis using park d assms(2,5) \<open>k \<le> i\<close> by (intro exI [of _ k]) simp
  next
    case ik: True
    define M where "M = (wait s)(?q \<mapsto> f i)"
    have Moff: "M (a + of_nat j) = (if j \<in> insert k S \<and> k \<le> j then Some (f j) else None)" if "j \<le> n" for j
    proof -
      have j: "j < 2 ^ 32" using that assms(5) by simp
      have "a + of_nat j = ?q \<longleftrightarrow> j = k"
        using unat_offset [OF j, of a] qa ik by (metis add_left_cancel)
      then show ?thesis using ik unat_offset [OF j, of a] st(5) by (auto simp: M_def st(6))
    qed
    define k' where "k' = (LEAST j. k \<le> j \<and> j \<notin> insert k S)"
    have ex: "k \<le> n \<and> n \<notin> insert k S" using st(3) assms(2) ik by auto
    have k': "k \<le> k'" "k' \<notin> insert k S" "k' \<le> n"
      using LeastI [where P = "\<lambda>j. k \<le> j \<and> j \<notin> insert k S", OF ex]
        Least_le [where P = "\<lambda>j. k \<le> j \<and> j \<notin> insert k S", OF ex] by (auto simp: k'_def)
    have run: "j \<in> insert k S" if "k \<le> j" "j < k'" for j
      using not_less_Least [where P = "\<lambda>j. k \<le> j \<and> j \<notin> insert k S"] that unfolding k'_def by blast
    have shift: "?q + of_nat j = a + of_nat (k + j)" for j using ik by (simp add: add.assoc)
    have rl: "run_len M ?q = k' - k"
    proof (rule run_len_eqI)
      show "M (?q + of_nat (k' - k)) = None" unfolding shift using Moff [of k'] k' by simp
      show "M (?q + of_nat j) \<noteq> None" if "j < k' - k" for j
        unfolding shift using Moff [of "k + j"] run [of "k + j"] that k'(3) by simp
    qed
    note del = ins_deliver [OF st(1) q0 _ rl [unfolded M_def], of now, folded M_def]
    have qe: "?q = ex s" using ik st(2) by simp
    have frames: "run_frames M ?q (k' - k) = filter (\<lambda>x. x \<noteq> []) (map f [k ..< k'])"
    proof -
      have "map (\<lambda>j. the (M (?q + of_nat j))) [0 ..< k' - k] = map (\<lambda>j. f (k + j)) [0 ..< k' - k]"
      proof (rule map_cong [OF refl])
        fix j
        assume "j \<in> set [0 ..< k' - k]"
        then show "the (M (?q + of_nat j)) = f (k + j)"
          unfolding shift using Moff [of "k + j"] run [of "k + j"] k'(3) by simp
      qed
      also have "\<dots> = map f [k ..< k']"
        using k'(1) by (intro nth_equalityI) simp_all
      finally show ?thesis by (simp add: run_frames_def)
    qed
    have wait': "drop_run (k' - k) ?q M =
        (\<lambda>q. if unat (q - a) \<in> insert i S \<and> k' < unat (q - a) then Some (f (unat (q - a))) else None)"
    proof
      fix q
      have eq: "q = ?q \<longleftrightarrow> unat (q - a) = k" using qa ik by (metis add_diff_cancel_left' diff_add_cancel word_unat_eq_iff)
      have qd: "unat (q - ?q) = (if k \<le> unat (q - a) then unat (q - a) - k else 2 ^ 32 + unat (q - a) - k)"
        using unat_diff_shift [OF k32(1), of q a] ik by simp
      have Mq: "M q = (if unat (q - a) = k then Some (f k)
          else if unat (q - a) \<in> S \<and> k < unat (q - a) then Some (f (unat (q - a))) else None)"
        using eq ik by (simp add: M_def st(6))
      have far: "\<not> 2 ^ 32 + unat (q - a) - k < k' - k" using k'(3) assms(5) by simp
      show "drop_run (k' - k) ?q M q =
          (if unat (q - a) \<in> insert i S \<and> k' < unat (q - a) then Some (f (unat (q - a))) else None)"
        unfolding drop_run_def qd Mq using k'(1,2) far ik
        by (cases "unat (q - a) < k"; cases "unat (q - a) = k"; cases "unat (q - a) = k'") auto
    qed
    have sub: "{..<k'} \<subseteq> insert i S"
    proof
      fix x
      assume "x \<in> {..<k'}"
      then show "x \<in> insert i S" using st(4) run [of x] ik by (cases "x < k") auto
    qed
    have "arrived a f n (insert i S) k' (snd (ins now ?q (f i) s))"
      using del [OF qe] keep st(3) k' sub wait' assms(2) shift [of "k' - k"]
      by (auto simp: arrived_def ik)
    then show ?thesis using del [OF qe] frames k'(1) by (intro exI [of _ k']) simp
  qed
qed

lemma any_order_from:
  assumes "arrived a f n S k s" "a \<noteq> 0" "n \<le> 65536" "unat a + n < 2 ^ 32"
    and "distinct is" "set is \<inter> S = {}" "set is \<union> S = {..<n}" "length nows = length is"
  shows "\<exists>s'. feed ins (zip nows (map (\<lambda>i. (a + of_nat i, f i)) is)) s
      = (filter (\<lambda>x. x \<noteq> []) (map f [k ..< n]), s') \<and> arrived a f n {..<n} n s'"
  using assms
proof (induction "is" arbitrary: S k s nows)
  case Nil
  then have S: "S = {..<n}" by simp
  then have "k = n" using Nil.prems(1) by (auto simp: arrived_def)
  then show ?case using Nil.prems S by simp
next
  case (Cons i "is")
  obtain now nows' where nw: "nows = now # nows'" using Cons.prems(8) by (cases nows) auto
  have i: "i < n" "i \<notin> S" using Cons.prems(6,7) by auto
  obtain k' where k': "k \<le> k'" "fst (ins now (a + of_nat i) (f i) s) = filter (\<lambda>x. x \<noteq> []) (map f [k ..< k'])"
    "arrived a f n (insert i S) k' (snd (ins now (a + of_nat i) (f i) s))"
    using arrived_step [OF Cons.prems(1) i Cons.prems(2-4)] by blast
  have "k' \<le> n" using k'(3) by (auto simp: arrived_def dest: subset_trans)
  have "\<exists>s'. feed ins (zip nows' (map (\<lambda>i. (a + of_nat i, f i)) is)) (snd (ins now (a + of_nat i) (f i) s))
      = (filter (\<lambda>x. x \<noteq> []) (map f [k' ..< n]), s') \<and> arrived a f n {..<n} n s'"
    by (rule Cons.IH [OF k'(3) Cons.prems(2-4)]) (use Cons.prems nw in auto)
  then obtain s' where s': "feed ins (zip nows' (map (\<lambda>i. (a + of_nat i, f i)) is)) (snd (ins now (a + of_nat i) (f i) s))
      = (filter (\<lambda>x. x \<noteq> []) (map f [k' ..< n]), s')" "arrived a f n {..<n} n s'" by blast
  have "[k ..< n] = [k ..< k'] @ [k' ..< n]" using k'(1) \<open>k' \<le> n\<close> by (metis le_Suc_ex upt_add_eq_append)
  then show ?case using k'(2) s' nw by (auto simp: Let_def split: prod.splits)
qed

theorem any_order:
  assumes "inv s" "ex s = a" "wait s = Map.empty" "a \<noteq> 0" "n \<le> 65536" "unat a + n < 2 ^ 32"
    and "distinct is" "set is = {..<n}" "length nows = length is"
  shows "\<exists>s'. feed ins (zip nows (map (\<lambda>i. (a + of_nat i, f i)) is)) s
      = (filter (\<lambda>x. x \<noteq> []) (map f [0 ..< n]), s')
    \<and> inv s' \<and> ex s' = a + of_nat n \<and> wait s' = Map.empty"
proof -
  have "arrived a f n {} 0 s" using assms by (simp add: arrived_def)
  from any_order_from [OF this assms(4-7) _ _ assms(9)] assms(8) obtain s' where
    s': "feed ins (zip nows (map (\<lambda>i. (a + of_nat i, f i)) is)) s
      = (filter (\<lambda>x. x \<noteq> []) (map f [0 ..< n]), s')" "arrived a f n {..<n} n s'" by auto
  have "wait s' = Map.empty" using s'(2) by (auto simp: arrived_def)
  then show ?thesis using s' by (auto simp: arrived_def)
qed

end

text \<open>The reorder buffer meets the contract.\<close>

lemma rb_inv_exD: "rb_inv rb (pend rb) \<longleftrightarrow> (\<exists>M. rb_inv rb M)"
  using rb_inv_pend by auto

interpretation rb: reorder_contract insert_into "\<lambda>rb. rb_inv rb (pend rb)" expected_seq pend
proof
  fix s :: reorder_buffer and q :: u32 and now d n
  assume inv: "rb_inv s (pend s)" and q: "q \<noteq> 0" "q \<noteq> - 1"
  note sp = insert_into_spec [OF inv q, of now d]
  show "rb_inv (snd (insert_into now q d s)) (pend (snd (insert_into now q d s)))"
    using sp unfolding rb_inv_exD by (auto simp: Let_def split: if_splits)
  show "fst (insert_into now q d s) = [] \<and> expected_seq (snd (insert_into now q d s)) = expected_seq s
      \<and> pend (snd (insert_into now q d s)) = (pend s)(q \<mapsto> d)"
    if "expected_seq s \<noteq> 0" "q \<noteq> expected_seq s" "unat (q - expected_seq s) < 65536" "pend s q = None"
    using sp that rb_inv_pend by (auto simp: learn_def)
  show "fst (insert_into now q d s) = run_frames ((pend s)(q \<mapsto> d)) q n
      \<and> expected_seq (snd (insert_into now q d s)) = q + of_nat n
      \<and> pend (snd (insert_into now q d s)) = drop_run n q ((pend s)(q \<mapsto> d))"
    if "q = expected_seq s" "run_len ((pend s)(q \<mapsto> d)) q = n"
  proof -
    have "pend s q = None" using inv that(1) by (simp add: rb_inv_def)
    then show ?thesis using sp that q rb_inv_pend by (auto simp: learn_def Let_def)
  qed
  show "fst (insert_into now q d s) = [] \<and> expected_seq (snd (insert_into now q d s)) = expected_seq s
      \<and> pend (snd (insert_into now q d s)) = pend s"
    if "expected_seq s \<noteq> 0" "65536 \<le> unat (q - expected_seq s) \<or> pend s q \<noteq> None"
    using sp that rb_inv_pend by (auto simp: learn_def split: if_splits)
qed

subsection \<open>Timeout, reset and direct batches\<close>

lemma find_upt_Some:
  "find P [a ..< b] = Some i \<longleftrightarrow> a \<le> i \<and> i < b \<and> P i \<and> (\<forall>j. a \<le> j \<and> j < i \<longrightarrow> \<not> P j)"
proof (induction "b - a" arbitrary: a)
  case (Suc n)
  then have ab: "[a ..< b] = a # [Suc a ..< b]" by (simp add: upt_conv_Cons)
  have IH: "find P [Suc a ..< b] = Some i \<longleftrightarrow>
      Suc a \<le> i \<and> i < b \<and> P i \<and> (\<forall>j. Suc a \<le> j \<and> j < i \<longrightarrow> \<not> P j)"
    using Suc by simp
  show ?case
  proof (cases "P a")
    case True
    then show ?thesis using Suc.hyps(2) ab by (auto simp: not_less)
  next
    case False
    then show ?thesis unfolding ab using IH by (auto simp: Suc_le_eq) (metis le_neq_implies_less)+
  qed
qed simp

lemma find_upt_None: "find P [a ..< b] = None \<longleftrightarrow> (\<forall>j. a \<le> j \<and> j < b \<longrightarrow> \<not> P j)"
  by (auto simp: find_None_iff)

lemma in_window_shift:
  assumes "in_window w e M" "\<And>j. j < k \<Longrightarrow> M (e + of_nat j) = None" "k < 2 ^ 32"
  shows "in_window w (e + of_nat k) M"
  unfolding in_window_def
proof (intro allI impI)
  fix s
  assume s: "M s \<noteq> None"
  then have b: "s \<noteq> 0" "s \<noteq> - 1" "unat (s - e) < w" using assms(1) by (auto simp: in_window_def)
  have "s = e + of_nat (unat (s - e))" by simp
  then have "k \<le> unat (s - e)" using assms(2) s by (metis not_le)
  then show "s \<noteq> 0 \<and> s \<noteq> - 1 \<and> unat (s - (e + of_nat k)) < w"
    using b unat_diff_shift [OF assms(3), of s e] by simp
qed

lemma flush_timeout_spec:
  assumes inv: "rb_inv rb M" and gap: "gap_since rb = Some since" and due: "REORDER_SKIP_DELAY \<le> now - since"
  shows "\<exists>k out rb'. flush_timeout_into now rb = (out, rb') \<and> 0 < k \<and> k < 65536
    \<and> M (expected_seq rb + of_nat k) \<noteq> None
    \<and> (\<forall>j < k. M (expected_seq rb + of_nat j) = None)
    \<and> (let e = expected_seq rb + of_nat k; n = run_len M e
       in out = run_frames M e n \<and> rb_inv rb' (drop_run n e M) \<and> expected_seq rb' = e + of_nat n)"
proof -
  let ?e = "expected_seq rb"
  obtain q where rep: "rb_rep q rb M" and win: "in_window (2 ^ q) ?e M" using inv by (auto simp: rb_inv_def)
  have e0: "?e \<noteq> 0" and Mne: "M \<noteq> Map.empty" and Me: "M ?e = None"
    using inv gap by (auto simp: rb_inv_def split: if_splits)
  note r = rb_repD [OF rep]
  have q: "(2 :: nat) ^ q \<le> 65536" using power_increasing [OF r(2), of "2 :: nat"] by simp
  have slot: "ring rb ! slot_index rb (?e + of_nat j) = M (?e + of_nat j)" if "j < 2 ^ q" for j
    using rb_rep_slot [OF rep win, of "?e + of_nat j"] that q r(3) by (simp add: unat_of_nat)
  have hg: "has_gap rb"
    using slot [of 0] Me e0 Mne list_ex_bitmap [OF rep] by (simp add: has_gap_def)
  obtain s where s: "M s \<noteq> None" using Mne by (metis ext)
  then have sd: "unat (s - ?e) < 2 ^ q" using win by (auto simp: in_window_def)
  have s0: "0 < unat (s - ?e)" using s Me unat_diff_step(2) [of s ?e] by metis
  have "M (?e + of_nat (unat (s - ?e))) \<noteq> None" using s by simp
  then have "find (\<lambda>j. ring rb ! slot_index rb (?e + of_nat j) \<noteq> None) [1 ..< length (ring rb)] \<noteq> None"
    unfolding find_upt_None r(4) using slot [OF sd] s0 sd by (metis One_nat_def Suc_leI)
  then obtain k where k: "find (\<lambda>j. ring rb ! slot_index rb (?e + of_nat j) \<noteq> None) [1 ..< length (ring rb)] = Some k"
    by blast
  then have k1: "0 < k" "k < 2 ^ q" "M (?e + of_nat k) \<noteq> None"
    and less: "\<And>j. 1 \<le> j \<Longrightarrow> j < k \<Longrightarrow> M (?e + of_nat j) = None"
    using slot unfolding find_upt_Some r(4) by fastforce+
  have less0: "M (?e + of_nat j) = None" if "j < k" for j
    using less [of j] Me that by (cases "j = 0") auto
  define rb1 where "rb1 = rb\<lparr>expected_seq := ?e + of_nat k, gap_since := None,
    rstats := (rstats rb)\<lparr>timeout_flushes := saturating_add (timeout_flushes (rstats rb)) 1,
      skipped_frames := saturating_add (skipped_frames (rstats rb)) (of_nat k)\<rparr>\<rparr>"
  have ft: "flush_timeout_into now rb = flush_locked_into now rb1"
    using gap due hg k by (simp add: flush_timeout_into_def rb1_def)
  have ex1: "expected_seq rb1 = ?e + of_nat k" by (simp add: rb1_def)
  have rep1: "rb_rep q rb1 M" using rep by (simp add: rb_rep_def rb1_def)
  have win1: "in_window (2 ^ q) (expected_seq rb1) M"
    unfolding ex1 by (rule in_window_shift [OF win less0]) (use k1(2) q in simp_all)
  have ne1: "expected_seq rb1 \<noteq> 0" using win k1(3) unfolding ex1 in_window_def by blast
  obtain rb' where "flush_locked_into now rb1 = (run_frames M (expected_seq rb1) (run_len M (expected_seq rb1)), rb')"
    "rb_inv rb' (drop_run (run_len M (expected_seq rb1)) (expected_seq rb1) M)"
    "expected_seq rb' = expected_seq rb1 + of_nat (run_len M (expected_seq rb1))"
    using flush_locked_spec [OF rep1 win1 ne1] by blast
  then show ?thesis using ft k1 less0 q unfolding ex1
    by (intro exI [of _ k] exI [of _ "run_frames M (?e + of_nat k) (run_len M (?e + of_nat k))"] exI [of _ rb'])
      (simp add: Let_def)
qed

lemma flush_timeout_idle:
  assumes "gap_since rb = None \<or> (\<exists>since. gap_since rb = Some since \<and> now - since < REORDER_SKIP_DELAY)"
  shows "flush_timeout_into now rb = ([], rb)"
  using assms by (auto simp: flush_timeout_into_def)

lemma reset_inv: "rb_inv rb M \<Longrightarrow> rb_inv (reorder_reset rb) Map.empty"
proof -
  assume "rb_inv rb M"
  then obtain q where rep: "rb_rep q rb M" by (auto simp: rb_inv_def)
  note r = rb_repD [OF rep]
  have "arr_ok q (map (\<lambda>_. None) (ring rb)) (map (\<lambda>_. 0) (seq_slots rb)) (map (\<lambda>_. 0) (bitmap rb)) Map.empty"
    using arr_ok_empty [OF r(1)] arr_okD(5-7) [OF r(5)] by (simp add: map_replicate_const)
  then have "rb_rep q (reorder_reset rb) Map.empty" using rep by (simp add: rb_rep_def reorder_reset_def)
  then show ?thesis by (auto simp: rb_inv_def in_window_def reorder_reset_def)
qed

lemma insert_next:
  assumes "rb_inv rb Map.empty" "s \<noteq> 0" "s \<noteq> - 1" "expected_seq rb = 0 \<or> expected_seq rb = s"
  shows "\<exists>rb'. insert_into now s d rb = (filter (\<lambda>f. f \<noteq> []) [d], rb')
    \<and> rb_inv rb' Map.empty \<and> expected_seq rb' = s + 1"
proof -
  have l: "learn (expected_seq rb) s = s" using assms(4) by (auto simp: learn_def)
  have r: "run_len [s \<mapsto> d] s = 1" by (rule run_len_eqI) auto
  have f: "run_frames [s \<mapsto> d] s 1 = filter (\<lambda>f. f \<noteq> []) [d]" by (simp add: run_frames_def)
  have "unat (x - s) < 1 \<longleftrightarrow> x = s" for x by (auto simp: unat_eq_zero)
  then have dr: "drop_run 1 s [s \<mapsto> d] = Map.empty" by (auto simp: drop_run_def fun_eq_iff)
  show ?thesis using insert_into_spec [OF assms(1-3), of now d] by (auto simp: l r f dr Let_def simp del: One_nat_def)
qed

lemma direct_run:
  assumes "advance_loop seen e (map fst input) = Some (b, e')" "rb_inv rb Map.empty"
    "\<forall>x \<in> set input. fst x \<noteq> - 1" "length nows = length input"
    "expected_seq rb = e" "seen \<longrightarrow> e \<noteq> 0"
  shows "\<exists>rb'. feed insert_into (zip nows input) rb = (filter (\<lambda>f. f \<noteq> []) (map snd input), rb')
    \<and> rb_inv rb' Map.empty \<and> expected_seq rb' = e'"
  using assms
proof (induction input arbitrary: seen e rb nows)
  case (Cons x input)
  obtain s d where x: "x = (s, d)" by (cases x)
  obtain now nows' where nw: "nows = now # nows'" using Cons.prems(4) by (cases nows) auto
  have s: "s \<noteq> 0" "s \<noteq> - 1" "expected_seq rb = 0 \<or> expected_seq rb = s"
    "advance_loop True (s + 1) (map fst input) = Some (b, e')"
    using Cons.prems x by (auto simp: Let_def split: if_splits)
  obtain rb1 where r1: "insert_into now s d rb = (filter (\<lambda>f. f \<noteq> []) [d], rb1)"
    "rb_inv rb1 Map.empty" "expected_seq rb1 = s + 1"
    using insert_next [OF Cons.prems(2) s(1-3)] by blast
  have "s + 1 \<noteq> 0" using s(2) by (simp only: eq_neg_iff_add_eq_0 [symmetric] not_False_eq_True)
  then obtain rb' where "feed insert_into (zip nows' input) rb1 = (filter (\<lambda>f. f \<noteq> []) (map snd input), rb')"
    "rb_inv rb' Map.empty" "expected_seq rb' = e'"
    using Cons.IH [OF s(4) r1(2), of nows'] Cons.prems(3,4) nw r1(3) by auto
  then show ?case using r1 x nw by auto
qed auto

subsection \<open>Reachable states\<close>

text \<open>
  The sequence number \<open>2 ^ 32 - 1\<close> is excluded: after it the expected number becomes zero,
  which the code reads as not yet learnt.
\<close>

inductive rb_reach :: "reorder_buffer \<Rightarrow> bool" where
  reach_new: "rb_reach reorder_new"
| reach_insert: "rb_reach rb \<Longrightarrow> s \<noteq> - 1 \<Longrightarrow> rb_reach (snd (insert_into now s d rb))"
| reach_timeout: "rb_reach rb \<Longrightarrow> rb_reach (snd (flush_timeout_into now rb))"
| reach_direct: "rb_reach rb \<Longrightarrow> \<forall>x \<in> set input. fst x \<noteq> - 1 \<Longrightarrow>
    try_direct_batch input rb = (b, out, rest, rb') \<Longrightarrow> rb_reach rb'"
| reach_reset: "rb_reach rb \<Longrightarrow> rb_reach (reorder_reset rb)"

lemma insert_zero: "insert_into now 0 d rb = ([], rb)"
  by (simp add: insert_into_def)

lemma insert_inv: "rb_inv rb M \<Longrightarrow> s \<noteq> - 1 \<Longrightarrow> \<exists>M'. rb_inv (snd (insert_into now s d rb)) M'"
  using insert_into_spec [of rb M s now d] insert_zero [of now d rb]
  by (cases "s = 0") (auto simp: Let_def split: if_splits)

lemma timeout_inv: "rb_inv rb M \<Longrightarrow> \<exists>M'. rb_inv (snd (flush_timeout_into now rb)) M'"
  using flush_timeout_spec [of rb M _ now] flush_timeout_idle [of rb now]
  by (cases "gap_since rb") (fastforce simp: Let_def not_le)+

lemma gap_none_empty: "rb_inv rb M \<Longrightarrow> gap_since rb = None \<Longrightarrow> M = Map.empty"
  by (auto simp: rb_inv_def split: if_splits)

lemma advance_loop_nonzero:
  "advance_loop seen e seqs = Some (b, e') \<Longrightarrow> \<forall>s \<in> set seqs. s \<noteq> - 1 \<Longrightarrow> seqs \<noteq> [] \<or> (seen \<and> e \<noteq> 0) \<Longrightarrow> e' \<noteq> 0"
proof (induction seen e seqs rule: advance_loop.induct)
  case (2 seen e s seqs)
  then have "s \<noteq> - 1" "advance_loop True (s + 1) seqs = Some (b, e')"
    "(if \<not> seen \<and> e = 0 then s else e) = s" "s \<noteq> 0"
    by (auto simp: Let_def split: if_splits)
  moreover have "s + 1 \<noteq> 0"
    using \<open>s \<noteq> - 1\<close> by (simp only: eq_neg_iff_add_eq_0 [symmetric] not_False_eq_True)
  ultimately show ?case using 2 by (auto simp: Let_def split: if_splits)
qed simp

lemma direct_inv:
  assumes "rb_inv rb M" "\<forall>x \<in> set input. fst x \<noteq> - 1" "try_direct_batch input rb = (b, out, rest, rb')"
  shows "\<exists>M'. rb_inv rb' M'"
proof (cases "rb' = rb")
  case False
  then obtain e where a: "advance_loop False (expected_seq rb) (map fst input) = Some (True, e)"
    and g: "gap_since rb = None" and rb': "rb' = rb\<lparr>expected_seq := e\<rparr>"
    using assms(3) by (auto simp: try_direct_batch_def try_advance_sequences_def split: if_splits option.splits prod.splits bool.splits)
  have M: "M = Map.empty" by (rule gap_none_empty [OF assms(1) g])
  have "input \<noteq> []" using a by auto
  then have "e \<noteq> 0" using advance_loop_nonzero [OF a] assms(2) by auto
  then show ?thesis using assms(1) g M
    by (intro exI [of _ Map.empty]) (auto simp: rb_inv_def rb' rb_rep_def in_window_def)
qed (use assms(1) in auto)

lemma rb_reach_inv: "rb_reach rb \<Longrightarrow> rb_inv rb (pend rb)"
  unfolding rb_inv_exD
proof (induction rule: rb_reach.induct)
  case reach_new
  then show ?case using rb_inv_new by blast
next
  case (reach_insert rb s now d)
  then show ?case using insert_inv by blast
next
  case (reach_timeout rb now)
  then show ?case using timeout_inv by blast
next
  case (reach_direct rb input b out rest rb')
  then show ?case using direct_inv by blast
next
  case (reach_reset rb)
  then show ?case using reset_inv by blast
qed

subsection \<open>Properties\<close>

text \<open>A reachable state that expects number 5, for the witnesses.\<close>

definition sample_rb :: reorder_buffer where
  "sample_rb = reorder_new\<lparr>expected_seq := 5\<rparr>"

lemma sample_rb_reach: "rb_reach sample_rb"
proof -
  have "try_direct_batch [(4, [1])] reorder_new = (True, [[1]], [], sample_rb)"
    by (simp add: try_direct_batch_def try_advance_sequences_def reorder_new_def sample_rb_def Let_def)
  then show ?thesis using reach_direct [OF reach_new, of "[(4, [1])]"] by simp
qed

lemma sample_rb_inv: "rb_inv sample_rb Map.empty"
  using rb_inv_new by (auto simp: rb_inv_def sample_rb_def reorder_new_def rb_rep_def in_window_def)

lemma sample_rb_pend: "pend sample_rb = Map.empty"
  by (rule rb_inv_pend [OF sample_rb_inv])





text \<open>
  C21. The gap timeout: in every reachable state with a gap older than 50 ms,
  \<open>flush_timeout_into\<close> skips exactly the missing numbers up to the nearest waiting frame,
  delivers the whole consecutive run from there in order, and keeps every frame beyond the
  run; before the deadline, or without a gap, it changes nothing.
\<close>
theorem reorder_timeout_skips_gap:
  assumes "rb_reach rb" "gap_since rb = Some since"
  shows "if REORDER_SKIP_DELAY \<le> now - since then
      \<exists>k out rb'. flush_timeout_into now rb = (out, rb') \<and> 0 < k \<and> k < 65536
        \<and> pend rb (expected_seq rb + of_nat k) \<noteq> None
        \<and> (\<forall>j < k. pend rb (expected_seq rb + of_nat j) = None)
        \<and> (let e = expected_seq rb + of_nat k; n = run_len (pend rb) e
           in out = run_frames (pend rb) e n \<and> pend rb' = drop_run n e (pend rb)
              \<and> expected_seq rb' = e + of_nat n)
    else flush_timeout_into now rb = ([], rb)"
proof (cases "REORDER_SKIP_DELAY \<le> now - since")
  case True
  obtain k out rb' where "flush_timeout_into now rb = (out, rb')" "0 < k" "k < 65536"
    "pend rb (expected_seq rb + of_nat k) \<noteq> None" "\<forall>j < k. pend rb (expected_seq rb + of_nat j) = None"
    "let e = expected_seq rb + of_nat k; n = run_len (pend rb) e
     in out = run_frames (pend rb) e n \<and> rb_inv rb' (drop_run n e (pend rb)) \<and> expected_seq rb' = e + of_nat n"
    using flush_timeout_spec [OF rb_reach_inv [OF assms(1)] assms(2) True] by blast
  then show ?thesis using True rb_inv_pend by (auto simp: Let_def)
next
  case False
  then show ?thesis using flush_timeout_idle [of rb now] assms(2) by auto
qed

theorem reorder_timeout_skips_gap_witness:
  "let rb = snd (insert_into 0 7 [1] sample_rb); since = the (gap_since rb)
   in \<exists>k out rb'. flush_timeout_into (since + REORDER_SKIP_DELAY) rb = (out, rb') \<and> 0 < k
        \<and> pend rb (expected_seq rb + of_nat k) \<noteq> None"
proof -
  let ?rb = "snd (insert_into 0 7 [1] sample_rb)"
  have r: "rb_reach ?rb" by (rule reach_insert [OF sample_rb_reach]) simp
  have "rb_inv ?rb [7 \<mapsto> [1]]"
    using insert_into_spec [OF sample_rb_inv, of 7 0 "[1]"] by (auto simp: learn_def sample_rb_def)
  then have "gap_since ?rb \<noteq> None" by (auto simp: rb_inv_def split: if_splits)
  then have g: "gap_since ?rb = Some (the (gap_since ?rb))" by simp
  show ?thesis
    using reorder_timeout_skips_gap [OF r g, of "the (gap_since ?rb) + REORDER_SKIP_DELAY"]
    by (simp add: Let_def) blast
qed

text \<open>
  C22. The direct path for an in-order burst is equivalent to inserting its frames one by one:
  when \<open>try_direct_batch\<close> accepts, it hands out the same frames, consumes the input and
  leaves the same expected number with nothing waiting; when it refuses, buffer and input are
  unchanged.
\<close>
theorem direct_batch_equals_insert:
  assumes "rb_reach rb" "\<forall>x \<in> set input. fst x \<noteq> - 1" "length nows = length input"
    "try_direct_batch input rb = (b, out, rest, rb')"
  shows "if b then
      \<exists>rb''. feed insert_into (zip nows input) rb = (out, rb'') \<and> rest = []
        \<and> expected_seq rb' = expected_seq rb'' \<and> pend rb' = Map.empty \<and> pend rb'' = Map.empty
    else out = [] \<and> rest = input \<and> rb' = rb"
proof (cases b)
  case False
  then show ?thesis using assms(4)
    by (auto simp: try_direct_batch_def try_advance_sequences_def split: if_splits option.splits prod.splits bool.splits)
next
  case True
  then obtain e where a: "advance_loop False (expected_seq rb) (map fst input) = Some (True, e)"
    and g: "gap_since rb = None" and rb': "rb' = rb\<lparr>expected_seq := e\<rparr>"
    and out: "out = filter (\<lambda>f. f \<noteq> []) (map snd input)" "rest = []"
    using assms(4) by (auto simp: try_direct_batch_def try_advance_sequences_def split: if_splits option.splits prod.splits bool.splits)
  note inv = rb_reach_inv [OF assms(1)]
  have em: "pend rb = Map.empty" by (rule gap_none_empty [OF inv g])
  obtain rb'' where "feed insert_into (zip nows input) rb = (out, rb'')" "rb_inv rb'' Map.empty" "expected_seq rb'' = e"
    using direct_run [OF a, of rb nows] inv em assms(2,3) out by auto
  moreover have "pend rb' = pend rb" by (simp add: rb' pend_def fun_eq_iff slot_index_def)
  ultimately show ?thesis using True out rb' em rb_inv_pend by auto
qed

theorem direct_batch_equals_insert_witness:
  "\<exists>rb''. feed insert_into (zip [0, 0] [(5, [1]), (6, [2])]) sample_rb = ([[1], [2]], rb'')"
proof -
  have d: "try_direct_batch [(5, [1]), (6, [2])] sample_rb = (True, [[1], [2]], [], sample_rb\<lparr>expected_seq := 7\<rparr>)"
    by (simp add: try_direct_batch_def try_advance_sequences_def sample_rb_def reorder_new_def Let_def)
  show ?thesis using direct_batch_equals_insert [OF sample_rb_reach _ _ d, of "[0, 0]"] by auto
qed

end
