(* ===== verification/Fec_Xor.thy ===== *)
theory Fec_Xor
  imports Tlsvpn_Prelude "HOL-Library.Numeral_Type"
begin

text \<open>
  Model of the XOR kernels of \<open>src/src/fec.rs\<close> and their equivalence with a bytewise
  reference. A register load, XOR and store of width \<open>w\<close> is \<open>lane_xor\<close> at the word type of
  that width (little-endian, as the targets are); the kernels are the loops over lanes with
  the tails the code has. \<open>None\<close> is the panic (or, for raw loads, the undefined access) of an
  accumulator shorter than the data.
\<close>

subsection \<open>Kernels\<close>

primrec le_enc :: "nat \<Rightarrow> nat \<Rightarrow> bytes" where
  "le_enc 0 x = []"
| "le_enc (Suc n) x = of_nat x # le_enc n (x div 256)"

primrec le_dec :: "bytes \<Rightarrow> nat" where
  "le_dec [] = 0"
| "le_dec (b # bs) = unat b + 256 * le_dec bs"

definition lane_xor :: "'a::len itself \<Rightarrow> bytes \<Rightarrow> bytes \<Rightarrow> bytes" where
  "lane_xor T a d =
     le_enc (LENGTH('a) div 8) (unat ((of_nat (le_dec a) :: 'a word) XOR of_nat (le_dec d)))"

fun xor_lanes :: "(bytes \<Rightarrow> bytes \<Rightarrow> bytes) \<Rightarrow> nat \<Rightarrow> nat \<Rightarrow> bytes \<Rightarrow> bytes \<Rightarrow> bytes" where
  "xor_lanes f w 0 a d = []"
| "xor_lanes f w (Suc m) a d = f (take w a) (take w d) @ xor_lanes f w m (drop w a) (drop w d)"

text \<open>The bytewise loop \<open>for (a, d) in acc.iter_mut().zip(data)\<close>: the reference.\<close>

definition xor_zip :: "bytes \<Rightarrow> bytes \<Rightarrow> bytes" where
  "xor_zip acc data = map2 (XOR) acc data @ drop (length data) acc"

definition xor_into_u64 :: "bytes \<Rightarrow> bytes \<Rightarrow> bytes option" where
  "xor_into_u64 acc data =
     (let n8 = length data div 8
      in if length acc < n8 * 8 then None
         else Some (xor_lanes (lane_xor TYPE(64)) 8 n8 (take (n8 * 8) acc) (take (n8 * 8) data)
                    @ xor_zip (drop (n8 * 8) acc) (drop (n8 * 8) data)))"

definition xor_into_avx2 :: "bytes \<Rightarrow> bytes \<Rightarrow> bytes option" where
  "xor_into_avx2 acc data =
     (let n32 = length data div 32; tail_start = n32 * 32
      in if length acc < tail_start then None
         else
           let rest = drop tail_start acc; dtail = drop tail_start data; n8 = length dtail div 8
           in if length rest < n8 * 8 then None
              else Some (xor_lanes (lane_xor TYPE(256)) 32 n32 acc data
                         @ xor_lanes (lane_xor TYPE(64)) 8 n8 rest dtail
                         @ xor_zip (drop (n8 * 8) rest) (drop (n8 * 8) dtail)))"

definition xor_into_neon :: "bytes \<Rightarrow> bytes \<Rightarrow> bytes option" where
  "xor_into_neon acc data =
     (let n = min (length acc) (length data); n16 = n div 16; i = n16 * 16
      in Some (xor_lanes (lane_xor TYPE(128)) 16 n16 acc data
               @ xor_zip (slice i (n - i) acc) (slice i (n - i) data) @ drop n acc))"

definition xor_combine_u64 :: "bytes \<Rightarrow> bytes \<Rightarrow> bytes \<Rightarrow> bytes" where
  "xor_combine_u64 out parity acc =
     (let n = min (min (length out) (length parity)) (length acc); n8 = n div 8
      in xor_lanes (lane_xor TYPE(64)) 8 n8 parity acc
         @ map2 (XOR) (slice (n8 * 8) (n - n8 * 8) parity) (slice (n8 * 8) (n - n8 * 8) acc)
         @ drop n out)"

definition xor_combine_avx2 :: "bytes \<Rightarrow> bytes \<Rightarrow> bytes \<Rightarrow> bytes" where
  "xor_combine_avx2 out parity acc =
     (let n = min (min (length out) (length parity)) (length acc); n32 = n div 32; t = n32 * 32
      in xor_lanes (lane_xor TYPE(256)) 32 n32 parity acc
         @ map2 (XOR) (slice t (n - t) parity) (slice t (n - t) acc)
         @ drop n out)"

definition xor_combine_neon :: "bytes \<Rightarrow> bytes \<Rightarrow> bytes \<Rightarrow> bytes" where
  "xor_combine_neon out parity acc =
     (let n = min (min (length out) (length parity)) (length acc); n16 = n div 16; i = n16 * 16
      in xor_lanes (lane_xor TYPE(128)) 16 n16 parity acc
         @ map2 (XOR) (slice i (n - i) parity) (slice i (n - i) acc)
         @ drop n out)"

text \<open>The target and the run-time feature detection.\<close>

datatype cpu = X86_Avx2 | X86_Plain | Aarch64 | Other_Cpu

fun xor_into :: "cpu \<Rightarrow> bytes \<Rightarrow> bytes \<Rightarrow> bytes option" where
  "xor_into X86_Avx2 acc data = xor_into_avx2 acc data"
| "xor_into X86_Plain acc data = xor_into_u64 acc data"
| "xor_into Aarch64 acc data = xor_into_neon acc data"
| "xor_into Other_Cpu acc data = xor_into_u64 acc data"

fun xor_combine :: "cpu \<Rightarrow> bytes \<Rightarrow> bytes \<Rightarrow> bytes \<Rightarrow> bytes" where
  "xor_combine X86_Avx2 out parity acc = xor_combine_avx2 out parity acc"
| "xor_combine X86_Plain out parity acc = xor_combine_u64 out parity acc"
| "xor_combine Aarch64 out parity acc = xor_combine_neon out parity acc"
| "xor_combine Other_Cpu out parity acc = xor_combine_u64 out parity acc"

subsection \<open>A lane is a bytewise XOR\<close>

lemma length_le_enc [simp]: "length (le_enc n x) = n"
  by (induction n arbitrary: x) auto

lemma le_dec_bound: "le_dec bs < 256 ^ length bs"
proof (induction bs)
  case (Cons b bs)
  have "unat b < 256" using unsigned_less [of b] by simp
  then show ?case using Cons by simp
qed simp

lemma xor_split_byte:
  assumes "x < 256" "y < (256 :: nat)"
  shows "(x + 256 * u) XOR (y + 256 * v) = (x XOR y) + 256 * (u XOR v)" "x XOR y < 256"
proof -
  let ?A = "x + 256 * u" and ?B = "y + 256 * v"
  have t: "take_bit 8 ?A = x" "take_bit 8 ?B = y" "drop_bit 8 ?A = u" "drop_bit 8 ?B = v"
    using assms by (simp_all add: take_bit_eq_mod drop_bit_eq_div)
  have tx: "take_bit 8 (?A XOR ?B) = x XOR y" by (simp only: take_bit_xor t)
  have dx: "drop_bit 8 (?A XOR ?B) = u XOR v" by (simp only: drop_bit_xor t)
  have "?A XOR ?B = push_bit 8 (drop_bit 8 (?A XOR ?B)) + take_bit 8 (?A XOR ?B)"
    by (simp only: bits_ident)
  also have "\<dots> = (x XOR y) + 256 * (u XOR v)" unfolding tx dx by (simp add: push_bit_eq_mult)
  finally show "?A XOR ?B = (x XOR y) + 256 * (u XOR v)" .
  have "take_bit 8 (?A XOR ?B) < 2 ^ 8" by (rule take_bit_nat_less_exp)
  then show "x XOR y < 256" unfolding tx by simp
qed

lemma le_enc_xor:
  "length a = length d \<Longrightarrow> le_enc (length a) (le_dec a XOR le_dec d) = map2 (XOR) a d"
proof (induction a d rule: list_induct2)
  case (Cons x xs y ys)
  have b: "unat x < 256" "unat y < 256" using unsigned_less [of x] unsigned_less [of y] by simp_all
  have w: "(of_nat (unat x XOR unat y) :: u8) = x XOR y"
    by (simp add: unsigned_xor_eq [symmetric])
  note s = xor_split_byte(1) [OF b, of "le_dec xs" "le_dec ys"] xor_split_byte(2) [OF b]
  have "(of_nat ((unat x XOR unat y) + 256 * (le_dec xs XOR le_dec ys)) :: u8) = of_nat (unat x XOR unat y)"
    by (simp only: word_unat_eq_iff unat_of_nat) (simp add: mod_mult_self2)
  moreover have "((unat x XOR unat y) + 256 * (le_dec xs XOR le_dec ys)) div 256 = le_dec xs XOR le_dec ys"
    using s(2) by simp
  ultimately show ?case using Cons.IH s(1) w by (simp del: of_nat_add of_nat_mult)
qed simp

lemma lane_xor_bytes:
  assumes "8 dvd LENGTH('a::len)" "length a = LENGTH('a) div 8" "length d = LENGTH('a) div 8"
  shows "lane_xor TYPE('a) a d = map2 (XOR) a d"
proof -
  have p: "(256 :: nat) ^ (LENGTH('a) div 8) = 2 ^ LENGTH('a)"
  proof -
    obtain m where m: "LENGTH('a) = 8 * m" using assms(1) by blast
    have "(2 :: nat) ^ (8 * m) = (2 ^ 8) ^ m" by (rule power_mult)
    then show ?thesis by (simp add: m)
  qed
  have u: "unat (of_nat (le_dec x) :: 'a word) = le_dec x" if "length x = LENGTH('a) div 8" for x
    using le_dec_bound [of x] that p by (simp add: unat_of_nat)
  have "lane_xor TYPE('a) a d = le_enc (length a) (le_dec a XOR le_dec d)"
    unfolding lane_xor_def by (simp add: unsigned_xor_eq u assms(2,3))
  then show ?thesis using le_enc_xor [of a d] assms(2,3) by simp
qed

lemma xor_lanes_bytes:
  assumes "\<And>a d. length a = w \<Longrightarrow> length d = w \<Longrightarrow> f a d = map2 (XOR) a d"
  shows "m * w \<le> length a \<Longrightarrow> m * w \<le> length d \<Longrightarrow>
    xor_lanes f w m a d = map2 (XOR) (take (m * w) a) (take (m * w) d)"
proof (induction m arbitrary: a d)
  case (Suc m)
  have s: "map2 (XOR) (take (w + m * w) a) (take (w + m * w) d) =
      map2 (XOR) (take w a) (take w d) @ map2 (XOR) (take (m * w) (drop w a)) (take (m * w) (drop w d))"
    using Suc.prems by (simp add: take_add zip_append)
  have "f (take w a) (take w d) = map2 (XOR) (take w a) (take w d)"
    using Suc.prems by (intro assms) auto
  then show ?case using Suc s by simp
qed simp

lemma lanes:
  "m * 8 \<le> length a \<Longrightarrow> m * 8 \<le> length d \<Longrightarrow>
   xor_lanes (lane_xor TYPE(64)) 8 m a d = map2 (XOR) (take (m * 8) a) (take (m * 8) d)"
  "m * 16 \<le> length a \<Longrightarrow> m * 16 \<le> length d \<Longrightarrow>
   xor_lanes (lane_xor TYPE(128)) 16 m a d = map2 (XOR) (take (m * 16) a) (take (m * 16) d)"
  "m * 32 \<le> length a \<Longrightarrow> m * 32 \<le> length d \<Longrightarrow>
   xor_lanes (lane_xor TYPE(256)) 32 m a d = map2 (XOR) (take (m * 32) a) (take (m * 32) d)"
  by (rule xor_lanes_bytes; simp add: lane_xor_bytes)+

subsection \<open>Every kernel computes the reference\<close>

lemma length_xor_zip [simp]: "length (xor_zip a d) = length a"
  by (simp add: xor_zip_def)

lemma xor_zip_split:
  assumes "n \<le> length a" "n \<le> length d"
  shows "map2 (XOR) (take n a) (take n d) @ xor_zip (drop n a) (drop n d) = xor_zip a d"
proof -
  have "map2 (XOR) a d = map2 (XOR) (take n a @ drop n a) (take n d @ drop n d)" by simp
  also have "\<dots> = map2 (XOR) (take n a) (take n d) @ map2 (XOR) (drop n a) (drop n d)"
    using assms by (simp only: zip_append length_take min_absorb2 map_append)
  finally show ?thesis using assms by (simp add: xor_zip_def)
qed

lemma xor_into_u64_ref: "length data \<le> length acc \<Longrightarrow> xor_into_u64 acc data = Some (xor_zip acc data)"
proof -
  assume l: "length data \<le> length acc"
  have n: "length data div 8 * 8 \<le> length data" by simp
  then have "length data div 8 * 8 \<le> length acc" using l by (rule order_trans)
  then show ?thesis
    unfolding xor_into_u64_def Let_def using n xor_zip_split [of "length data div 8 * 8" acc data]
    by (simp add: lanes(1))
qed

lemma xor_into_avx2_ref: "length data \<le> length acc \<Longrightarrow> xor_into_avx2 acc data = Some (xor_zip acc data)"
proof -
  assume l: "length data \<le> length acc"
  define t where "t = length data div 32 * 32"
  have t: "t \<le> length data" "t \<le> length acc" using l by (simp_all add: t_def)
  let ?n8 = "length (drop t data) div 8"
  have n8a: "?n8 * 8 \<le> length (drop t data)" by (rule div_times_less_eq_dividend)
  have "length (drop t data) \<le> length (drop t acc)" using l by simp
  note n8 = n8a order_trans [OF n8a this]
  have a: "xor_lanes (lane_xor TYPE(256)) 32 (length data div 32) acc data = map2 (XOR) (take t acc) (take t data)"
    unfolding t_def by (rule lanes(3)) (use t in \<open>simp_all add: t_def\<close>)
  have b: "xor_lanes (lane_xor TYPE(64)) 8 ?n8 (drop t acc) (drop t data) =
      map2 (XOR) (take (?n8 * 8) (drop t acc)) (take (?n8 * 8) (drop t data))"
    by (rule lanes(1)) (use n8 in simp_all)
  have "xor_into_avx2 acc data = Some (map2 (XOR) (take t acc) (take t data)
      @ map2 (XOR) (take (?n8 * 8) (drop t acc)) (take (?n8 * 8) (drop t data))
      @ xor_zip (drop (?n8 * 8) (drop t acc)) (drop (?n8 * 8) (drop t data)))"
    unfolding xor_into_avx2_def Let_def t_def [symmetric] a b using t n8 by simp
  then show ?thesis
    using xor_zip_split [OF n8(2,1)] xor_zip_split [OF t(2,1)] by simp
qed

lemma xor_into_neon_ref: "length data \<le> length acc \<Longrightarrow> xor_into_neon acc data = Some (xor_zip acc data)"
proof -
  assume l: "length data \<le> length acc"
  define i where "i = length data div 16 * 16"
  have i: "i \<le> length data" "i \<le> length acc" using l by (simp_all add: i_def)
  have a: "xor_lanes (lane_xor TYPE(128)) 16 (length data div 16) acc data = map2 (XOR) (take i acc) (take i data)"
    unfolding i_def by (rule lanes(2)) (use i in \<open>simp_all add: i_def\<close>)
  have n: "min (length acc) (length data) = length data" using l by simp
  have "xor_zip (slice i (length data - i) acc) (slice i (length data - i) data) @ drop (length data) acc
      = xor_zip (drop i acc) (drop i data)"
  proof -
    have "zip (take (length data - i) (drop i acc)) (drop i data) = take (length data - i) (zip (drop i acc) (drop i data))"
      by (simp add: take_zip)
    then have "zip (take (length data - i) (drop i acc)) (drop i data) = zip (drop i acc) (drop i data)" by simp
    then show ?thesis using i l by (simp add: xor_zip_def slice_def)
  qed
  then show ?thesis
    unfolding xor_into_neon_def n Let_def i_def [symmetric] a using xor_zip_split [OF i(2,1)] by simp
qed

lemma xor_into_ref: "length data \<le> length acc \<Longrightarrow> xor_into cpu acc data = Some (xor_zip acc data)"
  by (cases cpu) (simp_all add: xor_into_u64_ref xor_into_avx2_ref xor_into_neon_ref)

definition xor_combine_ref :: "bytes \<Rightarrow> bytes \<Rightarrow> bytes \<Rightarrow> bytes" where
  "xor_combine_ref out parity acc =
     (let n = min (min (length out) (length parity)) (length acc)
      in map2 (XOR) (take n parity) (take n acc) @ drop n out)"

lemma map2_split:
  assumes "i \<le> n" "n \<le> length p" "n \<le> length a"
  shows "map2 (XOR) (take i p) (take i a) @ map2 (XOR) (slice i (n - i) p) (slice i (n - i) a) =
    map2 (XOR) (take n p) (take n (a :: bytes))"
proof -
  have "take n xs = take i xs @ slice i (n - i) xs" for xs :: bytes
    using assms(1) by (simp add: slice_def flip: take_add)
  then show ?thesis using assms by (simp add: zip_append)
qed

lemma xor_combine_eq: "xor_combine cpu out parity acc = xor_combine_ref out parity acc"
proof -
  define n where "n = min (min (length out) (length parity)) (length acc)"
  have n: "n \<le> length parity" "n \<le> length acc" by (simp_all add: n_def)
  have le: "n div w * w \<le> n" for w by simp
  have l: "n div w * w \<le> length parity" "n div w * w \<le> length acc" for w
    using n le [of w] by (meson le_trans)+
  have "xor_combine_u64 out parity acc = xor_combine_ref out parity acc"
    unfolding xor_combine_u64_def xor_combine_ref_def Let_def n_def [symmetric]
    using lanes(1) [OF l] map2_split [OF le n, of 8] by simp
  moreover have "xor_combine_avx2 out parity acc = xor_combine_ref out parity acc"
    unfolding xor_combine_avx2_def xor_combine_ref_def Let_def n_def [symmetric]
    using lanes(3) [OF l] map2_split [OF le n, of 32] by simp
  moreover have "xor_combine_neon out parity acc = xor_combine_ref out parity acc"
    unfolding xor_combine_neon_def xor_combine_ref_def Let_def n_def [symmetric]
    using lanes(2) [OF l] map2_split [OF le n, of 16] by simp
  ultimately show ?thesis by (cases cpu) simp_all
qed

text \<open>
  C26. The optimised XOR kernels are equivalent to the bytewise loop: on every target (AVX2,
  NEON, 64-bit fallback) and for all lengths with the data no longer than the accumulator,
  \<open>xor_into\<close> XORs the data into the front of the accumulator and leaves the rest, and
  \<open>xor_combine\<close> writes the bytewise XOR over the common length and leaves the rest.
\<close>
theorem xor_kernels_equal_reference:
  assumes "length data \<le> length acc"
  shows "xor_into cpu acc data = Some (map2 (XOR) acc data @ drop (length data) acc)
    \<and> xor_combine cpu out parity acc' = xor_combine_ref out parity acc'"
  using assms by (simp add: xor_into_ref xor_combine_eq xor_zip_def)

theorem xor_kernels_equal_reference_witness:
  "xor_into X86_Avx2 [1, 2, 3] [255, 2] = Some [254, 0, 3]"
  using xor_kernels_equal_reference [of "[255, 2]" "[1, 2, 3]" X86_Avx2] by simp

end
