(* ===== verification/Fec.thy ===== *)
theory Fec
  imports Protocol Crypto Fec_Xor "HOL-Library.AList"
begin

text \<open>
  Model of the encoder and decoder of \<open>src/src/fec.rs\<close>. The decoder's \<open>HashMap\<close> of groups is
  an association list (its iteration order is never observed), its atomics and mutex-guarded
  fields are fields of one record. The locked operations take the value the reorder-progress
  closure returns (\<open>None\<close>: not installed) as the argument \<open>progress\<close>, the actor operations the
  argument \<open>reorder_expected\<close> as in the code. \<open>cpu\<close> selects the XOR kernel. Frame pools do not
  change contents, so \<open>acquire_frame_vec n\<close> is \<open>n\<close> zero bytes.
\<close>

subsection \<open>Encoder\<close>

definition FEC_MIN_GROUP :: nat where "FEC_MIN_GROUP = 2"
definition FEC_MAX_GROUP :: nat where "FEC_MAX_GROUP = 64"
definition FEC_MAX_PENDING_GROUPS :: nat where "FEC_MAX_PENDING_GROUPS = 512"
definition FEC_DONE_CACHE :: nat where "FEC_DONE_CACHE = 256"

definition clamp_fec_group :: "nat \<Rightarrow> nat" where
  "clamp_fec_group k = clamp FEC_MIN_GROUP FEC_MAX_GROUP k"

definition normalize_fec_group_bounds :: "int \<Rightarrow> int \<Rightarrow> int \<times> int" where
  "normalize_fec_group_bounds mn mx =
     (if mn = 0 then int FEC_MIN_GROUP else mn, if mx = 0 then int FEC_MAX_GROUP else mx)"

definition is_parity_frame :: "bytes \<Rightarrow> bool" where
  "is_parity_frame frame \<longleftrightarrow> length frame \<ge> 7 \<and> frame ! 0 = CONTROL_KIND_FEC_PARITY"

record fec_encoder =
  fe_k :: nat
  fe_seqs :: "u32 list"
  fe_lens :: "nat list"
  fe_acc :: bytes
  fe_active_len :: nat
  fe_ic :: "inner_cipher option"
  fe_parity_sent :: u64
  fe_multipath :: bool
  fe_armed :: bool

definition encoder_new :: "nat \<Rightarrow> inner_cipher option \<Rightarrow> fec_encoder" where
  "encoder_new k ic =
     \<lparr>fe_k = clamp_fec_group k, fe_seqs = [], fe_lens = [], fe_acc = [], fe_active_len = 0, fe_ic = ic,
      fe_parity_sent = 0, fe_multipath = True, fe_armed = True\<rparr>"

definition encoder_armed :: "fec_encoder \<Rightarrow> bool" where
  "encoder_armed e \<longleftrightarrow> fe_multipath e \<and> fe_armed e"

definition encoder_reset :: "fec_encoder \<Rightarrow> fec_encoder" where
  "encoder_reset e =
     e\<lparr>fe_seqs := [], fe_lens := [],
       fe_acc := replicate (fe_active_len e) 0 @ drop (fe_active_len e) (fe_acc e), fe_active_len := 0\<rparr>"

definition set_physical_path_count :: "fec_encoder \<Rightarrow> nat \<Rightarrow> fec_encoder" where
  "set_physical_path_count e paths =
     (let multipath = (paths \<ge> 2)
      in if multipath = fe_multipath e then e
         else
           let e1 = e\<lparr>fe_multipath := multipath\<rparr>
           in if \<not> multipath then
                (let e2 = (if fe_seqs e1 \<noteq> [] \<or> fe_active_len e1 \<noteq> 0 then encoder_reset e1 else e1)
                 in e2\<lparr>fe_armed := False\<rparr>)
              else e1\<lparr>fe_armed := False\<rparr>)"

definition build_parity :: "crypto_lib \<Rightarrow> fec_encoder \<Rightarrow> bytes option" where
  "build_parity L e =
     (let max_len = fe_active_len e;
          tlen = (case fe_ic e of Some c \<Rightarrow> tag_len c | None \<Rightarrow> 0);
          start = fe_seqs e ! 0;
          desc = [CONTROL_KIND_FEC_PARITY] @ be32 start @ [of_nat (length (fe_lens e))]
                 @ concat (map (\<lambda>l. be32 (of_nat l)) (fe_lens e));
          body = take max_len (fe_acc e) @ replicate tlen 0
      in case fe_ic e of
           None \<Rightarrow> Some (desc @ body)
         | Some ic \<Rightarrow>
             map_option (\<lambda>b. desc @ b)
               (seal_in_place L ic body max_len start (of_nat (max_len + tlen))))"

text \<open>
  \<open>add\<close>: the parity frame that got ready, if any, and the new state. A panic of the XOR or the
  seal leaves the state as it is; the accumulator is resized before, so neither occurs.
\<close>

definition encoder_add ::
  "cpu \<Rightarrow> crypto_lib \<Rightarrow> fec_encoder \<Rightarrow> u32 \<Rightarrow> bytes \<Rightarrow> bytes option \<times> fec_encoder" where
  "encoder_add cpu L e seq data =
     (if data = [] \<or> \<not> fe_multipath e then (None, e)
      else if \<not> fe_armed e \<and> (seq = 0 \<or> (seq - 1) mod of_nat (fe_k e) \<noteq> 0) then (None, e)
      else
        let e1 = e\<lparr>fe_armed := True, fe_seqs := fe_seqs e @ [seq], fe_lens := fe_lens e @ [length data]\<rparr>;
            acc1 = fe_acc e1 @ replicate (length data - length (fe_acc e1)) 0
        in case xor_into cpu (take (length data) acc1) data of
             None \<Rightarrow> (None, e)
           | Some x \<Rightarrow>
               let e2 = e1\<lparr>fe_acc := x @ drop (length data) acc1,
                           fe_active_len := max (fe_active_len e1) (length data)\<rparr>
               in if length (fe_seqs e2) < fe_k e2 then (None, e2)
                  else case build_parity L e2 of
                    None \<Rightarrow> (None, e)
                  | Some parity \<Rightarrow>
                      (Some parity,
                       encoder_reset (e2\<lparr>fe_parity_sent := saturating_add (fe_parity_sent e2) 1\<rparr>)))"

subsection \<open>Decoder state\<close>

record fec_group =
  g_k :: nat
  g_lens :: "nat list"
  g_got :: u64
  g_acc :: bytes
  g_parity :: "bytes option"

record fec_decoder =
  fd_k :: nat
  fd_full_mask :: u64
  fd_static_single :: bool
  fd_fence :: fec_rx_fence
  fd_cleanup_before :: u32
  fd_retired_before :: u32
  fd_ic :: "inner_cipher option"
  fd_groups :: "(u32 \<times> fec_group) list"
  fd_done :: "u32 list"
  fd_recovered :: u64
  fd_lost :: u64

datatype fec_error =
    Fec_Proto proto_error
  | Parity_Header
  | Parity_Start u32 nat
  | Parity_Truncated
  | Parity_Member_Length
  | Parity_Aead

definition decoder_new :: "nat \<Rightarrow> inner_cipher option \<Rightarrow> fec_decoder" where
  "decoder_new k ic =
     (let k' = clamp_fec_group k
      in \<lparr>fd_k = k', fd_full_mask = (if k' = 64 then - 1 else push_bit k' 1 - 1), fd_static_single = False,
          fd_fence = fence_default, fd_cleanup_before = 0, fd_retired_before = 0, fd_ic = ic,
          fd_groups = [], fd_done = replicate FEC_DONE_CACHE 0, fd_recovered = 0, fd_lost = 0\<rparr>)"

definition reset_state_preserve_static :: "fec_decoder \<Rightarrow> fec_decoder" where
  "reset_state_preserve_static d =
     d\<lparr>fd_groups := [], fd_done := replicate FEC_DONE_CACHE 0, fd_cleanup_before := 0,
       fd_retired_before := 0, fd_fence := fence_reset (fd_fence d)\<rparr>"

definition decoder_reset :: "fec_decoder \<Rightarrow> fec_decoder" where
  "decoder_reset d = reset_state_preserve_static d"

definition decoder_reset_actor :: "fec_decoder \<Rightarrow> fec_decoder" where
  "decoder_reset_actor d =
     d\<lparr>fd_groups := [], fd_done := replicate FEC_DONE_CACHE 0, fd_cleanup_before := 0,
       fd_retired_before := 0, fd_fence := fence_reset_actor (fd_fence d)\<rparr>"

definition set_static_single_path :: "fec_decoder \<Rightarrow> bool \<Rightarrow> fec_decoder" where
  "set_static_single_path d single =
     (if \<not> single then d\<lparr>fd_static_single := False\<rparr>
      else if \<not> fd_static_single d then reset_state_preserve_static (d\<lparr>fd_static_single := True\<rparr>)
      else d)"

definition bypass_snapshot :: "fec_decoder \<Rightarrow> bool" where
  "bypass_snapshot d =
     (if fd_static_single d then True
      else let (frm, until) = fence_window (fd_fence d) in frm \<noteq> 0 \<and> until = 0)"

definition atomic_max :: "u32 \<Rightarrow> u32 \<Rightarrow> u32" where
  "atomic_max old nxt = (if nxt = 0 then old else if nxt > old then nxt else old)"

definition drop_groups_in_range :: "fec_decoder \<Rightarrow> u32 \<Rightarrow> u32 \<Rightarrow> fec_decoder" where
  "drop_groups_in_range d frm until =
     (if frm = 0 then d
      else d\<lparr>fd_groups := filter (\<lambda>(start, g). \<not> (start \<ge> frm \<and> (until = 0 \<or> start < until))) (fd_groups d)\<rparr>)"

definition maybe_retire_old_groups_locked :: "u32 option \<Rightarrow> fec_decoder \<Rightarrow> fec_decoder" where
  "maybe_retire_old_groups_locked progress d =
     (let boundary = fd_cleanup_before d
      in if boundary = 0 \<or> fd_retired_before d \<ge> boundary then d
         else case progress of
           None \<Rightarrow> d
         | Some expected \<Rightarrow>
             if expected = 0 \<or> expected < boundary then d
             else d\<lparr>fd_retired_before := boundary,
                    fd_groups := filter (\<lambda>(start, g). \<not> start < boundary) (fd_groups d)\<rparr>)"

definition cleanup_by_reorder_progress :: "u32 option \<Rightarrow> fec_decoder \<Rightarrow> fec_decoder" where
  "cleanup_by_reorder_progress progress d =
     (let boundary = fd_cleanup_before d
      in if boundary = 0 \<or> fd_retired_before d \<ge> boundary then d
         else maybe_retire_old_groups_locked progress d)"

definition maybe_retire_old_groups_actor :: "u32 \<Rightarrow> fec_decoder \<Rightarrow> fec_decoder" where
  "maybe_retire_old_groups_actor expected d =
     (let boundary = fd_cleanup_before d
      in if boundary = 0 \<or> fd_retired_before d \<ge> boundary then d
         else if expected = 0 \<or> expected < boundary then d
         else d\<lparr>fd_retired_before := boundary,
                fd_groups := filter (\<lambda>(start, g). \<not> start < boundary) (fd_groups d)\<rparr>)"

definition handle_mode_control :: "u32 option \<Rightarrow> fec_decoder \<Rightarrow> fec_mode_control \<Rightarrow> fec_decoder" where
  "handle_mode_control progress d control =
     (let (ok, fence) = fence_apply (fd_fence d) control
      in if \<not> ok then d
         else
           let d1 = d\<lparr>fd_fence := fence\<rparr>;
               (frm, until) = fence_window fence
           in if frm = 0 then d1
              else maybe_retire_old_groups_locked progress
                     (drop_groups_in_range
                        (d1\<lparr>fd_cleanup_before := atomic_max (fd_cleanup_before d1) frm\<rparr>) frm until))"

definition handle_mode_control_actor :: "fec_decoder \<Rightarrow> fec_mode_control \<Rightarrow> u32 \<Rightarrow> fec_decoder" where
  "handle_mode_control_actor d control expected =
     (let (ok, fence) = fence_apply_actor (fd_fence d) control
      in if \<not> ok then d
         else
           let d1 = d\<lparr>fd_fence := fence\<rparr>;
               (frm, until) = fence_window fence
           in if frm = 0 then d1
              else maybe_retire_old_groups_actor expected
                     (drop_groups_in_range
                        (d1\<lparr>fd_cleanup_before := atomic_max (fd_cleanup_before d1) frm\<rparr>) frm until))"

definition group_start_of :: "fec_decoder \<Rightarrow> u32 \<Rightarrow> u32" where
  "group_start_of d seq = seq - ((seq - 1) mod of_nat (fd_k d))"

definition done_slot :: "u32 \<Rightarrow> nat \<Rightarrow> nat" where
  "done_slot start k = unat ((start - 1) div of_nat k) mod FEC_DONE_CACHE"

definition is_done :: "u32 list \<Rightarrow> u32 \<Rightarrow> nat \<Rightarrow> bool" where
  "is_done done start k \<longleftrightarrow> start \<noteq> 0 \<and> done ! done_slot start k = start"

definition mark_done :: "u32 list \<Rightarrow> u32 \<Rightarrow> nat \<Rightarrow> u32 list" where
  "mark_done done start k = (if start \<noteq> 0 then done[done_slot start k := start] else done)"

subsection \<open>Groups and recovery\<close>

definition group_empty :: fec_group where
  "group_empty = \<lparr>g_k = 0, g_lens = [], g_got = 0, g_acc = [], g_parity = None\<rparr>"

definition min_key :: "(u32 \<times> 'a) list \<Rightarrow> u32" where
  "min_key al = foldr (\<lambda>(k, _) m. min k m) (tl al) (fst (hd al))"

definition entry_groups :: "(u32 \<times> fec_group) list \<Rightarrow> u32 \<Rightarrow> (u32 \<times> fec_group) list" where
  "entry_groups groups start =
     (let groups1 =
        (if length groups \<ge> FEC_MAX_PENDING_GROUPS \<and> map_of groups start = None
         then if groups = [] then groups else AList.delete (min_key groups) groups
         else groups)
      in if map_of groups1 start = None then (start, group_empty) # groups1 else groups1)"

text \<open>The scan for missing members: the outer \<open>None\<close> is the early return at the second one.\<close>

fun scan_missing :: "u64 \<Rightarrow> nat \<Rightarrow> nat list \<Rightarrow> nat option \<Rightarrow> nat option option" where
  "scan_missing got cnt [] missing = Some missing"
| "scan_missing got cnt (i # is) missing =
     (if \<not> bit got i then
        if cnt + 1 > 1 then None else scan_missing got (cnt + 1) is (Some i)
      else scan_missing got cnt is missing)"

definition try_recover ::
  "cpu \<Rightarrow> fec_decoder \<Rightarrow> u32 \<Rightarrow> (u32 \<times> bytes) option \<times> fec_decoder" where
  "try_recover cpu d start =
     (case map_of (fd_groups d) start of
        None \<Rightarrow> (None, d)
      | Some g \<Rightarrow>
          if g_k g = 0 then (None, d)
          else case g_parity g of
            None \<Rightarrow> (None, d)
          | Some parity \<Rightarrow>
              case scan_missing (g_got g) 0 [0 ..< g_k g] None of
                None \<Rightarrow> (None, d)
              | Some missing \<Rightarrow>
                  let rec =
                        (case missing of
                           None \<Rightarrow> None
                         | Some mi \<Rightarrow>
                             let n = g_lens g ! mi;
                                 acc = g_acc g @ replicate (n - length (g_acc g)) 0
                             in Some (xor_combine cpu (replicate n 0) parity acc, mi));
                      got = (case rec of None \<Rightarrow> g_got g | Some (_, mi) \<Rightarrow> g_got g OR push_bit mi 1);
                      lost_n = length (filter (\<lambda>i. \<not> bit got i) [0 ..< g_k g]);
                      d1 = d\<lparr>fd_groups := AList.delete start (fd_groups d),
                             fd_lost := fd_lost d + of_nat lost_n,
                             fd_done := mark_done (fd_done d) start (fd_k d)\<rparr>
                  in case rec of
                       None \<Rightarrow> (None, d1)
                     | Some (r, mi) \<Rightarrow>
                         (Some (start + of_nat mi, r), d1\<lparr>fd_recovered := fd_recovered d1 + 1\<rparr>))"

definition on_data_group ::
  "cpu \<Rightarrow> fec_decoder \<Rightarrow> u32 \<Rightarrow> u32 \<Rightarrow> bytes \<Rightarrow> (u32 \<times> bytes) option \<times> fec_decoder" where
  "on_data_group cpu d start seq frame =
     (if is_done (fd_done d) start (fd_k d) then (None, d)
      else
        let groups = entry_groups (fd_groups d) start;
            g = the (map_of groups start);
            b = unat (seq - start)
        in if bit (g_got g) b then (None, d\<lparr>fd_groups := groups\<rparr>)
           else
             let got = g_got g OR push_bit b 1
             in if got = fd_full_mask d then
                  (None, d\<lparr>fd_groups := AList.delete start groups,
                           fd_done := mark_done (fd_done d) start (fd_k d)\<rparr>)
                else
                  let acc = g_acc g @ replicate (length frame - length (g_acc g)) 0
                  in case xor_into cpu acc frame of
                       None \<Rightarrow> (None, d)
                     | Some x \<Rightarrow>
                         try_recover cpu
                           (d\<lparr>fd_groups := AList.update start (g\<lparr>g_got := got, g_acc := x\<rparr>) groups\<rparr>) start)"

definition on_data_locked ::
  "cpu \<Rightarrow> fec_decoder \<Rightarrow> u32 \<Rightarrow> bytes \<Rightarrow> (u32 \<times> bytes) option \<times> fec_decoder" where
  "on_data_locked cpu d seq frame = on_data_group cpu d (group_start_of d seq) seq frame"

subsection \<open>Shared (locked) receive path\<close>

definition on_data ::
  "cpu \<Rightarrow> u32 option \<Rightarrow> fec_decoder \<Rightarrow> u32 \<Rightarrow> bytes \<Rightarrow> (u32 \<times> bytes) option \<times> fec_decoder" where
  "on_data cpu progress d seq frame =
     (if frame = [] \<or> seq = 0 \<or> fd_static_single d then (None, d)
      else if bypass_data (fd_fence d) seq then
        (None, if seq AND 0xff = 0 then cleanup_by_reorder_progress progress d else d)
      else if fd_retired_before d \<noteq> 0 \<and> seq < fd_retired_before d then (None, d)
      else if fd_static_single d \<or> bypass_data (fd_fence d) seq
              \<or> (fd_retired_before d \<noteq> 0 \<and> seq < fd_retired_before d) then (None, d)
      else on_data_locked cpu d seq frame)"

definition on_data_batch_step ::
  "cpu \<Rightarrow> u32 option \<Rightarrow> fec_decoder \<Rightarrow> u32 \<Rightarrow> bytes \<Rightarrow> (u32 \<times> bytes) option \<times> fec_decoder" where
  "on_data_batch_step cpu progress d seq frame =
     (if seq = 0 \<or> frame = [] then (None, d)
      else if bypass_data (fd_fence d) seq then
        (None, if seq AND 0xff = 0 then maybe_retire_old_groups_locked progress d else d)
      else if fd_retired_before d \<noteq> 0 \<and> seq < fd_retired_before d then (None, d)
      else on_data_locked cpu d seq frame)"

fun on_data_batch_loop ::
  "cpu \<Rightarrow> u32 option \<Rightarrow> fec_decoder \<Rightarrow> (u32 \<times> bytes) list \<Rightarrow> (u32 \<times> bytes) list \<times> fec_decoder" where
  "on_data_batch_loop cpu progress d [] = ([], d)"
| "on_data_batch_loop cpu progress d ((seq, frame) # frames) =
     (let (r, d1) = on_data_batch_step cpu progress d seq frame;
          (rs, d2) = on_data_batch_loop cpu progress d1 frames
      in ((case r of None \<Rightarrow> rs | Some x \<Rightarrow> x # rs), d2))"

definition on_data_batch ::
  "cpu \<Rightarrow> u32 option \<Rightarrow> fec_decoder \<Rightarrow> (u32 \<times> bytes) list \<Rightarrow> (u32 \<times> bytes) list \<times> fec_decoder" where
  "on_data_batch cpu progress d frames =
     (if frames = [] \<or> fd_static_single d then ([], d)
      else on_data_batch_loop cpu progress d frames)"

text \<open>The member lengths of a parity descriptor; \<open>None\<close> is the member-length error.\<close>

fun parity_lens :: "bytes \<Rightarrow> nat \<Rightarrow> nat \<Rightarrow> nat list \<Rightarrow> nat list option" where
  "parity_lens payload desc_len tlen [] = Some []"
| "parity_lens payload desc_len tlen (i # is) =
     (let l = unat (rd32 (slice (6 + 4 * i) 4 payload))
      in if l + tlen > length payload - desc_len then None
         else map_option ((#) l) (parity_lens payload desc_len tlen is))"

definition parity_body ::
  "crypto_lib \<Rightarrow> inner_cipher option \<Rightarrow> bytes \<Rightarrow> nat \<Rightarrow> nat \<Rightarrow> nat \<Rightarrow> u32 \<Rightarrow> bytes option" where
  "parity_body L ic payload desc_len max_len tlen start =
     (case ic of
        Some c \<Rightarrow> open_to L c max_len (slice desc_len (max_len + tlen) payload) start
                    (be32 (of_nat (max_len + tlen)) @ be32 start)
      | None \<Rightarrow> Some (slice desc_len max_len payload))"

definition on_parity_strict ::
  "cpu \<Rightarrow> crypto_lib \<Rightarrow> u32 option \<Rightarrow> fec_decoder \<Rightarrow> bytes
     \<Rightarrow> (fec_error + (u32 \<times> bytes) option) \<times> fec_decoder" where
  "on_parity_strict cpu L progress d payload =
     (if fd_static_single d then (Inr None, d)
      else if length payload < 7 \<or> payload ! 0 \<noteq> CONTROL_KIND_FEC_PARITY then (Inl Parity_Header, d)
      else
        let start = rd32 (slice 1 4 payload); k = unat (payload ! 5)
        in if start = 0 \<or> k \<noteq> fd_k d \<or> (start - 1) mod of_nat (fd_k d) \<noteq> 0
           then (Inl (Parity_Start start k), d)
           else
             let d1 = cleanup_by_reorder_progress progress d
             in if fd_retired_before d1 \<noteq> 0 \<and> start < fd_retired_before d1 then (Inr None, d1)
                else
                  let desc_len = 6 + 4 * k;
                      tlen = (case fd_ic d1 of Some c \<Rightarrow> tag_len c | None \<Rightarrow> 0)
                  in if length payload < desc_len + tlen then (Inl Parity_Truncated, d1)
                     else case parity_lens payload desc_len tlen [0 ..< k] of
                       None \<Rightarrow> (Inl Parity_Member_Length, d1)
                     | Some lens \<Rightarrow>
                         let max_len = fold max lens 0
                         in case parity_body L (fd_ic d1) payload desc_len max_len tlen start of
                              None \<Rightarrow> (Inl Parity_Aead, d1)
                            | Some pb \<Rightarrow>
                                if (fd_retired_before d1 \<noteq> 0 \<and> start < fd_retired_before d1)
                                   \<or> is_done (fd_done d1) start (fd_k d1) then (Inr None, d1)
                                else
                                  let groups = entry_groups (fd_groups d1) start;
                                      g = the (map_of groups start)
                                  in if g_parity g \<noteq> None then (Inr None, d1\<lparr>fd_groups := groups\<rparr>)
                                     else
                                       let g' = g\<lparr>g_k := k, g_lens := lens, g_parity := Some pb\<rparr>;
                                           (r, d2) = try_recover cpu
                                              (d1\<lparr>fd_groups := AList.update start g' groups\<rparr>) start
                                       in (Inr r, maybe_retire_old_groups_locked progress d2))"

definition on_control ::
  "cpu \<Rightarrow> crypto_lib \<Rightarrow> u32 option \<Rightarrow> fec_decoder \<Rightarrow> bytes
     \<Rightarrow> (fec_error + (u32 \<times> bytes) option) \<times> fec_decoder" where
  "on_control cpu L progress d payload =
     (case control_kind payload of
        Inl e \<Rightarrow> (Inl (Fec_Proto e), d)
      | Inr kind \<Rightarrow>
          if kind = CONTROL_KIND_FEC_PARITY then on_parity_strict cpu L progress d payload
          else if kind = CONTROL_KIND_FEC_MODE then
            (case parse_control payload of
               Inl e \<Rightarrow> (Inl (Fec_Proto e), d)
             | Inr control \<Rightarrow> (Inr None, handle_mode_control progress d control))
          else (Inl (Fec_Proto (Unsupported_Kind kind)), d))"

definition on_parity ::
  "cpu \<Rightarrow> crypto_lib \<Rightarrow> u32 option \<Rightarrow> fec_decoder \<Rightarrow> bytes \<Rightarrow> (u32 \<times> bytes) option \<times> fec_decoder" where
  "on_parity cpu L progress d payload =
     (case on_parity_strict cpu L progress d payload of
        (Inl _, d') \<Rightarrow> (None, d') | (Inr r, d') \<Rightarrow> (r, d'))"

subsection \<open>Session-actor receive path\<close>

definition on_data_actor ::
  "cpu \<Rightarrow> fec_decoder \<Rightarrow> u32 \<Rightarrow> bytes \<Rightarrow> u32 \<Rightarrow> (u32 \<times> bytes) option \<times> fec_decoder" where
  "on_data_actor cpu d seq frame reorder_expected =
     (if frame = [] \<or> seq = 0 \<or> fd_static_single d then (None, d)
      else if bypass_data (fd_fence d) seq then
        (None, if seq AND 0xff = 0 then maybe_retire_old_groups_actor reorder_expected d else d)
      else if fd_retired_before d \<noteq> 0 \<and> seq < fd_retired_before d then (None, d)
      else on_data_group cpu d (seq - ((seq - 1) mod of_nat (fd_k d))) seq frame)"

definition on_parity_actor ::
  "cpu \<Rightarrow> crypto_lib \<Rightarrow> fec_decoder \<Rightarrow> bytes \<Rightarrow> u32
     \<Rightarrow> (fec_error + (u32 \<times> bytes) option) \<times> fec_decoder" where
  "on_parity_actor cpu L d payload reorder_expected =
     (if fd_static_single d then (Inr None, d)
      else if length payload < 7 \<or> payload ! 0 \<noteq> CONTROL_KIND_FEC_PARITY then (Inl Parity_Header, d)
      else
        let start = rd32 (slice 1 4 payload); k = unat (payload ! 5)
        in if start = 0 \<or> k \<noteq> fd_k d \<or> (start - 1) mod of_nat (fd_k d) \<noteq> 0
           then (Inl (Parity_Start start k), d)
           else
             let d1 = maybe_retire_old_groups_actor reorder_expected d
             in if fd_retired_before d1 \<noteq> 0 \<and> start < fd_retired_before d1 then (Inr None, d1)
                else
                  let desc_len = 6 + 4 * k;
                      tlen = (case fd_ic d1 of Some c \<Rightarrow> tag_len c | None \<Rightarrow> 0)
                  in if length payload < desc_len + tlen then (Inl Parity_Truncated, d1)
                     else case parity_lens payload desc_len tlen [0 ..< k] of
                       None \<Rightarrow> (Inl Parity_Member_Length, d1)
                     | Some lens \<Rightarrow>
                         let max_len = fold max lens 0
                         in case parity_body L (fd_ic d1) payload desc_len max_len tlen start of
                              None \<Rightarrow> (Inl Parity_Aead, d1)
                            | Some pb \<Rightarrow>
                                if (fd_retired_before d1 \<noteq> 0 \<and> start < fd_retired_before d1)
                                   \<or> is_done (fd_done d1) start (fd_k d1) then (Inr None, d1)
                                else
                                  let groups = entry_groups (fd_groups d1) start;
                                      g = the (map_of groups start)
                                  in if g_parity g \<noteq> None then (Inr None, d1\<lparr>fd_groups := groups\<rparr>)
                                     else
                                       let g' = g\<lparr>g_k := k, g_lens := lens, g_parity := Some pb\<rparr>;
                                           (r, d2) = try_recover cpu
                                              (d1\<lparr>fd_groups := AList.update start g' groups\<rparr>) start
                                       in (Inr r, maybe_retire_old_groups_actor reorder_expected d2))"

definition on_control_actor ::
  "cpu \<Rightarrow> crypto_lib \<Rightarrow> fec_decoder \<Rightarrow> bytes \<Rightarrow> u32
     \<Rightarrow> (fec_error + (u32 \<times> bytes) option) \<times> fec_decoder" where
  "on_control_actor cpu L d payload reorder_expected =
     (case control_kind payload of
        Inl e \<Rightarrow> (Inl (Fec_Proto e), d)
      | Inr kind \<Rightarrow>
          if kind = CONTROL_KIND_FEC_PARITY then on_parity_actor cpu L d payload reorder_expected
          else if kind = CONTROL_KIND_FEC_MODE then
            (case parse_control payload of
               Inl e \<Rightarrow> (Inl (Fec_Proto e), d)
             | Inr control \<Rightarrow> (Inr None, handle_mode_control_actor d control reorder_expected))
          else (Inl (Fec_Proto (Unsupported_Kind kind)), d))"

end
