(* ===== verification/Fec_Decode.thy ===== *)
theory Fec_Decode
  imports Fec
begin

text \<open>
  Correctness of the FEC decoder. The XOR of bytes is a commutative monoid, so the accumulator
  of a group is the XOR over the set of members received. A group is in order (\<open>group_ok\<close>)
  when accumulator, member lengths and parity body belong to the payloads that were sent; every
  operation keeps the groups in order, and a recovered frame is the payload sent under its
  number.
\<close>

subsection \<open>Bytes under XOR\<close>

interpretation xb: comm_monoid_set "(XOR) :: u8 \<Rightarrow> u8 \<Rightarrow> u8" 0
  by unfold_locales (simp_all add: xor.assoc xor.commute)

definition byte_at :: "bytes \<Rightarrow> nat \<Rightarrow> u8" where
  "byte_at bs i = (if i < length bs then bs ! i else 0)"

definition members_xor :: "(nat \<Rightarrow> bytes) \<Rightarrow> nat set \<Rightarrow> nat \<Rightarrow> u8" where
  "members_xor m S i = xb.F (\<lambda>j. byte_at (m j) i) S"

lemma byte_at_Nil [simp]: "byte_at [] i = 0"
  by (simp add: byte_at_def)

lemma byte_at_zeros [simp]: "byte_at (a @ replicate n 0) i = byte_at a i"
  by (simp add: byte_at_def nth_append)

lemma byte_at_replicate [simp]: "byte_at (replicate n 0) i = 0"
  by (simp add: byte_at_def)

lemma byte_at_beyond: "length a \<le> i \<Longrightarrow> byte_at a i = 0"
  by (simp add: byte_at_def)

lemma byte_at_xor_zip:
  "length d \<le> length a \<Longrightarrow> byte_at (xor_zip a d) i = byte_at a i XOR byte_at d i"
  by (auto simp: byte_at_def xor_zip_def nth_append)

lemma bytes_eqI:
  assumes "length a = length b" "\<And>i. i < length b \<Longrightarrow> byte_at a i = byte_at b i"
  shows "a = b"
  using assms by (intro nth_equalityI) (simp_all add: byte_at_def)

lemma members_xor_empty [simp]: "members_xor m {} i = 0"
  by (simp add: members_xor_def)

lemma members_xor_insert:
  "finite S \<Longrightarrow> j \<notin> S \<Longrightarrow> members_xor m (insert j S) i = byte_at (m j) i XOR members_xor m S i"
  by (simp add: members_xor_def)

lemma members_xor_lessThan_Suc:
  "members_xor m {..<Suc n} i = byte_at (m n) i XOR members_xor m {..<n} i"
  by (simp add: lessThan_Suc members_xor_insert)

lemma members_xor_cong:
  "(\<And>j. j \<in> S \<Longrightarrow> m j = m' j) \<Longrightarrow> members_xor m S i = members_xor m' S i"
  unfolding members_xor_def by (rule xb.cong) simp_all

lemma members_xor_beyond:
  "(\<And>j. j \<in> S \<Longrightarrow> length (m j) \<le> i) \<Longrightarrow> members_xor m S i = 0"
  unfolding members_xor_def by (rule xb.neutral) (simp add: byte_at_beyond)

lemma missing_byte:
  assumes "finite S" "j \<notin> S"
  shows "members_xor m (insert j S) i XOR members_xor m S i = byte_at (m j) i"
  using assms by (simp add: members_xor_insert xor.assoc)

subsection \<open>The reference parity frame\<close>

definition max_length :: "bytes list \<Rightarrow> nat" where
  "max_length ps = fold max (map length ps) 0"

definition parity_payload :: "bytes list \<Rightarrow> bytes" where
  "parity_payload ps = map (\<lambda>i. foldr (\<lambda>p a. byte_at p i XOR a) ps 0) [0 ..< max_length ps]"

definition parity_desc :: "u32 \<Rightarrow> bytes list \<Rightarrow> bytes" where
  "parity_desc start ps =
     [CONTROL_KIND_FEC_PARITY] @ be32 start @ [of_nat (length ps)]
     @ concat (map (\<lambda>p. be32 (of_nat (length p))) ps)"

definition parity_frame :: "crypto_lib \<Rightarrow> inner_cipher option \<Rightarrow> u32 \<Rightarrow> bytes list \<Rightarrow> bytes" where
  "parity_frame L ic start ps =
     parity_desc start ps @
     (case ic of
        None \<Rightarrow> parity_payload ps
      | Some c \<Rightarrow>
          let aad = gcm_aad (of_nat (max_length ps + 16)) start;
              (ct, tag) = cipher_seal L c start aad (parity_payload ps)
          in ct @ tag)"

lemma fold_max_ge: "x \<in> set xs \<Longrightarrow> x \<le> fold max xs (a :: nat)" "a \<le> fold max xs a"
proof -
  have *: "fold max xs a = Max (set (a # xs))" by (simp only: Max.set_eq_fold)
  show "x \<in> set xs \<Longrightarrow> x \<le> fold max xs a" "a \<le> fold max xs a" unfolding * by simp_all
qed

lemma max_length_ge: "p \<in> set ps \<Longrightarrow> length p \<le> max_length ps"
  by (simp add: max_length_def fold_max_ge)

lemma length_parity_payload [simp]: "length (parity_payload ps) = max_length ps"
  by (simp add: parity_payload_def)

lemma foldr_xor_init:
  "foldr (\<lambda>p a. byte_at p i XOR a) ps b = foldr (\<lambda>p a. byte_at p i XOR a) ps 0 XOR b"
  by (induction ps) (simp_all add: xor.assoc)

lemma foldr_members:
  "foldr (\<lambda>p a. byte_at p i XOR a) (map m [0 ..< n]) 0 = members_xor m {..<n} i"
proof (induction n)
  case (Suc n)
  have "foldr (\<lambda>p a. byte_at p i XOR a) (map m [0 ..< Suc n]) 0 =
      foldr (\<lambda>p a. byte_at p i XOR a) (map m [0 ..< n]) (byte_at (m n) i)" by simp
  also have "\<dots> = foldr (\<lambda>p a. byte_at p i XOR a) (map m [0 ..< n]) 0 XOR byte_at (m n) i"
    by (rule foldr_xor_init)
  also have "\<dots> = byte_at (m n) i XOR members_xor m {..<n} i" unfolding Suc by (rule xor.commute)
  finally show ?case by (simp only: members_xor_lessThan_Suc)
qed simp

lemma byte_at_parity_payload:
  "byte_at (parity_payload (map m [0 ..< n])) i = members_xor m {..<n} i"
proof (cases "i < max_length (map m [0 ..< n])")
  case True
  then have "byte_at (parity_payload (map m [0 ..< n])) i = parity_payload (map m [0 ..< n]) ! i"
    by (simp add: byte_at_def)
  also have "\<dots> = members_xor m {..<n} i"
    using True foldr_members [of i m n] by (simp add: parity_payload_def)
  finally show ?thesis .
next
  case False
  then have "length (m j) \<le> i" if "j < n" for j
    using max_length_ge [of "m j" "map m [0 ..< n]"] that by force
  then have "members_xor m {..<n} i = 0" by (intro members_xor_beyond) simp
  then show ?thesis using False by (simp add: byte_at_def)
qed

lemma length_parity_desc [simp]: "length (parity_desc start ps) = 6 + 4 * length ps"
  by (simp add: parity_desc_def length_concat o_def sum_list_triv)

lemma slice_concat4:
  assumes "\<And>x. length (f x) = 4" "i < length xs"
  shows "slice (4 * i) 4 (concat (map f xs)) = f (xs ! i)"
  using assms(2)
proof (induction xs arbitrary: i)
  case (Cons x xs)
  show ?case
  proof (cases i)
    case 0
    then show ?thesis using assms(1) by (simp add: slice_append_left slice_all)
  next
    case (Suc i')
    then have "slice (4 * i) 4 (concat (map f (x # xs))) = slice (4 * i') 4 (concat (map f xs))"
      using assms(1) [of x] by (simp add: slice_append_right)
    then show ?thesis using Cons Suc by simp
  qed
qed simp

lemma four_bytes: "length bs = 4 \<Longrightarrow> \<exists>a b c e. bs = [a, b, c, e]"
  by (auto simp: numeral_eq_Suc length_Suc_conv)

lemma parity_desc_fields:
  shows "parity_desc start ps ! 0 = CONTROL_KIND_FEC_PARITY"
    "slice 1 4 (parity_desc start ps) = be32 start"
    "parity_desc start ps ! 5 = of_nat (length ps)"
    "i < length ps \<Longrightarrow> slice (6 + 4 * i) 4 (parity_desc start ps) = be32 (of_nat (length (ps ! i)))"
proof -
  define D where "D = concat (map (\<lambda>p. be32 (of_nat (length p))) ps)"
  obtain a b c e where be: "be32 start = [a, b, c, e]"
    using four_bytes [OF length_be32] by blast
  have d: "parity_desc start ps = [CONTROL_KIND_FEC_PARITY, a, b, c, e, of_nat (length ps)] @ D"
    by (simp add: parity_desc_def D_def be)
  show "parity_desc start ps ! 0 = CONTROL_KIND_FEC_PARITY" "parity_desc start ps ! 5 = of_nat (length ps)"
    "slice 1 4 (parity_desc start ps) = be32 start"
    by (simp_all add: d be slice_def)
  show "slice (6 + 4 * i) 4 (parity_desc start ps) = be32 (of_nat (length (ps ! i)))" if "i < length ps"
    using that slice_append_right [of "[CONTROL_KIND_FEC_PARITY, a, b, c, e, of_nat (length ps)]" "6 + 4 * i" 4 D]
      slice_concat4 [of "\<lambda>p. be32 (of_nat (length p))" i ps]
    by (simp add: d D_def)
qed

text \<open>Reading a reference parity frame back: lengths and body, in clear and sealed.\<close>

definition tag_size :: "inner_cipher option \<Rightarrow> nat" where
  "tag_size ic = (case ic of Some c \<Rightarrow> tag_len c | None \<Rightarrow> 0)"

lemma length_parity_frame:
  assumes "crypto_lib_ok L"
  shows "length (parity_frame L ic start ps) = 6 + 4 * length ps + max_length ps + tag_size ic"
proof (cases ic)
  case (Some c)
  define s where "s = cipher_seal L c start (gcm_aad (of_nat (max_length ps + 16)) start) (parity_payload ps)"
  have "length (fst s) = max_length ps" "length (snd s) = 16"
    using cipher_laws(1,2) [OF assms] by (simp_all add: s_def)
  then show ?thesis
    unfolding parity_frame_def Let_def Some option.case s_def [symmetric] tag_size_def tag_len_def
    by (cases s) (simp add: enc_consts)
qed (simp add: parity_frame_def tag_size_def)

lemma parity_frame_prefix: "\<exists>body. parity_frame L ic start ps = parity_desc start ps @ body"
  by (simp add: parity_frame_def)

lemma parity_frame_fields:
  assumes "ps \<noteq> []"
  shows "parity_frame L ic start ps ! 0 = CONTROL_KIND_FEC_PARITY"
    "rd32 (slice 1 4 (parity_frame L ic start ps)) = start"
    "parity_frame L ic start ps ! 5 = of_nat (length ps)"
    "i < length ps \<Longrightarrow> slice (6 + 4 * i) 4 (parity_frame L ic start ps) = be32 (of_nat (length (ps ! i)))"
proof -
  obtain body where f: "parity_frame L ic start ps = parity_desc start ps @ body"
    using parity_frame_prefix by blast
  show "parity_frame L ic start ps ! 0 = CONTROL_KIND_FEC_PARITY"
    "rd32 (slice 1 4 (parity_frame L ic start ps)) = start"
    "parity_frame L ic start ps ! 5 = of_nat (length ps)"
    using parity_desc_fields(1-3) [of start ps] by (simp_all add: f nth_append slice_append_left)
  show "slice (6 + 4 * i) 4 (parity_frame L ic start ps) = be32 (of_nat (length (ps ! i)))" if "i < length ps"
    using parity_desc_fields(4) [OF that, of start] that by (simp add: f slice_append_left)
qed

lemma parity_lens_list:
  assumes "\<And>i. i \<in> set is \<Longrightarrow> unat (rd32 (slice (6 + 4 * i) 4 payload)) = f i"
    "\<And>i. i \<in> set is \<Longrightarrow> f i + t \<le> length payload - desc_len"
  shows "parity_lens payload desc_len t is = Some (map f is)"
  using assms
proof (induction "is")
  case (Cons i "is")
  have "unat (rd32 (slice (6 + 4 * i) 4 payload)) = f i" "f i + t \<le> length payload - desc_len"
    "parity_lens payload desc_len t is = Some (map f is)"
    using Cons by auto
  then show ?case by (simp add: Let_def)
qed simp

lemma parity_lens_frame:
  assumes "crypto_lib_ok L" "ps \<noteq> []" "\<And>p. p \<in> set ps \<Longrightarrow> length p < 2 ^ 32"
  shows "parity_lens (parity_frame L ic start ps) (6 + 4 * length ps) (tag_size ic) [0 ..< length ps] =
    Some (map length ps)"
proof -
  have "parity_lens (parity_frame L ic start ps) (6 + 4 * length ps) (tag_size ic) [0 ..< length ps] =
      Some (map (\<lambda>i. length (ps ! i)) [0 ..< length ps])"
  proof (rule parity_lens_list)
    fix i assume "i \<in> set [0 ..< length ps]"
    then have i: "i < length ps" by simp
    then have "unat (of_nat (length (ps ! i)) :: u32) = length (ps ! i)"
      using assms(3) [of "ps ! i"] by (simp add: unat_u32_of_nat)
    then show "unat (rd32 (slice (6 + 4 * i) 4 (parity_frame L ic start ps))) = length (ps ! i)"
      by (simp only: parity_frame_fields(4) [OF assms(2) i] rd32_be32)
    show "length (ps ! i) + tag_size ic \<le> length (parity_frame L ic start ps) - (6 + 4 * length ps)"
      unfolding length_parity_frame [OF assms(1)] using max_length_ge [of "ps ! i" ps] i by simp
  qed
  also have "map (\<lambda>i. length (ps ! i)) [0 ..< length ps] = map length ps"
    by (rule nth_equalityI) simp_all
  finally show ?thesis .
qed

lemma parity_body_frame:
  assumes L: "crypto_lib_ok L"
  shows "parity_body L ic (parity_frame L ic start ps) (6 + 4 * length ps) (max_length ps) (tag_size ic) start =
    Some (parity_payload ps)"
proof (cases ic)
  case None
  then show ?thesis
    by (simp add: parity_body_def parity_frame_def tag_size_def slice_append_right slice_all)
next
  case (Some c)
  define aad where "aad = gcm_aad (of_nat (max_length ps + 16)) start"
  obtain ct tag where ct: "cipher_seal L c start aad (parity_payload ps) = (ct, tag)" by fastforce
  have l: "length ct = max_length ps" "length tag = 16"
    and op: "cipher_open L c start aad tag ct = Some (parity_payload ps)"
    using cipher_laws(1-3) [OF L, of c start aad "parity_payload ps"] by (simp_all add: ct)
  have "parity_frame L ic start ps = parity_desc start ps @ ct @ tag"
    unfolding parity_frame_def Some option.case Let_def aad_def [symmetric] ct by simp
  then show ?thesis using l op
    by (simp add: Some parity_body_def tag_size_def tag_len_def enc_consts slice_append_right slice_all
        open_to_def Let_def aad_def gcm_aad_def)
qed

subsection \<open>Received members\<close>

definition got_set :: "nat \<Rightarrow> u64 \<Rightarrow> nat set" where
  "got_set k got = {j. j < k \<and> bit got j}"

lemma finite_got_set [simp]: "finite (got_set k got)"
  by (simp add: got_set_def)

lemma got_set_0 [simp]: "got_set k 0 = {}"
  by (simp add: got_set_def)

lemma got_set_or:
  assumes "b < k" "k \<le> 64"
  shows "got_set k (got OR push_bit b 1) = insert b (got_set k got)"
  using assms by (auto simp: got_set_def bit_simps)

lemma full_mask_bits:
  assumes "k \<le> 64"
  shows "bit (if k = 64 then - 1 else push_bit k 1 - 1 :: u64) j \<longleftrightarrow> j < k"
proof (cases "k = 64")
  case False
  have "(push_bit k 1 - 1 :: u64) = mask k" by (simp add: mask_eq_exp_minus_1 push_bit_eq_mult)
  then show ?thesis using False assms by (auto simp: bit_mask_iff)
qed auto

lemma scan_missing_result:
  "scan_missing got cnt is missing =
     (case filter (\<lambda>i. \<not> bit got i) is of
        [] \<Rightarrow> Some missing
      | [i] \<Rightarrow> if cnt = 0 then Some (Some i) else None
      | _ \<Rightarrow> None)"
proof (induction "is" arbitrary: cnt missing)
  case (Cons i "is")
  then show ?case by (cases cnt) (auto split: list.split)
qed simp

lemma scan_missing_one:
  assumes "mi < k" "got_set k got = {..<k} - {mi}"
  shows "scan_missing got 0 [0 ..< k] None = Some (Some mi)"
proof -
  have bit: "j < k \<Longrightarrow> bit got j \<longleftrightarrow> j \<noteq> mi" for j
    using assms unfolding got_set_def by auto
  have "[0 ..< k] = [0 ..< mi] @ mi # [Suc mi ..< k]"
    using assms(1) upt_add_eq_append [of 0 mi "k - mi"] by (simp add: upt_conv_Cons)
  moreover have "filter (\<lambda>i. \<not> bit got i) [0 ..< mi] = []" "filter (\<lambda>i. \<not> bit got i) [Suc mi ..< k] = []"
    using bit assms(1) by (auto simp: filter_empty_conv)
  ultimately show ?thesis using bit assms(1) by (simp add: scan_missing_result)
qed

lemma scan_missing_SomeD:
  assumes "scan_missing got 0 [0 ..< k] None = Some (Some mi)"
  shows "mi < k \<and> got_set k got = {..<k} - {mi}"
proof -
  have "filter (\<lambda>i. \<not> bit got i) [0 ..< k] = [mi]"
    using assms by (auto simp: scan_missing_result split: list.splits)
  then have "set (filter (\<lambda>i. \<not> bit got i) [0 ..< k]) = {mi}" by simp
  then show ?thesis unfolding got_set_def by auto
qed

lemma scan_missing_more:
  assumes "i < k" "j < k" "i \<noteq> j" "\<not> bit got i" "\<not> bit got j"
  shows "scan_missing got 0 [0 ..< k] None = None"
proof -
  define F where "F = filter (\<lambda>i. \<not> bit got i) [0 ..< k]"
  have "{i, j} \<subseteq> set F" using assms by (auto simp: F_def)
  then show ?thesis using assms(3)
    unfolding scan_missing_result F_def [symmetric] by (auto split: list.split)
qed

subsection \<open>Groups in order\<close>

type_synonym sent = "u32 \<Rightarrow> bytes"

definition member :: "sent \<Rightarrow> u32 \<Rightarrow> nat \<Rightarrow> bytes" where
  "member pay start j = pay (start + of_nat j)"

definition group_payloads :: "sent \<Rightarrow> nat \<Rightarrow> u32 \<Rightarrow> bytes list" where
  "group_payloads pay k start = map (member pay start) [0 ..< k]"

definition group_ok :: "sent \<Rightarrow> nat \<Rightarrow> u32 \<Rightarrow> fec_group \<Rightarrow> bool" where
  "group_ok pay k start g \<longleftrightarrow>
     (\<forall>i. byte_at (g_acc g) i = members_xor (member pay start) (got_set k (g_got g)) i)
     \<and> (case g_parity g of
          None \<Rightarrow> g_k g = 0
        | Some p \<Rightarrow> g_k g = k \<and> g_lens g = map length (group_payloads pay k start)
                    \<and> p = parity_payload (group_payloads pay k start))"

lemma group_ok_empty: "group_ok pay k start group_empty"
  by (simp add: group_ok_def group_empty_def)

lemma length_group_payloads [simp]: "length (group_payloads pay k start) = k"
  by (simp add: group_payloads_def)

lemma recovered_bytes:
  assumes acc: "\<And>i. byte_at acc i = members_xor m ({..<k} - {mi}) i" and "mi < k"
    and n: "n = length (m mi)"
  shows "xor_combine cpu (replicate n 0) (parity_payload (map m [0 ..< k])) (acc @ replicate (n - length acc) 0) = m mi"
proof -
  define P where "P = parity_payload (map m [0 ..< k])"
  define A where "A = acc @ replicate (n - length acc) 0"
  have lP: "n \<le> length P" using max_length_ge [of "m mi" "map m [0 ..< k]"] assms(2) by (simp add: P_def n)
  have lA: "n \<le> length A" by (simp add: A_def)
  have "xor_combine cpu (replicate n 0) P A = map2 (XOR) (take n P) (take n A)"
    using lP lA by (simp add: xor_combine_eq xor_combine_ref_def min_absorb1)
  also have "\<dots> = m mi"
  proof (rule bytes_eqI)
    show "length (map2 (XOR) (take n P) (take n A)) = length (m mi)" using lP lA by (simp add: n)
    fix i assume i: "i < length (m mi)"
    have "byte_at (map2 (XOR) (take n P) (take n A)) i = byte_at P i XOR byte_at A i"
      using i lP lA by (simp add: byte_at_def n)
    also have "\<dots> = members_xor m (insert mi ({..<k} - {mi})) i XOR members_xor m ({..<k} - {mi}) i"
      using assms(2) by (simp add: P_def A_def byte_at_parity_payload acc insert_absorb)
    also have "\<dots> = byte_at (m mi) i" by (rule missing_byte) simp_all
    finally show "byte_at (map2 (XOR) (take n P) (take n A)) i = byte_at (m mi) i" .
  qed
  finally show ?thesis by (simp add: P_def A_def)
qed

subsection \<open>The table of pending groups\<close>

lemma min_key_in: "al \<noteq> [] \<Longrightarrow> min_key al \<in> fst ` set al"
proof -
  have "foldr (\<lambda>(k, _) m. min k m) xs a \<in> insert a (fst ` set xs)" for xs :: "(u32 \<times> 'a) list" and a
  proof (induction xs)
    case (Cons x xs)
    define m where "m = foldr (\<lambda>(k, _) m. min k m) xs a"
    have "foldr (\<lambda>(k, _) m. min k m) (x # xs) a = min (fst x) m" by (simp add: m_def split: prod.split)
    moreover have "min (fst x) m = fst x \<or> min (fst x) m = m" by (simp add: min_def)
    moreover have "m \<in> insert a (fst ` set xs)" using Cons by (simp add: m_def)
    ultimately show ?case by auto
  qed simp
  from this [of "tl al" "fst (hd al)"] show "al \<noteq> [] \<Longrightarrow> min_key al \<in> fst ` set al"
    unfolding min_key_def by (cases al) auto
qed

lemma length_delete_less:
  assumes "key \<in> fst ` set al"
  shows "length (AList.delete key al) < length al"
proof -
  obtain v where "(key, v) \<in> set al" using assms by force
  then show ?thesis unfolding AList.delete_eq by (rule length_filter_less) simp
qed

lemma set_delete_subset: "set (AList.delete key al) \<subseteq> set al"
  by (auto simp: AList.delete_eq)

definition table_ok :: "(u32 \<times> fec_group) list \<Rightarrow> bool" where
  "table_ok gs \<longleftrightarrow> distinct (map fst gs) \<and> length gs \<le> FEC_MAX_PENDING_GROUPS"

lemma table_ok_Nil [simp]: "table_ok []"
  by (simp add: table_ok_def)

lemma table_ok_filter: "table_ok gs \<Longrightarrow> table_ok (filter P gs)"
  by (auto simp: table_ok_def distinct_map_filter intro: le_trans [OF length_filter_le])

lemma table_ok_delete: "table_ok gs \<Longrightarrow> table_ok (AList.delete key gs)"
  unfolding AList.delete_eq by (rule table_ok_filter)

lemma table_ok_update:
  assumes "table_ok gs" "map_of gs key \<noteq> None"
  shows "table_ok (AList.update key v gs)"
proof -
  have "length (AList.update key v gs) = length gs"
    using assms(2) by (induction gs) auto
  then show ?thesis using assms(1) by (simp add: table_ok_def distinct_update)
qed

lemma set_update_subset:
  "set (AList.update key v gs) \<subseteq> insert (key, v) (set gs)"
  by (induction gs) auto

lemma entry_groups_lookup:
  "map_of (entry_groups gs start) start =
     Some (case map_of gs start of Some g \<Rightarrow> g | None \<Rightarrow> group_empty)"
  by (auto simp: entry_groups_def Let_def AList.delete_conv' split: option.split)

lemma entry_groups_set: "set (entry_groups gs start) \<subseteq> insert (start, group_empty) (set gs)"
  using set_delete_subset [of "min_key gs" gs] by (auto simp: entry_groups_def Let_def split: if_splits)

lemma table_ok_entry:
  assumes "table_ok gs"
  shows "table_ok (entry_groups gs start)"
proof -
  define gs1 where "gs1 = (if length gs \<ge> FEC_MAX_PENDING_GROUPS \<and> map_of gs start = None
         then if gs = [] then gs else AList.delete (min_key gs) gs else gs)"
  have e: "entry_groups gs start = (if map_of gs1 start = None then (start, group_empty) # gs1 else gs1)"
    by (simp add: entry_groups_def Let_def gs1_def)
  have ok: "table_ok gs1" using assms by (simp add: gs1_def table_ok_delete)
  have "length gs1 < FEC_MAX_PENDING_GROUPS" if "map_of gs1 start = None"
  proof (cases "length gs \<ge> FEC_MAX_PENDING_GROUPS \<and> map_of gs start = None")
    case True
    then have "gs \<noteq> []" by (auto simp: FEC_MAX_PENDING_GROUPS_def)
    then show ?thesis using True length_delete_less [OF min_key_in] assms
      by (auto simp: gs1_def table_ok_def intro: less_le_trans)
  qed (use that in \<open>auto simp: gs1_def\<close>)
  then show ?thesis using ok by (auto simp: e table_ok_def map_of_eq_None_iff)
qed

subsection \<open>The decoder invariant\<close>

definition dec_ok :: "sent \<Rightarrow> inner_cipher option \<Rightarrow> nat \<Rightarrow> fec_decoder \<Rightarrow> bool" where
  "dec_ok pay ic k d \<longleftrightarrow>
     2 \<le> k \<and> k \<le> 64 \<and> fd_k d = k \<and> fd_full_mask d = (if k = 64 then - 1 else push_bit k 1 - 1)
     \<and> fd_ic d = ic \<and> table_ok (fd_groups d)
     \<and> (\<forall>(start, g) \<in> set (fd_groups d). group_ok pay k start g)"

definition result_ok :: "sent \<Rightarrow> (u32 \<times> bytes) option \<Rightarrow> bool" where
  "result_ok pay r \<longleftrightarrow> (case r of None \<Rightarrow> True | Some (seq, frame) \<Rightarrow> frame = pay seq)"

lemma result_ok_simps [simp]:
  "result_ok pay None" "result_ok pay (Some (seq, frame)) \<longleftrightarrow> frame = pay seq"
  by (simp_all add: result_ok_def)

lemma dec_ok_new: "dec_ok pay ic (clamp_fec_group k) (decoder_new k ic)"
  using clamp_bounds [of 2 64 k]
  by (simp add: dec_ok_def decoder_new_def Let_def clamp_fec_group_def FEC_MIN_GROUP_def FEC_MAX_GROUP_def)

lemma dec_ok_subset:
  assumes "dec_ok pay ic k d" "set (fd_groups d') \<subseteq> set (fd_groups d)" "table_ok (fd_groups d')"
    "fd_k d' = fd_k d" "fd_full_mask d' = fd_full_mask d" "fd_ic d' = fd_ic d"
  shows "dec_ok pay ic k d'"
  using assms by (auto simp: dec_ok_def)

lemma dec_ok_lookup: "dec_ok pay ic k d \<Longrightarrow> map_of (fd_groups d) start = Some g \<Longrightarrow> group_ok pay k start g"
  by (auto simp: dec_ok_def dest: map_of_SomeD)

lemma dec_ok_params:
  assumes "dec_ok pay ic k d"
  shows "fd_k d = k" "2 \<le> k" "k \<le> 64" "fd_ic d = ic" "table_ok (fd_groups d)"
    "bit (fd_full_mask d) j \<longleftrightarrow> j < k"
  using assms full_mask_bits [of k j] by (simp_all add: dec_ok_def)

lemma try_recover_one:
  assumes "map_of (fd_groups d) start = Some g" "g_k g = k" "0 < k" "g_parity g = Some p"
    "scan_missing (g_got g) 0 [0 ..< k] None = Some (Some mi)"
    "xor_combine cpu (replicate (g_lens g ! mi) 0) p
       (g_acc g @ replicate (g_lens g ! mi - length (g_acc g)) 0) = r"
    "filter (\<lambda>i. \<not> bit (g_got g OR push_bit mi 1) i) [0 ..< k] = []"
  shows "try_recover cpu d start =
    (Some (start + of_nat mi, r),
     d\<lparr>fd_groups := AList.delete start (fd_groups d), fd_lost := fd_lost d,
       fd_done := mark_done (fd_done d) start (fd_k d), fd_recovered := fd_recovered d + 1\<rparr>)"
proof -
  have "g_k g \<noteq> 0" using assms(2,3) by simp
  then show ?thesis
    unfolding try_recover_def assms(1) option.case Let_def assms(4) if_False
    unfolding assms(2,5) option.case assms(6) prod.case assms(7) list.size of_nat_0 add_0_right
    using assms(3) by simp
qed

lemma try_recover_missing:
  assumes g: "map_of (fd_groups d) start = Some g" "group_ok pay k start g" "g_parity g \<noteq> None"
    and mi: "mi < k" "got_set k (g_got g) = {..<k} - {mi}" and k: "k \<le> 64"
  shows "try_recover cpu d start =
    (Some (start + of_nat mi, pay (start + of_nat mi)),
     d\<lparr>fd_groups := AList.delete start (fd_groups d), fd_lost := fd_lost d,
       fd_done := mark_done (fd_done d) start (fd_k d), fd_recovered := fd_recovered d + 1\<rparr>)"
proof -
  obtain p where p: "g_parity g = Some p" using g(3) by blast
  have gk: "g_k g = k" "g_lens g = map length (group_payloads pay k start)"
    "p = parity_payload (map (member pay start) [0 ..< k])"
    and acc: "byte_at (g_acc g) i = members_xor (member pay start) ({..<k} - {mi}) i" for i
    using g(2) unfolding group_ok_def p option.case mi(2) group_payloads_def by blast+
  have n: "g_lens g ! mi = length (member pay start mi)"
    using mi(1) by (simp add: gk group_payloads_def)
  have r: "xor_combine cpu (replicate (g_lens g ! mi) 0) p
      (g_acc g @ replicate (g_lens g ! mi - length (g_acc g)) 0) = pay (start + of_nat mi)"
    unfolding gk(3) member_def [symmetric] by (rule recovered_bytes [OF acc mi(1) n])
  have "got_set k (g_got g OR push_bit mi 1) = {..<k}"
    unfolding got_set_or [OF mi(1) k] mi(2) using mi(1) by blast
  then have "bit (g_got g OR push_bit mi 1) j" if "j < k" for j
    unfolding got_set_def using that by blast
  then have "filter (\<lambda>i. \<not> bit (g_got g OR push_bit mi 1) i) [0 ..< k] = []"
    unfolding filter_empty_conv by simp
  then show ?thesis using try_recover_one [OF g(1) gk(1) _ p scan_missing_one [OF mi] r] mi(1) by simp
qed

lemma try_recover_frame [simp]:
  "fd_k (snd (try_recover cpu d start)) = fd_k d"
  "fd_full_mask (snd (try_recover cpu d start)) = fd_full_mask d"
  "fd_ic (snd (try_recover cpu d start)) = fd_ic d"
  "fd_static_single (snd (try_recover cpu d start)) = fd_static_single d"
  "fd_fence (snd (try_recover cpu d start)) = fd_fence d"
  "fd_retired_before (snd (try_recover cpu d start)) = fd_retired_before d"
  "fd_cleanup_before (snd (try_recover cpu d start)) = fd_cleanup_before d"
  by (auto simp: try_recover_def Let_def split: option.split)

lemma try_recover_groups:
  "fd_groups (snd (try_recover cpu d start)) = fd_groups d
   \<or> fd_groups (snd (try_recover cpu d start)) = AList.delete start (fd_groups d)"
  by (auto simp: try_recover_def Let_def split: option.split)

lemma try_recover_SomeD:
  assumes "fst (try_recover cpu d start) \<noteq> None"
  shows "\<exists>g mi. map_of (fd_groups d) start = Some g \<and> g_parity g \<noteq> None
    \<and> scan_missing (g_got g) 0 [0 ..< g_k g] None = Some (Some mi)"
  using assms by (auto simp: try_recover_def Let_def split: option.splits if_splits)

lemma try_recover_ok:
  assumes "dec_ok pay ic k d"
  shows "dec_ok pay ic k (snd (try_recover cpu d start))" "result_ok pay (fst (try_recover cpu d start))"
proof -
  show "dec_ok pay ic k (snd (try_recover cpu d start))"
    using try_recover_groups [of cpu d start] set_delete_subset [of start "fd_groups d"]
      dec_ok_params(5) [OF assms] table_ok_delete
    by (intro dec_ok_subset [OF assms]) auto
  show "result_ok pay (fst (try_recover cpu d start))"
  proof (cases "fst (try_recover cpu d start)")
    case (Some r)
    then obtain g mi where g: "map_of (fd_groups d) start = Some g" "g_parity g \<noteq> None"
      and s: "scan_missing (g_got g) 0 [0 ..< g_k g] None = Some (Some mi)"
      using try_recover_SomeD [of cpu d start] by auto
    have ok: "group_ok pay k start g" using dec_ok_lookup [OF assms g(1)] .
    then have gk: "g_k g = k" using g(2) by (auto simp: group_ok_def)
    have mi: "mi < k" "got_set k (g_got g) = {..<k} - {mi}" using scan_missing_SomeD [of "g_got g" k mi] s gk by auto
    then show ?thesis
      using try_recover_missing [OF g(1) ok g(2) mi dec_ok_params(3) [OF assms]] by simp
  qed simp
qed

end
