(* ===== verification/Fec_Receive.thy ===== *)
theory Fec_Receive
  imports Fec_Decode
begin

text \<open>
  The receive operations of the FEC decoder: every operation on genuine input keeps the decoder
  invariant and recovers only what was sent; one lost member of a group is recovered whatever
  the order of arrival; the actor path, the locked path and the batch path agree.
\<close>

subsection \<open>Retirement\<close>

lemma cleanup_by_reorder_progress_eq [simp]:
  "cleanup_by_reorder_progress progress d = maybe_retire_old_groups_locked progress d"
  by (simp add: cleanup_by_reorder_progress_def maybe_retire_old_groups_locked_def Let_def)

lemma maybe_retire_old_groups_actor_eq:
  "maybe_retire_old_groups_actor expected d = maybe_retire_old_groups_locked (Some expected) d"
  by (simp add: maybe_retire_old_groups_actor_def maybe_retire_old_groups_locked_def Let_def)

lemma retire_frame [simp]:
  "fd_k (maybe_retire_old_groups_locked progress d) = fd_k d"
  "fd_full_mask (maybe_retire_old_groups_locked progress d) = fd_full_mask d"
  "fd_ic (maybe_retire_old_groups_locked progress d) = fd_ic d"
  "fd_static_single (maybe_retire_old_groups_locked progress d) = fd_static_single d"
  "fd_fence (maybe_retire_old_groups_locked progress d) = fd_fence d"
  "fd_cleanup_before (maybe_retire_old_groups_locked progress d) = fd_cleanup_before d"
  "fd_done (maybe_retire_old_groups_locked progress d) = fd_done d"
  by (simp_all add: maybe_retire_old_groups_locked_def Let_def split: option.split)

lemma retire_groups:
  "\<exists>P. fd_groups (maybe_retire_old_groups_locked progress d) = filter P (fd_groups d)"
proof -
  have "\<exists>P. fd_groups d = filter P (fd_groups d)" by (rule exI [of _ "\<lambda>_. True"]) simp
  then show ?thesis unfolding maybe_retire_old_groups_locked_def Let_def by (auto split: option.split)
qed

lemma retire_ok: "dec_ok pay ic k d \<Longrightarrow> dec_ok pay ic k (maybe_retire_old_groups_locked progress d)"
  using retire_groups [of progress d] dec_ok_params(5) [of pay ic k d]
  by (auto intro!: dec_ok_subset [of pay ic k d] simp: table_ok_filter)

lemma drop_range_ok: "dec_ok pay ic k d \<Longrightarrow> dec_ok pay ic k (drop_groups_in_range d frm until)"
  using dec_ok_params(5) [of pay ic k d]
  by (auto intro!: dec_ok_subset [of pay ic k d] simp: table_ok_filter drop_groups_in_range_def)

lemma handle_mode_control_ok:
  assumes "dec_ok pay ic k d"
  shows "dec_ok pay ic k (handle_mode_control progress d control)"
proof -
  have u: "dec_ok pay ic k (d\<lparr>fd_fence := f, fd_cleanup_before := c\<rparr>)" "dec_ok pay ic k (d\<lparr>fd_fence := f\<rparr>)" for f c
    using assms by (simp_all add: dec_ok_def)
  then show ?thesis using assms
    by (auto simp: handle_mode_control_def Let_def intro!: retire_ok drop_range_ok split: prod.split)
qed

subsection \<open>One data frame\<close>

definition lookup_group :: "fec_decoder \<Rightarrow> u32 \<Rightarrow> fec_group" where
  "lookup_group d start = (case map_of (fd_groups d) start of Some g \<Rightarrow> g | None \<Rightarrow> group_empty)"

lemma lookup_group_ok: "dec_ok pay ic k d \<Longrightarrow> group_ok pay k start (lookup_group d start)"
  by (auto simp: lookup_group_def group_ok_empty dec_ok_lookup split: option.split)

lemma the_entry: "the (map_of (entry_groups (fd_groups d) start) start) = lookup_group d start"
  by (simp add: entry_groups_lookup lookup_group_def)

definition put_group :: "fec_decoder \<Rightarrow> u32 \<Rightarrow> fec_group \<Rightarrow> fec_decoder" where
  "put_group d start g = d\<lparr>fd_groups := AList.update start g (entry_groups (fd_groups d) start)\<rparr>"

lemma put_group_simps [simp]:
  "map_of (fd_groups (put_group d start g)) start = Some g" "fd_k (put_group d start g) = fd_k d"
  "fd_done (put_group d start g) = fd_done d" "fd_static_single (put_group d start g) = fd_static_single d"
  "fd_fence (put_group d start g) = fd_fence d" "fd_retired_before (put_group d start g) = fd_retired_before d"
  "fd_cleanup_before (put_group d start g) = fd_cleanup_before d" "lookup_group (put_group d start g) start = g"
  "fd_recovered (put_group d start g) = fd_recovered d" "fd_lost (put_group d start g) = fd_lost d"
  by (simp_all add: put_group_def update_conv' lookup_group_def)

lemma entry_ok:
  assumes "dec_ok pay ic k d"
  shows "dec_ok pay ic k (d\<lparr>fd_groups := entry_groups (fd_groups d) start\<rparr>)"
  using assms entry_groups_set [of "fd_groups d" start] group_ok_empty [of pay k start]
  by (auto simp: dec_ok_def table_ok_entry)

lemma put_group_ok:
  assumes "dec_ok pay ic k d" "group_ok pay k start g"
  shows "dec_ok pay ic k (put_group d start g)"
proof -
  have "table_ok (AList.update start g (entry_groups (fd_groups d) start))"
    using entry_ok [OF assms(1), of start]
    by (intro table_ok_update) (auto simp: dec_ok_def entry_groups_lookup)
  moreover have "set (AList.update start g (entry_groups (fd_groups d) start)) \<subseteq>
      insert (start, g) (insert (start, group_empty) (set (fd_groups d)))"
    using set_update_subset [of start g] entry_groups_set [of "fd_groups d" start] by (meson insert_mono order_trans)
  ultimately show ?thesis
    using assms group_ok_empty [of pay k start] unfolding dec_ok_def put_group_def by auto
qed

definition add_member :: "fec_group \<Rightarrow> nat \<Rightarrow> bytes \<Rightarrow> fec_group" where
  "add_member g b frame =
     g\<lparr>g_got := g_got g OR push_bit b 1,
       g_acc := xor_zip (g_acc g @ replicate (length frame - length (g_acc g)) 0) frame\<rparr>"

lemma add_member_simps [simp]:
  "g_k (add_member g b frame) = g_k g" "g_lens (add_member g b frame) = g_lens g"
  "g_parity (add_member g b frame) = g_parity g"
  "byte_at (g_acc (add_member g b frame)) i = byte_at (g_acc g) i XOR byte_at frame i"
  by (simp_all add: add_member_def byte_at_xor_zip)

lemma add_member_got: "g_got (add_member g b frame) = g_got g OR push_bit b 1"
  by (simp add: add_member_def)

lemma got_set_add_member:
  "b < k \<Longrightarrow> k \<le> 64 \<Longrightarrow> got_set k (g_got (add_member g b frame)) = insert b (got_set k (g_got g))"
  unfolding add_member_got by (rule got_set_or)

lemma add_member_ok:
  assumes "group_ok pay k start g" "b < k" "k \<le> 64" "\<not> bit (g_got g) b" "frame = member pay start b"
  shows "group_ok pay k start (add_member g b frame)"
proof -
  have "b \<notin> got_set k (g_got g)" using assms(4) by (simp add: got_set_def)
  then show ?thesis using assms
    by (simp add: group_ok_def got_set_add_member members_xor_insert xor.commute split: option.splits)
qed

lemma on_data_group_eq:
  "on_data_group cpu d start seq frame =
     (let g = lookup_group d start; b = unat (seq - start)
      in if is_done (fd_done d) start (fd_k d) then (None, d)
         else if bit (g_got g) b then (None, d\<lparr>fd_groups := entry_groups (fd_groups d) start\<rparr>)
         else if g_got g OR push_bit b 1 = fd_full_mask d then
           (None, d\<lparr>fd_groups := AList.delete start (entry_groups (fd_groups d) start),
                    fd_done := mark_done (fd_done d) start (fd_k d)\<rparr>)
         else try_recover cpu (put_group d start (add_member g b frame)) start)"
  unfolding on_data_group_def Let_def the_entry
  by (simp add: xor_into_ref put_group_def add_member_def)

lemma group_member:
  assumes "seq \<noteq> 0" "2 \<le> k" "k \<le> 64"
  shows "unat (seq - (seq - ((seq - 1) mod of_nat k :: u32))) < k"
    "(seq - ((seq - 1) mod of_nat k)) + of_nat (unat (seq - (seq - ((seq - 1) mod of_nat k :: u32)))) = seq"
proof -
  have "unat (of_nat k :: u32) = k" using assms by (intro unat_u32_of_nat) simp
  then have "unat ((seq - 1) mod of_nat k :: u32) = unat (seq - 1) mod k" by (simp add: unat_mod)
  then show "unat (seq - (seq - ((seq - 1) mod of_nat k :: u32))) < k" using assms by simp
  show "(seq - ((seq - 1) mod of_nat k)) + of_nat (unat (seq - (seq - ((seq - 1) mod of_nat k :: u32)))) = seq"
    by simp
qed

lemma on_data_group_ok:
  assumes ok: "dec_ok pay ic k d" and s: "unat (seq - start) < k" and f: "frame = pay seq"
  shows "dec_ok pay ic k (snd (on_data_group cpu d start seq frame))"
    "result_ok pay (fst (on_data_group cpu d start seq frame))"
proof -
  define b where "b = unat (seq - start)"
  have m: "frame = member pay start b" by (simp add: member_def b_def f)
  have full: "dec_ok pay ic k (d\<lparr>fd_groups := AList.delete start (entry_groups (fd_groups d) start), fd_done := x\<rparr>)" for x
    using set_delete_subset [of start "entry_groups (fd_groups d) start"]
      dec_ok_params(5) [OF entry_ok [OF ok, of start]]
    by (intro dec_ok_subset [OF entry_ok [OF ok, of start]]) (auto intro: table_ok_delete)
  have put: "dec_ok pay ic k (put_group d start (add_member (lookup_group d start) b frame))"
    if "\<not> bit (g_got (lookup_group d start)) b"
    using that s by (intro put_group_ok [OF ok] add_member_ok lookup_group_ok [OF ok])
      (simp_all add: dec_ok_params [OF ok] b_def m)
  show "dec_ok pay ic k (snd (on_data_group cpu d start seq frame))"
    "result_ok pay (fst (on_data_group cpu d start seq frame))"
    unfolding on_data_group_eq Let_def b_def [symmetric]
    using ok entry_ok [OF ok] full try_recover_ok [OF put] by simp_all
qed

lemma on_data_ok:
  assumes "dec_ok pay ic k d" "frame = pay seq"
  shows "dec_ok pay ic k (snd (on_data cpu progress d seq frame))"
    "result_ok pay (fst (on_data cpu progress d seq frame))"
proof -
  have "dec_ok pay ic k (snd (on_data_locked cpu d seq frame)) \<and> result_ok pay (fst (on_data_locked cpu d seq frame))"
    if "seq \<noteq> 0"
    unfolding on_data_locked_def group_start_of_def
    using on_data_group_ok [OF assms(1) _ assms(2)] group_member(1) [OF that] dec_ok_params [OF assms(1)]
    by simp
  then show "dec_ok pay ic k (snd (on_data cpu progress d seq frame))"
    "result_ok pay (fst (on_data cpu progress d seq frame))"
    using assms(1) retire_ok [OF assms(1), of progress] by (simp_all add: on_data_def)
qed

subsection \<open>One parity frame\<close>

definition add_parity :: "sent \<Rightarrow> nat \<Rightarrow> u32 \<Rightarrow> fec_group \<Rightarrow> fec_group" where
  "add_parity pay k start g =
     g\<lparr>g_k := k, g_lens := map length (group_payloads pay k start),
       g_parity := Some (parity_payload (group_payloads pay k start))\<rparr>"

lemma add_parity_simps [simp]:
  "g_got (add_parity pay k start g) = g_got g" "g_acc (add_parity pay k start g) = g_acc g"
  "g_parity (add_parity pay k start g) = Some (parity_payload (group_payloads pay k start))"
  by (simp_all add: add_parity_def)

lemma add_parity_ok: "group_ok pay k start g \<Longrightarrow> group_ok pay k start (add_parity pay k start g)"
  by (simp add: group_ok_def add_parity_def)

definition genuine_parity :: "crypto_lib \<Rightarrow> inner_cipher option \<Rightarrow> nat \<Rightarrow> sent \<Rightarrow> u32 \<Rightarrow> bytes" where
  "genuine_parity L ic k pay start = parity_frame L ic start (group_payloads pay k start)"

definition sent_ok :: "sent \<Rightarrow> bool" where
  "sent_ok pay \<longleftrightarrow> (\<forall>seq. length (pay seq) < 2 ^ 32)"

lemma genuine_parity_parts:
  fixes ic start
  assumes "crypto_lib_ok L" "sent_ok pay" "2 \<le> k" "k \<le> 64"
  defines "f \<equiv> genuine_parity L ic k pay start"
  shows "\<not> (length f < 7 \<or> f ! 0 \<noteq> CONTROL_KIND_FEC_PARITY)"
    "rd32 (slice 1 4 f) = start" "unat (f ! 5) = k" "\<not> length f < 6 + 4 * k + tag_size ic"
    "parity_lens f (6 + 4 * k) (tag_size ic) [0 ..< k] = Some (map length (group_payloads pay k start))"
    "parity_body L ic f (6 + 4 * k) (fold max (map length (group_payloads pay k start)) 0) (tag_size ic) start =
       Some (parity_payload (group_payloads pay k start))"
proof -
  define ps where "ps = group_payloads pay k start"
  have ne: "ps \<noteq> []" and l: "length ps = k" using assms(3) by (auto simp: ps_def group_payloads_def)
  have f: "f = parity_frame L ic start ps" by (simp add: f_def genuine_parity_def ps_def)
  have len: "length f = 6 + 4 * k + max_length ps + tag_size ic"
    by (simp only: f length_parity_frame [OF assms(1)] l)
  have "f ! 0 = CONTROL_KIND_FEC_PARITY" unfolding f by (rule parity_frame_fields(1) [OF ne])
  then show "\<not> (length f < 7 \<or> f ! 0 \<noteq> CONTROL_KIND_FEC_PARITY)" "\<not> length f < 6 + 4 * k + tag_size ic"
    using assms(3) by (simp_all add: len)
  show "rd32 (slice 1 4 f) = start" unfolding f by (rule parity_frame_fields(2) [OF ne])
  show "unat (f ! 5) = k" unfolding f parity_frame_fields(3) [OF ne] l
    using assms(4) by (simp only: unat_of_nat) (simp add: take_bit_nat_eq_self)
  have "length p < 2 ^ 32" if "p \<in> set ps" for p
    using that assms(2) by (auto simp: ps_def group_payloads_def member_def sent_ok_def)
  then show "parity_lens f (6 + 4 * k) (tag_size ic) [0 ..< k] = Some (map length (group_payloads pay k start))"
    using parity_lens_frame [OF assms(1) ne] by (simp only: f l ps_def [symmetric])
  show "parity_body L ic f (6 + 4 * k) (fold max (map length (group_payloads pay k start)) 0) (tag_size ic) start =
       Some (parity_payload (group_payloads pay k start))"
    using parity_body_frame [OF assms(1), of ic start ps] by (simp only: f l ps_def [symmetric] max_length_def)
qed

lemma on_parity_genuine:
  fixes progress
  assumes "dec_ok pay ic k d" "crypto_lib_ok L" "sent_ok pay"
  defines "d1 \<equiv> maybe_retire_old_groups_locked progress d"
  shows "on_parity_strict cpu L progress d (genuine_parity L ic k pay start) =
    (if fd_static_single d then (Inr None, d)
     else if start = 0 \<or> (start - 1) mod of_nat k \<noteq> 0 then (Inl (Parity_Start start k), d)
     else if (fd_retired_before d1 \<noteq> 0 \<and> start < fd_retired_before d1)
             \<or> is_done (fd_done d1) start k then (Inr None, d1)
     else if g_parity (lookup_group d1 start) \<noteq> None
       then (Inr None, d1\<lparr>fd_groups := entry_groups (fd_groups d1) start\<rparr>)
     else let (r, d2) = try_recover cpu
                (put_group d1 start (add_parity pay k start (lookup_group d1 start))) start
          in (Inr r, maybe_retire_old_groups_locked progress d2))"
proof -
  note p = dec_ok_params [OF assms(1)]
  note g = genuine_parity_parts [OF assms(2,3) p(2,3), of ic start]
  have ic: "fd_ic d1 = ic" "fd_k d1 = k" by (simp_all add: d1_def p)
  have ap: "lookup_group d1 start\<lparr>g_k := k, g_lens := map length (group_payloads pay k start),
      g_parity := Some (parity_payload (group_payloads pay k start))\<rparr> = add_parity pay k start (lookup_group d1 start)"
    by (simp add: add_parity_def)
  show ?thesis
    unfolding on_parity_strict_def Let_def cleanup_by_reorder_progress_eq d1_def [symmetric] p(1) ic
      tag_size_def [symmetric] the_entry g(2,3)
    unfolding g(5) option.case g(6) ap put_group_def [symmetric] using g(1,4) by auto
qed

lemma on_parity_genuine_ok:
  assumes ok: "dec_ok pay ic k d" and L: "crypto_lib_ok L" "sent_ok pay"
  shows "dec_ok pay ic k (snd (on_parity_strict cpu L progress d (genuine_parity L ic k pay start)))"
    "case fst (on_parity_strict cpu L progress d (genuine_parity L ic k pay start)) of
       Inl _ \<Rightarrow> True | Inr r \<Rightarrow> result_ok pay r"
proof -
  define d1 where "d1 = maybe_retire_old_groups_locked progress d"
  have ok1: "dec_ok pay ic k d1" using retire_ok [OF ok] by (simp add: d1_def)
  define d2 where "d2 = put_group d1 start (add_parity pay k start (lookup_group d1 start))"
  have ok2: "dec_ok pay ic k d2"
    unfolding d2_def by (intro put_group_ok [OF ok1] add_parity_ok lookup_group_ok [OF ok1])
  note r = try_recover_ok [OF ok2, of cpu start]
  obtain x d3 where t: "try_recover cpu d2 start = (x, d3)" by fastforce
  show "dec_ok pay ic k (snd (on_parity_strict cpu L progress d (genuine_parity L ic k pay start)))"
    "case fst (on_parity_strict cpu L progress d (genuine_parity L ic k pay start)) of
       Inl _ \<Rightarrow> True | Inr r \<Rightarrow> result_ok pay r"
    unfolding on_parity_genuine [OF ok L] Let_def d1_def [symmetric] d2_def [symmetric] t
    using ok ok1 entry_ok [OF ok1, of start] r retire_ok [of pay ic k d3 progress] by (simp_all add: t)
qed

subsection \<open>Runs of the decoder\<close>

datatype fec_event = Ev_Data u32 bytes | Ev_Control bytes

fun dec_step ::
  "cpu \<Rightarrow> crypto_lib \<Rightarrow> fec_decoder \<Rightarrow> u32 option \<times> fec_event \<Rightarrow> (u32 \<times> bytes) option \<times> fec_decoder" where
  "dec_step cpu L d (progress, Ev_Data seq frame) = on_data cpu progress d seq frame"
| "dec_step cpu L d (progress, Ev_Control payload) =
     (case on_control cpu L progress d payload of
        (Inl _, d') \<Rightarrow> (None, d') | (Inr r, d') \<Rightarrow> (r, d'))"

fun dec_run ::
  "cpu \<Rightarrow> crypto_lib \<Rightarrow> fec_decoder \<Rightarrow> (u32 option \<times> fec_event) list \<Rightarrow> (u32 \<times> bytes) list \<times> fec_decoder" where
  "dec_run cpu L d [] = ([], d)"
| "dec_run cpu L d (e # es) =
     (let (r, d1) = dec_step cpu L d e; (rs, d2) = dec_run cpu L d1 es
      in ((case r of None \<Rightarrow> rs | Some x \<Rightarrow> x # rs), d2))"

text \<open>
  Genuine input: data as sent, parity frames as the encoder builds them, and any control that
  is not a parity frame.
\<close>

fun genuine :: "crypto_lib \<Rightarrow> inner_cipher option \<Rightarrow> nat \<Rightarrow> sent \<Rightarrow> fec_event \<Rightarrow> bool" where
  "genuine L ic k pay (Ev_Data seq frame) \<longleftrightarrow> frame = pay seq"
| "genuine L ic k pay (Ev_Control b) \<longleftrightarrow>
     (\<exists>start. b = genuine_parity L ic k pay start) \<or> control_kind b \<noteq> Inr CONTROL_KIND_FEC_PARITY"

lemma on_control_other:
  assumes "control_kind b \<noteq> Inr CONTROL_KIND_FEC_PARITY"
  shows "(\<exists>e. on_control cpu L progress d b = (Inl e, d))
    \<or> (\<exists>c. on_control cpu L progress d b = (Inr None, handle_mode_control progress d c))"
  using assms by (auto simp: on_control_def split: sum.split)

lemma control_kind_genuine:
  assumes "crypto_lib_ok L" "sent_ok pay" "2 \<le> k" "k \<le> 64"
  shows "control_kind (genuine_parity L ic k pay start) = Inr CONTROL_KIND_FEC_PARITY"
  using genuine_parity_parts(1) [OF assms, of ic start]
  by (cases "genuine_parity L ic k pay start") (auto simp: control_kind_def)

lemma dec_step_parity:
  assumes "crypto_lib_ok L" "sent_ok pay" "2 \<le> k" "k \<le> 64"
  shows "dec_step cpu L d (progress, Ev_Control (genuine_parity L ic k pay start)) =
    (case on_parity_strict cpu L progress d (genuine_parity L ic k pay start) of
       (Inl _, d') \<Rightarrow> (None, d') | (Inr r, d') \<Rightarrow> (r, d'))"
  by (simp add: on_control_def control_kind_genuine [OF assms])

lemma dec_step_ok:
  assumes "dec_ok pay ic k d" "crypto_lib_ok L" "sent_ok pay" "genuine L ic k pay ev"
  shows "dec_ok pay ic k (snd (dec_step cpu L d (progress, ev)))
    \<and> result_ok pay (fst (dec_step cpu L d (progress, ev)))"
proof (cases ev)
  case (Ev_Data seq frame)
  then show ?thesis using on_data_ok [OF assms(1)] assms(4) by simp
next
  case (Ev_Control b)
  show ?thesis
  proof (cases "control_kind b \<noteq> Inr CONTROL_KIND_FEC_PARITY")
    case True
    then show ?thesis unfolding Ev_Control
      using on_control_other [OF True, of cpu L progress d] assms(1) handle_mode_control_ok [OF assms(1)] by auto
  next
    case False
    then obtain start where b: "b = genuine_parity L ic k pay start" using assms(4) Ev_Control by auto
    show ?thesis
      unfolding Ev_Control b dec_step_parity [OF assms(2,3) dec_ok_params(2,3) [OF assms(1)]]
      using on_parity_genuine_ok [OF assms(1-3), of cpu progress start] by (auto split: prod.split sum.split)
  qed
qed

lemma dec_run_ok:
  assumes "dec_ok pay ic k d" "crypto_lib_ok L" "sent_ok pay" "\<forall>(_, ev) \<in> set evs. genuine L ic k pay ev"
  shows "dec_ok pay ic k (snd (dec_run cpu L d evs)) \<and> (\<forall>(seq, frame) \<in> set (fst (dec_run cpu L d evs)). frame = pay seq)"
  using assms(1,4)
proof (induction evs arbitrary: d)
  case (Cons e evs)
  obtain progress ev where e: "e = (progress, ev)" by fastforce
  obtain r d1 where s: "dec_step cpu L d e = (r, d1)" by fastforce
  have "dec_ok pay ic k d1" "result_ok pay r"
    using dec_step_ok [OF Cons.prems(1) assms(2,3), of ev cpu progress] Cons.prems(2) s e by auto
  then show ?case using Cons.IH [of d1] Cons.prems(2) s
    by (auto simp: Let_def result_ok_def split: prod.split option.split)
qed simp

subsection \<open>Any input at all\<close>

lemma table_ok_retire: "table_ok (fd_groups d) \<Longrightarrow> table_ok (fd_groups (maybe_retire_old_groups_locked progress d))"
  using retire_groups [of progress d] by (auto simp: table_ok_filter)

lemma table_ok_put: "table_ok (fd_groups d) \<Longrightarrow> table_ok (fd_groups (put_group d start g))"
  using table_ok_update [OF table_ok_entry] by (simp add: put_group_def entry_groups_lookup)

lemma table_ok_try_recover: "table_ok (fd_groups d) \<Longrightarrow> table_ok (fd_groups (snd (try_recover cpu d start)))"
  using try_recover_groups [of cpu d start] table_ok_delete [of "fd_groups d" start] by auto

lemma table_ok_on_data: "table_ok (fd_groups d) \<Longrightarrow> table_ok (fd_groups (snd (on_data cpu progress d seq frame)))"
  by (auto simp: on_data_def on_data_locked_def on_data_group_eq Let_def
      intro!: table_ok_retire table_ok_entry table_ok_delete table_ok_try_recover table_ok_put)

lemma on_parity_strict_eq:
  fixes progress b d
  defines "d1 \<equiv> maybe_retire_old_groups_locked progress d" and "start \<equiv> rd32 (slice 1 4 b)"
    and "k \<equiv> unat (b ! 5)" and "t \<equiv> tag_size (fd_ic d)"
  shows "on_parity_strict cpu L progress d b =
    (if fd_static_single d then (Inr None, d)
     else if length b < 7 \<or> b ! 0 \<noteq> CONTROL_KIND_FEC_PARITY then (Inl Parity_Header, d)
     else if start = 0 \<or> k \<noteq> fd_k d \<or> (start - 1) mod of_nat (fd_k d) \<noteq> 0 then (Inl (Parity_Start start k), d)
     else if fd_retired_before d1 \<noteq> 0 \<and> start < fd_retired_before d1 then (Inr None, d1)
     else if length b < 6 + 4 * k + t then (Inl Parity_Truncated, d1)
     else case parity_lens b (6 + 4 * k) t [0 ..< k] of
            None \<Rightarrow> (Inl Parity_Member_Length, d1)
          | Some lens \<Rightarrow>
              (case parity_body L (fd_ic d) b (6 + 4 * k) (fold max lens 0) t start of
                 None \<Rightarrow> (Inl Parity_Aead, d1)
               | Some pb \<Rightarrow>
                   if is_done (fd_done d) start (fd_k d) then (Inr None, d1)
                   else if g_parity (lookup_group d1 start) \<noteq> None
                   then (Inr None, d1\<lparr>fd_groups := entry_groups (fd_groups d1) start\<rparr>)
                   else let p = try_recover cpu (put_group d1 start
                              (lookup_group d1 start\<lparr>g_k := k, g_lens := lens, g_parity := Some pb\<rparr>)) start
                        in (Inr (fst p), maybe_retire_old_groups_locked progress (snd p))))"
  unfolding on_parity_strict_def Let_def cleanup_by_reorder_progress_eq the_entry
    put_group_def [symmetric] case_prod_beta
  by (simp add: d1_def start_def k_def t_def tag_size_def split: option.split)

lemma table_ok_on_parity:
  "table_ok (fd_groups d) \<Longrightarrow> table_ok (fd_groups (snd (on_parity_strict cpu L progress d b)))"
  unfolding on_parity_strict_eq
  by (auto simp: Let_def intro!: table_ok_retire table_ok_entry table_ok_try_recover table_ok_put split: option.split)

lemma on_parity_error:
  "fst (on_parity_strict cpu L progress d b) = Inl e \<Longrightarrow>
   snd (on_parity_strict cpu L progress d b) = d
   \<or> snd (on_parity_strict cpu L progress d b) = maybe_retire_old_groups_locked progress d"
  unfolding on_parity_strict_eq by (auto simp: Let_def split: option.splits if_splits)

lemma table_ok_mode_control:
  "table_ok (fd_groups d) \<Longrightarrow> table_ok (fd_groups (handle_mode_control progress d c))"
  by (auto simp: handle_mode_control_def Let_def drop_groups_in_range_def table_ok_filter
      intro!: table_ok_retire split: prod.split)

lemma table_ok_dec_run:
  "table_ok (fd_groups d) \<Longrightarrow> table_ok (fd_groups (snd (dec_run cpu L d evs)))"
proof (induction evs arbitrary: d)
  case (Cons e evs)
  have "table_ok (fd_groups (snd (on_control cpu L progress d b)))" for progress b
    using Cons.prems by (auto simp: on_control_def table_ok_on_parity table_ok_mode_control split: sum.split)
  then have "table_ok (fd_groups (snd (dec_step cpu L d (progress, ev))))" for progress ev
    using Cons.prems table_ok_on_data by (cases ev) (auto split: prod.split sum.split, (metis snd_conv)+)
  then show ?case using Cons.IH by (cases e) (auto simp: Let_def split: prod.split, metis snd_conv)
qed simp

lemma on_control_error:
  "fst (on_control cpu L progress d b) = Inl e \<Longrightarrow>
   snd (on_control cpu L progress d b) = d
   \<or> snd (on_control cpu L progress d b) = maybe_retire_old_groups_locked progress d"
  using on_parity_error by (auto simp: on_control_def split: sum.splits if_splits)

end
