(* ===== verification/Fec_Recovery.thy ===== *)
theory Fec_Recovery
  imports Fec_Receive
begin

text \<open>
  What the FEC decoder promises its users: recovery of a single loss in any order of arrival,
  soundness of everything it recovers, bounded memory on any input, and agreement of its three
  receive paths.
\<close>

subsection \<open>A group that is being collected\<close>

definition collecting ::
  "sent \<Rightarrow> inner_cipher option \<Rightarrow> nat \<Rightarrow> u32 \<Rightarrow> fec_decoder \<Rightarrow> nat set \<Rightarrow> bool \<Rightarrow> bool" where
  "collecting pay ic k start d S par \<longleftrightarrow>
     dec_ok pay ic k d \<and> \<not> fd_static_single d
     \<and> (\<forall>j < k. \<not> bypass_data (fd_fence d) (start + of_nat j))
     \<and> fd_cleanup_before d \<le> start \<and> fd_retired_before d \<le> start
     \<and> \<not> is_done (fd_done d) start k
     \<and> got_set k (g_got (lookup_group d start)) = S
     \<and> (g_parity (lookup_group d start) \<noteq> None \<longleftrightarrow> par)"

definition group_at :: "nat \<Rightarrow> u32 \<Rightarrow> bool" where
  "group_at k start \<longleftrightarrow> start \<noteq> 0 \<and> (start - 1) mod of_nat k = 0 \<and> unat start + k \<le> 2 ^ 32"

lemma unat_group_member:
  assumes "group_at k start" "j < k"
  shows "unat (start + of_nat j) = unat start + j" "unat (start + of_nat j - 1) = unat (start - 1) + j"
proof -
  have j: "unat (of_nat j :: u32) = j" using assms by (intro unat_u32_of_nat) (auto simp: group_at_def)
  have "unat start + unat (of_nat j :: u32) < 2 ^ LENGTH(32)" using assms by (simp add: group_at_def j)
  then show s: "unat (start + of_nat j) = unat start + j" using unat_add_lem [of start "of_nat j"] j by simp
  have "unat start \<noteq> 0" using assms by (simp add: group_at_def unat_eq_0)
  moreover have "start + of_nat j \<noteq> 0" using s \<open>unat start \<noteq> 0\<close> by (metis add_is_0 unat_0)
  ultimately show "unat (start + of_nat j - 1) = unat (start - 1) + j"
    using unat_minus_1 [of "start + of_nat j"] unat_minus_1 [of start] s assms by (simp add: group_at_def)
qed

lemma group_at_member:
  assumes "group_at k start" "j < k" "2 \<le> k" "k \<le> 64"
  shows "(start + of_nat j) - ((start + of_nat j - 1) mod of_nat k) = start"
    "start \<le> start + of_nat j" "start + of_nat j \<noteq> 0" "unat (start + of_nat j - start) = j"
proof -
  have k: "unat (of_nat k :: u32) = k" using assms by (intro unat_u32_of_nat) simp
  have j: "unat (of_nat j :: u32) = j" using assms by (intro unat_u32_of_nat) simp
  have a: "unat (start - 1) mod k = 0"
    using assms(1) k by (simp add: group_at_def word_unat_eq_iff unat_mod)
  have "unat ((start + of_nat j - 1) mod of_nat k) = unat (of_nat j :: u32)"
    using a assms(2) by (simp add: unat_mod k j unat_group_member [OF assms(1,2)] mod_add_eq [symmetric])
  then show "(start + of_nat j) - ((start + of_nat j - 1) mod of_nat k) = start"
    by (simp add: word_unat_eq_iff [symmetric])
  show "start \<le> start + of_nat j" by (simp add: word_le_nat_alt unat_group_member [OF assms(1,2)])
  show "start + of_nat j \<noteq> 0"
    using assms(1) unat_group_member(1) [OF assms(1,2)] by (auto simp: group_at_def unat_eq_0)
  show "unat (start + of_nat j - start) = j" using j by simp
qed

lemma map_of_filter_key: "P key \<Longrightarrow> map_of (filter (\<lambda>(key', _). P key') al) key = map_of al key"
  by (induction al) auto

lemma retire_collecting:
  assumes "collecting pay ic k start d S par"
  shows "collecting pay ic k start (maybe_retire_old_groups_locked progress d) S par"
proof -
  have c: "fd_cleanup_before d \<le> start" "fd_retired_before d \<le> start" using assms by (auto simp: collecting_def)
  have "\<not> start < fd_cleanup_before d" using c(1) by simp
  then have "lookup_group (maybe_retire_old_groups_locked progress d) start = lookup_group d start"
    using map_of_filter_key [of "\<lambda>key. \<not> key < fd_cleanup_before d" start "fd_groups d"]
    by (auto simp: lookup_group_def maybe_retire_old_groups_locked_def Let_def split: option.split)
  moreover have "fd_retired_before (maybe_retire_old_groups_locked progress d) \<le> start"
    using c by (auto simp: maybe_retire_old_groups_locked_def Let_def split: option.split)
  ultimately show ?thesis using assms by (auto simp: collecting_def retire_ok)
qed

lemma try_recover_wait:
  assumes "map_of (fd_groups d) start = Some g" "group_ok pay k start g"
    "g_parity g = None \<or> (\<exists>i j. i < k \<and> j < k \<and> i \<noteq> j \<and> \<not> bit (g_got g) i \<and> \<not> bit (g_got g) j)"
  shows "try_recover cpu d start = (None, d)"
proof (cases "g_parity g")
  case None
  then show ?thesis using assms(1) by (simp add: try_recover_def)
next
  case (Some p)
  then have gk: "g_k g = k" using assms(2) by (simp add: group_ok_def)
  have "scan_missing (g_got g) 0 [0 ..< k] None = None"
    using assms(3) Some scan_missing_more by auto
  then show ?thesis using assms(1) Some gk by (simp add: try_recover_def)
qed

lemma collect_put:
  assumes c: "collecting pay ic k start d S0 par0" and g: "group_ok pay k start g"
    and S: "got_set k (g_got g) = S" "S \<subseteq> {..<k} - {mi}" "mi < k" and par: "g_parity g \<noteq> None \<longleftrightarrow> par"
  shows "par \<and> S = {..<k} - {mi} \<Longrightarrow>
      fst (try_recover cpu (put_group d start g) start) = Some (start + of_nat mi, pay (start + of_nat mi))"
    "\<not> (par \<and> S = {..<k} - {mi}) \<Longrightarrow>
      try_recover cpu (put_group d start g) start = (None, put_group d start g)
      \<and> collecting pay ic k start (put_group d start g) S par"
proof -
  have ok: "dec_ok pay ic k d" using c by (simp add: collecting_def)
  note pg = put_group_simps(1) [of d start g]
  show "fst (try_recover cpu (put_group d start g) start) = Some (start + of_nat mi, pay (start + of_nat mi))"
    if "par \<and> S = {..<k} - {mi}"
    using that par S try_recover_missing [OF pg g _ S(3)] dec_ok_params(3) [OF ok] by simp
  assume n: "\<not> (par \<and> S = {..<k} - {mi})"
  have "g_parity g = None \<or> (\<exists>i j. i < k \<and> j < k \<and> i \<noteq> j \<and> \<not> bit (g_got g) i \<and> \<not> bit (g_got g) j)"
  proof (cases par)
    case True
    then obtain j where "j \<in> {..<k} - {mi} - S" using n S(2) by blast
    then have "j < k" "j \<noteq> mi" "\<not> bit (g_got g) j" using S(1) by (auto simp: got_set_def)
    moreover have "\<not> bit (g_got g) mi" using S by (auto simp: got_set_def)
    ultimately show ?thesis using S(3) by blast
  qed (use par in auto)
  then have "try_recover cpu (put_group d start g) start = (None, put_group d start g)"
    by (rule try_recover_wait [OF pg g])
  then show "try_recover cpu (put_group d start g) start = (None, put_group d start g)
      \<and> collecting pay ic k start (put_group d start g) S par"
    using c put_group_ok [OF ok g] S(1) par by (simp add: collecting_def dec_ok_params [OF ok])
qed

lemma collect_data:
  assumes c: "collecting pay ic k start d S par" and at: "group_at k start" and j: "j < k" "j \<noteq> mi" "j \<notin> S"
    and S: "S \<subseteq> {..<k} - {mi}" "mi < k" and ne: "member pay start j \<noteq> []"
  defines "S' \<equiv> insert j S"
  shows "par \<and> S' = {..<k} - {mi} \<Longrightarrow>
      fst (on_data cpu progress d (start + of_nat j) (member pay start j)) =
        Some (start + of_nat mi, pay (start + of_nat mi))"
    "\<not> (par \<and> S' = {..<k} - {mi}) \<Longrightarrow> \<exists>d'.
      on_data cpu progress d (start + of_nat j) (member pay start j) = (None, d') \<and> collecting pay ic k start d' S' par"
proof -
  have ok: "dec_ok pay ic k d" using c by (simp add: collecting_def)
  note prm = dec_ok_params [OF ok]
  note m = group_at_member [OF at j(1) prm(2,3)]
  define g where "g = lookup_group d start"
  have gS: "got_set k (g_got g) = S" and gp: "g_parity g \<noteq> None \<longleftrightarrow> par" using c by (auto simp: collecting_def g_def)
  have nb: "\<not> bit (g_got g) j" using gS j by (auto simp: got_set_def)
  define g' where "g' = add_member g j (member pay start j)"
  have g': "group_ok pay k start g'"
    unfolding g'_def g_def by (intro add_member_ok lookup_group_ok [OF ok] j prm refl) (use nb in \<open>simp add: g_def\<close>)
  have gS': "got_set k (g_got g') = S'" unfolding g'_def S'_def got_set_add_member [OF j(1) prm(3)] gS ..
  have "got_set k (fd_full_mask d) = {..<k}" using prm(6) by (auto simp: got_set_def)
  then have nf: "g_got g OR push_bit j 1 \<noteq> fd_full_mask d"
    using gS' S j unfolding g'_def add_member_got S'_def by auto
  have nd: "\<not> is_done (fd_done d) start (fd_k d)" "\<not> fd_static_single d"
    "\<not> bypass_data (fd_fence d) (start + of_nat j)" "\<not> start + of_nat j < fd_retired_before d"
    using c j(1) m(2) by (auto simp: collecting_def prm)
  have e: "on_data cpu progress d (start + of_nat j) (member pay start j) = try_recover cpu (put_group d start g') start"
    using nd ne nb nf m(3,4)
    by (simp add: on_data_def on_data_locked_def group_start_of_def prm(1) m(1) on_data_group_eq Let_def
        g_def [symmetric] g'_def [symmetric] del: push_bit_of_1)
  note put = collect_put [OF c g' gS' _ S(2), of par cpu]
  have S': "S' \<subseteq> {..<k} - {mi}" and gp': "g_parity g' \<noteq> None \<longleftrightarrow> par"
    using S j gp by (auto simp: S'_def g'_def)
  show "par \<and> S' = {..<k} - {mi} \<Longrightarrow>
      fst (on_data cpu progress d (start + of_nat j) (member pay start j)) =
        Some (start + of_nat mi, pay (start + of_nat mi))"
    "\<not> (par \<and> S' = {..<k} - {mi}) \<Longrightarrow> \<exists>d'.
      on_data cpu progress d (start + of_nat j) (member pay start j) = (None, d') \<and> collecting pay ic k start d' S' par"
    unfolding e using put [OF S' gp'] by blast+
qed

lemma collect_parity:
  assumes c: "collecting pay ic k start d S False" and at: "group_at k start"
    and S: "S \<subseteq> {..<k} - {mi}" "mi < k" and L: "crypto_lib_ok L" "sent_ok pay"
  shows "S = {..<k} - {mi} \<Longrightarrow>
      fst (dec_step cpu L d (progress, Ev_Control (genuine_parity L ic k pay start))) =
        Some (start + of_nat mi, pay (start + of_nat mi))"
    "S \<noteq> {..<k} - {mi} \<Longrightarrow> \<exists>d'.
      dec_step cpu L d (progress, Ev_Control (genuine_parity L ic k pay start)) = (None, d')
      \<and> collecting pay ic k start d' S True"
proof -
  define d1 where "d1 = maybe_retire_old_groups_locked progress d"
  have c1: "collecting pay ic k start d1 S False" unfolding d1_def by (rule retire_collecting [OF c])
  have ok: "dec_ok pay ic k d" "dec_ok pay ic k d1" using c c1 by (simp_all add: collecting_def)
  note prm = dec_ok_params [OF ok(1)]
  define g' where "g' = add_parity pay k start (lookup_group d1 start)"
  have g': "group_ok pay k start g'" unfolding g'_def by (intro add_parity_ok lookup_group_ok [OF ok(2)])
  have gS: "got_set k (g_got g') = S" and gp: "g_parity g' \<noteq> None \<longleftrightarrow> True"
    using c1 by (auto simp: collecting_def g'_def)
  have st: "\<not> fd_static_single d" "\<not> (start = 0 \<or> (start - 1) mod of_nat k \<noteq> 0)"
    "\<not> ((fd_retired_before d1 \<noteq> 0 \<and> start < fd_retired_before d1) \<or> is_done (fd_done d1) start k)"
    "\<not> g_parity (lookup_group d1 start) \<noteq> None"
    using c c1 at by (auto simp: collecting_def group_at_def)
  have e: "dec_step cpu L d (progress, Ev_Control (genuine_parity L ic k pay start)) =
      (let p = try_recover cpu (put_group d1 start g') start
       in (fst p, maybe_retire_old_groups_locked progress (snd p)))"
    unfolding dec_step_parity [OF L prm(2,3)] on_parity_genuine [OF ok(1) L] d1_def [symmetric] g'_def [symmetric]
    using st by (auto simp: Let_def split: prod.split)
  note put = collect_put [OF c1 g' gS S gp, of cpu]
  show "S = {..<k} - {mi} \<Longrightarrow>
      fst (dec_step cpu L d (progress, Ev_Control (genuine_parity L ic k pay start))) =
        Some (start + of_nat mi, pay (start + of_nat mi))"
    "S \<noteq> {..<k} - {mi} \<Longrightarrow> \<exists>d'.
      dec_step cpu L d (progress, Ev_Control (genuine_parity L ic k pay start)) = (None, d')
      \<and> collecting pay ic k start d' S True"
    unfolding e using put retire_collecting by (simp_all add: Let_def)
qed

subsection \<open>Any order of arrival\<close>

definition pending_events ::
  "crypto_lib \<Rightarrow> inner_cipher option \<Rightarrow> nat \<Rightarrow> sent \<Rightarrow> u32 \<Rightarrow> nat \<Rightarrow> nat set \<Rightarrow> bool \<Rightarrow> fec_event set" where
  "pending_events L ic k pay start mi S par =
     (if par then {} else {Ev_Control (genuine_parity L ic k pay start)})
     \<union> (\<lambda>j. Ev_Data (start + of_nat j) (member pay start j)) ` ({..<k} - {mi} - S)"

lemma pending_parity:
  "pending_events L ic k pay start mi S False - {Ev_Control (genuine_parity L ic k pay start)} =
   pending_events L ic k pay start mi S True"
  by (auto simp: pending_events_def)

lemma pending_data:
  assumes "group_at k start" "j < k" "2 \<le> k" "k \<le> 64"
  shows "pending_events L ic k pay start mi S par - {Ev_Data (start + of_nat j) (member pay start j)} =
   pending_events L ic k pay start mi (insert j S) par"
proof -
  have "i = j" if "i < k" "(of_nat i :: u32) = of_nat j" for i
    using group_at_member(4) [OF assms(1) that(1) assms(3,4)] group_at_member(4) [OF assms] that(2) by simp
  then show ?thesis by (auto simp: pending_events_def)
qed

lemma pending_done:
  "S \<subseteq> {..<k} - {mi} \<Longrightarrow> pending_events L ic k pay start mi S par = {} \<longleftrightarrow> par \<and> S = {..<k} - {mi}"
  by (auto simp: pending_events_def)

lemma collect_run:
  assumes c: "collecting pay ic k start d S par" and at: "group_at k start"
    and S: "S \<subseteq> {..<k} - {mi}" "mi < k" and L: "crypto_lib_ok L" "sent_ok pay"
    and ne: "\<And>j. j < k \<Longrightarrow> member pay start j \<noteq> []"
    and evs: "evs \<noteq> []" "distinct (map snd evs)" "set (map snd evs) = pending_events L ic k pay start mi S par"
  shows "fst (dec_run cpu L d evs) = [(start + of_nat mi, pay (start + of_nat mi))]"
  using c S(1) evs
proof (induction evs arbitrary: d S par)
  case (Cons e evs)
  obtain progress ev where e: "e = (progress, ev)" by fastforce
  have prm: "2 \<le> k" "k \<le> 64" using Cons.prems(1) by (auto simp: collecting_def dec_ok_def)
  define E where "E = pending_events L ic k pay start mi"
  have tl: "set (map snd evs) = E S par - {ev}" "ev \<in> E S par" "distinct (map snd evs)"
    using Cons.prems(4,5) e by (auto simp: E_def)
  have "\<exists>S' par'. E S par - {ev} = E S' par' \<and> S' \<subseteq> {..<k} - {mi}
    \<and> (par' \<and> S' = {..<k} - {mi} \<longrightarrow>
         fst (dec_step cpu L d e) = Some (start + of_nat mi, pay (start + of_nat mi)))
    \<and> (\<not> (par' \<and> S' = {..<k} - {mi}) \<longrightarrow>
         (\<exists>d'. dec_step cpu L d e = (None, d') \<and> collecting pay ic k start d' S' par'))"
  proof (cases "ev = Ev_Control (genuine_parity L ic k pay start)")
    case True
    then have "\<not> par" using tl(2) by (auto simp: E_def pending_events_def)
    then show ?thesis using collect_parity [OF _ at Cons.prems(2) S(2) L, of ic d cpu progress] Cons.prems(1,2)
      by (intro exI [of _ S] exI [of _ True]) (auto simp: E_def True e pending_parity)
  next
    case False
    then obtain j where j: "j < k" "j \<noteq> mi" "j \<notin> S" "ev = Ev_Data (start + of_nat j) (member pay start j)"
      using tl(2) by (auto simp: E_def pending_events_def split: if_splits)
    show ?thesis
      using collect_data [OF Cons.prems(1) at j(1-3) Cons.prems(2) S(2) ne [OF j(1)], of cpu progress] Cons.prems(2) j
        pending_data [OF at j(1) prm, of L ic pay mi S par]
      by (intro exI [of _ "insert j S"] exI [of _ par]) (auto simp: E_def e)
  qed
  then obtain S' par' where S': "E S par - {ev} = E S' par'" "S' \<subseteq> {..<k} - {mi}"
    and rcv: "par' \<and> S' = {..<k} - {mi} \<Longrightarrow> fst (dec_step cpu L d e) = Some (start + of_nat mi, pay (start + of_nat mi))"
    and wait: "\<not> (par' \<and> S' = {..<k} - {mi}) \<Longrightarrow>
      \<exists>d'. dec_step cpu L d e = (None, d') \<and> collecting pay ic k start d' S' par'" by blast
  have fin: "evs = [] \<longleftrightarrow> par' \<and> S' = {..<k} - {mi}"
    using tl(1) S' pending_done [OF S'(2), of L ic pay start par'] by (auto simp: E_def)
  show ?case
  proof (cases "evs = []")
    case True
    then show ?thesis using fin rcv by (auto simp: Let_def split: prod.split)
  next
    case False
    then obtain d' where "dec_step cpu L d e = (None, d')" "collecting pay ic k start d' S' par'" using wait fin by blast
    then show ?thesis using Cons.IH [of d' S' par'] S' False tl by (auto simp: Let_def E_def split: prod.split)
  qed
qed simp

subsection \<open>The receive paths agree\<close>

lemma handle_mode_control_actor_eq:
  "handle_mode_control_actor d control expected = handle_mode_control (Some expected) d control"
  unfolding handle_mode_control_actor_def handle_mode_control_def fence_apply_actor_eq
    maybe_retire_old_groups_actor_eq ..

lemma on_data_actor_eq: "on_data_actor cpu d seq frame expected = on_data cpu (Some expected) d seq frame"
  by (simp add: on_data_actor_def on_data_def on_data_locked_def group_start_of_def maybe_retire_old_groups_actor_eq)

lemma on_parity_actor_eq: "on_parity_actor cpu L d payload expected = on_parity_strict cpu L (Some expected) d payload"
  unfolding on_parity_actor_def on_parity_strict_def cleanup_by_reorder_progress_eq maybe_retire_old_groups_actor_eq ..

lemma on_control_actor_eq: "on_control_actor cpu L d payload expected = on_control cpu L (Some expected) d payload"
  unfolding on_control_actor_def on_control_def on_parity_actor_eq handle_mode_control_actor_eq ..

lemma on_data_group_static [simp]:
  "fd_static_single (snd (on_data_group cpu d start seq frame)) = fd_static_single d"
  by (simp add: on_data_group_eq Let_def)

lemma batch_step_eq:
  assumes "\<not> fd_static_single d"
  shows "on_data_batch_step cpu progress d seq frame = on_data cpu progress d seq frame"
    "\<not> fd_static_single (snd (on_data cpu progress d seq frame))"
  using assms by (auto simp: on_data_batch_step_def on_data_def on_data_locked_def)

definition data_events :: "u32 option \<Rightarrow> (u32 \<times> bytes) list \<Rightarrow> (u32 option \<times> fec_event) list" where
  "data_events progress frames = map (\<lambda>(seq, frame). (progress, Ev_Data seq frame)) frames"

lemma batch_loop_eq:
  "\<not> fd_static_single d \<Longrightarrow>
   on_data_batch_loop cpu progress d frames = dec_run cpu L d (data_events progress frames)"
proof (induction frames arbitrary: d)
  case (Cons f frames)
  obtain seq frame where f: "f = (seq, frame)" by fastforce
  show ?case using Cons.IH batch_step_eq [OF Cons.prems, of cpu progress seq frame]
    by (auto simp: f data_events_def Let_def split: prod.split)
qed (simp add: data_events_def)

lemma static_run: "fd_static_single d \<Longrightarrow> dec_run cpu L d (data_events progress frames) = ([], d)"
  by (induction frames) (auto simp: data_events_def on_data_def)


subsection \<open>Properties\<close>

lemma decoder_collects:
  assumes "dec_ok pay ic k d" "map_of (fd_groups d) start = None" "\<not> fd_static_single d"
    "\<forall>j < k. \<not> bypass_data (fd_fence d) (start + of_nat j)" "fd_cleanup_before d \<le> start"
    "fd_retired_before d \<le> start" "\<not> is_done (fd_done d) start k"
  shows "collecting pay ic k start d {} False"
  using assms by (simp add: collecting_def lookup_group_def group_empty_def)

text \<open>
  C10. One loss per group is always repaired. After any genuine history, when a complete group
  that the decoder has not yet touched and does not bypass (no open fence over it, not retired,
  not finished) delivers its parity frame and all members but one, in any order, the decoder
  outputs exactly one frame: the missing payload under its own sequence number. This holds in
  clear and with the inner cipher, for any library whose \<open>open\<close> undoes \<open>seal\<close>.
\<close>
theorem fec_repairs_single_loss:
  assumes "crypto_lib_ok L" "sent_ok pay" "k = clamp_fec_group n"
    and "\<forall>(_, ev) \<in> set hist. genuine L ic k pay ev" and d: "d = snd (dec_run cpu L (decoder_new n ic) hist)"
    and at: "group_at k start" "mi < k" "\<forall>j < k. pay (start + of_nat j) \<noteq> []"
    and fresh: "map_of (fd_groups d) start = None" "\<not> is_done (fd_done d) start k" "\<not> fd_static_single d"
      "\<forall>j < k. \<not> bypass_data (fd_fence d) (start + of_nat j)" "fd_cleanup_before d \<le> start" "fd_retired_before d \<le> start"
    and evs: "distinct (map snd evs)"
      "set (map snd evs) = insert (Ev_Control (genuine_parity L ic k pay start))
         ((\<lambda>j. Ev_Data (start + of_nat j) (pay (start + of_nat j))) ` ({..<k} - {mi}))"
  shows "fst (dec_run cpu L d evs) = [(start + of_nat mi, pay (start + of_nat mi))]"
proof -
  have "dec_ok pay ic k d"
    using dec_run_ok [OF dec_ok_new assms(1,2)] assms(3,4) d by simp
  then have "collecting pay ic k start d {} False" using fresh by (intro decoder_collects)
  then show ?thesis
    by (rule collect_run [OF _ at(1) _ at(2) assms(1,2)]) (use evs at(3) in \<open>auto simp: pending_events_def member_def\<close>)
qed

text \<open>
  C19. Recovery is sound: on any sequence of genuine data and parity frames (lost, duplicated,
  reordered, of any groups) mixed with arbitrary other controls, every frame the decoder
  recovers is the payload that was sent under that sequence number.
\<close>
theorem fec_recovery_sound:
  assumes "crypto_lib_ok L" "sent_ok pay" "\<forall>(_, ev) \<in> set evs. genuine L ic (clamp_fec_group n) pay ev"
    and "(seq, frame) \<in> set (fst (dec_run cpu L (decoder_new n ic) evs))"
  shows "frame = pay seq"
  using dec_run_ok [OF dec_ok_new assms(1-3)] assms(4) by auto

text \<open>
  C25. The decoder is safe on any input: whatever bytes arrive, it holds at most 512 pending
  groups, one per start; and a control it rejects recovers nothing and leaves its state as it
  was, up to the retirement of groups the reorder buffer has already passed.
\<close>
theorem fec_decoder_safe_on_any_input:
  "length (fd_groups (snd (dec_run cpu L (decoder_new n ic) evs))) \<le> FEC_MAX_PENDING_GROUPS
   \<and> distinct (map fst (fd_groups (snd (dec_run cpu L (decoder_new n ic) evs))))
   \<and> (case on_control cpu L progress d payload of
        (Inl _, d') \<Rightarrow> d' = d \<or> d' = cleanup_by_reorder_progress progress d
      | (Inr _, _) \<Rightarrow> True)"
proof -
  have "table_ok (fd_groups (decoder_new n ic))" by (simp add: decoder_new_def Let_def)
  from table_ok_dec_run [OF this, of cpu L evs] show ?thesis
    using on_control_error [of cpu L progress d payload] by (auto simp: table_ok_def split: prod.split sum.split)
qed

definition sample_pay :: sent where
  "sample_pay s = (if s = 1 then [1, 2] else if s = 2 then [3] else [])"

theorem fec_repairs_single_loss_witness:
  "fst (dec_run X86_Avx2 sample_lib (decoder_new 2 None)
     [(None, Ev_Control (genuine_parity sample_lib None 2 sample_pay 1)), (Some 1, Ev_Data 1 [1, 2])]) = [(2, [3])]"
proof -
  have k: "clamp_fec_group 2 = 2" by (simp add: clamp_fec_group_def clamp_def FEC_MIN_GROUP_def FEC_MAX_GROUP_def)
  have j: "(j :: nat) < 2 \<longleftrightarrow> j = 0 \<or> j = 1" for j by auto
  have "{..<2 :: nat} - {1} = {0}" by auto
  then show ?thesis
    using fec_repairs_single_loss [OF sample_lib_ok, of sample_pay 2 2 "[]" None _ X86_Avx2 1 1
        "[(None, Ev_Control (genuine_parity sample_lib None 2 sample_pay 1)), (Some 1, Ev_Data 1 [1, 2])]"]
    by (simp add: k j sample_pay_def sent_ok_def group_at_def decoder_new_def Let_def is_done_def done_slot_def
        FEC_DONE_CACHE_def bypass_data_def fence_window_def fence_default_def)
qed

theorem fec_recovery_sound_witness:
  "(2, [3]) \<in> set (fst (dec_run Other_Cpu sample_lib (decoder_new 2 None)
     [(None, Ev_Control [1, 0, 0, 0, 1, 2, 0, 0, 0, 2, 0, 0, 0, 1, 2, 2]), (Some 1, Ev_Data 1 [1, 2])]))
   \<and> [3] = sample_pay 2"
proof -
  let ?evs = "[(None, Ev_Control [1, 0, 0, 0, 1, 2, 0, 0, 0, 2, 0, 0, 0, 1, 2, 2]), (Some 1, Ev_Data 1 [1, 2])]"
  have out: "(2, [3]) \<in> set (fst (dec_run Other_Cpu sample_lib (decoder_new 2 None) ?evs))" by code_simp
  have "[1, 0, 0, 0, 1, 2, 0, 0, 0, 2, 0, 0, 0, 1, 2, 2] = genuine_parity sample_lib None (clamp_fec_group 2) sample_pay 1"
    by code_simp
  then have "\<forall>(_, ev) \<in> set ?evs. genuine sample_lib None (clamp_fec_group 2) sample_pay ev"
    by (auto simp: sample_pay_def)
  then show ?thesis
    using fec_recovery_sound [OF sample_lib_ok, of sample_pay ?evs None 2 2 "[3]" Other_Cpu] out
    by (simp add: sent_ok_def sample_pay_def)
qed

end
