(* ===== verification/Fec_Encode.thy ===== *)
theory Fec_Encode
  imports Fec_Recovery
begin

text \<open>
  Correctness of the FEC encoder: fed with consecutive sequence numbers, under any changes of the
  number of physical paths, every parity frame it emits is the reference parity frame of a group
  on the grid of complete groups, which is exactly what the decoder's theorems ask of its input.
  The last property composes both ends.
\<close>

subsection \<open>The encoder between two frames\<close>

definition enc_group :: "sent \<Rightarrow> u32 \<Rightarrow> nat \<Rightarrow> fec_encoder \<Rightarrow> bool" where
  "enc_group pay start n e \<longleftrightarrow>
     fe_seqs e = map (\<lambda>j. start + of_nat j) [0 ..< n]
     \<and> fe_lens e = map (\<lambda>j. length (member pay start j)) [0 ..< n]
     \<and> fe_active_len e = max_length (map (member pay start) [0 ..< n])
     \<and> fe_active_len e \<le> length (fe_acc e)
     \<and> (\<forall>i. byte_at (fe_acc e) i = members_xor (member pay start) {..<n} i)"

text \<open>\<open>pos\<close> is the number of the next frame; the open group started \<open>length (fe_seqs e)\<close> frames ago.\<close>

definition enc_ok :: "sent \<Rightarrow> inner_cipher option \<Rightarrow> nat \<Rightarrow> nat \<Rightarrow> fec_encoder \<Rightarrow> bool" where
  "enc_ok pay ic k pos e \<longleftrightarrow>
     (let n = length (fe_seqs e)
      in fe_k e = k \<and> 2 \<le> k \<and> k \<le> 64 \<and> fe_ic e = ic \<and> n < k \<and> n < pos
         \<and> enc_group pay (of_nat (pos - n)) n e
         \<and> (if encoder_armed e then (pos - n - 1) mod k = 0 else n = 0))"

lemma enc_ok_group:
  "enc_ok pay ic k pos e \<Longrightarrow> enc_group pay (of_nat (pos - length (fe_seqs e))) (length (fe_seqs e)) e"
  by (simp only: enc_ok_def Let_def)

lemma enc_group_0:
  "enc_group pay start 0 e \<longleftrightarrow> fe_seqs e = [] \<and> fe_lens e = [] \<and> fe_active_len e = 0 \<and> (\<forall>i. byte_at (fe_acc e) i = 0)"
  by (auto simp: enc_group_def max_length_def)

lemma enc_ok_new: "enc_ok pay ic (clamp_fec_group k) 1 (encoder_new k ic)"
  using clamp_bounds [of 2 64 k]
  by (simp add: enc_ok_def encoder_new_def clamp_fec_group_def FEC_MIN_GROUP_def FEC_MAX_GROUP_def
      encoder_armed_def enc_group_0)

lemma byte_at_reset:
  assumes "\<And>i. n \<le> i \<Longrightarrow> byte_at acc i = 0" "n \<le> length acc"
  shows "byte_at (replicate n 0 @ drop n acc) i = 0"
  using assms(1) [of i] assms(2) by (auto simp: byte_at_def nth_append not_less)

lemma enc_acc_beyond:
  assumes "enc_group pay start n e" "fe_active_len e \<le> i"
  shows "byte_at (fe_acc e) i = 0"
proof -
  have "length (member pay start j) \<le> i" if "j < n" for j
    using assms max_length_ge [of "member pay start j" "map (member pay start) [0 ..< n]"] that
    by (force simp: enc_group_def)
  then have "members_xor (member pay start) {..<n} i = 0" by (intro members_xor_beyond) simp
  then show ?thesis using assms by (simp add: enc_group_def)
qed

lemma reset_group:
  assumes "enc_group pay start n e"
  shows "enc_group pay start' 0 (encoder_reset e)"
  using byte_at_reset [OF enc_acc_beyond [OF assms]] assms
  by (simp add: enc_group_0 encoder_reset_def) (simp add: enc_group_def)

lemma reset_simps [simp]:
  "fe_k (encoder_reset e) = fe_k e" "fe_ic (encoder_reset e) = fe_ic e" "fe_seqs (encoder_reset e) = []"
  "fe_multipath (encoder_reset e) = fe_multipath e" "fe_armed (encoder_reset e) = fe_armed e"
  "fe_parity_sent (encoder_reset e) = fe_parity_sent e"
  by (simp_all add: encoder_reset_def)

lemma enc_group_cong:
  "enc_group pay start n e \<Longrightarrow> fe_seqs e' = fe_seqs e \<Longrightarrow> fe_lens e' = fe_lens e \<Longrightarrow>
   fe_active_len e' = fe_active_len e \<Longrightarrow> fe_acc e' = fe_acc e \<Longrightarrow> enc_group pay start n e'"
  by (simp add: enc_group_def)

lemma set_paths_ok:
  assumes "enc_ok pay ic k pos e"
  shows "enc_ok pay ic k pos (set_physical_path_count e paths)"
proof -
  note g = enc_ok_group [OF assms]
  have idle: "enc_ok pay ic k pos e'"
    if "fe_seqs e' = []" "enc_group pay (of_nat pos) 0 e'" "\<not> fe_armed e'" "fe_k e' = fe_k e" "fe_ic e' = fe_ic e" for e'
    using that assms by (auto simp: enc_ok_def Let_def encoder_armed_def)
  have "enc_group pay (of_nat pos) 0 (encoder_reset (e\<lparr>fe_multipath := False\<rparr>))"
    by (rule reset_group [OF enc_group_cong [OF g]]) simp_all
  then have r: "enc_ok pay ic k pos (encoder_reset (e\<lparr>fe_multipath := False\<rparr>)\<lparr>fe_armed := False\<rparr>)"
    by (intro idle) (auto elim: enc_group_cong)
  have s: "enc_ok pay ic k pos (e\<lparr>fe_multipath := m, fe_armed := False\<rparr>)" if "fe_seqs e = []" for m
    using that g by (intro idle) (auto elim: enc_group_cong)
  have "fe_seqs e = []" if "\<not> fe_multipath e"
    using assms that by (auto simp: enc_ok_def Let_def encoder_armed_def)
  then show ?thesis using assms r s by (auto simp: set_physical_path_count_def Let_def)
qed

lemma enc_ok_skip: "enc_ok pay ic k pos e \<Longrightarrow> \<not> encoder_armed e \<Longrightarrow> enc_ok pay ic k (pos + 1) e"
  by (auto simp: enc_ok_def Let_def enc_group_0)

text \<open>The state with one more member in the open group, before a possible parity frame.\<close>

definition enc_push :: "fec_encoder \<Rightarrow> u32 \<Rightarrow> bytes \<Rightarrow> fec_encoder" where
  "enc_push e seq data =
     (let acc = fe_acc e @ replicate (length data - length (fe_acc e)) 0
      in e\<lparr>fe_armed := True, fe_seqs := fe_seqs e @ [seq], fe_lens := fe_lens e @ [length data],
           fe_acc := xor_zip acc data, fe_active_len := max (fe_active_len e) (length data)\<rparr>)"

lemma xor_zip_take:
  "length d \<le> length a \<Longrightarrow> xor_zip (take (length d) a) d @ drop (length d) a = xor_zip a d"
  by (rule nth_equalityI) (auto simp: xor_zip_def nth_append)

lemma encoder_add_eq:
  "encoder_add cpu L e seq data =
     (if data = [] \<or> \<not> fe_multipath e \<or> (\<not> fe_armed e \<and> (seq = 0 \<or> (seq - 1) mod of_nat (fe_k e) \<noteq> 0))
      then (None, e)
      else let e2 = enc_push e seq data
           in if length (fe_seqs e2) < fe_k e2 then (None, e2)
              else case build_parity L e2 of
                None \<Rightarrow> (None, e)
              | Some parity \<Rightarrow>
                  (Some parity, encoder_reset (e2\<lparr>fe_parity_sent := saturating_add (fe_parity_sent e2) 1\<rparr>)))"
proof -
  define acc where "acc = fe_acc e @ replicate (length data - length (fe_acc e)) 0"
  have l: "length data \<le> length acc" by (simp add: acc_def)
  have x: "xor_into cpu (take (length data) acc) data = Some (xor_zip (take (length data) acc) data)"
    using l by (intro xor_into_ref) simp
  have p: "e\<lparr>fe_armed := True, fe_seqs := fe_seqs e @ [seq], fe_lens := fe_lens e @ [length data],
      fe_acc := xor_zip (take (length data) acc) data @ drop (length data) acc,
      fe_active_len := max (fe_active_len e) (length data)\<rparr> = enc_push e seq data"
    unfolding xor_zip_take [OF l] by (simp add: enc_push_def acc_def)
  define off where "off \<longleftrightarrow> \<not> fe_armed e \<and> (seq = 0 \<or> (seq - 1) mod of_nat (fe_k e) \<noteq> 0)"
  show ?thesis unfolding encoder_add_def Let_def off_def [symmetric]
    by (auto simp: acc_def [symmetric] x p split: option.split)
qed

lemma max_length_snoc: "max_length (ps @ [p]) = max (max_length ps) (length p)"
  by (simp add: max_length_def max.commute)

lemma enc_push_group:
  assumes "enc_group pay start n e" "seq = start + of_nat n" "data = pay seq"
  shows "enc_group pay start (Suc n) (enc_push e seq data)"
proof -
  have "data = member pay start n" using assms by (simp add: member_def)
  then show ?thesis using assms(1,2)
    by (auto simp: enc_group_def enc_push_def Let_def byte_at_xor_zip members_xor_lessThan_Suc xor.commute
        max_length_snoc)
qed

lemma build_parity_genuine:
  assumes g: "enc_group pay start k e" and ic: "fe_ic e = ic" and k: "0 < k" and ne: "pay start \<noteq> []"
  shows "build_parity L e = Some (genuine_parity L ic k pay start)"
proof -
  define ps where "ps = group_payloads pay k start"
  have ps: "ps = map (member pay start) [0 ..< k]" by (simp add: ps_def group_payloads_def)
  have e: "fe_seqs e ! 0 = start" "length (fe_lens e) = k" "fe_lens e = map length ps"
    "fe_active_len e = max_length ps" "fe_active_len e \<le> length (fe_acc e)"
    using g k by (simp_all add: enc_group_def ps o_def)
  have body: "take (max_length ps) (fe_acc e) = parity_payload ps"
  proof (rule bytes_eqI)
    fix i assume "i < length (parity_payload ps)"
    then have "byte_at (take (max_length ps) (fe_acc e)) i = byte_at (fe_acc e) i" by (simp add: byte_at_def)
    then show "byte_at (take (max_length ps) (fe_acc e)) i = byte_at (parity_payload ps) i"
      using g by (simp add: enc_group_def ps byte_at_parity_payload)
  qed (use e in simp)
  have "length (pay start) \<le> max_length ps"
    using k by (intro max_length_ge) (force simp: ps member_def)
  then have pos: "length (parity_payload ps) \<noteq> 0" using ne by (cases "pay start") auto
  have kl: "length ps = k" by (simp add: ps_def)
  have desc: "[CONTROL_KIND_FEC_PARITY] @ be32 start @ [of_nat k] @ concat (map (\<lambda>l. be32 (of_nat l)) (map length ps))
      = parity_desc start ps" by (simp add: parity_desc_def o_def ps_def)
  show ?thesis
  proof (cases ic)
    case None
    show ?thesis
      unfolding build_parity_def Let_def e ic None option.case body genuine_parity_def parity_frame_def
        ps_def [symmetric] desc [symmetric] by (simp add: ps_def)
  next
    case (Some c)
    show ?thesis
      using seal_in_place_eq [OF pos, of "replicate 16 0" L c start "of_nat (max_length ps + 16)"] desc
      unfolding build_parity_def Let_def e ic Some option.case body tag_len_def GCM_TAG_SIZE_def
      by (simp add: genuine_parity_def parity_frame_def ps_def [symmetric] Let_def kl split: prod.split)
  qed
qed

lemma u32_grid:
  assumes "0 < pos" "pos < 2 ^ 32" "2 \<le> k" "k \<le> 64"
  shows "(of_nat pos :: u32) \<noteq> 0" "((of_nat pos - 1 :: u32) mod of_nat k = 0) \<longleftrightarrow> (pos - 1) mod k = 0"
proof -
  have p: "unat (of_nat pos :: u32) = pos" using assms by (intro unat_u32_of_nat)
  have k: "unat (of_nat k :: u32) = k" using assms by (intro unat_u32_of_nat) simp
  show nz: "(of_nat pos :: u32) \<noteq> 0" using p assms(1) by (metis less_irrefl unat_0)
  show "((of_nat pos - 1 :: u32) mod of_nat k = 0) \<longleftrightarrow> (pos - 1) mod k = 0"
    by (simp add: word_unat_eq_iff unat_mod k unat_minus_1 [OF nz] p)
qed

lemma group_at_grid:
  assumes "n < k" "2 \<le> k" "k \<le> 64" "n < pos" "pos < 2 ^ 32" "Suc n = k" "(pos - n - 1) mod k = 0"
  shows "group_at k (of_nat (pos - n))"
proof -
  have "unat (of_nat (pos - n) :: u32) = pos - n" using assms by (intro unat_u32_of_nat) simp
  then show ?thesis using u32_grid [of "pos - n" k] assms by (auto simp: group_at_def)
qed

lemma grid_next:
  assumes "(pos - n - 1) mod k = 0" "Suc n = k" "n < pos"
  shows "(pos + 1 - 0 - 1) mod k = 0" "pos mod k = 0"
proof -
  have "pos = (pos - n - 1) + k" using assms by simp
  then show "(pos + 1 - 0 - 1) mod k = 0" "pos mod k = 0" using assms(1) by (metis add_diff_cancel_right' diff_zero mod_add_self2)+
qed

lemma grid_not_full:
  assumes "(pos - n - 1) mod k = 0" "Suc n < k" "n < pos"
  shows "pos mod k \<noteq> 0"
proof -
  have "pos = (pos - n - 1) + Suc n" using assms by simp
  then have "pos mod k = Suc n mod k" using assms(1) by (metis mod_add_left_eq add_0)
  then show ?thesis using assms(2) by simp
qed

definition add_ok ::
  "crypto_lib \<Rightarrow> sent \<Rightarrow> inner_cipher option \<Rightarrow> nat \<Rightarrow> nat \<Rightarrow> bool \<Rightarrow> bytes option \<times> fec_encoder \<Rightarrow> bool" where
  "add_ok L pay ic k pos arm r \<longleftrightarrow>
     enc_ok pay ic k (pos + 1) (snd r)
     \<and> (case fst r of
          None \<Rightarrow> \<not> (arm \<and> pos mod k = 0)
        | Some f \<Rightarrow> k \<le> pos \<and> pos mod k = 0 \<and> group_at k (of_nat (pos + 1 - k))
                    \<and> f = genuine_parity L ic k pay (of_nat (pos + 1 - k)))"

lemma encoder_add_ok:
  assumes ok: "enc_ok pay ic k pos e" and pos: "pos < 2 ^ 32" and ne: "\<forall>seq. pay seq \<noteq> []"
    and d: "data = pay (of_nat pos)"
  shows "add_ok L pay ic k pos (encoder_armed e) (encoder_add cpu L e (of_nat pos) data)"
proof -
  define n where "n = length (fe_seqs e)"
  have prm: "fe_k e = k" "2 \<le> k" "k \<le> 64" "fe_ic e = ic" "n < k" "n < pos"
    and grid: "if encoder_armed e then (pos - n - 1) mod k = 0 else n = 0"
    using ok unfolding enc_ok_def Let_def n_def by blast+
  note g = enc_ok_group [OF ok, folded n_def]
  define skip where "skip = (data = [] \<or> \<not> fe_multipath e \<or> (\<not> fe_armed e \<and> (of_nat pos = (0 :: u32) \<or> (of_nat pos - 1 :: u32) mod of_nat (fe_k e) \<noteq> 0)))"
  define e2 where "e2 = enc_push e (of_nat pos) data"
  define r where "r = encoder_add cpu L e (of_nat pos) data"
  have l2: "length (fe_seqs e2) = n + 1" "fe_k e2 = k" by (simp_all add: e2_def enc_push_def Let_def n_def prm(1))
  have r: "r = (if skip then (None, e) else if n + 1 < k then (None, e2) else
       case build_parity L e2 of None \<Rightarrow> (None, e)
     | Some parity \<Rightarrow> (Some parity, encoder_reset (e2\<lparr>fe_parity_sent := saturating_add (fe_parity_sent e2) 1\<rparr>)))"
    unfolding r_def encoder_add_eq skip_def [symmetric] Let_def e2_def [symmetric] l2 by simp
  have "add_ok L pay ic k pos (encoder_armed e) r"
  proof (cases skip)
    case True
    then have na: "\<not> encoder_armed e" using ne d by (auto simp: skip_def encoder_armed_def)
    show ?thesis
      using True enc_ok_skip [OF ok na] na by (simp add: r add_ok_def)
  next
    case False
    have aligned: "(pos - n - 1) mod k = 0"
      using False grid u32_grid(2) [of pos k] pos prm by (auto simp: skip_def encoder_armed_def split: if_splits)
    have "of_nat pos = (of_nat (pos - n) :: u32) + of_nat n" using prm(6) by (simp add: of_nat_diff)
    from enc_push_group [OF g this d] have g2: "enc_group pay (of_nat (pos - n)) (Suc n) e2" by (simp add: e2_def)
    have e2: "fe_k e2 = k" "fe_ic e2 = ic" "encoder_armed e2" "length (fe_seqs e2) = Suc n"
      using False prm by (auto simp: e2_def enc_push_def Let_def encoder_armed_def skip_def n_def)
    show ?thesis
    proof (cases "n + 1 < k")
      case True
      then have "enc_ok pay ic k (pos + 1) e2" using g2 e2 prm aligned by (auto simp: enc_ok_def)
      then show ?thesis using True False grid_not_full [OF aligned _ prm(6)] by (simp add: r add_ok_def)
    next
      case False
      then have k: "Suc n = k" using prm(5) by simp
      have b: "build_parity L e2 = Some (genuine_parity L ic k pay (of_nat (pos - n)))"
        using build_parity_genuine [of pay "of_nat (pos - n)" k e2 ic L] g2 e2(2) k ne prm(2) by simp
      define e3 where "e3 = encoder_reset (e2\<lparr>fe_parity_sent := saturating_add (fe_parity_sent e2) 1\<rparr>)"
      have "enc_group pay (of_nat (pos + 1)) 0 e3"
        unfolding e3_def by (rule reset_group [OF enc_group_cong [OF g2]]) simp_all
      then have "enc_ok pay ic k (pos + 1) e3"
        using e2 prm grid_next [OF aligned k prm(6)] by (auto simp: enc_ok_def e3_def encoder_armed_def)
      moreover have "r = (Some (genuine_parity L ic k pay (of_nat (pos - n))), e3)"
        using False \<open>\<not> skip\<close> b by (simp add: r e3_def)
      moreover have "pos + 1 - k = pos - n" "k \<le> pos" using k prm by auto
      ultimately show ?thesis
        using group_at_grid [OF prm(5,2,3,6) pos k aligned] grid_next(2) [OF aligned k prm(6)] by (simp add: add_ok_def)
    qed
  qed
  then show ?thesis by (simp only: r_def)
qed

subsection \<open>Runs of the encoder\<close>

datatype enc_event = Paths nat | Payload bytes

fun enc_run ::
  "cpu \<Rightarrow> crypto_lib \<Rightarrow> fec_encoder \<Rightarrow> nat \<Rightarrow> enc_event list \<Rightarrow> fec_event list \<times> fec_encoder" where
  "enc_run cpu L e pos [] = ([], e)"
| "enc_run cpu L e pos (Paths n # evs) = enc_run cpu L (set_physical_path_count e n) pos evs"
| "enc_run cpu L e pos (Payload p # evs) =
     (let (r, e1) = encoder_add cpu L e (of_nat pos) p;
          (ws, e2) = enc_run cpu L e1 (pos + 1) evs
      in (Ev_Data (of_nat pos) p # (case r of None \<Rightarrow> ws | Some f \<Rightarrow> Ev_Control f # ws), e2))"

fun payloads :: "enc_event list \<Rightarrow> bytes list" where
  "payloads [] = []"
| "payloads (Paths n # evs) = payloads evs"
| "payloads (Payload p # evs) = p # payloads evs"

definition sent_of :: "bytes \<Rightarrow> bytes list \<Rightarrow> sent" where
  "sent_of dflt ps seq = (if 1 \<le> unat seq \<and> unat seq \<le> length ps then ps ! (unat seq - 1) else dflt)"

lemma sent_of_nat:
  "length ps < 2 ^ 32 \<Longrightarrow> 1 \<le> pos \<Longrightarrow> pos \<le> length ps \<Longrightarrow> sent_of dflt ps (of_nat pos) = ps ! (pos - 1)"
  by (simp add: sent_of_def unat_u32_of_nat)

lemma sent_of_in: "sent_of dflt ps seq \<in> insert dflt (set ps)"
proof (cases "1 \<le> unat seq \<and> unat seq \<le> length ps")
  case True
  then have "ps ! (unat seq - 1) \<in> set ps" by (intro nth_mem) linarith
  then show ?thesis unfolding sent_of_def if_P [OF True] by (rule insertI2)
next
  case False
  show ?thesis unfolding sent_of_def if_not_P [OF False] by (rule insertI1)
qed

lemma sent_of_nonempty: "[] \<notin> set ps \<Longrightarrow> dflt \<noteq> [] \<Longrightarrow> sent_of dflt ps seq \<noteq> []"
  using sent_of_in [of dflt ps seq] by (metis insert_iff)

lemma sent_of_ok:
  assumes "\<forall>p \<in> set ps. length p < 2 ^ 32" "length dflt < 2 ^ 32"
  shows "sent_ok (sent_of dflt ps)"
proof -
  have "length (sent_of dflt ps seq) < 2 ^ 32" for seq
    using sent_of_in [of dflt ps seq]
  proof (elim insertE)
    assume "sent_of dflt ps seq = dflt"
    then show ?thesis using assms(2) by (simp only:)
  qed (rule assms(1) [rule_format])
  then show ?thesis by (simp only: sent_ok_def) blast
qed

definition feeds :: "sent \<Rightarrow> nat \<Rightarrow> bytes list \<Rightarrow> bool" where
  "feeds pay pos ps \<longleftrightarrow> pos + length ps \<le> 2 ^ 32 \<and> (\<forall>i < length ps. ps ! i = pay (of_nat (pos + i)))"

lemma feeds_Cons:
  "feeds pay pos (p # ps) \<Longrightarrow> p = pay (of_nat pos) \<and> pos < 2 ^ 32 \<and> feeds pay (pos + 1) ps"
  by (auto simp: feeds_def All_less_Suc2 ac_simps)

lemma feeds_sent_of: "length ps < 2 ^ 32 \<Longrightarrow> feeds (sent_of dflt ps) 1 ps"
  by (simp add: feeds_def sent_of_nat del: of_nat_Suc of_nat_add)

text \<open>What a run emits: the payloads, and parity frames of them.\<close>

fun emitted :: "crypto_lib \<Rightarrow> inner_cipher option \<Rightarrow> nat \<Rightarrow> sent \<Rightarrow> fec_event \<Rightarrow> bool" where
  "emitted L ic k pay (Ev_Data seq frame) \<longleftrightarrow> frame = pay seq"
| "emitted L ic k pay (Ev_Control b) \<longleftrightarrow> (\<exists>start. b = genuine_parity L ic k pay start)"

lemma emitted_genuine: "emitted L ic k pay w \<Longrightarrow> genuine L ic k pay w"
  by (cases w) auto

lemma enc_run_emitted:
  assumes "enc_ok pay ic k pos e" "feeds pay pos (payloads evs)" "\<forall>seq. pay seq \<noteq> []"
  shows "\<forall>w \<in> set (fst (enc_run cpu L e pos evs)). emitted L ic k pay w"
  using assms
proof (induction evs arbitrary: pos e rule: payloads.induct)
  case (2 n evs)
  show ?case using 2(1) [OF set_paths_ok [OF 2(2)]] 2(3,4) by simp
next
  case (3 p evs)
  have f: "p = pay (of_nat pos)" "pos < 2 ^ 32" "feeds pay (pos + 1) (payloads evs)"
    using feeds_Cons [of pay pos p "payloads evs"] 3(3) by auto
  obtain r e1 where a: "encoder_add cpu L e (of_nat pos) p = (r, e1)" by fastforce
  have ok: "add_ok L pay ic k pos (encoder_armed e) (r, e1)"
    using encoder_add_ok [OF 3(2) f(2) 3(4) f(1)] unfolding a [symmetric] .
  then have "\<forall>w \<in> set (fst (enc_run cpu L e1 (pos + 1) evs)). emitted L ic k pay w"
    by (intro 3(1)) (use f 3(4) in \<open>auto simp: add_ok_def\<close>)
  moreover have "emitted L ic k pay (Ev_Control f)" if "r = Some f" for f
    using ok that by (auto simp: add_ok_def)
  moreover have "emitted L ic k pay (Ev_Data (of_nat pos) p)" using f(1) by simp
  ultimately show ?case unfolding enc_run.simps Let_def a prod.case
    by (auto simp del: emitted.simps split: prod.split option.split)
qed simp

lemma enc_run_genuine:
  assumes "enc_ok pay ic k pos e" "feeds pay pos (payloads evs)" "\<forall>seq. pay seq \<noteq> []"
  shows "\<forall>w \<in> set (fst (enc_run cpu L e pos evs)). genuine L ic k pay w"
  using enc_run_emitted [OF assms] emitted_genuine by blast

lemma encoder_add_armed:
  "fe_multipath (snd (encoder_add cpu L e seq p)) = fe_multipath e"
  "encoder_armed e \<Longrightarrow> encoder_armed (snd (encoder_add cpu L e seq p))"
  by (auto simp: encoder_add_eq Let_def enc_push_def encoder_armed_def split: option.split)

fun is_control :: "fec_event \<Rightarrow> bool" where
  "is_control (Ev_Control _) = True"
| "is_control (Ev_Data _ _) = False"

lemma enc_run_controls:
  assumes "enc_ok pay ic k pos e" "feeds pay pos ps" "\<forall>seq. pay seq \<noteq> []" "encoder_armed e" "0 < pos"
  shows "filter is_control (fst (enc_run cpu L e pos (map Payload ps))) =
    map (\<lambda>g. Ev_Control (genuine_parity L ic k pay (of_nat (g * k + 1)))) [(pos - 1) div k ..< (pos - 1 + length ps) div k]"
  using assms
proof (induction ps arbitrary: pos e)
  case (Cons p ps)
  have k: "0 < k" using Cons.prems(1) by (simp add: enc_ok_def Let_def)
  have f: "p = pay (of_nat pos)" "pos < 2 ^ 32" "feeds pay (pos + 1) ps" using feeds_Cons [OF Cons.prems(2)] by auto
  obtain r e1 where a: "encoder_add cpu L e (of_nat pos) p = (r, e1)" by fastforce
  have ok: "add_ok L pay ic k pos (encoder_armed e) (r, e1)"
    using encoder_add_ok [OF Cons.prems(1) f(2) Cons.prems(3) f(1)] unfolding a [symmetric] .
  have ar: "encoder_armed e1" using encoder_add_armed(2) [OF Cons.prems(4), of cpu L "of_nat pos" p] a by simp
  define G where "G g = Ev_Control (genuine_parity L ic k pay (of_nat (g * k + 1)))" for g
  have IH: "filter is_control (fst (enc_run cpu L e1 (pos + 1) (map Payload ps))) =
      map G [pos div k ..< (pos + length ps) div k]"
    using Cons.IH [of "pos + 1" e1] ok ar f(3) Cons.prems(3) by (simp add: add_ok_def G_def)
  have run: "filter is_control (fst (enc_run cpu L e pos (map Payload (p # ps)))) =
      (case r of None \<Rightarrow> [] | Some f \<Rightarrow> [Ev_Control f]) @ map G [pos div k ..< (pos + length ps) div k]"
    using IH by (auto simp: a split: prod.split option.split)
  have M: "pos - 1 + length (p # ps) = pos + length ps" using Cons.prems(5) by simp
  show ?case
  proof (cases "pos mod k = 0")
    case True
    then obtain h where h: "pos = (h + 1) * k" using Cons.prems(5) k
      by (metis add.commute mult.commute mult_0_right neq0_conv not0_implies_Suc plus_1_eq_Suc mod_0_imp_dvd dvdE)
    then have "r = Some (genuine_parity L ic k pay (of_nat (h * k + 1)))"
      using ok True Cons.prems(4) by (auto simp: add_ok_def split: option.splits)
    moreover have d: "(pos - 1) div k = h" using h k by (intro div_nat_eqI) (simp_all add: algebra_simps)
    moreover have d': "pos div k = h + 1" using h k by simp
    moreover have "h + 1 \<le> (pos + length ps) div k" unfolding d' [symmetric] by (rule div_le_mono) simp
    then have "[h ..< (pos + length ps) div k] = h # [h + 1 ..< (pos + length ps) div k]" by (simp add: upt_conv_Cons)
    ultimately show ?thesis unfolding run M G_def [symmetric] by (simp add: G_def [of h])
  next
    case False
    then have "r = None" using ok by (auto simp: add_ok_def split: option.splits)
    moreover have "(pos - 1) div k = pos div k"
      using False Cons.prems(5) k by (metis Suc_diff_1 diff_Suc_1 div_Suc)
    ultimately show ?thesis unfolding run M G_def [symmetric] by simp
  qed
qed simp

subsection \<open>Properties\<close>

lemma genuine_parity_sent_of:
  assumes "length ps < 2 ^ 32" "(g + 1) * k \<le> length ps"
  shows "genuine_parity L ic k (sent_of dflt ps) (of_nat (g * k + 1)) =
    parity_frame L ic (of_nat (g * k + 1)) (take k (drop (g * k) ps))"
proof -
  have "member (sent_of dflt ps) (of_nat (g * k + 1)) j = take k (drop (g * k) ps) ! j" if j: "j < k" for j
  proof -
    have le: "g * k + 1 + j \<le> length ps" using assms(2) j by simp
    have "member (sent_of dflt ps) (of_nat (g * k + 1)) j = sent_of dflt ps (of_nat (g * k + 1 + j))"
      by (simp add: member_def ac_simps)
    also have "\<dots> = ps ! (g * k + 1 + j - 1)" using assms(1) le by (intro sent_of_nat) simp_all
    finally show ?thesis using j le by simp
  qed
  then have "group_payloads (sent_of dflt ps) k (of_nat (g * k + 1)) = take k (drop (g * k) ps)"
    using assms(2) by (intro nth_equalityI) (auto simp: group_payloads_def)
  then show ?thesis by (simp add: genuine_parity_def)
qed

lemma encoder_controls:
  assumes "[] \<notin> set ps" "length ps < 2 ^ 32" "k = clamp_fec_group n"
  shows "filter is_control (fst (enc_run cpu L (encoder_new n ic) 1 (map Payload ps))) =
    map (\<lambda>g. Ev_Control (parity_frame L ic (of_nat (g * k + 1)) (take k (drop (g * k) ps)))) [0 ..< length ps div k]"
proof -
  define pay where "pay = sent_of [0] ps"
  have "filter is_control (fst (enc_run cpu L (encoder_new n ic) 1 (map Payload ps))) =
      map (\<lambda>g. Ev_Control (genuine_parity L ic k pay (of_nat (g * k + 1)))) [(1 - 1) div k ..< (1 - 1 + length ps) div k]"
  proof (rule enc_run_controls)
    show "enc_ok pay ic k 1 (encoder_new n ic)" unfolding assms(3) by (rule enc_ok_new)
    show "feeds pay 1 ps" unfolding pay_def by (rule feeds_sent_of [OF assms(2)])
    show "\<forall>seq. pay seq \<noteq> []" unfolding pay_def using sent_of_nonempty [OF assms(1)] by simp
  qed (simp_all add: encoder_armed_def encoder_new_def)
  also have "\<dots> = map (\<lambda>g. Ev_Control (parity_frame L ic (of_nat (g * k + 1)) (take k (drop (g * k) ps)))) [0 ..< length ps div k]"
  proof (simp only: diff_self_eq_0 div_0 add_0, rule map_cong [OF refl])
    fix g assume "g \<in> set [0 ..< length ps div k]"
    then have "(g + 1) * k \<le> length ps div k * k" by (intro mult_le_mono1) simp
    then have "(g + 1) * k \<le> length ps" using div_times_less_eq_dividend le_trans by blast
    then show "Ev_Control (genuine_parity L ic k pay (of_nat (g * k + 1))) =
        Ev_Control (parity_frame L ic (of_nat (g * k + 1)) (take k (drop (g * k) ps)))"
      using genuine_parity_sent_of [OF assms(2)] by (simp only: pay_def)
  qed
  finally show ?thesis .
qed

text \<open>
  C14. The encoder emits exactly one parity frame per complete group. Fed with non-empty payloads
  under the numbers 1, 2, 3, ... on a multipath port, its control frames are, in order, the
  parity frames of the groups \<open>[1..k], [k+1..2k], \<dots>\<close>: header, member lengths and the XOR of the
  payloads padded with zeros, sealed under the group's first number when a cipher is set.
\<close>
theorem fec_encoder_one_parity_per_group:
  assumes "[] \<notin> set ps" "length ps < 2 ^ 32" "k = clamp_fec_group n"
  shows "filter is_control (fst (enc_run cpu L (encoder_new n ic) 1 (map Payload ps))) =
    map (\<lambda>g. Ev_Control (parity_frame L ic (of_nat (g * k + 1)) (take k (drop (g * k) ps)))) [0 ..< length ps div k]"
  using assms by (rule encoder_controls)

theorem fec_encoder_one_parity_per_group_witness:
  "filter is_control (fst (enc_run Aarch64 sample_lib (encoder_new 2 None) 1 (map Payload [[1, 2], [3], [9]]))) =
   [Ev_Control [1, 0, 0, 0, 1, 2, 0, 0, 0, 2, 0, 0, 0, 1, 2, 2]]"
proof -
  have "clamp_fec_group 2 = 2" by (simp add: clamp_fec_group_def clamp_def FEC_MIN_GROUP_def FEC_MAX_GROUP_def)
  then have "filter is_control (fst (enc_run Aarch64 sample_lib (encoder_new 2 None) 1 (map Payload [[1, 2], [3], [9]]))) =
     [Ev_Control (parity_frame sample_lib None 1 [[1, 2], [3]])]"
    using fec_encoder_one_parity_per_group [of "[[1, 2], [3], [9]]" 2 2 Aarch64 sample_lib None] by simp
  moreover have "parity_frame sample_lib None 1 [[1, 2], [3]] = [1, 0, 0, 0, 1, 2, 0, 0, 0, 2, 0, 0, 0, 1, 2, 2]"
    by code_simp
  ultimately show ?thesis by simp
qed

lemma enc_run_data:
  "i < length (payloads evs) \<Longrightarrow>
   Ev_Data (of_nat (pos + i)) (payloads evs ! i) \<in> set (fst (enc_run cpu L e pos evs))"
proof (induction evs arbitrary: i pos e rule: payloads.induct)
  case (3 p evs)
  obtain r e1 where a: "encoder_add cpu L e (of_nat pos) p = (r, e1)" by fastforce
  show ?case
  proof (cases i)
    case 0
    then show ?thesis by (auto simp: a split: prod.split)
  next
    case (Suc i')
    then have "Ev_Data (of_nat (pos + i)) (payloads (Payload p # evs) ! i) \<in> set (fst (enc_run cpu L e1 (pos + 1) evs))"
      using "3.IH" [of i' "pos + 1" e1] "3.prems" by simp
    then show ?thesis unfolding enc_run.simps Let_def a prod.case
      by (auto split: prod.split option.split)
  qed
qed auto

text \<open>
  C9. End to end, FEC never invents a frame. The sender numbers non-empty payloads from 1 and
  runs the encoder under any changes of its physical paths; the network loses, duplicates and
  reorders what the sender emits and other controls arrive in between. Every frame the receiver
  recovers is one the sender sent, under its own number.
\<close>
theorem fec_end_to_end_sound:
  assumes "crypto_lib_ok L" "ps = payloads evs" "[] \<notin> set ps" "length ps < 2 ^ 32" "\<forall>p \<in> set ps. length p < 2 ^ 32"
    and "\<forall>(_, ev) \<in> set rcvd. ev \<in> set (fst (enc_run cpu L (encoder_new n ic) 1 evs))
           \<or> (\<exists>b. ev = Ev_Control b \<and> control_kind b \<noteq> Inr CONTROL_KIND_FEC_PARITY)"
    and "(seq, frame) \<in> set (fst (dec_run cpu' L (decoder_new n ic) rcvd))"
  shows "1 \<le> unat seq \<and> unat seq \<le> length ps \<and> frame = ps ! (unat seq - 1)"
proof -
  define k where "k = clamp_fec_group n"
  have all: "frame = sent_of dflt ps seq" if d: "dflt \<noteq> []" "length dflt < 2 ^ 32" for dflt
  proof -
    define pay where "pay = sent_of dflt ps"
    have ne: "\<forall>seq. pay seq \<noteq> []" unfolding pay_def using sent_of_nonempty [OF assms(3) d(1)] by simp
    have "enc_ok pay ic k 1 (encoder_new n ic)" unfolding k_def by (rule enc_ok_new)
    moreover have "feeds pay 1 (payloads evs)"
      unfolding pay_def assms(2) [symmetric] by (rule feeds_sent_of [OF assms(4)])
    ultimately have "\<forall>w \<in> set (fst (enc_run cpu L (encoder_new n ic) 1 evs)). genuine L ic k pay w"
      by (rule enc_run_genuine [OF _ _ ne])
    then have "\<forall>(_, ev) \<in> set rcvd. genuine L ic k pay ev" using assms(6) by fastforce
    then show ?thesis
      using dec_run_ok [OF dec_ok_new assms(1) sent_of_ok [OF assms(5) d(2)], of rcvd ic n cpu'] assms(7)
      unfolding pay_def k_def by blast
  qed
  have "frame = sent_of [0] ps seq" "frame = sent_of [1] ps seq" by (rule all, simp_all)+
  then show ?thesis unfolding sent_of_def by (metis list.inject zero_neq_one)
qed

theorem fec_end_to_end_sound_witness:
  "(2, [3]) \<in> set (fst (dec_run Other_Cpu sample_lib (decoder_new 2 None)
      [(None, Ev_Control [1, 0, 0, 0, 1, 2, 0, 0, 0, 2, 0, 0, 0, 1, 2, 2]), (Some 1, Ev_Data 1 [1, 2])]))
   \<and> (1 \<le> unat (2 :: u32) \<and> unat (2 :: u32) \<le> length (payloads (map Payload [[1, 2], [3]]))
      \<and> [3] = payloads (map Payload [[1, 2], [3 :: u8]]) ! (unat (2 :: u32) - 1))"
proof -
  let ?P = "[1, 0, 0, 0, 1, 2, 0, 0, 0, 2, 0, 0, 0, 1, 2, 2] :: bytes"
  let ?evs = "map Payload [[1, 2], [3 :: u8]]"
  let ?rcvd = "[(None, Ev_Control ?P), (Some 1, Ev_Data 1 [1, 2])]"
  let ?run = "fst (enc_run Aarch64 sample_lib (encoder_new 2 None) 1 ?evs)"
  have out: "(2, [3]) \<in> set (fst (dec_run Other_Cpu sample_lib (decoder_new 2 None) ?rcvd))" by code_simp
  have "clamp_fec_group 2 = 2" by (simp add: clamp_fec_group_def clamp_def FEC_MIN_GROUP_def FEC_MAX_GROUP_def)
  then have "filter is_control ?run = [Ev_Control (parity_frame sample_lib None 1 [[1, 2], [3]])]"
    using encoder_controls [of "[[1, 2], [3]]" 2 2 Aarch64 sample_lib None] by simp
  moreover have "parity_frame sample_lib None 1 [[1, 2], [3]] = ?P" by code_simp
  ultimately have "filter is_control ?run = [Ev_Control ?P]" by simp
  then have "Ev_Control ?P \<in> set (filter is_control ?run)" unfolding list.set by (simp only: list.set) simp
  then have "Ev_Control ?P \<in> set ?run" unfolding set_filter by blast
  moreover have "Ev_Data 1 [1, 2] \<in> set ?run"
    using enc_run_data [of 0 ?evs 1 Aarch64 sample_lib "encoder_new 2 None"] by simp
  ultimately have sent: "\<forall>(_, ev) \<in> set ?rcvd. ev \<in> set ?run
      \<or> (\<exists>b. ev = Ev_Control b \<and> control_kind b \<noteq> Inr CONTROL_KIND_FEC_PARITY)"
    unfolding list.set by blast
  have ps: "payloads ?evs = [[1, 2], [3]]" by simp
  show ?thesis
    using fec_end_to_end_sound [OF sample_lib_ok refl _ _ _ sent out, unfolded ps] out by simp
qed

end
