(* ===== verification/Rx_Actor.thy ===== *)
theory Rx_Actor
  imports Fec_Encode Reorder_Delivery "HOL-Library.Sublist"
begin

text \<open>
  Model of \<open>src/src/rx_actor.rs\<close>: the receive state of a session (FEC decoder, reorder buffer,
  deduplicator) behind one lock, the producers that feed it and its timeout thread. One call that
  holds the lock is one transition; what it hands to the delivery callback is part of the
  result. The callback returns an empty vector (a non-empty one is drained), so \<open>ready\<close> is empty
  at the start of every call and is not part of the state. Waking the timeout thread is the
  boolean a call returns. \<open>now\<close> is the value \<open>Instant::now\<close> has during the call.
\<close>

subsection \<open>Model\<close>

definition RX_ACTOR_BATCH_CAP :: nat where "RX_ACTOR_BATCH_CAP = 16"
definition RX_ACTOR_IDLE_POLL :: nat where "RX_ACTOR_IDLE_POLL = 250000000"

text \<open>The argument is the parsed environment variable, \<open>None\<close> when unset or not a number.\<close>

definition rx_batch_size :: "nat option \<Rightarrow> nat" where
  "rx_batch_size env =
     (case env of Some n \<Rightarrow> if n \<in> {16, 32, 64, 128} then n else RX_ACTOR_BATCH_CAP | None \<Rightarrow> RX_ACTOR_BATCH_CAP)"

definition rx_bypass_enabled :: "string option \<Rightarrow> bool" where
  "rx_bypass_enabled env \<longleftrightarrow> env \<noteq> Some ''0''"

datatype rx_error = Control_Without_Fec | Control_Error fec_error

record producer_error =
  pe_failed :: bool
  pe_message :: "rx_error option"

definition producer_error_new :: producer_error where
  "producer_error_new = \<lparr>pe_failed = False, pe_message = None\<rparr>"

definition producer_error_fail :: "producer_error \<Rightarrow> rx_error \<Rightarrow> producer_error" where
  "producer_error_fail pe message = pe\<lparr>pe_message := Some message, pe_failed := True\<rparr>"

definition producer_error_take :: "producer_error \<Rightarrow> rx_error option \<times> producer_error" where
  "producer_error_take pe =
     (if \<not> pe_failed pe then (None, pe)
      else (pe_message pe, pe\<lparr>pe_failed := False, pe_message := None\<rparr>))"

record rx_actor_state =
  rs_generation :: u64
  rs_fec :: "fec_decoder option"
  rs_reorder :: reorder_buffer
  rs_dedup :: "u32 list"
  rs_recovered_base :: u64
  rs_lost_base :: u64

definition rx_state_new :: "fec_decoder option \<Rightarrow> rx_actor_state" where
  "rx_state_new fec =
     \<lparr>rs_generation = 1, rs_fec = fec, rs_reorder = reorder_new, rs_dedup = dedup_new,
      rs_recovered_base = 0, rs_lost_base = 0\<rparr>"

record rx_actor =
  ra_generation :: u64
  ra_state :: rx_actor_state

definition rx_actor_new :: "fec_decoder option \<Rightarrow> rx_actor" where
  "rx_actor_new initial_fec = \<lparr>ra_generation = 1, ra_state = rx_state_new initial_fec\<rparr>"

record rx_producer =
  rp_generation :: u64
  rp_batch :: "(u32 \<times> bytes) list"
  rp_batch_cap :: nat
  rp_error :: producer_error

definition rx_new_producer :: "nat option \<Rightarrow> rx_actor \<Rightarrow> rx_producer" where
  "rx_new_producer env a =
     \<lparr>rp_generation = ra_generation a, rp_batch = [], rp_batch_cap = rx_batch_size env,
      rp_error = producer_error_new\<rparr>"

definition rx_reconfigure :: "rx_actor \<Rightarrow> fec_decoder option \<Rightarrow> rx_actor" where
  "rx_reconfigure a fec =
     (let generation = ra_generation a + 1;
          st = ra_state a;
          st1 = (case rs_fec st of
                   Some old \<Rightarrow>
                     st\<lparr>rs_recovered_base := saturating_add (rs_recovered_base st) (fd_recovered old),
                        rs_lost_base := saturating_add (rs_lost_base st) (fd_lost old)\<rparr>
                 | None \<Rightarrow> st)
      in a\<lparr>ra_generation := generation,
           ra_state := st1\<lparr>rs_fec := map_option decoder_reset_actor fec, rs_generation := generation,
                           rs_reorder := reorder_reset (rs_reorder st1),
                           rs_dedup := dedup_reset (rs_dedup st1)\<rparr>\<rparr>)"

record rx_actor_snapshot =
  sn_generation :: u64
  sn_recovered :: u64
  sn_lost :: u64
  sn_fec_bypass :: bool
  sn_reorder :: reorder_stats

definition rx_snapshot :: "rx_actor \<Rightarrow> rx_actor_snapshot" where
  "rx_snapshot a =
     (let st = ra_state a;
          (recovered, lost, fec_bypass) =
            (case rs_fec st of
               Some dec \<Rightarrow> (saturating_add (rs_recovered_base st) (fd_recovered dec),
                             saturating_add (rs_lost_base st) (fd_lost dec), bypass_snapshot dec)
             | None \<Rightarrow> (rs_recovered_base st, rs_lost_base st, False))
      in \<lparr>sn_generation = rs_generation st, sn_recovered = recovered, sn_lost = lost,
          sn_fec_bypass = fec_bypass, sn_reorder = rstats (rs_reorder st)\<rparr>)"

definition insert_pair ::
  "nat \<Rightarrow> reorder_buffer \<Rightarrow> u32 \<Rightarrow> bytes \<Rightarrow> (u32 \<times> bytes) option \<Rightarrow> bytes list \<times> reorder_buffer" where
  "insert_pair now reorder seq frame recovered =
     (case recovered of
        Some (rseq, rframe) \<Rightarrow>
          if rseq < seq then
            (let (o1, r1) = insert_into now rseq rframe reorder; (o2, r2) = insert_into now seq frame r1
             in (o1 @ o2, r2))
          else if rseq > seq then
            (let (o1, r1) = insert_into now seq frame reorder; (o2, r2) = insert_into now rseq rframe r1
             in (o1 @ o2, r2))
          else insert_into now seq frame reorder
      | None \<Rightarrow> insert_into now seq frame reorder)"

text \<open>\<open>process_item\<close>: the error, if any, the frames that became ready, the new state.\<close>

definition process_item ::
  "cpu \<Rightarrow> crypto_lib \<Rightarrow> nat \<Rightarrow> rx_actor_state \<Rightarrow> u32 \<times> bytes \<Rightarrow> rx_error option \<times> bytes list \<times> rx_actor_state" where
  "process_item cpu L now st item =
     (let (seq, data) = item; expected = expected_seq (rs_reorder st)
      in if seq = 0 then
           (case rs_fec st of
              None \<Rightarrow> (Some Control_Without_Fec, [], st)
            | Some dec \<Rightarrow>
                (case on_control_actor cpu L dec data expected of
                   (Inr (Some (rseq, recovered)), dec') \<Rightarrow>
                     (let (out, r') = insert_into now rseq recovered (rs_reorder st)
                      in (None, out, st\<lparr>rs_fec := Some dec', rs_reorder := r'\<rparr>))
                 | (Inr None, dec') \<Rightarrow> (None, [], st\<lparr>rs_fec := Some dec'\<rparr>)
                 | (Inl e, dec') \<Rightarrow> (Some (Control_Error e), [], st\<lparr>rs_fec := Some dec'\<rparr>)))
         else
           (let (recovered, fec') =
                  (case rs_fec st of
                     None \<Rightarrow> (None, None)
                   | Some dec \<Rightarrow> (let (r, dec') = on_data_actor cpu dec seq data expected in (r, Some dec')));
                (dup, dedup') = is_duplicate (rs_dedup st) seq;
                (out, r') =
                  (if \<not> dup then insert_pair now (rs_reorder st) seq data recovered
                   else case recovered of
                          Some (rseq, frame) \<Rightarrow> insert_into now rseq frame (rs_reorder st)
                        | None \<Rightarrow> ([], rs_reorder st))
            in (None, out, st\<lparr>rs_fec := fec', rs_dedup := dedup', rs_reorder := r'\<rparr>)))"

text \<open>The loop of \<open>process_batch\<close>; the items behind an error are dropped.\<close>

fun process_items ::
  "cpu \<Rightarrow> crypto_lib \<Rightarrow> nat \<Rightarrow> rx_actor_state \<Rightarrow> (u32 \<times> bytes) list
     \<Rightarrow> rx_error option \<times> bytes list \<times> rx_actor_state" where
  "process_items cpu L now st [] = (None, [], st)"
| "process_items cpu L now st (item # items) =
     (let (err, out, st1) = process_item cpu L now st item
      in case err of
           Some e \<Rightarrow> (Some e, out, st1)
         | None \<Rightarrow> (let (err2, out2, st2) = process_items cpu L now st1 items in (err2, out @ out2, st2)))"

definition process_batch ::
  "cpu \<Rightarrow> crypto_lib \<Rightarrow> nat \<Rightarrow> rx_actor \<Rightarrow> u64 \<Rightarrow> (u32 \<times> bytes) list \<Rightarrow> producer_error
     \<Rightarrow> bytes list \<times> bool \<times> producer_error \<times> rx_actor" where
  "process_batch cpu L now a generation frames err =
     (if frames = [] then ([], False, err, a)
      else if generation \<noteq> rs_generation (ra_state a) then ([], False, err, a)
      else
        let (protocol_error, ready, st) = process_items cpu L now (ra_state a) frames
        in (ready, next_timeout now (rs_reorder st) \<noteq> None,
            (case protocol_error of Some message \<Rightarrow> producer_error_fail err message | None \<Rightarrow> err),
            a\<lparr>ra_state := st\<rparr>))"

definition rx_flush_timeout :: "nat \<Rightarrow> rx_actor \<Rightarrow> bytes list \<times> rx_actor" where
  "rx_flush_timeout now a =
     (let (ready, r') = flush_timeout_into now (rs_reorder (ra_state a))
      in (ready, a\<lparr>ra_state := (ra_state a)\<lparr>rs_reorder := r'\<rparr>\<rparr>))"

definition rx_next_timeout :: "nat \<Rightarrow> rx_actor \<Rightarrow> nat" where
  "rx_next_timeout now a =
     (case next_timeout now (rs_reorder (ra_state a)) of Some d \<Rightarrow> d | None \<Rightarrow> RX_ACTOR_IDLE_POLL)"

definition producer_flush ::
  "cpu \<Rightarrow> crypto_lib \<Rightarrow> nat \<Rightarrow> rx_producer \<Rightarrow> rx_actor \<Rightarrow> bool \<times> bytes list \<times> bool \<times> rx_producer \<times> rx_actor" where
  "producer_flush cpu L now p a =
     (if rp_batch p = [] then (\<not> pe_failed (rp_error p), [], False, p, a)
      else
        let (ready, wake, err, a') = process_batch cpu L now a (rp_generation p) (rp_batch p) (rp_error p)
        in (True, ready, wake, p\<lparr>rp_batch := [], rp_error := err\<rparr>, a'))"

definition producer_push ::
  "cpu \<Rightarrow> crypto_lib \<Rightarrow> nat \<Rightarrow> rx_producer \<Rightarrow> rx_actor \<Rightarrow> u32 \<Rightarrow> bytes
     \<Rightarrow> bool \<times> bytes list \<times> bool \<times> rx_producer \<times> rx_actor" where
  "producer_push cpu L now p a seq data =
     (if pe_failed (rp_error p) then (False, [], False, p, a)
      else
        let p1 = p\<lparr>rp_batch := rp_batch p @ [(seq, data)]\<rparr>
        in if length (rp_batch p1) \<ge> rp_batch_cap p1 \<or> seq = 0 then producer_flush cpu L now p1 a
           else (True, [], False, p1, a))"

definition producer_take_error :: "rx_producer \<Rightarrow> rx_error option \<times> rx_producer" where
  "producer_take_error p = (let (m, e) = producer_error_take (rp_error p) in (m, p\<lparr>rp_error := e\<rparr>))"

definition producer_drop :: "rx_producer \<Rightarrow> rx_producer" where
  "producer_drop p = p\<lparr>rp_batch := []\<rparr>"

end
