(* ===== verification/Rx_Session.thy ===== *)
theory Rx_Session
  imports Rx_Actor
begin

text \<open>
  What a receive session promises. The sender side is the FEC encoder, the network may lose,
  duplicate and reorder; what the session delivers is, in order, a subsequence of what was sent.
  The proof composes the decoder's soundness, the deduplicator and the reorder buffer's contract.
\<close>

subsection \<open>The reorder buffer holding sent frames\<close>

text \<open>
  \<open>D\<close> is what was delivered so far: a subsequence of the payloads before the expected number.
\<close>

definition holds_sent :: "bytes list \<Rightarrow> bytes list \<Rightarrow> reorder_buffer \<Rightarrow> bool" where
  "holds_sent ps D rb \<longleftrightarrow>
     (\<exists>M. rb_inv rb M \<and> (\<forall>s f. M s = Some f \<longrightarrow> 1 \<le> unat s \<and> unat s \<le> length ps \<and> f = ps ! (unat s - 1)))
     \<and> unat (expected_seq rb) \<le> length ps + 1
     \<and> (if expected_seq rb = 0 then D = [] else subseq D (take (unat (expected_seq rb) - 1) ps))"

definition stream_ok :: "bytes list \<Rightarrow> bool" where
  "stream_ok ps \<longleftrightarrow> [] \<notin> set ps \<and> length ps + 65537 \<le> 2 ^ 32"

lemma subseq_extend:
  assumes "subseq D (take a ps)" "a \<le> b" "b + n \<le> length ps"
  shows "subseq (D @ take n (drop b ps)) (take (b + n) ps)"
proof -
  have "take b ps = take a ps @ take (b - a) (drop a ps)" using assms(2) by (simp flip: take_add)
  then have "subseq (take a ps) (take b ps)" by (simp add: prefix_imp_subseq)
  then have "subseq D (take b ps)" using assms(1) subseq_order.order_trans by blast
  moreover have "take (b + n) ps = take b ps @ take n (drop b ps)" by (rule take_add)
  ultimately show ?thesis by (simp add: subseq_append')
qed

lemma run_frames_sent:
  assumes "\<And>i. i < n \<Longrightarrow> M (e + of_nat i) = Some (ps ! (unat e + i - 1))" "1 \<le> unat e"
    "unat e + n \<le> length ps + 1" "[] \<notin> set ps"
  shows "run_frames M e n = take n (drop (unat e - 1) ps)"
proof -
  have m: "map (\<lambda>i. the (M (e + of_nat i))) [0 ..< n] = take n (drop (unat e - 1) ps)"
    using assms(1-3) by (intro nth_equalityI) (auto simp: nth_append)
  have "set (take n (drop (unat e - 1) ps)) \<subseteq> set ps" by (meson order_trans set_drop_subset set_take_subset)
  then have "filter (\<lambda>f. f \<noteq> []) (take n (drop (unat e - 1) ps)) = take n (drop (unat e - 1) ps)"
    using assms(4) by (auto simp: filter_id_conv)
  then show ?thesis by (simp only: run_frames_def m)
qed

text \<open>A run of waiting sent frames does not wrap, and is a segment of the payloads.\<close>

lemma run_segment:
  assumes M: "\<And>s f. M s = Some f \<Longrightarrow> 1 \<le> unat s \<and> unat s \<le> length ps \<and> f = ps ! (unat s - 1)"
    and r: "\<And>i. i < n \<Longrightarrow> M (e + of_nat i) \<noteq> None" and e: "1 \<le> unat e" "unat e \<le> length ps + 1"
    and ok: "stream_ok ps"
  shows "unat e + n \<le> length ps + 1 \<and> unat (e + of_nat n) = unat e + n
    \<and> run_frames M e n = take n (drop (unat e - 1) ps)"
proof -
  have step: "unat e + n \<le> length ps + 1 \<and> (\<forall>i \<le> n. unat (e + of_nat i) = unat e + i)" if "n \<le> m" for m :: nat
    using r
  proof (induction n)
    case (Suc n)
    then have IH: "unat e + n \<le> length ps + 1" "\<And>i. i \<le> n \<Longrightarrow> unat (e + of_nat i) = unat e + i" by auto
    obtain f where "M (e + of_nat n) = Some f" using Suc.prems [of n] by auto
    then have le: "unat e + n \<le> length ps" using M IH(2) by fastforce
    then have "unat (e + of_nat n) + 1 < 2 ^ 32" using IH(2) ok by (simp add: stream_ok_def)
    then have "unat (e + of_nat n + 1) = unat (e + of_nat n) + 1" by (simp add: unat_word_ariths)
    then have "unat (e + of_nat (Suc n)) = unat e + Suc n" using IH(2) by (simp add: add_ac)
    then show ?case using IH le by (auto simp: le_Suc_eq)
  qed (use e in simp)
  then have n: "unat e + n \<le> length ps + 1" "\<And>i. i \<le> n \<Longrightarrow> unat (e + of_nat i) = unat e + i" by auto
  have "M (e + of_nat i) = Some (ps ! (unat e + i - 1))" if "i < n" for i
    using r [OF that] M n(2) [of i] that by force
  then show ?thesis using run_frames_sent [of n M e ps] n e(1) ok by (auto simp: stream_ok_def)
qed

lemma run_len_some: "i < run_len M e \<Longrightarrow> M (e + of_nat i) \<noteq> None"
  unfolding run_len_def by (rule not_less_Least)

lemma holds_sent_flush:
  assumes inv: "rb_inv rb' (drop_run n e M)" and n: "n = run_len M e" and ex: "expected_seq rb' = e + of_nat n"
    and M: "\<And>s f. M s = Some f \<Longrightarrow> 1 \<le> unat s \<and> unat s \<le> length ps \<and> f = ps ! (unat s - 1)"
    and e: "1 \<le> unat e" "unat e \<le> length ps + 1" and ok: "stream_ok ps"
    and D: "subseq D (take a ps)" "a \<le> unat e - 1"
  shows "holds_sent ps (D @ run_frames M e n) rb'"
proof -
  have seg: "unat e + n \<le> length ps + 1 \<and> unat (e + of_nat n) = unat e + n
      \<and> run_frames M e n = take n (drop (unat e - 1) ps)"
    by (rule run_segment [OF M _ e ok]) (auto simp: n dest: run_len_some)
  have "1 \<le> unat (expected_seq rb')" using seg e(1) by (simp add: ex)
  then have nz: "expected_seq rb' \<noteq> 0" by (metis not_one_le_zero unat_0)
  have "unat e - 1 + n = unat (expected_seq rb') - 1" using seg e(1) by (simp add: ex)
  moreover have "unat e - 1 + n \<le> length ps" using seg e(1) by linarith
  ultimately have "subseq (D @ run_frames M e n) (take (unat (expected_seq rb') - 1) ps)"
    using subseq_extend [OF D, of n] seg by (simp only: simp_thms)
  moreover have "\<forall>s f. drop_run n e M s = Some f \<longrightarrow> 1 \<le> unat s \<and> unat s \<le> length ps \<and> f = ps ! (unat s - 1)"
    using M by (auto simp: drop_run_def split: if_splits)
  ultimately show ?thesis using inv nz seg unfolding holds_sent_def by (auto simp: ex)
qed

lemma u32_range:
  assumes "1 \<le> unat (s :: u32)" "unat s \<le> length ps" "stream_ok ps"
  shows "s \<noteq> 0" "s \<noteq> - 1"
proof -
  show "s \<noteq> 0" using assms(1) by (metis not_one_le_zero unat_0)
  have "unat (- 1 :: u32) = 2 ^ 32 - 1" by (simp add: unsigned_minus_1_eq_mask mask_eq_exp_minus_1)
  moreover have "unat s < 2 ^ 32 - 1" using assms(2,3) by (simp add: stream_ok_def)
  ultimately show "s \<noteq> - 1" by auto
qed

lemma insert_sent:
  assumes h: "holds_sent ps D rb" and ok: "stream_ok ps" and s: "1 \<le> unat s" "unat s \<le> length ps"
    and f: "f = ps ! (unat s - 1)"
  shows "holds_sent ps (D @ fst (insert_into now s f rb)) (snd (insert_into now s f rb))"
proof -
  obtain M where inv: "rb_inv rb M"
    and M: "\<And>s f. M s = Some f \<Longrightarrow> 1 \<le> unat s \<and> unat s \<le> length ps \<and> f = ps ! (unat s - 1)"
    using h unfolding holds_sent_def by blast
  define e where "e = learn (expected_seq rb) s"
  have e: "1 \<le> unat e" "unat e \<le> length ps + 1"
    using h s unat_eq_0 [of "expected_seq rb"] unfolding e_def learn_def holds_sent_def
    by (auto simp: Suc_le_eq unat_gt_0)
  have D: "subseq D (take (unat e - 1) ps)"
    using h unfolding e_def learn_def holds_sent_def by (auto split: if_splits)
  have idle: "holds_sent ps D rb'" if "rb_inv rb' M'" "expected_seq rb' = e"
    "\<And>s f. M' s = Some f \<Longrightarrow> 1 \<le> unat s \<and> unat s \<le> length ps \<and> f = ps ! (unat s - 1)" for rb' M'
  proof -
    have "e \<noteq> 0" using e(1) by (metis not_one_le_zero unat_0)
    then show ?thesis using that D e(2) unfolding holds_sent_def by auto
  qed
  have M': "(M(s \<mapsto> f)) s' = Some f' \<Longrightarrow> 1 \<le> unat s' \<and> unat s' \<le> length ps \<and> f' = ps ! (unat s' - 1)" for s' f'
    using M s f by (auto split: if_splits)
  obtain out rb' where i: "insert_into now s f rb = (out, rb')"
    and sp: "if unat (s - e) < 65536 \<and> M s = None then
         (if s = e then
            let n = run_len (M(s \<mapsto> f)) e
            in out = run_frames (M(s \<mapsto> f)) e n \<and> rb_inv rb' (drop_run n e (M(s \<mapsto> f)))
               \<and> expected_seq rb' = e + of_nat n
          else out = [] \<and> rb_inv rb' (M(s \<mapsto> f)) \<and> expected_seq rb' = e)
       else out = [] \<and> rb_inv rb' M \<and> expected_seq rb' = e"
    using insert_into_spec [OF inv u32_range [OF s ok], of now f] unfolding e_def by blast
  have "holds_sent ps (D @ out) rb'"
  proof (cases "unat (s - e) < 65536 \<and> M s = None")
    case True
    show ?thesis
    proof (cases "s = e")
      case True
      then have r: "out = run_frames (M(s \<mapsto> f)) e (run_len (M(s \<mapsto> f)) e)"
        "rb_inv rb' (drop_run (run_len (M(s \<mapsto> f)) e) e (M(s \<mapsto> f)))"
        "expected_seq rb' = e + of_nat (run_len (M(s \<mapsto> f)) e)"
        using sp \<open>unat (s - e) < 65536 \<and> M s = None\<close> by (simp_all only: Let_def if_True simp_thms)
      show ?thesis unfolding r(1) by (rule holds_sent_flush [OF r(2) refl r(3) M' e ok D le_refl])
    next
      case False
      then show ?thesis using sp True idle M' by (simp del: fun_upd_apply) blast
    qed
  next
    case False
    then show ?thesis using sp idle M by (simp only: if_False append_Nil2) blast
  qed
  then show ?thesis by (simp add: i)
qed

lemma timeout_sent:
  assumes h: "holds_sent ps D rb" and ok: "stream_ok ps"
  shows "holds_sent ps (D @ fst (flush_timeout_into now rb)) (snd (flush_timeout_into now rb))"
proof (cases "gap_since rb = None \<or> (\<exists>since. gap_since rb = Some since \<and> now - since < REORDER_SKIP_DELAY)")
  case True
  then show ?thesis using h flush_timeout_idle by simp
next
  case False
  then obtain since where g: "gap_since rb = Some since" "REORDER_SKIP_DELAY \<le> now - since"
    by (cases "gap_since rb") (auto simp: not_less)
  obtain M where inv: "rb_inv rb M"
    and M: "\<And>s f. M s = Some f \<Longrightarrow> 1 \<le> unat s \<and> unat s \<le> length ps \<and> f = ps ! (unat s - 1)"
    using h unfolding holds_sent_def by blast
  obtain k out rb' where t: "flush_timeout_into now rb = (out, rb')" "0 < k" "k < 65536"
    "M (expected_seq rb + of_nat k) \<noteq> None"
    and r: "out = run_frames M (expected_seq rb + of_nat k) (run_len M (expected_seq rb + of_nat k))"
      "rb_inv rb' (drop_run (run_len M (expected_seq rb + of_nat k)) (expected_seq rb + of_nat k) M)"
      "expected_seq rb' = expected_seq rb + of_nat k + of_nat (run_len M (expected_seq rb + of_nat k))"
    using flush_timeout_spec [OF inv g] unfolding Let_def by blast
  define e where "e = expected_seq rb + of_nat k"
  have e: "1 \<le> unat e" "unat e \<le> length ps + 1" using M t(4) by (force simp: e_def)+
  have "expected_seq rb \<noteq> 0" using inv g(1) by (auto simp: rb_inv_def split: if_splits)
  then have D: "subseq D (take (unat (expected_seq rb) - 1) ps)" using h by (simp add: holds_sent_def)
  have "unat (expected_seq rb) + k < 2 ^ 32" using h t(3) ok by (simp add: holds_sent_def stream_ok_def)
  moreover have "unat (of_nat k :: u32) = k" using t(3) by (intro unat_u32_of_nat) simp
  ultimately have "unat e = unat (expected_seq rb) + k"
    unfolding e_def using unat_add_lem [of "expected_seq rb" "of_nat k"] by simp
  then have "unat (expected_seq rb) - 1 \<le> unat e - 1" by simp
  from holds_sent_flush [OF r(2)[folded e_def] refl r(3)[folded e_def] M e ok D this]
  show ?thesis by (simp add: t(1) r(1) e_def)
qed

subsection \<open>One item\<close>

text \<open>
  The decoder's soundness is used for two continuations of the sent payloads that differ
  everywhere outside the stream, so a recovered frame lies inside the stream.
\<close>

definition decoder_sent :: "inner_cipher option \<Rightarrow> nat \<Rightarrow> bytes list \<Rightarrow> fec_decoder option \<Rightarrow> bool" where
  "decoder_sent ic k ps fec \<longleftrightarrow>
     (case fec of
        None \<Rightarrow> True
      | Some d \<Rightarrow> dec_ok (sent_of [0] ps) ic k d \<and> dec_ok (sent_of [1] ps) ic k d)"

definition control_sent :: "crypto_lib \<Rightarrow> inner_cipher option \<Rightarrow> nat \<Rightarrow> bytes list \<Rightarrow> bytes \<Rightarrow> bool" where
  "control_sent L ic k ps b \<longleftrightarrow>
     genuine L ic k (sent_of [0] ps) (Ev_Control b) \<and> genuine L ic k (sent_of [1] ps) (Ev_Control b)"

definition in_stream :: "bytes list \<Rightarrow> u32 \<Rightarrow> bytes \<Rightarrow> bool" where
  "in_stream ps seq frame \<longleftrightarrow> 1 \<le> unat seq \<and> unat seq \<le> length ps \<and> frame = ps ! (unat seq - 1)"

definition item_sent :: "crypto_lib \<Rightarrow> inner_cipher option \<Rightarrow> nat \<Rightarrow> bytes list \<Rightarrow> u32 \<times> bytes \<Rightarrow> bool" where
  "item_sent L ic k ps item \<longleftrightarrow>
     (if fst item = 0 then control_sent L ic k ps (snd item) else in_stream ps (fst item) (snd item))"

definition session_ok ::
  "inner_cipher option \<Rightarrow> nat \<Rightarrow> bytes list \<Rightarrow> bytes list \<Rightarrow> rx_actor_state \<Rightarrow> bool" where
  "session_ok ic k ps D st \<longleftrightarrow> holds_sent ps D (rs_reorder st) \<and> decoder_sent ic k ps (rs_fec st)"

lemma in_streamI:
  assumes "result_ok (sent_of [0] ps) (Some (seq, frame))" "result_ok (sent_of [1] ps) (Some (seq, frame))"
  shows "in_stream ps seq frame"
proof -
  have "frame = sent_of [0] ps seq" "frame = sent_of [1] ps seq" using assms by simp_all
  then show ?thesis unfolding sent_of_def in_stream_def by (metis list.inject zero_neq_one)
qed

lemma insert_in_stream:
  "holds_sent ps D rb \<Longrightarrow> stream_ok ps \<Longrightarrow> in_stream ps seq f \<Longrightarrow>
   holds_sent ps (D @ fst (insert_into now seq f rb)) (snd (insert_into now seq f rb))"
  by (rule insert_sent) (auto simp: in_stream_def)

lemma insert_pair_sent:
  assumes "holds_sent ps D rb" "stream_ok ps" "in_stream ps seq f"
    "\<And>rseq rf. r = Some (rseq, rf) \<Longrightarrow> in_stream ps rseq rf"
  shows "holds_sent ps (D @ fst (insert_pair now rb seq f r)) (snd (insert_pair now rb seq f r))"
proof (cases r)
  case None
  then show ?thesis using insert_in_stream [OF assms(1-3)] by (simp add: insert_pair_def)
next
  case (Some x)
  obtain rseq rf where x: "x = (rseq, rf)" by fastforce
  have rs: "in_stream ps rseq rf" using assms(4) Some x by blast
  have two: "holds_sent ps (D @ fst (insert_into now a fa rb) @ fst (insert_into now b fb (snd (insert_into now a fa rb))))
      (snd (insert_into now b fb (snd (insert_into now a fa rb))))"
    if "in_stream ps a fa" "in_stream ps b fb" for a fa b fb
    using insert_in_stream [OF insert_in_stream [OF assms(1,2) that(1)] assms(2) that(2)] by simp
  show ?thesis using two [OF rs assms(3)] two [OF assms(3) rs] insert_in_stream [OF assms(1-3)]
    by (simp add: insert_pair_def Some x Let_def case_prod_beta)
qed

lemma decoder_control:
  assumes d: "decoder_sent ic k ps (Some dec)" and c: "control_sent L ic k ps b" and L: "crypto_lib_ok L"
    and l: "\<forall>p \<in> set ps. length p < 2 ^ 32"
    and r: "on_control_actor cpu L dec b expected = (r, dec')"
  shows "decoder_sent ic k ps (Some dec') \<and> (\<forall>rseq rf. r = Inr (Some (rseq, rf)) \<longrightarrow> in_stream ps rseq rf)"
proof -
  have one: "dec_ok (sent_of dflt ps) ic k dec' \<and> (\<forall>x. r = Inr x \<longrightarrow> result_ok (sent_of dflt ps) x)"
    if "dec_ok (sent_of dflt ps) ic k dec" "genuine L ic k (sent_of dflt ps) (Ev_Control b)" "length dflt < 2 ^ 32" for dflt
    using dec_step_ok [OF that(1) L sent_of_ok [OF l that(3)] that(2), of cpu "Some expected"] r
    by (cases r) (simp_all add: on_control_actor_eq)
  have p: "dec_ok (sent_of [0] ps) ic k dec" "genuine L ic k (sent_of [0] ps) (Ev_Control b)"
    "dec_ok (sent_of [1] ps) ic k dec" "genuine L ic k (sent_of [1] ps) (Ev_Control b)"
    using d c by (simp_all only: decoder_sent_def control_sent_def option.case)
  have "dec_ok (sent_of [0] ps) ic k dec' \<and> (\<forall>x. r = Inr x \<longrightarrow> result_ok (sent_of [0] ps) x)"
    "dec_ok (sent_of [1] ps) ic k dec' \<and> (\<forall>x. r = Inr x \<longrightarrow> result_ok (sent_of [1] ps) x)"
    by (rule one [OF p(1,2)], simp, rule one [OF p(3,4)], simp)
  then show ?thesis using in_streamI unfolding decoder_sent_def option.case by blast
qed

lemma decoder_data:
  assumes d: "decoder_sent ic k ps (Some dec)" and c: "in_stream ps seq f"
    and r: "on_data_actor cpu dec seq f expected = (r, dec')"
  shows "decoder_sent ic k ps (Some dec') \<and> (\<forall>rseq rf. r = Some (rseq, rf) \<longrightarrow> in_stream ps rseq rf)"
proof -
  have f: "f = sent_of dflt ps seq" for dflt using c by (simp add: in_stream_def sent_of_def)
  have one: "dec_ok (sent_of dflt ps) ic k dec' \<and> result_ok (sent_of dflt ps) r"
    if "dec_ok (sent_of dflt ps) ic k dec" for dflt
    using on_data_ok [OF that f, of cpu "Some expected"] r by (simp add: on_data_actor_eq)
  then show ?thesis using d in_streamI one unfolding decoder_sent_def option.case by blast
qed

lemma process_item_ok:
  assumes st: "session_ok ic k ps D st" and it: "item_sent L ic k ps item" and L: "crypto_lib_ok L"
    and ps: "stream_ok ps" "\<forall>p \<in> set ps. length p < 2 ^ 32"
    and r: "process_item cpu L now st item = (err, out, st')"
  shows "session_ok ic k ps (D @ out) st'"
proof -
  obtain seq data where i: "item = (seq, data)" by fastforce
  have h: "holds_sent ps D (rs_reorder st)" and d: "decoder_sent ic k ps (rs_fec st)"
    using st by (simp_all add: session_ok_def)
  show ?thesis
  proof (cases "seq = 0")
    case True
    then have c: "control_sent L ic k ps data" using it i by (simp add: item_sent_def)
    show ?thesis
    proof (cases "rs_fec st")
      case None
      then show ?thesis using r st by (simp add: process_item_def i True)
    next
      case (Some dec)
      obtain x dec' where o: "on_control_actor cpu L dec data (expected_seq (rs_reorder st)) = (x, dec')" by fastforce
      have ok: "decoder_sent ic k ps (Some dec')" "\<And>rseq rf. x = Inr (Some (rseq, rf)) \<Longrightarrow> in_stream ps rseq rf"
        using decoder_control [OF _ c L ps(2) o] d Some by auto
      show ?thesis
        using r ok h insert_in_stream [OF h ps(1)]
        by (auto simp: process_item_def i True Some o session_ok_def Let_def case_prod_beta
            split: sum.splits option.splits)
    qed
  next
    case False
    then have c: "in_stream ps seq data" using it i by (simp add: item_sent_def)
    obtain x fec' where o: "(case rs_fec st of None \<Rightarrow> (None, None)
        | Some dec \<Rightarrow> (let (r, dec') = on_data_actor cpu dec seq data (expected_seq (rs_reorder st)) in (r, Some dec'))) = (x, fec')"
      by fastforce
    have ok: "decoder_sent ic k ps fec'" "\<And>rseq rf. x = Some (rseq, rf) \<Longrightarrow> in_stream ps rseq rf"
      using o d decoder_data [OF _ c] by (auto simp: decoder_sent_def [of _ _ _ None] split: option.splits prod.splits)
    obtain dup dd where u: "is_duplicate (rs_dedup st) seq = (dup, dd)" by fastforce
    define p where "p = (if \<not> dup then insert_pair now (rs_reorder st) seq data x
        else case x of Some (rseq, frame) \<Rightarrow> insert_into now rseq frame (rs_reorder st) | None \<Rightarrow> ([], rs_reorder st))"
    have "process_item cpu L now st item = (None, fst p, st\<lparr>rs_fec := fec', rs_dedup := dd, rs_reorder := snd p\<rparr>)"
      unfolding process_item_def i Let_def prod.case o [unfolded Let_def] u p_def [symmetric]
      using False by (simp add: case_prod_beta)
    moreover have "holds_sent ps (D @ fst p) (snd p)"
      using insert_pair_sent [OF h ps(1) c, of x now] insert_in_stream [OF h ps(1), of _ _ now] ok(2) h
      unfolding p_def by (auto split: option.split)
    ultimately show ?thesis using r ok(1) by (auto simp: session_ok_def)
  qed
qed

subsection \<open>Runs of a session\<close>

datatype rx_event = Rx_Batch nat u64 "(u32 \<times> bytes) list" | Rx_Timeout nat

fun rx_run :: "cpu \<Rightarrow> crypto_lib \<Rightarrow> rx_actor \<Rightarrow> rx_event list \<Rightarrow> bytes list \<times> rx_actor" where
  "rx_run cpu L a [] = ([], a)"
| "rx_run cpu L a (Rx_Batch now gen frames # evs) =
     (let (ready, _, _, a1) = process_batch cpu L now a gen frames producer_error_new;
          (rest, a2) = rx_run cpu L a1 evs
      in (ready @ rest, a2))"
| "rx_run cpu L a (Rx_Timeout now # evs) =
     (let (ready, a1) = rx_flush_timeout now a; (rest, a2) = rx_run cpu L a1 evs in (ready @ rest, a2))"

lemma process_items_ok:
  assumes "session_ok ic k ps D st" "\<forall>item \<in> set items. item_sent L ic k ps item" "crypto_lib_ok L"
    "stream_ok ps" "\<forall>p \<in> set ps. length p < 2 ^ 32" "process_items cpu L now st items = (err, out, st')"
  shows "session_ok ic k ps (D @ out) st'"
  using assms
proof (induction items arbitrary: D st err out st')
  case (Cons item items)
  obtain e1 o1 st1 where p: "process_item cpu L now st item = (e1, o1, st1)" by (metis prod_cases3)
  have ok: "session_ok ic k ps (D @ o1) st1"
    using process_item_ok [OF Cons.prems(1) _ Cons.prems(3-5) p] Cons.prems(2) by simp
  show ?case
  proof (cases e1)
    case None
    obtain e2 o2 st2 where q: "process_items cpu L now st1 items = (e2, o2, st2)" by (metis prod_cases3)
    have "session_ok ic k ps ((D @ o1) @ o2) st2"
      using Cons.IH [OF ok _ Cons.prems(3-5) q] Cons.prems(2) by simp
    then show ?thesis using Cons.prems(6) p q None by simp
  qed (use Cons.prems(6) p ok in simp)
qed simp

lemma rs_generation_kept:
  "rs_generation (snd (snd (process_item cpu L now st item))) = rs_generation st"
  "rs_generation (snd (snd (process_items cpu L now st items))) = rs_generation st"
proof -
  show *: "rs_generation (snd (snd (process_item cpu L now st item))) = rs_generation st" for st item
    by (cases item) (auto simp: process_item_def Let_def split: option.split sum.split prod.split)
  show "rs_generation (snd (snd (process_items cpu L now st items))) = rs_generation st"
  proof (induction items arbitrary: st)
    case (Cons item items)
    then show ?case using * [of st item]
      by (auto simp: Let_def split: prod.split option.split) (metis snd_conv)+
  qed simp
qed

lemma rx_run_ok:
  assumes "session_ok ic k ps D (ra_state a)" "rs_generation (ra_state a) = g"
    "\<forall>now frames. Rx_Batch now g frames \<in> set evs \<longrightarrow> (\<forall>item \<in> set frames. item_sent L ic k ps item)"
    "crypto_lib_ok L" "stream_ok ps" "\<forall>p \<in> set ps. length p < 2 ^ 32"
  shows "session_ok ic k ps (D @ fst (rx_run cpu L a evs)) (ra_state (snd (rx_run cpu L a evs)))"
  using assms(1-3)
proof (induction evs arbitrary: D a)
  case (Cons ev evs)
  show ?case
  proof (cases ev)
    case (Rx_Batch now gen frames)
    obtain ready w pe a1 where b: "process_batch cpu L now a gen frames producer_error_new = (ready, w, pe, a1)"
      by (metis prod_cases4)
    have "session_ok ic k ps (D @ ready) (ra_state a1) \<and> rs_generation (ra_state a1) = g"
    proof (cases "frames = [] \<or> gen \<noteq> g")
      case True
      then show ?thesis using b Cons.prems(1,2) by (simp add: process_batch_def split: if_splits)
    next
      case False
      obtain e out st where p: "process_items cpu L now (ra_state a) frames = (e, out, st)" by (metis prod_cases3)
      have "session_ok ic k ps (D @ out) st"
        using process_items_ok [OF Cons.prems(1) _ assms(4-6) p] Cons.prems(3) False Rx_Batch by auto
      moreover have "rs_generation st = g"
        using rs_generation_kept(2) [of cpu L now "ra_state a" frames] p Cons.prems(2) by simp
      ultimately show ?thesis using b False Cons.prems(2) p by (auto simp: process_batch_def)
    qed
    then have ih: "session_ok ic k ps ((D @ ready) @ fst (rx_run cpu L a1 evs)) (ra_state (snd (rx_run cpu L a1 evs)))"
      using Cons.prems(3) by (intro Cons.IH) auto
    then show ?thesis by (simp add: Rx_Batch b case_prod_beta)
  next
    case (Rx_Timeout now)
    define r where "r = flush_timeout_into now (rs_reorder (ra_state a))"
    define a1 where "a1 = a\<lparr>ra_state := (ra_state a)\<lparr>rs_reorder := snd r\<rparr>\<rparr>"
    have t: "rx_flush_timeout now a = (fst r, a1)" by (simp add: rx_flush_timeout_def r_def a1_def case_prod_beta)
    have "session_ok ic k ps (D @ fst r) (ra_state a1)"
      using Cons.prems(1) timeout_sent [of ps D "rs_reorder (ra_state a)" now] assms(5)
      by (simp add: session_ok_def a1_def r_def)
    moreover have "rs_generation (ra_state a1) = g" using Cons.prems(2) by (simp add: a1_def)
    ultimately have ih: "session_ok ic k ps ((D @ fst r) @ fst (rx_run cpu L a1 evs)) (ra_state (snd (rx_run cpu L a1 evs)))"
      using Cons.prems(3) by (intro Cons.IH) auto
    then show ?thesis by (simp add: Rx_Timeout t case_prod_beta)
  qed
qed simp

lemma holds_sent_new: "holds_sent ps [] reorder_new"
proof -
  have "expected_seq reorder_new = 0" by (simp add: reorder_new_def)
  then show ?thesis using rb_inv_new unfolding holds_sent_def by (auto intro!: exI [of _ Map.empty])
qed

lemma holds_sent_subseq: "holds_sent ps D rb \<Longrightarrow> subseq D ps"
proof -
  assume h: "holds_sent ps D rb"
  have "subseq (take n ps) ps" for n by (rule prefix_imp_subseq) (rule take_is_prefix)
  then show "subseq D ps"
    using h subseq_order.order_trans unfolding holds_sent_def by (auto split: if_splits)
qed

subsection \<open>Properties\<close>

fun wire_item :: "fec_event \<Rightarrow> u32 \<times> bytes" where
  "wire_item (Ev_Data seq p) = (seq, p)"
| "wire_item (Ev_Control b) = (0, b)"

lemma enc_run_items:
  assumes "stream_ok ps" "ps = payloads evs" "w \<in> set (fst (enc_run cpu L (encoder_new n ic) 1 evs))"
  shows "item_sent L ic (clamp_fec_group n) ps (wire_item w)"
proof -
  have len: "length ps < 2 ^ 32" and ne: "[] \<notin> set ps" using assms(1) by (simp_all add: stream_ok_def)
  have g: "genuine L ic (clamp_fec_group n) (sent_of dflt ps) w" if "dflt \<noteq> []" for dflt
  proof -
    have "feeds (sent_of dflt ps) 1 (payloads evs)"
      unfolding assms(2) [symmetric] by (rule feeds_sent_of [OF len])
    from enc_run_genuine [OF enc_ok_new this] show ?thesis using sent_of_nonempty [OF ne that] assms(3) by blast
  qed
  show ?thesis
  proof (cases w)
    case (Ev_Data seq p)
    have "p = sent_of [0] ps seq" using g [of "[0]"] by (simp add: Ev_Data)
    moreover have "p = sent_of [1] ps seq" using g [of "[1]"] by (simp add: Ev_Data)
    ultimately have "in_stream ps seq p" by (intro in_streamI) (simp_all only: result_ok_simps)
    moreover then have "seq \<noteq> 0" using u32_range(1) assms(1) unfolding in_stream_def by blast
    ultimately show ?thesis by (simp add: Ev_Data item_sent_def)
  next
    case (Ev_Control b)
    have "genuine L ic (clamp_fec_group n) (sent_of [0] ps) w" "genuine L ic (clamp_fec_group n) (sent_of [1] ps) w"
      by (rule g, simp)+
    then show ?thesis by (simp only: Ev_Control item_sent_def wire_item.simps fst_conv snd_conv simp_thms if_True control_sent_def)
  qed
qed

lemma rx_session_subseq:
  assumes "crypto_lib_ok L" "stream_ok ps" "\<forall>p \<in> set ps. length p < 2 ^ 32"
    and "fec = None \<or> fec = Some (decoder_new n ic)"
    and items: "\<forall>now frames. Rx_Batch now 1 frames \<in> set rcvd \<longrightarrow>
           (\<forall>item \<in> set frames. item_sent L ic (clamp_fec_group n) ps item)"
  shows "subseq (fst (rx_run cpu L (rx_actor_new fec) rcvd)) ps"
proof -
  define k where "k = clamp_fec_group n"
  have "decoder_sent ic k ps fec"
    using assms(4) dec_ok_new [of _ ic n] by (auto simp: decoder_sent_def k_def)
  then have s: "session_ok ic k ps [] (ra_state (rx_actor_new fec))"
    by (simp add: session_ok_def rx_actor_new_def rx_state_new_def holds_sent_new)
  have g: "rs_generation (ra_state (rx_actor_new fec)) = 1" by (simp add: rx_actor_new_def rx_state_new_def)
  from rx_run_ok [OF s g items [folded k_def] assms(1-3), of cpu] show ?thesis
    unfolding session_ok_def by (auto dest: holds_sent_subseq)
qed

lemma item_sent_control: "fst item = 0 \<and> control_kind (snd item) \<noteq> Inr CONTROL_KIND_FEC_PARITY \<Longrightarrow> item_sent L ic k ps item"
  by (simp add: item_sent_def control_sent_def)

lemma item_sent_wire:
  "stream_ok ps \<Longrightarrow> ps = payloads evs \<Longrightarrow> item \<in> wire_item ` set (fst (enc_run cpu L (encoder_new n ic) 1 evs)) \<Longrightarrow>
   item_sent L ic (clamp_fec_group n) ps item"
  using enc_run_items by blast




lemma process_items_append:
  "process_items cpu L now st xs = (None, out, st1) \<Longrightarrow>
   process_items cpu L now st (xs @ ys) =
     (let (e, o2, st2) = process_items cpu L now st1 ys in (e, out @ o2, st2))"
proof (induction xs arbitrary: st out)
  case (Cons x xs)
  obtain e1 o1 s1 where p: "process_item cpu L now st x = (e1, o1, s1)" by (metis prod_cases3)
  obtain e2 o2 s2 where q: "process_items cpu L now s1 xs = (e2, o2, s2)" by (metis prod_cases3)
  have "e1 = None" "e2 = None" "s2 = st1" "out = o1 @ o2" using Cons.prems p q by (auto split: option.splits)
  then show ?case using Cons.IH [of s1 o2] p q by (simp add: Let_def case_prod_beta)
qed simp

lemma process_item_error: "process_item cpu L now st item = (Some e, out, st') \<Longrightarrow> out = []"
  by (auto simp: process_item_def Let_def split: prod.splits option.splits sum.splits if_splits)

text \<open>
  C29. A protocol error stops a batch at the failing item and is reported to its own producer:
  the frames that became ready before it are delivered, the items behind it are dropped, the
  producer refuses further frames without touching the session until the error is taken, and
  taking it yields that error once and clears it.
\<close>
theorem rx_protocol_error_reported:
  assumes "process_items cpu L now (ra_state a) good = (None, out, st1)"
    and "process_item cpu L now st1 bad = (Some e, out2, st2)"
    and "rp_batch p = good @ bad # rest" "rp_generation p = rs_generation (ra_state a)"
  shows "\<exists>wake p' a'. producer_flush cpu L now p a = (True, out, wake, p', a') \<and> ra_state a' = st2
    \<and> producer_push cpu L now' p' a' seq data = (False, [], False, p', a')
    \<and> fst (producer_take_error p') = Some e
    \<and> fst (producer_take_error (snd (producer_take_error p'))) = None
    \<and> \<not> pe_failed (rp_error (snd (producer_take_error p')))"
proof -
  have "out2 = []" by (rule process_item_error [OF assms(2)])
  then have "process_items cpu L now (ra_state a) (good @ bad # rest) = (Some e, out, st2)"
    using process_items_append [OF assms(1), of "bad # rest"] assms(2) by simp
  then show ?thesis
    using assms(3,4)
    by (simp add: producer_flush_def process_batch_def producer_push_def producer_take_error_def
        producer_error_take_def producer_error_fail_def Let_def)
qed

theorem rx_protocol_error_reported_witness:
  "\<exists>wake p' a'. producer_flush Other_Cpu sample_lib 0
      ((rx_new_producer None (rx_actor_new None))\<lparr>rp_batch := [(0, [2]), (1, [5])]\<rparr>) (rx_actor_new None) =
        (True, [], wake, p', a') \<and> ra_state a' = ra_state (rx_actor_new None)
    \<and> producer_push Other_Cpu sample_lib 0 p' a' 1 [5] = (False, [], False, p', a')
    \<and> fst (producer_take_error p') = Some Control_Without_Fec
    \<and> fst (producer_take_error (snd (producer_take_error p'))) = None
    \<and> \<not> pe_failed (rp_error (snd (producer_take_error p')))"
  by (rule rx_protocol_error_reported [of Other_Cpu sample_lib 0 "rx_actor_new None" "[]" _ "ra_state (rx_actor_new None)" "(0, [2])"])
    (simp_all add: process_item_def rx_actor_new_def rx_state_new_def rx_new_producer_def)

end
