(* ===== verification/Adaptive.thy ===== *)
theory Adaptive
  imports Tlsvpn_Prelude "HOL-Library.Product_Lexorder"
begin

text \<open>
  Model of \<open>src/src/adaptive_multipath.rs\<close>, the path scheduler. Counters are 64-bit words, the
  virtual finish times are 64-bit words read as signed numbers, \<open>now\<close> is \<open>mono_us()\<close>. A backend is
  what the trait \<open>AdaptiveBackend\<close> exposes of it: RTT, queue length, queue capacity and scheduler
  state. \<open>pick\<close> is split into its passes.
\<close>

type_synonym i64 = "64 word"

definition ACTIVE2_PRESSURE :: u64 where "ACTIVE2_PRESSURE = 24 * 1024"
definition ACTIVE3_PRESSURE :: u64 where "ACTIVE3_PRESSURE = 96 * 1024"
definition ACTIVE4_PRESSURE :: u64 where "ACTIVE4_PRESSURE = 256 * 1024"
definition FALLBACK_RATE_BYTES_PER_SEC :: u64 where "FALLBACK_RATE_BYTES_PER_SEC = 25000000"
definition RATE_SAMPLE_MIN_BYTES :: u64 where "RATE_SAMPLE_MIN_BYTES = 64 * 1024"
definition RATE_SAMPLE_MAX_US :: u64 where "RATE_SAMPLE_MAX_US = 2000000"
definition DEMAND_SAMPLE_MIN_US :: u64 where "DEMAND_SAMPLE_MIN_US = 500"
definition ACTIVE2_RATE_BYTES_PER_SEC :: u64 where "ACTIVE2_RATE_BYTES_PER_SEC = 40000000"
definition ACTIVE3_RATE_BYTES_PER_SEC :: u64 where "ACTIVE3_RATE_BYTES_PER_SEC = 100000000"
definition ACTIVE4_RATE_BYTES_PER_SEC :: u64 where "ACTIVE4_RATE_BYTES_PER_SEC = 180000000"
definition CARRY_BONUS_US :: u64 where "CARRY_BONUS_US = 150"
definition STICKY_MIN_US :: u64 where "STICKY_MIN_US = 500"
definition STICKY_MAX_US :: u64 where "STICKY_MAX_US = 5000"
definition RTT_HYSTERESIS_MIN_US :: u32 where "RTT_HYSTERESIS_MIN_US = 5000"
definition UNKNOWN_RTT_US :: u32 where "UNKNOWN_RTT_US = 50000"

definition service_us :: "u64 \<Rightarrow> u64 \<Rightarrow> u64" where
  "service_us bytes rate = (if bytes = 0 then 0 else saturating_mul bytes 1000000 div max rate 1)"

definition I64_MAX :: u64 where "I64_MAX = 2 ^ 63 - 1"

definition service_ns :: "u64 \<Rightarrow> u64 \<Rightarrow> i64" where
  "service_ns bytes rate =
     (if bytes = 0 then 0 else min (saturating_mul bytes 1000000000 div max rate 1) I64_MAX)"

definition i64_saturating_sub :: "i64 \<Rightarrow> i64 \<Rightarrow> i64" where
  "i64_saturating_sub a b =
     (let r = sint a - sint b
      in word_of_int (if r < - (2 ^ 63) then - (2 ^ 63) else if r > 2 ^ 63 - 1 then 2 ^ 63 - 1 else r))"

definition i64_min :: "i64 \<Rightarrow> i64 \<Rightarrow> i64" where
  "i64_min a b = (if sint b < sint a then b else a)"

subsection \<open>State of one backend\<close>

record sched_state =
  queued_bytes :: u64
  rate_bytes_per_sec :: u64
  eta_us :: u64
  path_active :: bool
  carry_pending :: bool
  assigned_bytes :: u64
  assigned_batches :: u64
  fec_assigned_bytes :: u64
  fec_assigned_batches :: u64
  virtual_finish_ns :: i64
  sample_bytes :: u64
  sample_start_us :: u64

definition sched_default :: sched_state where
  "sched_default =
     \<lparr>queued_bytes = 0, rate_bytes_per_sec = 0, eta_us = 0, path_active = False, carry_pending = False,
      assigned_bytes = 0, assigned_batches = 0, fec_assigned_bytes = 0, fec_assigned_batches = 0,
      virtual_finish_ns = 0, sample_bytes = 0, sample_start_us = 0\<rparr>"

text \<open>The compare-exchange loop of \<open>sub_saturating\<close>, run without interference.\<close>

definition sub_saturating :: "u64 \<Rightarrow> u64 \<Rightarrow> u64" where
  "sub_saturating v n = (if n = 0 then v else if v = 0 then v else saturating_sub v n)"

definition add_queued :: "u64 \<Rightarrow> sched_state \<Rightarrow> sched_state" where
  "add_queued n s = (if n \<noteq> 0 then s\<lparr>queued_bytes := queued_bytes s + n\<rparr> else s)"

definition complete_queued :: "u64 \<Rightarrow> sched_state \<Rightarrow> sched_state" where
  "complete_queued n s = s\<lparr>queued_bytes := sub_saturating (queued_bytes s) n\<rparr>"

definition note_assigned :: "u64 \<Rightarrow> sched_state \<Rightarrow> sched_state" where
  "note_assigned n s =
     (if n \<noteq> 0 then s\<lparr>assigned_bytes := assigned_bytes s + n, assigned_batches := assigned_batches s + 1\<rparr> else s)"

definition note_fec_assigned :: "u64 \<Rightarrow> sched_state \<Rightarrow> sched_state" where
  "note_fec_assigned n s =
     (if n \<noteq> 0 then s\<lparr>fec_assigned_bytes := fec_assigned_bytes s + n,
                      fec_assigned_batches := fec_assigned_batches s + 1\<rparr> else s)"

definition observe_delivered :: "u64 \<Rightarrow> u64 \<Rightarrow> sched_state \<Rightarrow> sched_state" where
  "observe_delivered now n s =
     (if n = 0 then s
      else if sample_start_us s = 0 then s\<lparr>sample_start_us := max now 1, sample_bytes := n\<rparr>
      else
        let bytes = saturating_add (sample_bytes s) n;
            s1 = s\<lparr>sample_bytes := sample_bytes s + n\<rparr>
        in if bytes < RATE_SAMPLE_MIN_BYTES then s1
           else
             let elapsed = saturating_sub now (sample_start_us s)
             in if elapsed > RATE_SAMPLE_MAX_US then s1\<lparr>sample_start_us := max now 1, sample_bytes := 0\<rparr>
                else if elapsed < 200 then s1
                else
                  let inst = saturating_mul bytes 1000000 div max elapsed 1
                  in if inst = 0 then s1
                     else
                       let old = rate_bytes_per_sec s1
                       in s1\<lparr>rate_bytes_per_sec :=
                               (if old = 0 then inst else saturating_add (saturating_mul old 7) inst div 8),
                             sample_bytes := 0, sample_start_us := max now 1\<rparr>)"

record backend =
  be_rtt_us :: u32
  be_queue_len :: nat
  be_queue_capacity :: nat
  be_sched :: sched_state

subsection \<open>State of a port\<close>

record port_state =
  input_total_bytes :: u64
  input_rate_bytes_per_sec :: u64
  sample_total_bytes :: u64
  sample_at_us :: u64
  active_paths :: nat
  pressure_bytes :: u64

definition port_default :: port_state where
  "port_default =
     \<lparr>input_total_bytes = 0, input_rate_bytes_per_sec = 0, sample_total_bytes = 0, sample_at_us = 0,
      active_paths = 0, pressure_bytes = 0\<rparr>"

record candidate =
  c_idx :: nat
  c_base_us :: u64
  c_rtt_us :: u32
  c_was_active :: bool
  c_virtual_ns :: i64

definition note_input :: "u64 \<Rightarrow> port_state \<Rightarrow> port_state" where
  "note_input n p = (if n \<noteq> 0 then p\<lparr>input_total_bytes := input_total_bytes p + n\<rparr> else p)"

definition observe_input_demand :: "u64 \<Rightarrow> port_state \<Rightarrow> u64 \<times> port_state" where
  "observe_input_demand mono_now p =
     (let now = max mono_now 1; last = sample_at_us p; total = input_total_bytes p
      in if last = 0 then
           (input_rate_bytes_per_sec p, p\<lparr>sample_at_us := now, sample_total_bytes := total\<rparr>)
         else
           let elapsed = saturating_sub now last
           in if elapsed < DEMAND_SAMPLE_MIN_US then (input_rate_bytes_per_sec p, p)
              else
                let prev = sample_total_bytes p;
                    delta = saturating_sub total prev;
                    inst = saturating_mul delta 1000000 div max elapsed 1;
                    old = input_rate_bytes_per_sec p;
                    nxt = (if old = 0 \<or> elapsed > 250000 then inst
                           else saturating_add (saturating_mul old 3) inst div 4)
                in (nxt, p\<lparr>sample_at_us := now, sample_total_bytes := total, input_rate_bytes_per_sec := nxt\<rparr>))"

definition active_target :: "u64 \<Rightarrow> u64 \<Rightarrow> nat \<Rightarrow> nat" where
  "active_target pressure demand_rate eligible =
     (if eligible = 0 then 0
      else
        let want =
          (if pressure \<ge> ACTIVE4_PRESSURE \<or> demand_rate \<ge> ACTIVE4_RATE_BYTES_PER_SEC then 4
           else if pressure \<ge> ACTIVE3_PRESSURE \<or> demand_rate \<ge> ACTIVE3_RATE_BYTES_PER_SEC then 3
           else if pressure \<ge> ACTIVE2_PRESSURE \<or> demand_rate \<ge> ACTIVE2_RATE_BYTES_PER_SEC then 2
           else 1)
        in min want eligible)"

definition healthy :: "backend \<Rightarrow> bool" where
  "healthy b \<longleftrightarrow> be_queue_capacity b > 2 \<and> be_queue_len b < be_queue_capacity b - 2"

definition scheduler_rtt :: "backend \<Rightarrow> u32" where
  "scheduler_rtt b = (if be_rtt_us b = 0 then UNKNOWN_RTT_US else be_rtt_us b)"

subsection \<open>Choosing a path\<close>

definition set_path :: "bool \<Rightarrow> i64 \<Rightarrow> backend \<Rightarrow> backend" where
  "set_path act vf b = b\<lparr>be_sched := (be_sched b)\<lparr>path_active := act, virtual_finish_ns := vf\<rparr>\<rparr>"

definition set_virtual :: "i64 \<Rightarrow> backend \<Rightarrow> backend" where
  "set_virtual vf b = b\<lparr>be_sched := (be_sched b)\<lparr>virtual_finish_ns := vf\<rparr>\<rparr>"

definition set_eta :: "u64 \<Rightarrow> backend \<Rightarrow> backend" where
  "set_eta eta b = b\<lparr>be_sched := (be_sched b)\<lparr>eta_us := eta\<rparr>\<rparr>"

definition min_rtt_of :: "backend list \<Rightarrow> u32" where
  "min_rtt_of bs = foldl (\<lambda>m b. if \<not> healthy b then m else min m (scheduler_rtt b)) (- 1) bs"

definition max_rtt_of :: "u32 \<Rightarrow> u64" where
  "max_rtt_of min_rtt = ucast min_rtt + ucast (max RTT_HYSTERESIS_MIN_US (min_rtt div 4))"

definition reference_rate :: "u64 \<Rightarrow> backend list \<Rightarrow> u64" where
  "reference_rate max_rtt bs =
     foldl (\<lambda>r b. if ucast (scheduler_rtt b) \<le> max_rtt then max r (rate_bytes_per_sec (be_sched b)) else r)
       FALLBACK_RATE_BYTES_PER_SEC bs"

definition eta_of :: "u64 \<Rightarrow> u64 \<Rightarrow> backend \<Rightarrow> u64" where
  "eta_of ref_rate incoming b =
     (let s = be_sched b;
          eta_rate = (let r = rate_bytes_per_sec s in if r = 0 then ref_rate else r);
          eta = ucast (scheduler_rtt b) div 2
                + service_us (saturating_add (queued_bytes s) incoming) (max eta_rate 1)
      in if carry_pending s \<and> eta > CARRY_BONUS_US then eta - CARRY_BONUS_US else eta)"

fun scan_backends ::
  "u64 \<Rightarrow> u64 \<Rightarrow> u64 \<Rightarrow> nat \<Rightarrow> backend list \<Rightarrow> candidate list \<times> backend list" where
  "scan_backends ref_rate max_rtt incoming idx [] = ([], [])"
| "scan_backends ref_rate max_rtt incoming idx (b # bs) =
     (let rtt = scheduler_rtt b;
          b1 = set_eta (eta_of ref_rate incoming b) b;
          (cands, bs') = scan_backends ref_rate max_rtt incoming (idx + 1) bs
      in if \<not> healthy b \<or> ucast rtt > max_rtt then (cands, set_path False 0 b1 # bs')
         else
           (\<lparr>c_idx = idx,
             c_base_us = ucast rtt div 2 + service_us incoming FALLBACK_RATE_BYTES_PER_SEC,
             c_rtt_us = rtt, c_was_active = path_active (be_sched b),
             c_virtual_ns = virtual_finish_ns (be_sched b)\<rparr> # cands, b1 # bs'))"

definition sort_candidates :: "candidate list \<Rightarrow> candidate list" where
  "sort_candidates cands = sort_key (\<lambda>c. (c_base_us c, c_rtt_us c, c_idx c)) cands"

definition pick_single :: "candidate list \<Rightarrow> nat option \<Rightarrow> nat" where
  "pick_single cands preferred =
     (let first = hd cands
      in case preferred of
           None \<Rightarrow> c_idx first
         | Some current \<Rightarrow>
             if current \<noteq> c_idx first then
               (case find (\<lambda>c. c_idx c = current) cands of
                  None \<Rightarrow> c_idx first
                | Some c \<Rightarrow>
                    let slack = min (max (ucast (c_rtt_us c div 16)) STICKY_MIN_US) STICKY_MAX_US
                    in if c_base_us c \<le> saturating_add (c_base_us first) slack then current else c_idx first)
             else c_idx first)"

definition only_path :: "nat \<Rightarrow> backend list \<Rightarrow> backend list" where
  "only_path chosen bs = map (\<lambda>(i, b). set_path (i = chosen) 0 b) (enumerate 0 bs)"

definition epoch_of :: "candidate list \<Rightarrow> i64" where
  "epoch_of cands =
     (case foldl (\<lambda>e c. if c_was_active c
                        then Some (case e of None \<Rightarrow> c_virtual_ns c | Some v \<Rightarrow> i64_min v (c_virtual_ns c))
                        else e) None cands of
        None \<Rightarrow> 0 | Some e \<Rightarrow> e)"

definition activate :: "i64 \<Rightarrow> candidate \<Rightarrow> backend list \<Rightarrow> backend list" where
  "activate epoch c bs =
     (let b = bs ! c_idx c
      in bs[c_idx c := set_path True (if c_was_active c then virtual_finish_ns (be_sched b) else epoch) b])"

definition deactivate :: "candidate \<Rightarrow> backend list \<Rightarrow> backend list" where
  "deactivate c bs = bs[c_idx c := set_path False 0 (bs ! c_idx c)]"

definition activate_ranked :: "nat \<Rightarrow> candidate list \<Rightarrow> backend list \<Rightarrow> backend list" where
  "activate_ranked active cands bs =
     (let epoch = epoch_of (take active cands)
      in foldl (\<lambda>bs (rank, c). if rank \<ge> active then deactivate c bs else activate epoch c bs)
           bs (enumerate 0 cands))"

definition min_virtual :: "candidate list \<Rightarrow> backend list \<Rightarrow> i64" where
  "min_virtual cands bs =
     foldl (\<lambda>m c. i64_min m (virtual_finish_ns (be_sched (bs ! c_idx c)))) I64_MAX cands"

definition normalize_virtual :: "candidate list \<Rightarrow> backend list \<Rightarrow> backend list" where
  "normalize_virtual cands bs =
     (let m = min_virtual cands bs
      in if m \<noteq> 0 \<and> m \<noteq> I64_MAX then
           foldl (\<lambda>bs c. bs[c_idx c := set_virtual (virtual_finish_ns (be_sched (bs ! c_idx c)) - m) (bs ! c_idx c)])
             bs cands
         else bs)"

definition score :: "backend \<Rightarrow> i64" where
  "score b =
     (let s = be_sched b;
          v = virtual_finish_ns s + service_ns (queued_bytes s) FALLBACK_RATE_BYTES_PER_SEC
      in if carry_pending s then i64_saturating_sub v (CARRY_BONUS_US * 1000) else v)"

fun choose_loop :: "backend list \<Rightarrow> candidate \<Rightarrow> i64 \<Rightarrow> candidate list \<Rightarrow> candidate" where
  "choose_loop bs chosen chosen_score [] = chosen"
| "choose_loop bs chosen chosen_score (c # cs) =
     (let s = score (bs ! c_idx c)
      in if sint s < sint chosen_score \<or> (s = chosen_score \<and> c_rtt_us c < c_rtt_us chosen)
         then choose_loop bs c s cs else choose_loop bs chosen chosen_score cs)"

definition charge :: "nat \<Rightarrow> u64 \<Rightarrow> backend list \<Rightarrow> backend list" where
  "charge idx incoming bs =
     bs[idx := set_virtual (virtual_finish_ns (be_sched (bs ! idx))
                            + service_ns incoming FALLBACK_RATE_BYTES_PER_SEC) (bs ! idx)]"

definition pick_multi :: "nat \<Rightarrow> candidate list \<Rightarrow> u64 \<Rightarrow> backend list \<Rightarrow> nat \<times> backend list" where
  "pick_multi active cands incoming bs =
     (let bs1 = activate_ranked active cands bs;
          bs2 = normalize_virtual (take active cands) bs1;
          first = hd cands;
          chosen = choose_loop bs2 first (score (bs2 ! c_idx first)) (drop 1 (take active cands))
      in (c_idx chosen, charge (c_idx chosen) incoming bs2))"

definition pick ::
  "u64 \<Rightarrow> port_state \<Rightarrow> backend list \<Rightarrow> nat option \<Rightarrow> u64 \<Rightarrow> nat option \<times> port_state \<times> backend list" where
  "pick now p bs preferred incoming =
     (if bs = [] then (None, p\<lparr>active_paths := 0\<rparr>, bs)
      else
        let (demand_rate, p1) = observe_input_demand now (note_input incoming p);
            pressure = foldl (\<lambda>acc b. saturating_add acc (queued_bytes (be_sched b))) incoming bs;
            p2 = p1\<lparr>pressure_bytes := pressure\<rparr>;
            min_rtt = min_rtt_of bs
        in if min_rtt = - 1 then (Some 0, p2\<lparr>active_paths := 1\<rparr>, only_path 0 bs)
           else
             let max_rtt = max_rtt_of min_rtt;
                 (unsorted, bs1) = scan_backends (reference_rate max_rtt bs) max_rtt incoming 0 bs
             in if unsorted = [] then
                  (Some (case preferred of Some i \<Rightarrow> if i < length bs then i else 0 | None \<Rightarrow> 0),
                   p2\<lparr>active_paths := 1\<rparr>, bs1)
                else
                  let cands = sort_candidates unsorted;
                      active = active_target pressure demand_rate (length cands)
                  in if active = 1 then
                       let chosen = pick_single cands preferred
                       in (Some chosen, p2\<lparr>active_paths := 1\<rparr>, only_path chosen bs1)
                     else
                       let (chosen, bs2) = pick_multi active cands incoming bs1
                       in (Some chosen, p2\<lparr>active_paths := active\<rparr>, bs2))"

end
