(* ===== verification/Adaptive_Props.thy ===== *)
theory Adaptive_Props
  imports Adaptive
begin

text \<open>
  Properties of the path scheduler: which paths \<open>pick\<close> may choose, how many it activates, and that
  the virtual finish times of the fair-queueing step stay within fixed bounds.
\<close>

subsection \<open>Lists updated at distinct places\<close>

lemma foldl_update_length:
  "length (foldl (\<lambda>bs x. bs[f x := g x (bs ! f x)]) bs xs) = length bs"
  by (induction xs arbitrary: bs) simp_all

lemma foldl_update_other:
  "i \<notin> f ` set xs \<Longrightarrow> foldl (\<lambda>bs x. bs[f x := g x (bs ! f x)]) bs xs ! i = bs ! i"
  by (induction xs arbitrary: bs) auto

lemma foldl_update_at:
  assumes "distinct (map f xs)" "x \<in> set xs" "f x < length bs"
  shows "foldl (\<lambda>bs x. bs[f x := g x (bs ! f x)]) bs xs ! f x = g x (bs ! f x)"
  using assms
proof (induction xs arbitrary: bs)
  case (Cons y xs)
  show ?case
  proof (cases "x = y")
    case True
    then have "f x \<notin> f ` set xs" using Cons.prems(1) by auto
    then show ?thesis using Cons.prems(3) True by (simp add: foldl_update_other)
  next
    case False
    then have x: "x \<in> set xs" using Cons.prems(2) by simp
    then have "f x \<in> f ` set xs" by (rule imageI)
    then have "f x \<noteq> f y" using Cons.prems(1) by auto
    then show ?thesis using Cons.IH [of "bs[f y := g y (bs ! f y)]"] Cons.prems x by simp
  qed
qed simp

subsection \<open>The scan over the backends\<close>

definition eligible :: "u64 \<Rightarrow> backend \<Rightarrow> bool" where
  "eligible max_rtt b \<longleftrightarrow> healthy b \<and> ucast (scheduler_rtt b) \<le> max_rtt"

definition candidate_of :: "u64 \<Rightarrow> nat \<Rightarrow> backend \<Rightarrow> candidate" where
  "candidate_of incoming i b =
     \<lparr>c_idx = i, c_base_us = ucast (scheduler_rtt b) div 2 + service_us incoming FALLBACK_RATE_BYTES_PER_SEC,
      c_rtt_us = scheduler_rtt b, c_was_active = path_active (be_sched b),
      c_virtual_ns = virtual_finish_ns (be_sched b)\<rparr>"

definition scanned :: "u64 \<Rightarrow> u64 \<Rightarrow> u64 \<Rightarrow> backend \<Rightarrow> backend" where
  "scanned ref_rate max_rtt incoming b =
     (let b1 = set_eta (eta_of ref_rate incoming b) b in if eligible max_rtt b then b1 else set_path False 0 b1)"

lemma scan_backends_eq:
  "scan_backends ref_rate max_rtt incoming idx bs =
     (map (\<lambda>(i, b). candidate_of incoming i b) (filter (\<lambda>(i, b). eligible max_rtt b) (enumerate idx bs)),
      map (scanned ref_rate max_rtt incoming) bs)"
  by (induction bs arbitrary: idx)
    (auto simp: Let_def eligible_def scanned_def candidate_of_def not_le not_less split: prod.split)

definition cands_of :: "u64 \<Rightarrow> u64 \<Rightarrow> backend list \<Rightarrow> candidate list" where
  "cands_of max_rtt incoming bs =
     map (\<lambda>(i, b). candidate_of incoming i b) (filter (\<lambda>(i, b). eligible max_rtt b) (enumerate 0 bs))"

lemma cands_of_set:
  "c \<in> set (cands_of max_rtt incoming bs) \<longleftrightarrow>
   (\<exists>i < length bs. eligible max_rtt (bs ! i) \<and> c = candidate_of incoming i (bs ! i))"
  by (auto simp: cands_of_def in_set_enumerate_eq)

lemma cands_of_distinct: "distinct (map c_idx (cands_of max_rtt incoming bs))"
proof -
  have "map c_idx (cands_of max_rtt incoming bs) = map fst (filter (\<lambda>(i, b). eligible max_rtt b) (enumerate 0 bs))"
    by (simp add: cands_of_def candidate_of_def case_prod_beta)
  then show ?thesis by (simp add: distinct_map_filter)
qed

lemma sort_candidates_props [simp]:
  "set (sort_candidates cs) = set cs" "length (sort_candidates cs) = length cs"
  "sort_candidates cs = [] \<longleftrightarrow> cs = []"
proof -
  show "set (sort_candidates cs) = set cs" "length (sort_candidates cs) = length cs"
    by (simp_all add: sort_candidates_def)
  then show "sort_candidates cs = [] \<longleftrightarrow> cs = []" by (metis length_0_conv)
qed

lemma distinct_sort_candidates:
  "distinct (map c_idx cs) \<Longrightarrow> distinct (map c_idx (sort_candidates cs))"
  by (simp add: sort_candidates_def distinct_map)

lemma min_rtt_fold:
  fixes m :: u32 and bs
  defines "r \<equiv> foldl (\<lambda>m b. if \<not> healthy b then m else min m (scheduler_rtt b)) m bs"
  shows "r \<le> m \<and> (\<forall>b \<in> set bs. healthy b \<longrightarrow> r \<le> scheduler_rtt b)
    \<and> (r = m \<or> (\<exists>b \<in> set bs. healthy b \<and> r = scheduler_rtt b))"
  unfolding r_def
proof (induction bs arbitrary: m)
  case (Cons b bs)
  define m' where "m' = (if \<not> healthy b then m else min m (scheduler_rtt b))"
  have "m' \<le> m" "healthy b \<Longrightarrow> m' \<le> scheduler_rtt b" "m' = m \<or> (healthy b \<and> m' = scheduler_rtt b)"
    by (auto simp: m'_def min_def)
  moreover have "foldl (\<lambda>m b. if \<not> healthy b then m else min m (scheduler_rtt b)) m (b # bs) =
      foldl (\<lambda>m b. if \<not> healthy b then m else min m (scheduler_rtt b)) m' bs" by (simp add: m'_def)
  ultimately show ?case using Cons.IH [of m'] by (auto intro: order_trans)
qed simp

lemma min_rtt_props:
  "b \<in> set bs \<Longrightarrow> healthy b \<Longrightarrow> min_rtt_of bs \<le> scheduler_rtt b"
  "min_rtt_of bs = - 1 \<or> (\<exists>b \<in> set bs. healthy b \<and> min_rtt_of bs = scheduler_rtt b)"
  using min_rtt_fold [where m = "- 1" and bs = bs] unfolding min_rtt_of_def by blast+

lemma unat_max_rtt:
  "unat (max_rtt_of m) = unat m + max 5000 (unat m div 4)"
proof -
  have b: "unat m < 2 ^ 32" using unsigned_less [of m] by simp
  have "unat (max RTT_HYSTERESIS_MIN_US (m div 4)) = max 5000 (unat m div 4)"
    by (simp add: RTT_HYSTERESIS_MIN_US_def max_def word_le_nat_alt unat_div)
  then show ?thesis using b unfolding max_rtt_of_def by (simp add: unat_word_ariths unat_ucast_u32)
qed

lemma ucast_le_max_rtt:
  "ucast (w :: u32) \<le> max_rtt_of m \<longleftrightarrow> unat w \<le> unat m + max 5000 (unat m div 4)"
  by (simp only: word_le_nat_alt unat_max_rtt unat_ucast_u32)

lemma eligible_near_best:
  assumes "eligible (max_rtt_of (min_rtt_of bs)) b'" "b \<in> set bs" "healthy b"
  shows "unat (scheduler_rtt b') \<le> unat (scheduler_rtt b) + max 5000 (unat (scheduler_rtt b) div 4)"
proof -
  have "unat (min_rtt_of bs) \<le> unat (scheduler_rtt b)"
    using min_rtt_props(1) [OF assms(2,3)] by (simp add: word_le_nat_alt)
  moreover have "unat (scheduler_rtt b') \<le> unat (min_rtt_of bs) + max 5000 (unat (min_rtt_of bs) div 4)"
    using assms(1) by (simp add: eligible_def ucast_le_max_rtt)
  ultimately show ?thesis using div_le_mono [of "unat (min_rtt_of bs)" "unat (scheduler_rtt b)" 4] by linarith
qed

lemma some_eligible:
  assumes "min_rtt_of bs \<noteq> - 1"
  shows "cands_of (max_rtt_of (min_rtt_of bs)) incoming bs \<noteq> []"
proof -
  obtain b where b: "b \<in> set bs" "healthy b" "min_rtt_of bs = scheduler_rtt b"
    using min_rtt_props(2) [of bs] assms by blast
  obtain i where i: "i < length bs" "bs ! i = b" using b(1) by (auto simp: in_set_conv_nth)
  have "eligible (max_rtt_of (min_rtt_of bs)) b" using b(2,3) by (simp add: eligible_def ucast_le_max_rtt)
  then show ?thesis using cands_of_set [of "candidate_of incoming i b" "max_rtt_of (min_rtt_of bs)" incoming bs] i by fastforce
qed

subsection \<open>The passes of the fair-queueing step\<close>

lemma path_simps [simp]:
  "path_active (be_sched (set_path a v b)) = a" "virtual_finish_ns (be_sched (set_path a v b)) = v"
  "queued_bytes (be_sched (set_path a v b)) = queued_bytes (be_sched b)"
  "carry_pending (be_sched (set_path a v b)) = carry_pending (be_sched b)"
  "path_active (be_sched (set_virtual v b)) = path_active (be_sched b)"
  "virtual_finish_ns (be_sched (set_virtual v b)) = v"
  "queued_bytes (be_sched (set_virtual v b)) = queued_bytes (be_sched b)"
  "carry_pending (be_sched (set_virtual v b)) = carry_pending (be_sched b)"
  "path_active (be_sched (set_eta e b)) = path_active (be_sched b)"
  "virtual_finish_ns (be_sched (set_eta e b)) = virtual_finish_ns (be_sched b)"
  "queued_bytes (be_sched (set_eta e b)) = queued_bytes (be_sched b)"
  "carry_pending (be_sched (set_eta e b)) = carry_pending (be_sched b)"
  by (simp_all add: set_path_def set_virtual_def set_eta_def)

definition cands_wf :: "candidate list \<Rightarrow> backend list \<Rightarrow> bool" where
  "cands_wf cands bs \<longleftrightarrow> distinct (map c_idx cands) \<and> (\<forall>c \<in> set cands. c_idx c < length bs)"

definition ranked_update :: "nat \<Rightarrow> i64 \<Rightarrow> nat \<times> candidate \<Rightarrow> backend \<Rightarrow> backend" where
  "ranked_update active epoch x b =
     (if fst x \<ge> active then set_path False 0 b
      else set_path True (if c_was_active (snd x) then virtual_finish_ns (be_sched b) else epoch) b)"

lemma activate_ranked_eq:
  "activate_ranked active cands bs =
     foldl (\<lambda>bs x. bs[(c_idx \<circ> snd) x := ranked_update active (epoch_of (take active cands)) x (bs ! (c_idx \<circ> snd) x)])
       bs (enumerate 0 cands)"
  unfolding activate_ranked_def Let_def
  by (rule foldl_cong) (auto simp: ranked_update_def activate_def deactivate_def Let_def split: prod.split)

lemma enumerate_take:
  assumes "c \<in> set (take n cs)"
  shows "\<exists>r < n. (r, c) \<in> set (enumerate 0 cs)"
proof -
  obtain r where "r < n" "r < length cs" "c = cs ! r" using assms by (auto simp: in_set_conv_nth)
  then show ?thesis by (intro exI [of _ r]) (simp add: in_set_enumerate_eq)
qed

lemma enumerate_drop:
  assumes "c \<in> set (drop n cs)"
  shows "\<exists>r \<ge> n. (r, c) \<in> set (enumerate 0 cs)"
proof -
  obtain j where "j < length cs - n" "c = cs ! (n + j)" using assms by (auto simp: in_set_conv_nth)
  then show ?thesis by (intro exI [of _ "n + j"]) (simp add: in_set_enumerate_eq)
qed

lemma activate_ranked_at:
  assumes wf: "cands_wf cands bs"
  shows "length (activate_ranked active cands bs) = length bs"
    "c \<in> set (take active cands) \<Longrightarrow> activate_ranked active cands bs ! c_idx c =
       set_path True (if c_was_active c then virtual_finish_ns (be_sched (bs ! c_idx c)) else epoch_of (take active cands))
         (bs ! c_idx c)"
    "c \<in> set (drop active cands) \<Longrightarrow> activate_ranked active cands bs ! c_idx c = set_path False 0 (bs ! c_idx c)"
    "i \<notin> c_idx ` set cands \<Longrightarrow> activate_ranked active cands bs ! i = bs ! i"
proof -
  have d: "distinct (map (c_idx \<circ> snd) (enumerate 0 cands))"
    using wf by (simp add: cands_wf_def flip: map_map)
  note at = foldl_update_at [OF d, of _ bs "ranked_update active (epoch_of (take active cands))", folded activate_ranked_eq]
  show "length (activate_ranked active cands bs) = length bs" unfolding activate_ranked_eq by (rule foldl_update_length)
  show "activate_ranked active cands bs ! i = bs ! i" if "i \<notin> c_idx ` set cands"
  proof -
    have "i \<notin> (c_idx \<circ> snd) ` set (enumerate 0 cands)"
      using that by (auto simp: image_comp [symmetric] in_set_enumerate_eq)
    then show ?thesis unfolding activate_ranked_eq by (rule foldl_update_other)
  qed
  show "activate_ranked active cands bs ! c_idx c =
       set_path True (if c_was_active c then virtual_finish_ns (be_sched (bs ! c_idx c)) else epoch_of (take active cands))
         (bs ! c_idx c)" if c: "c \<in> set (take active cands)"
  proof -
    obtain r where "r < active" "(r, c) \<in> set (enumerate 0 cands)" using enumerate_take [OF c] by blast
    moreover have "c_idx c < length bs" using c wf by (auto simp: cands_wf_def dest: in_set_takeD)
    ultimately show ?thesis using at [of "(r, c)"] by (simp add: ranked_update_def)
  qed
  show "activate_ranked active cands bs ! c_idx c = set_path False 0 (bs ! c_idx c)" if c: "c \<in> set (drop active cands)"
  proof -
    obtain r where "active \<le> r" "(r, c) \<in> set (enumerate 0 cands)" using enumerate_drop [OF c] by blast
    moreover have "c_idx c < length bs" using c wf by (auto simp: cands_wf_def dest: in_set_dropD)
    ultimately show ?thesis using at [of "(r, c)"] by (simp add: ranked_update_def)
  qed
qed

lemma normalize_virtual_at:
  assumes wf: "cands_wf cands bs"
  defines "m \<equiv> min_virtual cands bs"
  shows "length (normalize_virtual cands bs) = length bs"
    "i \<notin> c_idx ` set cands \<Longrightarrow> normalize_virtual cands bs ! i = bs ! i"
    "c \<in> set cands \<Longrightarrow> normalize_virtual cands bs ! c_idx c =
       (if m \<noteq> 0 \<and> m \<noteq> I64_MAX then set_virtual (virtual_finish_ns (be_sched (bs ! c_idx c)) - m) (bs ! c_idx c)
        else bs ! c_idx c)"
  using foldl_update_length [of c_idx "\<lambda>c b. set_virtual (virtual_finish_ns (be_sched b) - m) b" bs cands]
    foldl_update_other [of i c_idx cands "\<lambda>c b. set_virtual (virtual_finish_ns (be_sched b) - m) b" bs]
    foldl_update_at [of c_idx cands c bs "\<lambda>c b. set_virtual (virtual_finish_ns (be_sched b) - m) b"] wf
  by (auto simp: normalize_virtual_def Let_def m_def cands_wf_def)

lemma choose_loop_in: "choose_loop bs c s cs \<in> insert c (set cs)"
  by (induction bs c s cs rule: choose_loop.induct) (auto simp: Let_def)

lemma cands_wf_take: "cands_wf cands bs \<Longrightarrow> cands_wf (take n cands) bs"
  by (auto simp: cands_wf_def take_map [symmetric] dest: in_set_takeD)

lemma pick_multi_active:
  assumes wf: "cands_wf cands bs" and act: "0 < active" "active \<le> length cands"
    and off: "\<And>i. i < length bs \<Longrightarrow> i \<notin> c_idx ` set cands \<Longrightarrow> \<not> path_active (be_sched (bs ! i))"
    and r: "pick_multi active cands incoming bs = (i, bs')"
  shows "i \<in> c_idx ` set (take active cands)" "length bs' = length bs"
    "j < length bs \<Longrightarrow> path_active (be_sched (bs' ! j)) \<longleftrightarrow> j \<in> c_idx ` set (take active cands)"
proof -
  define top where "top = take active cands"
  define bs1 where "bs1 = activate_ranked active cands bs"
  define bs2 where "bs2 = normalize_virtual top bs1"
  have len1: "length bs1 = length bs" unfolding bs1_def by (rule activate_ranked_at(1) [OF wf])
  then have wf1: "cands_wf top bs1" using cands_wf_take [OF wf, of active] by (simp add: top_def cands_wf_def)
  note n = normalize_virtual_at [OF wf1, folded bs2_def]
  have top: "hd cands \<in> set top" "set top \<subseteq> set cands" "top \<noteq> []"
    using act by (cases cands; cases active; auto simp: top_def dest: in_set_takeD)+
  define ch where "ch = choose_loop bs2 (hd cands) (score (bs2 ! c_idx (hd cands))) (drop 1 top)"
  have "ch \<in> insert (hd cands) (set (drop 1 top))" unfolding ch_def by (rule choose_loop_in)
  then have ch: "ch \<in> set top" using top(1) by (auto dest: in_set_dropD)
  have i: "i = c_idx ch" "bs' = charge i incoming bs2"
    using r by (auto simp: pick_multi_def Let_def bs1_def bs2_def top_def ch_def)
  show "i \<in> c_idx ` set (take active cands)" using i(1) ch by (simp add: top_def)
  show l: "length bs' = length bs" by (simp add: i(2) charge_def n(1) len1)
  have eq: "path_active (be_sched (bs' ! j)) = path_active (be_sched (bs1 ! j))" if "j < length bs" for j
  proof -
    have "path_active (be_sched (bs2 ! j)) = path_active (be_sched (bs1 ! j))"
      using n(2,3) by (cases "j \<in> c_idx ` set top") (auto split: if_splits)
    moreover have "j < length bs2" using that n(1) len1 by simp
    ultimately show ?thesis by (cases "j = i") (simp_all add: i(2) charge_def)
  qed
  show "path_active (be_sched (bs' ! j)) \<longleftrightarrow> j \<in> c_idx ` set (take active cands)" if j: "j < length bs"
  proof (cases "j \<in> c_idx ` set cands")
    case False
    then show ?thesis using off [OF j] eq [OF j] activate_ranked_at(4) [OF wf False, of active] top(2)
      by (auto simp: bs1_def top_def)
  next
    case True
    then obtain c where c: "c \<in> set cands" "j = c_idx c" by blast
    have split: "set cands = set (take active cands) \<union> set (drop active cands)"
      by (metis append_take_drop_id set_append)
    have dis: "c_idx ` set (take active cands) \<inter> c_idx ` set (drop active cands) = {}"
      using wf unfolding cands_wf_def
      by (metis append_take_drop_id distinct_append map_append set_map)
    show ?thesis using c split dis eq [OF j] activate_ranked_at(2,3) [OF wf, of c active] unfolding bs1_def by auto
  qed
qed

subsection \<open>The whole choice\<close>

lemma active_target_bounds: "0 < n \<Longrightarrow> 1 \<le> active_target p d n \<and> active_target p d n \<le> min 4 n"
  by (auto simp: active_target_def Let_def)

lemma only_path_at:
  "length (only_path i bs) = length bs" "j < length bs \<Longrightarrow> only_path i bs ! j = set_path (j = i) 0 (bs ! j)"
  by (simp_all add: only_path_def nth_enumerate_eq)

lemma pick_single_in:
  assumes "cands \<noteq> []"
  shows "pick_single cands preferred \<in> c_idx ` set cands"
  using assms by (auto simp: pick_single_def Let_def find_Some_iff split: option.split)

text \<open>Which of its four ways \<open>pick\<close> takes, with the passes replaced by their closed forms.\<close>

lemma pick_cases:
  fixes bs now p incoming
  assumes ne: "bs \<noteq> []"
  defines "mx \<equiv> max_rtt_of (min_rtt_of bs)" and "dp \<equiv> observe_input_demand now (note_input incoming p)"
  defines "cands \<equiv> sort_candidates (cands_of mx incoming bs)"
    and "bs1 \<equiv> map (scanned (reference_rate mx bs) mx incoming) bs"
    and "pr \<equiv> foldl (\<lambda>acc b. saturating_add acc (queued_bytes (be_sched b))) incoming bs"
  defines "active \<equiv> active_target pr (fst dp) (length cands)"
  shows "pick now p bs preferred incoming =
    (if min_rtt_of bs = - 1 then (Some 0, (snd dp)\<lparr>pressure_bytes := pr, active_paths := 1\<rparr>, only_path 0 bs)
     else if active = 1 then
       (Some (pick_single cands preferred), (snd dp)\<lparr>pressure_bytes := pr, active_paths := 1\<rparr>,
        only_path (pick_single cands preferred) bs1)
     else (Some (fst (pick_multi active cands incoming bs1)),
           (snd dp)\<lparr>pressure_bytes := pr, active_paths := active\<rparr>, snd (pick_multi active cands incoming bs1)))"
  using some_eligible [of bs incoming] ne
  by (simp add: pick_def Let_def scan_backends_eq case_prod_beta mx_def dp_def cands_def bs1_def pr_def active_def
      cands_of_def [symmetric])

lemma cands_facts:
  fixes bs mx incoming r
  defines "cands \<equiv> sort_candidates (cands_of mx incoming bs)" and "bs1 \<equiv> map (scanned r mx incoming) bs"
  shows "cands_wf cands bs1" "i \<in> c_idx ` set cands \<Longrightarrow> i < length bs \<and> eligible mx (bs ! i)"
    "i < length bs \<Longrightarrow> i \<notin> c_idx ` set cands \<Longrightarrow> bs1 ! i = set_path False 0 (set_eta (eta_of r incoming (bs ! i)) (bs ! i))"
    "i < length bs \<Longrightarrow> i \<in> c_idx ` set cands \<Longrightarrow> bs1 ! i = set_eta (eta_of r incoming (bs ! i)) (bs ! i)"
    "c \<in> set cands \<Longrightarrow> c = candidate_of incoming (c_idx c) (bs ! c_idx c)"
proof -
  have idx: "c_idx (candidate_of incoming i b) = i" for i b by (simp add: candidate_of_def)
  have sc: "c \<in> set cands \<longleftrightarrow> (\<exists>i < length bs. eligible mx (bs ! i) \<and> c = candidate_of incoming i (bs ! i))" for c
    by (simp add: cands_def cands_of_set)
  then show "cands_wf cands bs1"
    using distinct_sort_candidates [OF cands_of_distinct, of mx incoming bs]
    by (auto simp: cands_wf_def cands_def bs1_def idx)
  have im: "i \<in> c_idx ` set cands \<longleftrightarrow> i < length bs \<and> eligible mx (bs ! i)" for i
    using sc idx by (metis (no_types, lifting) image_iff)
  then show "i \<in> c_idx ` set cands \<Longrightarrow> i < length bs \<and> eligible mx (bs ! i)" by blast
  show "i < length bs \<Longrightarrow> i \<notin> c_idx ` set cands \<Longrightarrow> bs1 ! i = set_path False 0 (set_eta (eta_of r incoming (bs ! i)) (bs ! i))"
    "i < length bs \<Longrightarrow> i \<in> c_idx ` set cands \<Longrightarrow> bs1 ! i = set_eta (eta_of r incoming (bs ! i)) (bs ! i)"
    using im by (simp_all add: bs1_def scanned_def Let_def)
  show "c \<in> set cands \<Longrightarrow> c = candidate_of incoming (c_idx c) (bs ! c_idx c)" using sc idx by auto
qed

definition active_set :: "backend list \<Rightarrow> nat set" where
  "active_set bs = {i. i < length bs \<and> path_active (be_sched (bs ! i))}"

lemma active_only_path: "i < length bs \<Longrightarrow> active_set (only_path i bs) = {i}"
  by (auto simp: active_set_def only_path_at)

lemma pick_summary:
  assumes ne: "bs \<noteq> []"
  obtains i p' bs' where "pick now p bs preferred incoming = (Some i, p', bs')" "i < length bs" "length bs' = length bs"
    "i \<in> active_set bs'" "card (active_set bs') = active_paths p'" "1 \<le> active_paths p'" "active_paths p' \<le> 4"
    "min_rtt_of bs \<noteq> - 1 \<Longrightarrow> active_set bs' \<subseteq> {j. j < length bs \<and> eligible (max_rtt_of (min_rtt_of bs)) (bs ! j)}"
proof (cases "min_rtt_of bs = - 1")
  case True
  then show ?thesis
    using that [OF pick_cases [OF ne, of now p preferred incoming, unfolded if_P [OF True]]] ne
    by (simp add: active_only_path only_path_at)
next
  case False
  define mx where "mx = max_rtt_of (min_rtt_of bs)"
  define cands where "cands = sort_candidates (cands_of mx incoming bs)"
  define bs1 where "bs1 = map (scanned (reference_rate mx bs) mx incoming) bs"
  define dp where "dp = observe_input_demand now (note_input incoming p)"
  define pr where "pr = foldl (\<lambda>acc b. saturating_add acc (queued_bytes (be_sched b))) incoming bs"
  define active where "active = active_target pr (fst dp) (length cands)"
  note pc = pick_cases [OF ne, of now p preferred incoming, unfolded if_not_P [OF False],
      folded mx_def dp_def pr_def, folded cands_def bs1_def, folded active_def]
  have cf: "cands_wf cands bs1" "\<And>i. i \<in> c_idx ` set cands \<Longrightarrow> i < length bs \<and> eligible mx (bs ! i)"
    "\<And>i. i < length bs \<Longrightarrow> i \<notin> c_idx ` set cands \<Longrightarrow>
       bs1 ! i = set_path False 0 (set_eta (eta_of (reference_rate mx bs) incoming (bs ! i)) (bs ! i))"
    unfolding cands_def bs1_def by (rule cands_facts; assumption)+
  have cne: "cands \<noteq> []" using some_eligible [OF False] by (simp add: cands_def mx_def)
  have act: "1 \<le> active" "active \<le> 4" "active \<le> length cands"
    using active_target_bounds [of "length cands" pr "fst dp"] cne by (auto simp: active_def)
  have len1: "length bs1 = length bs" by (simp add: bs1_def)
  show ?thesis
  proof (cases "active = 1")
    case True
    have i: "pick_single cands preferred \<in> c_idx ` set cands" by (rule pick_single_in [OF cne])
    show ?thesis
      by (rule that [OF pc [unfolded if_P [OF True]]])
        (use cf(2) [OF i] len1 in \<open>simp_all add: active_only_path only_path_at mx_def\<close>)
  next
    case multi: False
    obtain i bs' where m: "pick_multi active cands incoming bs1 = (i, bs')" by fastforce
    have off: "\<not> path_active (be_sched (bs1 ! j))" if "j < length bs1" "j \<notin> c_idx ` set cands" for j
      using cf(3) [of j] that len1 by simp
    note pm = pick_multi_active [OF cf(1) _ act(3) off m]
    have A: "active_set bs' = c_idx ` set (take active cands)"
      using pm(2,3) cf(2) act(1) len1 by (auto simp: active_set_def dest: in_set_takeD)
    have "distinct (take active (map c_idx cands))" using cf(1) by (simp add: cands_wf_def)
    then have "card (active_set bs') = active"
      unfolding A using act(3) by (metis distinct_card length_map length_take min.absorb2 set_map take_map)
    moreover have "c_idx ` set (take active cands) \<subseteq> c_idx ` set cands" by (auto dest: in_set_takeD)
    then have "active_set bs' \<subseteq> {j. j < length bs \<and> eligible mx (bs ! j)}" using cf(2) unfolding A by blast
    moreover have "i \<in> active_set bs'" unfolding A using pm(1) act(1) by simp
    ultimately show ?thesis
      by (intro that [OF pc [unfolded if_not_P [OF multi] m fst_conv snd_conv]])
        (use pm(2) act len1 in \<open>auto simp: mx_def\<close>)
  qed
qed

end
