(* ===== verification/Adaptive_Fair.thy ===== *)
theory Adaptive_Fair
  imports Adaptive_Props
begin

text \<open>
  The fair-queueing clocks of the path scheduler: with bounded queues and frames the virtual
  finish times stay in a fixed range, so no signed addition of \<open>pick\<close> overflows. Then the
  properties of the scheduler.
\<close>

subsection \<open>Signed words\<close>

lemma sint_of_int64: "- (2 ^ 63) \<le> r \<Longrightarrow> r < 2 ^ 63 \<Longrightarrow> sint (word_of_int r :: i64) = r"
  by (simp add: sint_sbintrunc' signed_take_bit_int_eq_self)

lemma sint_unat64:
  assumes "unat (w :: i64) < 2 ^ 63"
  shows "sint w = int (unat w)"
proof -
  have "int (unat w) < 2 ^ 63"
    using assms of_nat_less_iff [of "unat w" "2 ^ 63", where 'a = int] by (simp del: of_nat_unat)
  then have "sint (word_of_int (int (unat w)) :: i64) = int (unat w)" by (intro sint_of_int64) linarith+
  then show ?thesis by simp
qed

lemma unat_add64: "unat (a :: u64) + unat b < 2 ^ 64 \<Longrightarrow> unat (a + b) = unat a + unat b"
  by (simp add: unat_word_ariths)

lemma unat_sub64: "unat (b :: u64) \<le> unat a \<Longrightarrow> unat (a - b) = unat a - unat b"
  by (simp add: unat_sub word_le_nat_alt)

lemma unat_i64_max: "unat I64_MAX = 2 ^ 63 - 1"
  by (simp add: I64_MAX_def)

lemma service_ns_fallback:
  assumes "unat x \<le> 2 ^ 33"
  shows "unat (service_ns x FALLBACK_RATE_BYTES_PER_SEC) = 40 * unat x"
proof (cases "x = 0")
  case False
  have m: "unat (saturating_mul x 1000000000) = unat x * 1000000000"
    using assms by (simp add: saturating_mul_def unat_word_ariths unat_of_nat take_bit_nat_eq_self)
  have "unat (saturating_mul x 1000000000 div max FALLBACK_RATE_BYTES_PER_SEC 1) = 40 * unat x"
    by (simp add: unat_div m FALLBACK_RATE_BYTES_PER_SEC_def max_def word_le_nat_alt)
  moreover have "40 * unat x < 2 ^ 63 - 1" using assms by simp
  ultimately show ?thesis
    using False by (simp add: service_ns_def min_def word_le_nat_alt unat_i64_max)
qed (simp add: service_ns_def)

lemma i64_min_unat:
  "unat a < 2 ^ 63 \<Longrightarrow> unat b < 2 ^ 63 \<Longrightarrow> unat (i64_min a b) = min (unat a) (unat b)"
  by (simp add: i64_min_def sint_unat64 min_def del: of_nat_unat)

subsection \<open>Bounded clocks\<close>

definition queues_bounded :: "nat \<Rightarrow> backend list \<Rightarrow> bool" where
  "queues_bounded Q bs \<longleftrightarrow> (\<forall>b \<in> set bs. unat (queued_bytes (be_sched b)) \<le> Q)"

definition clock_bound :: "nat \<Rightarrow> nat \<Rightarrow> nat" where
  "clock_bound Q B = 40 * (Q + B) + 150000"

definition clocks_bounded :: "nat \<Rightarrow> backend list \<Rightarrow> bool" where
  "clocks_bounded W bs \<longleftrightarrow> (\<forall>b \<in> set bs. unat (virtual_finish_ns (be_sched b)) \<le> W)"

lemma clocks_boundedI:
  "(\<And>i. i < length bs \<Longrightarrow> unat (virtual_finish_ns (be_sched (bs ! i))) \<le> W) \<Longrightarrow> clocks_bounded W bs"
  by (auto simp: clocks_bounded_def in_set_conv_nth)

lemma clocks_boundedD: "clocks_bounded W bs \<Longrightarrow> i < length bs \<Longrightarrow> unat (virtual_finish_ns (be_sched (bs ! i))) \<le> W"
  by (simp add: clocks_bounded_def)

lemma sint_score:
  assumes v: "unat (virtual_finish_ns (be_sched b)) \<le> W" and q: "unat (queued_bytes (be_sched b)) \<le> Q"
    and b: "Q \<le> 2 ^ 33" "W + 40 * Q < 2 ^ 63"
  shows "sint (score b) = int (unat (virtual_finish_ns (be_sched b)) + 40 * unat (queued_bytes (be_sched b)))
    - (if carry_pending (be_sched b) then 150000 else 0)"
proof -
  define u where "u = virtual_finish_ns (be_sched b) + service_ns (queued_bytes (be_sched b)) FALLBACK_RATE_BYTES_PER_SEC"
  have s: "unat (service_ns (queued_bytes (be_sched b)) FALLBACK_RATE_BYTES_PER_SEC) = 40 * unat (queued_bytes (be_sched b))"
    using q b(1) by (intro service_ns_fallback) simp
  have lt: "unat (virtual_finish_ns (be_sched b)) + 40 * unat (queued_bytes (be_sched b)) < 2 ^ 63" using v q b(2) by linarith
  then have u: "unat u = unat (virtual_finish_ns (be_sched b)) + 40 * unat (queued_bytes (be_sched b))"
    unfolding u_def using unat_add64 [of "virtual_finish_ns (be_sched b)"] s by simp
  then have su: "sint u = int (unat (virtual_finish_ns (be_sched b)) + 40 * unat (queued_bytes (be_sched b)))"
    using sint_unat64 [of u] lt by (simp only:)
  have c: "sint (CARRY_BONUS_US * 1000) = 150000"
    by (subst sint_unat64) (simp_all add: CARRY_BONUS_US_def)
  have bnd: "0 \<le> sint u" "sint u < 2 ^ 63"
    using lt of_nat_less_iff [of "unat u" "2 ^ 63", where 'a = int] unfolding su u by simp_all
  have sat: "sint (i64_saturating_sub u (CARRY_BONUS_US * 1000)) = sint u - 150000"
    unfolding i64_saturating_sub_def c Let_def using bnd by (subst sint_of_int64) auto
  show ?thesis unfolding score_def Let_def u_def [symmetric] using sat su by simp
qed

lemma choose_loop_least:
  assumes "s = score (bs ! c_idx c)"
  shows "\<forall>x \<in> insert c (set cs). sint (score (bs ! c_idx (choose_loop bs c s cs))) \<le> sint (score (bs ! c_idx x))"
  using assms
proof (induction bs c s cs rule: choose_loop.induct)
  case (2 bs c s x cs)
  then show ?case by (auto simp: Let_def intro: order_trans less_imp_le)
qed simp

lemma epoch_fold:
  assumes "\<forall>c \<in> set cs. unat (c_virtual_ns c) \<le> W" "W < 2 ^ 63" "case e of None \<Rightarrow> True | Some v \<Rightarrow> unat v \<le> W"
  shows "case foldl (\<lambda>e c. if c_was_active c
             then Some (case e of None \<Rightarrow> c_virtual_ns c | Some v \<Rightarrow> i64_min v (c_virtual_ns c)) else e) e cs of
           None \<Rightarrow> True | Some v \<Rightarrow> unat v \<le> W"
  using assms
proof (induction cs arbitrary: e)
  case (Cons c cs)
  define e' where "e' = (if c_was_active c
      then Some (case e of None \<Rightarrow> c_virtual_ns c | Some v \<Rightarrow> i64_min v (c_virtual_ns c)) else e)"
  have "case e' of None \<Rightarrow> True | Some v \<Rightarrow> unat v \<le> W"
    using Cons.prems by (auto simp: e'_def i64_min_unat split: option.splits)
  then show ?case using Cons.IH [of e'] Cons.prems by (simp add: e'_def)
qed simp

lemma epoch_bounded: "\<forall>c \<in> set cs. unat (c_virtual_ns c) \<le> W \<Longrightarrow> W < 2 ^ 63 \<Longrightarrow> unat (epoch_of cs) \<le> W"
  using epoch_fold [of cs W None] by (auto simp: epoch_of_def split: option.splits)

lemma min_virtual_props:
  assumes "\<forall>c \<in> set cs. unat (virtual_finish_ns (be_sched (bs ! c_idx c))) \<le> W" "W < 2 ^ 63 - 1" "cs \<noteq> []"
  shows "\<exists>c \<in> set cs. min_virtual cs bs = virtual_finish_ns (be_sched (bs ! c_idx c))"
    "\<forall>c \<in> set cs. unat (min_virtual cs bs) \<le> unat (virtual_finish_ns (be_sched (bs ! c_idx c)))"
proof -
  define v where "v c = virtual_finish_ns (be_sched (bs ! c_idx c))" for c :: candidate
  define F where "F = foldl (\<lambda>m c. i64_min m (v c))"
  have step: "unat (F m xs) \<le> unat m \<and> (\<forall>c \<in> set xs. unat (F m xs) \<le> unat (v c))
      \<and> (F m xs = m \<or> (\<exists>c \<in> set xs. F m xs = v c))"
    if "\<forall>c \<in> set xs. unat (v c) \<le> W" "unat m < 2 ^ 63" for m xs
    using that
  proof (induction xs arbitrary: m)
    case (Cons x xs)
    have x: "unat (v x) < 2 ^ 63" using Cons.prems(1) assms(2) by auto
    then have u: "unat (i64_min m (v x)) = min (unat m) (unat (v x))" using Cons.prems(2) i64_min_unat by blast
    have "i64_min m (v x) = m \<or> i64_min m (v x) = v x" by (simp add: i64_min_def)
    moreover have "F m (x # xs) = F (i64_min m (v x)) xs" by (simp add: F_def)
    ultimately show ?case using Cons.IH [of "i64_min m (v x)"] Cons.prems u by auto
  qed (simp add: F_def)
  have top: "unat I64_MAX < 2 ^ 63" "\<forall>c \<in> set cs. unat (v c) \<le> W" using assms(1) by (simp_all add: unat_i64_max v_def)
  have m: "min_virtual cs bs = F I64_MAX cs" by (simp add: min_virtual_def F_def v_def)
  note st = step [OF top(2,1)]
  then show "\<forall>c \<in> set cs. unat (min_virtual cs bs) \<le> unat (virtual_finish_ns (be_sched (bs ! c_idx c)))"
    unfolding m v_def by blast
  obtain c where "c \<in> set cs" using assms(3) by (cases cs) auto
  then have "unat (F I64_MAX cs) < 2 ^ 63 - 1" using st top(2) assms(2) by fastforce
  then have "F I64_MAX cs \<noteq> I64_MAX" using unat_i64_max by auto
  then show "\<exists>c \<in> set cs. min_virtual cs bs = virtual_finish_ns (be_sched (bs ! c_idx c))"
    using st unfolding m v_def by blast
qed

lemma activate_ranked_bounded:
  assumes wf: "cands_wf cands bs" and W: "clocks_bounded W bs" "W < 2 ^ 63"
    and v: "\<forall>c \<in> set cands. unat (c_virtual_ns c) \<le> W" and j: "j < length bs"
  shows "unat (virtual_finish_ns (be_sched (activate_ranked active cands bs ! j))) \<le> W"
    "queued_bytes (be_sched (activate_ranked active cands bs ! j)) = queued_bytes (be_sched (bs ! j))"
proof -
  have e: "unat (epoch_of (take active cands)) \<le> W"
    by (rule epoch_bounded [OF _ W(2)]) (use v in \<open>auto dest: in_set_takeD\<close>)
  have old: "unat (virtual_finish_ns (be_sched (bs ! j))) \<le> W" by (rule clocks_boundedD [OF W(1) j])
  consider "j \<notin> c_idx ` set cands" | c where "c \<in> set (take active cands)" "j = c_idx c"
    | c where "c \<in> set (drop active cands)" "j = c_idx c"
    by (metis (no_types) Un_iff append_take_drop_id imageE set_append)
  then have "unat (virtual_finish_ns (be_sched (activate_ranked active cands bs ! j))) \<le> W
      \<and> queued_bytes (be_sched (activate_ranked active cands bs ! j)) = queued_bytes (be_sched (bs ! j))"
  proof cases
    case 1
    then show ?thesis using activate_ranked_at(4) [OF wf] old by simp
  next
    case 2
    then show ?thesis using activate_ranked_at(2) [OF wf 2(1)] old e by simp
  next
    case 3
    then show ?thesis using activate_ranked_at(3) [OF wf 3(1)] by simp
  qed
  then show "unat (virtual_finish_ns (be_sched (activate_ranked active cands bs ! j))) \<le> W"
    "queued_bytes (be_sched (activate_ranked active cands bs ! j)) = queued_bytes (be_sched (bs ! j))" by blast+
qed

text \<open>Normalising subtracts the smallest clock of the active paths: one of them then stands at zero.\<close>

lemma normalize_virtual_bounded:
  assumes wf: "cands_wf cands bs" and W: "clocks_bounded W bs" "W < 2 ^ 63 - 1" and ne: "cands \<noteq> []"
  shows "j < length bs \<Longrightarrow> unat (virtual_finish_ns (be_sched (normalize_virtual cands bs ! j))) \<le> W"
    "j < length bs \<Longrightarrow> queued_bytes (be_sched (normalize_virtual cands bs ! j)) = queued_bytes (be_sched (bs ! j))"
    "\<exists>c \<in> set cands. virtual_finish_ns (be_sched (normalize_virtual cands bs ! c_idx c)) = 0"
proof -
  define m where "m = min_virtual cands bs"
  have vb: "\<forall>c \<in> set cands. unat (virtual_finish_ns (be_sched (bs ! c_idx c))) \<le> W"
    using wf clocks_boundedD [OF W(1)] by (simp add: cands_wf_def)
  note mp = min_virtual_props [OF vb W(2) ne, folded m_def]
  note n = normalize_virtual_at [OF wf, folded m_def]
  obtain c where c: "c \<in> set cands" "m = virtual_finish_ns (be_sched (bs ! c_idx c))" using mp(1) by blast
  have "unat m < unat I64_MAX" using c vb W(2) by (fastforce simp: unat_i64_max)
  then have mm: "m \<noteq> I64_MAX" by auto
  have sub: "unat (virtual_finish_ns (be_sched (normalize_virtual cands bs ! c_idx d))) \<le> W"
    "queued_bytes (be_sched (normalize_virtual cands bs ! c_idx d)) = queued_bytes (be_sched (bs ! c_idx d))"
    if "d \<in> set cands" for d
    using that mp(2) vb n(3) [OF that] by (auto simp: unat_sub64 intro: le_trans [OF diff_le_self])
  show "unat (virtual_finish_ns (be_sched (normalize_virtual cands bs ! j))) \<le> W" if "j < length bs"
    using sub(1) n(2) [of j] clocks_boundedD [OF W(1) that] by (cases "j \<in> c_idx ` set cands") auto
  show "queued_bytes (be_sched (normalize_virtual cands bs ! j)) = queued_bytes (be_sched (bs ! j))" if "j < length bs"
    using sub(2) n(2) [of j] by (cases "j \<in> c_idx ` set cands") auto
  show "\<exists>c \<in> set cands. virtual_finish_ns (be_sched (normalize_virtual cands bs ! c_idx c)) = 0"
    using n(3) [OF c(1)] c mm by (intro bexI [of _ c]) auto
qed

lemma pick_multi_bounded:
  assumes wf: "cands_wf cands bs" and act: "0 < active" "active \<le> length cands"
    and W: "clocks_bounded W bs" "queues_bounded Q bs" and B: "unat incoming \<le> B"
    and lim: "Q \<le> 2 ^ 33" "B \<le> 2 ^ 33" "W = clock_bound Q B"
    and v: "\<forall>c \<in> set cands. unat (c_virtual_ns c) \<le> W"
  shows "clocks_bounded W (snd (pick_multi active cands incoming bs))"
proof -
  define top where "top = take active cands"
  define bs1 where "bs1 = activate_ranked active cands bs"
  define bs2 where "bs2 = normalize_virtual top bs1"
  define ch where "ch = choose_loop bs2 (hd cands) (score (bs2 ! c_idx (hd cands))) (drop 1 top)"
  have Wn: "W + 40 * Q < 2 ^ 63 - 1" using lim by (simp add: clock_bound_def)
  have len1: "length bs1 = length bs" unfolding bs1_def by (rule activate_ranked_at(1) [OF wf])
  then have wf1: "cands_wf top bs1" using cands_wf_take [OF wf, of active] by (simp add: top_def cands_wf_def)
  have len2: "length bs2 = length bs" using normalize_virtual_at(1) [OF wf1] len1 by (simp add: bs2_def)
  have top: "hd cands \<in> set top" "top \<noteq> []" "insert (hd cands) (set (drop 1 top)) = set top"
    using act by (cases cands; cases active; auto simp: top_def)+
  have W63: "W < 2 ^ 63" "W < 2 ^ 63 - 1" using Wn by simp_all
  note a = activate_ranked_bounded [OF wf W(1) W63(1) v, where active = active, folded bs1_def]
  have cb1: "clocks_bounded W bs1" using a(1) len1 by (intro clocks_boundedI) simp
  note n = normalize_virtual_bounded [OF wf1 cb1 W63(2) top(2), folded bs2_def]
  have q: "unat (queued_bytes (be_sched (bs2 ! j))) \<le> Q" if "j < length bs" for j
    using n(2) [of j] a(2) [of j] that len1 W(2) by (simp add: queues_bounded_def)
  have sc: "sint (score (bs2 ! j)) = int (unat (virtual_finish_ns (be_sched (bs2 ! j))) + 40 * unat (queued_bytes (be_sched (bs2 ! j))))
      - (if carry_pending (be_sched (bs2 ! j)) then 150000 else 0)" if "j < length bs" for j
    using n(1) [of j] q [OF that] that Wn len1 lim(1) by (intro sint_score [of _ W Q]) auto
  have idx: "c_idx c < length bs" if "c \<in> set top" for c using wf1 that len1 by (simp add: cands_wf_def)
  obtain c where c: "c \<in> set top" "virtual_finish_ns (be_sched (bs2 ! c_idx c)) = 0" using n(3) by blast
  have chin: "ch \<in> set top" using choose_loop_in [of bs2 "hd cands"] top(3) unfolding ch_def by blast
  have "sint (score (bs2 ! c_idx ch)) \<le> sint (score (bs2 ! c_idx c))"
    using choose_loop_least [OF refl, where bs = bs2 and c = "hd cands" and cs = "drop 1 top"] c(1) top(3) unfolding ch_def by blast
  then have "int (unat (virtual_finish_ns (be_sched (bs2 ! c_idx ch)))) \<le> int (40 * Q + 150000)"
    using sc [OF idx [OF c(1)]] sc [OF idx [OF chin]] q [OF idx [OF c(1)]] c(2)
    by (auto simp del: of_nat_unat split: if_splits)
  then have vc: "unat (virtual_finish_ns (be_sched (bs2 ! c_idx ch))) \<le> 40 * Q + 150000" by linarith
  have s: "unat (service_ns incoming FALLBACK_RATE_BYTES_PER_SEC) \<le> 40 * B"
    using B lim(2) by (subst service_ns_fallback) auto
  have new: "unat (virtual_finish_ns (be_sched (bs2 ! c_idx ch)) + service_ns incoming FALLBACK_RATE_BYTES_PER_SEC) \<le> W"
    using vc s lim by (subst unat_add64) (simp_all add: clock_bound_def)
  have "snd (pick_multi active cands incoming bs) = charge (c_idx ch) incoming bs2"
    by (simp add: pick_multi_def Let_def bs1_def bs2_def top_def ch_def)
  then show ?thesis
    using n(1) new len1 len2 idx [OF chin] by (intro clocks_boundedI) (auto simp: charge_def nth_list_update)
qed

lemma pick_bounded:
  assumes W: "clocks_bounded (clock_bound Q B) bs" "queues_bounded Q bs" and B: "unat incoming \<le> B"
    and lim: "Q \<le> 2 ^ 33" "B \<le> 2 ^ 33"
  shows "clocks_bounded (clock_bound Q B) (snd (snd (pick now p bs preferred incoming)))"
proof (cases "bs = []")
  case True
  then show ?thesis by (simp add: pick_def clocks_bounded_def)
next
  case ne: False
  define W where "W = clock_bound Q B"
  define mx where "mx = max_rtt_of (min_rtt_of bs)"
  define cands where "cands = sort_candidates (cands_of mx incoming bs)"
  define bs1 where "bs1 = map (scanned (reference_rate mx bs) mx incoming) bs"
  have op: "clocks_bounded W (only_path i xs)" for i xs by (rule clocks_boundedI) (simp add: only_path_at)
  have cf: "cands_wf cands bs1" "\<And>c. c \<in> set cands \<Longrightarrow> c = candidate_of incoming (c_idx c) (bs ! c_idx c)"
    "\<And>i. i \<in> c_idx ` set cands \<Longrightarrow> i < length bs \<and> eligible mx (bs ! i)"
    unfolding cands_def bs1_def by (rule cands_facts; assumption)+
  have b1: "clocks_bounded W bs1" "queues_bounded Q bs1"
    using W by (auto simp: bs1_def clocks_bounded_def queues_bounded_def scanned_def Let_def W_def)
  have v: "unat (c_virtual_ns c) \<le> W" if "c \<in> set cands" for c
  proof -
    have "c_virtual_ns c = virtual_finish_ns (be_sched (bs ! c_idx c))"
      by (subst cf(2) [OF that]) (simp add: candidate_of_def)
    then show ?thesis using clocks_boundedD [OF W(1)] cf(3) [of "c_idx c"] that by (simp add: W_def)
  qed
  have pm: "clocks_bounded W (snd (pick_multi active cands incoming bs1))"
    if "0 < active" "active \<le> length cands" for active
    using pick_multi_bounded [OF cf(1) that b1 B lim W_def] v by blast
  have cne: "min_rtt_of bs \<noteq> - 1 \<Longrightarrow> cands \<noteq> []" using some_eligible by (simp add: cands_def mx_def)
  have "clocks_bounded W (snd (pick_multi (active_target x y (length cands)) cands incoming bs1))"
    if "min_rtt_of bs \<noteq> - 1" for x y
    by (rule pm) (use active_target_bounds [of "length cands" x y] cne [OF that] in auto)
  then show ?thesis
    unfolding pick_cases [OF ne] W_def [symmetric] mx_def [symmetric] cands_def [symmetric] bs1_def [symmetric]
    using op by simp
qed

subsection \<open>Properties\<close>

definition sample_backends :: "backend list" where
  "sample_backends =
     [\<lparr>be_rtt_us = 20000, be_queue_len = 2, be_queue_capacity = 64,
       be_sched = sched_default\<lparr>queued_bytes := 300000, path_active := True, virtual_finish_ns := 7000\<rparr>\<rparr>,
      \<lparr>be_rtt_us = 22000, be_queue_len = 20, be_queue_capacity = 64,
       be_sched = sched_default\<lparr>queued_bytes := 90000\<rparr>\<rparr>,
      \<lparr>be_rtt_us = 90000, be_queue_len = 0, be_queue_capacity = 64, be_sched = sched_default\<rparr>]"

text \<open>C17. Choosing a path (\<open>pick\<close>) over at least one connection always yields one: the index is in range, the
  chosen connection is marked active, the number of connections marked active is the \<open>active_paths\<close> counter of the
  port and lies between one and four, and if some connection is healthy with a measured round-trip time, every active
  connection is healthy and is no slower than that connection plus the larger of 5 ms and a quarter of its
  round-trip time.\<close>

theorem pick_healthy_near_best:
  assumes "bs \<noteq> []"
  shows "\<exists>i p' bs'. pick now p bs preferred incoming = (Some i, p', bs') \<and> i < length bs \<and> length bs' = length bs
    \<and> i \<in> active_set bs' \<and> card (active_set bs') = active_paths p' \<and> 1 \<le> active_paths p' \<and> active_paths p' \<le> 4
    \<and> (\<forall>b \<in> set bs. healthy b \<and> scheduler_rtt b \<noteq> - 1 \<longrightarrow>
         (\<forall>j \<in> active_set bs'. healthy (bs ! j)
            \<and> unat (scheduler_rtt (bs ! j)) \<le> unat (scheduler_rtt b) + max 5000 (unat (scheduler_rtt b) div 4)))"
proof -
  obtain i p' bs' where r: "pick now p bs preferred incoming = (Some i, p', bs')" "i < length bs" "length bs' = length bs"
    "i \<in> active_set bs'" "card (active_set bs') = active_paths p'" "1 \<le> active_paths p'" "active_paths p' \<le> 4"
    "min_rtt_of bs \<noteq> - 1 \<Longrightarrow> active_set bs' \<subseteq> {j. j < length bs \<and> eligible (max_rtt_of (min_rtt_of bs)) (bs ! j)}"
    by (rule pick_summary [OF assms, where now = now and p = p and preferred = preferred and incoming = incoming]) blast
  have "healthy (bs ! j) \<and> unat (scheduler_rtt (bs ! j)) \<le> unat (scheduler_rtt b) + max 5000 (unat (scheduler_rtt b) div 4)"
    if b: "b \<in> set bs" "healthy b" "scheduler_rtt b \<noteq> - 1" and j: "j \<in> active_set bs'" for b j
  proof -
    have "min_rtt_of bs \<noteq> - 1" using min_rtt_props(1) [OF b(1,2)] b(3) by (auto simp: word_order.extremum_unique)
    then have e: "eligible (max_rtt_of (min_rtt_of bs)) (bs ! j)" using r(8) j by blast
    then show ?thesis using eligible_near_best [OF e b(1,2)] by (simp add: eligible_def)
  qed
  then show ?thesis using r(1-7) by blast
qed

theorem pick_healthy_near_best_witness:
  "healthy (sample_backends ! 0) \<and> scheduler_rtt (sample_backends ! 0) = 20000
   \<and> (\<exists>i p' bs'. pick 5000 port_default sample_backends None 1400 = (Some i, p', bs') \<and> i \<in> active_set bs'
       \<and> (\<forall>j \<in> active_set bs'. unat (scheduler_rtt (sample_backends ! j)) \<le> 25000))"
proof -
  have h: "healthy (sample_backends ! 0)" "scheduler_rtt (sample_backends ! 0) = 20000" by code_simp+
  have ne: "sample_backends \<noteq> []" and m: "sample_backends ! 0 \<in> set sample_backends" by (simp_all add: sample_backends_def)
  show ?thesis
    using pick_healthy_near_best [OF ne, of 5000 port_default None 1400] h m by fastforce
qed

text \<open>C18. The fair-queueing clocks do not drift: if every connection has at most \<open>Q\<close> queued bytes, the frame to be
  placed has at most \<open>B\<close> bytes and every virtual finish time lies in \<open>[0, 40 * (Q + B) + 150000]\<close> ns before a choice,
  then every one lies in that range after it, for all \<open>Q\<close> and \<open>B\<close> up to 8 GiB. So the signed additions of a choice never
  overflow and no connection is starved by a clock that ran ahead.\<close>

theorem pick_clocks_bounded:
  assumes "clocks_bounded (clock_bound Q B) bs" "queues_bounded Q bs" "unat incoming \<le> B" "Q \<le> 2 ^ 33" "B \<le> 2 ^ 33"
    "pick now p bs preferred incoming = (choice, p', bs')"
  shows "clocks_bounded (clock_bound Q B) bs'"
  using pick_bounded [OF assms(1-5), where now = now and p = p and preferred = preferred] assms(6) by simp

theorem pick_clocks_bounded_witness:
  "case pick 5000 port_default sample_backends None 1400 of (choice, p', bs') \<Rightarrow> clocks_bounded (clock_bound 300000 1400) bs'"
proof -
  obtain choice p' bs' where r: "pick 5000 port_default sample_backends None 1400 = (choice, p', bs')"
    by (cases "pick 5000 port_default sample_backends None 1400")
  have "clocks_bounded (clock_bound 300000 1400) bs'"
    by (rule pick_clocks_bounded [OF _ _ _ _ _ r])
      (simp_all add: clocks_bounded_def queues_bounded_def clock_bound_def sample_backends_def sched_default_def)
  then show ?thesis by (simp add: r)
qed

end
