(* ===== verification/Owned_Queue.thy ===== *)
theory Owned_Queue
  imports Frame
begin

text \<open>
  The bounded ownership queue between a port and the TLS writer of one connection
  (\<open>OwnedBatchQueue\<close> of \<open>net.rs\<close>) and the wake-up flag beside it (\<open>BackendNotify\<close>). One
  locked section of the code is one function here. The queue refines a plain first-in
  first-out queue of frames; the interface \<open>frame_fifo\<close> states that contract and what its
  clients get from it.
\<close>

subsection \<open>Wake-up flag\<close>

text \<open>
  The token pushed to the poller's dirty queue, the pending flag, and how often the poller
  was called (each call pushes the token and wakes the poller).
\<close>

record notify =
  nt_token :: nat
  nt_pending :: bool
  nt_wakes :: nat

definition notify_new :: "nat \<Rightarrow> notify" where
  "notify_new token = \<lparr>nt_token = token, nt_pending = False, nt_wakes = 0\<rparr>"

definition wake :: "notify \<Rightarrow> notify" where
  "wake n = (if \<not> nt_pending n then n\<lparr>nt_pending := True, nt_wakes := nt_wakes n + 1\<rparr> else n)"

definition consume_wake :: "notify \<Rightarrow> notify" where
  "consume_wake n = n\<lparr>nt_pending := False\<rparr>"

subsection \<open>The queue\<close>

definition OWNED_BATCH_MAX_FRAMES :: nat where "OWNED_BATCH_MAX_FRAMES = 8"
definition OWNED_BATCH_MAX_BYTES :: u64 where "OWNED_BATCH_MAX_BYTES = 8 * 1024"
definition OWNED_BATCH_WIRE_OVERHEAD_PER_FRAME :: nat where "OWNED_BATCH_WIRE_OVERHEAD_PER_FRAME = 32"

definition USIZE_MAX :: nat where "USIZE_MAX = 2 ^ 64 - 1"

text \<open>The argument is the parsed environment variable \<open>TLSVPN_TX_BATCH_SIZE\<close>.\<close>

definition tx_batch_size :: "nat option \<Rightarrow> nat" where
  "tx_batch_size env =
     (case env of Some n \<Rightarrow> if n = 8 \<or> n = 16 \<or> n = 32 then n else OWNED_BATCH_MAX_FRAMES
      | None \<Rightarrow> OWNED_BATCH_MAX_FRAMES)"

record owned_inner =
  oi_batches :: "vpn_frame_batch list"
  oi_frames :: nat

record owned_queue =
  oq_inner :: owned_inner
  oq_hint :: nat
  oq_capacity :: nat
  oq_max_batch :: nat

definition owned_queue_new :: "nat option \<Rightarrow> nat \<Rightarrow> owned_queue" where
  "owned_queue_new env capacity =
     \<lparr>oq_inner = \<lparr>oi_batches = [], oi_frames = 0\<rparr>, oq_hint = 0, oq_capacity = max capacity 1,
      oq_max_batch = tx_batch_size env\<rparr>"

definition can_append :: "owned_inner \<Rightarrow> u64 \<Rightarrow> nat \<Rightarrow> bool" where
  "can_append inner n max_frames \<longleftrightarrow>
     oi_batches inner \<noteq> []
     \<and> length (fb_frames (last (oi_batches inner))) < max_frames
     \<and> saturating_add (fb_bytes (last (oi_batches inner))) n \<le> OWNED_BATCH_MAX_BYTES"

definition push_locked :: "owned_inner \<Rightarrow> vpn_frame \<Rightarrow> u64 \<Rightarrow> nat \<Rightarrow> owned_inner" where
  "push_locked inner frame n max_frames =
     \<lparr>oi_batches =
        (if can_append inner n max_frames
         then butlast (oi_batches inner) @ [batch_push (last (oi_batches inner)) frame n]
         else oi_batches inner @ [batch_from_frame frame n]),
      oi_frames = oi_frames inner + 1\<rparr>"

definition try_push :: "owned_queue \<Rightarrow> vpn_frame \<Rightarrow> u64 \<Rightarrow> vpn_frame + owned_queue" where
  "try_push q frame n =
     (if oi_frames (oq_inner q) \<ge> oq_capacity q then Inl frame
      else let inner = push_locked (oq_inner q) frame n (oq_max_batch q)
           in Inr (q\<lparr>oq_inner := inner, oq_hint := oi_frames inner\<rparr>))"

definition frame_bytes :: "vpn_frame \<Rightarrow> u64" where
  "frame_bytes f = of_nat (length (as_slice (vf_data f)))"

fun push_all :: "nat \<Rightarrow> owned_inner \<Rightarrow> u64 \<Rightarrow> vpn_frame list \<Rightarrow> owned_inner \<times> u64" where
  "push_all max_frames inner bytes [] = (inner, bytes)"
| "push_all max_frames inner bytes (f # fs) =
     push_all max_frames (push_locked inner f (frame_bytes f) max_frames) (bytes + frame_bytes f) fs"

text \<open>The count and bytes accepted, the frames left over, and the queue.\<close>

definition try_push_batch :: "owned_queue \<Rightarrow> vpn_frame list \<Rightarrow> nat \<times> u64 \<times> vpn_frame list \<times> owned_queue" where
  "try_push_batch q input =
     (let count = min (length input) (oq_capacity q - oi_frames (oq_inner q));
          (inner, bytes) = push_all (oq_max_batch q) (oq_inner q) 0 (take count input)
      in (count, bytes, drop count input, q\<lparr>oq_inner := inner, oq_hint := oi_frames inner\<rparr>))"

definition estimated_wire :: "vpn_frame_batch \<Rightarrow> nat" where
  "estimated_wire b =
     min (unat (fb_bytes b) + min (length (fb_frames b) * OWNED_BATCH_WIRE_OVERHEAD_PER_FRAME) USIZE_MAX) USIZE_MAX"

definition try_pop_fitting :: "owned_queue \<Rightarrow> nat \<Rightarrow> vpn_frame_batch option \<times> owned_queue" where
  "try_pop_fitting q wire_budget =
     (case oi_batches (oq_inner q) of
        [] \<Rightarrow> (None, q)
      | front # rest \<Rightarrow>
          if estimated_wire front > wire_budget then (None, q)
          else let inner = \<lparr>oi_batches = rest, oi_frames = oi_frames (oq_inner q) - length (fb_frames front)\<rparr>
               in (Some front, q\<lparr>oq_inner := inner, oq_hint := oi_frames inner\<rparr>))"

definition len_frames :: "owned_queue \<Rightarrow> nat" where
  "len_frames q = oi_frames (oq_inner q)"

definition queue_is_empty :: "owned_queue \<Rightarrow> bool" where
  "queue_is_empty q \<longleftrightarrow> oi_frames (oq_inner q) = 0"

subsection \<open>First-in first-out contract\<close>

text \<open>
  What a client of a frame queue relies on: a step of the queue appends the frames it accepts
  and takes a prefix of what is queued, and nothing else changes the contents.
\<close>

locale frame_fifo =
  fixes inv :: "'q \<Rightarrow> bool"
    and contents :: "'q \<Rightarrow> vpn_frame list"
    and step :: "'op \<Rightarrow> 'q \<Rightarrow> vpn_frame list \<times> vpn_frame list \<times> 'q"
  assumes step_ok: "inv q \<Longrightarrow> step x q = (acc, out, q') \<Longrightarrow> inv q' \<and> contents q @ acc = out @ contents q'"
begin

fun fifo_run :: "'q \<Rightarrow> 'op list \<Rightarrow> vpn_frame list \<times> vpn_frame list \<times> 'q" where
  "fifo_run q [] = ([], [], q)"
| "fifo_run q (x # xs) =
     (let (a, r, q1) = step x q; (acc, out, q2) = fifo_run q1 xs in (a @ acc, r @ out, q2))"

lemma fifo_run_order:
  "inv q \<Longrightarrow> fifo_run q xs = (acc, out, q') \<Longrightarrow> inv q' \<and> contents q @ acc = out @ contents q'"
proof (induction xs arbitrary: q acc out q')
  case (Cons x xs)
  obtain a r q1 where s: "step x q = (a, r, q1)" by (cases "step x q") auto
  obtain acc' out' q2 where t: "fifo_run q1 xs = (acc', out', q2)" by (cases "fifo_run q1 xs") auto
  have "acc = a @ acc'" "out = r @ out'" "q' = q2" using Cons.prems(2) by (simp_all add: s t)
  moreover note step_ok [OF Cons.prems(1) s]
  ultimately show ?case using Cons.IH [OF _ t] by (metis append.assoc)
qed simp

end

subsection \<open>The queue keeps the contract\<close>

definition oq_contents :: "owned_queue \<Rightarrow> vpn_frame list" where
  "oq_contents q = concat (map fb_frames (oi_batches (oq_inner q)))"

definition batch_inv :: "nat \<Rightarrow> vpn_frame_batch \<Rightarrow> bool" where
  "batch_inv mx b \<longleftrightarrow>
     fb_frames b \<noteq> [] \<and> length (fb_frames b) \<le> mx
     \<and> unat (fb_bytes b) = sum_list (map (unat \<circ> frame_bytes) (fb_frames b))
     \<and> (length (fb_frames b) > 1 \<longrightarrow> fb_bytes b \<le> OWNED_BATCH_MAX_BYTES)"

definition inner_inv :: "nat \<Rightarrow> owned_inner \<Rightarrow> bool" where
  "inner_inv mx inner \<longleftrightarrow>
     (\<forall>b \<in> set (oi_batches inner). batch_inv mx b)
     \<and> oi_frames inner = length (concat (map fb_frames (oi_batches inner)))"

definition oq_inv :: "owned_queue \<Rightarrow> bool" where
  "oq_inv q \<longleftrightarrow>
     1 \<le> oq_max_batch q \<and> oq_max_batch q \<le> 32 \<and> inner_inv (oq_max_batch q) (oq_inner q)
     \<and> oi_frames (oq_inner q) \<le> oq_capacity q"

lemma oq_inv_new [simp]: "oq_inv (owned_queue_new env cap)" "oq_contents (owned_queue_new env cap) = []"
  by (auto simp: oq_inv_def owned_queue_new_def inner_inv_def oq_contents_def tx_batch_size_def
      OWNED_BATCH_MAX_FRAMES_def split: option.splits)

lemma saturating_add_max_bytes:
  "saturating_add a b \<le> OWNED_BATCH_MAX_BYTES \<Longrightarrow> unat (saturating_add a b) = unat a + unat b"
  by (simp add: OWNED_BATCH_MAX_BYTES_def word_le_nat_alt unat_saturating_add)

lemma saturating_add_from_0 [simp]: "saturating_add 0 a = a" for a :: "'a::len word"
  using unsigned_less [of a] by (simp add: saturating_add_def)

lemma batch_from_frame_inv: "1 \<le> mx \<Longrightarrow> batch_inv mx (batch_from_frame f (frame_bytes f))"
  by (simp add: batch_inv_def batch_from_frame_def batch_push_def batch_empty_def)

lemma batch_push_inv:
  assumes "batch_inv mx b" "length (fb_frames b) < mx" "saturating_add (fb_bytes b) (frame_bytes f) \<le> OWNED_BATCH_MAX_BYTES"
  shows "batch_inv mx (batch_push b f (frame_bytes f))"
  using assms saturating_add_max_bytes [OF assms(3)] by (simp add: batch_inv_def batch_push_def)

lemma push_locked_inv:
  assumes "inner_inv mx inner" "1 \<le> mx"
  shows "inner_inv mx (push_locked inner f (frame_bytes f) mx)"
    "concat (map fb_frames (oi_batches (push_locked inner f (frame_bytes f) mx))) =
       concat (map fb_frames (oi_batches inner)) @ [f]"
    "oi_frames (push_locked inner f (frame_bytes f) mx) = oi_frames inner + 1"
proof -
  show n: "oi_frames (push_locked inner f (frame_bytes f) mx) = oi_frames inner + 1" by (simp add: push_locked_def)
  have "(\<forall>b \<in> set (oi_batches (push_locked inner f (frame_bytes f) mx)). batch_inv mx b)
      \<and> concat (map fb_frames (oi_batches (push_locked inner f (frame_bytes f) mx))) =
          concat (map fb_frames (oi_batches inner)) @ [f]"
  proof (cases "can_append inner (frame_bytes f) mx")
    case True
    define l where "l = last (oi_batches inner)"
    have sp: "oi_batches inner = butlast (oi_batches inner) @ [l]" using True by (simp add: can_append_def l_def)
    then have "l \<in> set (oi_batches inner)" by (metis in_set_conv_decomp)
    then have l: "batch_inv mx l" using assms(1) by (simp add: inner_inv_def)
    have "concat (map fb_frames (oi_batches inner)) = concat (map fb_frames (butlast (oi_batches inner))) @ fb_frames l"
      by (subst sp) simp
    moreover have "\<forall>b \<in> set (butlast (oi_batches inner)). batch_inv mx b"
      using assms(1) by (auto simp: inner_inv_def dest: in_set_butlastD)
    ultimately show ?thesis
      using True batch_push_inv [OF l, of f] by (simp add: push_locked_def can_append_def l_def [symmetric] batch_push_def)
  next
    case False
    then show ?thesis
      using assms batch_from_frame_inv [OF assms(2), of f]
      by (simp add: push_locked_def inner_inv_def batch_from_frame_def batch_push_def batch_empty_def)
  qed
  then show "inner_inv mx (push_locked inner f (frame_bytes f) mx)"
    "concat (map fb_frames (oi_batches (push_locked inner f (frame_bytes f) mx))) =
       concat (map fb_frames (oi_batches inner)) @ [f]"
    using assms(1) n by (auto simp: inner_inv_def)
qed

lemma push_all_inv:
  assumes "inner_inv mx inner" "1 \<le> mx" "push_all mx inner bytes fs = (inner', bytes')"
  shows "inner_inv mx inner'"
    "concat (map fb_frames (oi_batches inner')) = concat (map fb_frames (oi_batches inner)) @ fs"
    "oi_frames inner' = oi_frames inner + length fs" "bytes' = bytes + sum_list (map frame_bytes fs)"
proof -
  have "inner_inv mx inner' \<and> concat (map fb_frames (oi_batches inner')) = concat (map fb_frames (oi_batches inner)) @ fs
      \<and> oi_frames inner' = oi_frames inner + length fs \<and> bytes' = bytes + sum_list (map frame_bytes fs)"
    using assms(1,3)
  proof (induction fs arbitrary: inner bytes)
    case (Cons f fs)
    note p = push_locked_inv [OF Cons.prems(1) assms(2), of f]
    show ?case using Cons.IH [OF p(1), of "bytes + frame_bytes f"] Cons.prems(2) p(2,3) by (simp add: add.assoc)
  qed simp
  then show "inner_inv mx inner'"
    "concat (map fb_frames (oi_batches inner')) = concat (map fb_frames (oi_batches inner)) @ fs"
    "oi_frames inner' = oi_frames inner + length fs" "bytes' = bytes + sum_list (map frame_bytes fs)" by blast+
qed

lemma try_push_ok:
  assumes "oq_inv q" "try_push q f (frame_bytes f) = Inr q'"
  shows "oq_inv q'" "oq_contents q' = oq_contents q @ [f]"
  using assms push_locked_inv [of "oq_max_batch q" "oq_inner q" f]
  by (auto simp: try_push_def oq_inv_def oq_contents_def Let_def split: if_splits)

lemma try_push_batch_ok:
  assumes "oq_inv q" "try_push_batch q fs = (count, bytes, rest, q')"
  shows "oq_inv q'" "oq_contents q' = oq_contents q @ take count fs" "rest = drop count fs"
    "bytes = sum_list (map frame_bytes (take count fs))" "count \<le> length fs"
proof -
  obtain inner bytes' where p: "push_all (oq_max_batch q) (oq_inner q) 0 (take count fs) = (inner, bytes')"
    by (cases "push_all (oq_max_batch q) (oq_inner q) 0 (take count fs)")
  have c: "count = min (length fs) (oq_capacity q - oi_frames (oq_inner q))"
    using assms(2) by (auto simp: try_push_batch_def Let_def split: prod.splits)
  have r: "rest = drop count fs" "bytes = bytes'" "q' = q\<lparr>oq_inner := inner, oq_hint := oi_frames inner\<rparr>"
    using assms(2) p by (auto simp: try_push_batch_def Let_def c [symmetric])
  have i: "inner_inv (oq_max_batch q) (oq_inner q)" "1 \<le> oq_max_batch q" using assms(1) by (simp_all add: oq_inv_def)
  note a = push_all_inv [OF i p]
  show "oq_inv q'" using a assms(1) by (auto simp: oq_inv_def r c)
  show "oq_contents q' = oq_contents q @ take count fs" using a by (simp add: oq_contents_def r)
  show "rest = drop count fs" "count \<le> length fs" by (simp_all add: r c)
  show "bytes = sum_list (map frame_bytes (take count fs))" using a by (simp add: r)
qed

lemma try_pop_fitting_ok:
  assumes "oq_inv q" "try_pop_fitting q budget = (r, q')"
  shows "oq_inv q'" "oq_contents q = (case r of None \<Rightarrow> [] | Some b \<Rightarrow> fb_frames b) @ oq_contents q'"
    "r = Some b \<Longrightarrow> batch_inv (oq_max_batch q) b \<and> estimated_wire b \<le> budget"
  using assms by (auto simp: try_pop_fitting_def oq_inv_def inner_inv_def oq_contents_def Let_def
      split: list.splits if_splits)

datatype queue_op = Q_Push vpn_frame | Q_Push_Batch "vpn_frame list" | Q_Pop nat

fun queue_step :: "queue_op \<Rightarrow> owned_queue \<Rightarrow> vpn_frame list \<times> vpn_frame list \<times> owned_queue" where
  "queue_step (Q_Push f) q = (case try_push q f (frame_bytes f) of Inl _ \<Rightarrow> ([], [], q) | Inr q' \<Rightarrow> ([f], [], q'))"
| "queue_step (Q_Push_Batch fs) q = (let (count, bytes, rest, q') = try_push_batch q fs in (take count fs, [], q'))"
| "queue_step (Q_Pop budget) q =
     (let (r, q') = try_pop_fitting q budget in ([], case r of None \<Rightarrow> [] | Some b \<Rightarrow> fb_frames b, q'))"

interpretation oq: frame_fifo oq_inv oq_contents queue_step
proof
  fix q x acc out q'
  assume i: "oq_inv q" and s: "queue_step x q = (acc, out, q')"
  show "oq_inv q' \<and> oq_contents q @ acc = out @ oq_contents q'"
  proof (cases x)
    case (Q_Push f)
    then show ?thesis using i s try_push_ok [OF i, of f] by (auto split: sum.splits)
  next
    case (Q_Push_Batch fs)
    then show ?thesis using s try_push_batch_ok [OF i, of fs] by (auto split: prod.splits)
  next
    case (Q_Pop n)
    then show ?thesis using s try_pop_fitting_ok [OF i, of n] by (auto split: prod.splits)
  qed
qed

lemma oq_contents_length: "oq_inv q \<Longrightarrow> length (oq_contents q) = len_frames q"
  by (simp add: oq_inv_def inner_inv_def oq_contents_def len_frames_def)

lemma oq_nonempty: "oq_inv q \<Longrightarrow> oi_batches (oq_inner q) \<noteq> [] \<longleftrightarrow> oq_contents q \<noteq> []"
  by (cases "oi_batches (oq_inner q)") (auto simp: oq_inv_def inner_inv_def oq_contents_def batch_inv_def)

lemma batch_wire_fits:
  assumes "batch_inv mx b" "mx \<le> 32" "\<forall>f \<in> set (fb_frames b). length (as_slice (vf_data f)) \<le> 15840"
  shows "estimated_wire b \<le> 15872"
proof (cases "length (fb_frames b) > 1")
  case True
  then have "unat (fb_bytes b) \<le> 8192"
    using assms(1) by (simp add: batch_inv_def OWNED_BATCH_MAX_BYTES_def word_le_nat_alt)
  moreover have "length (fb_frames b) \<le> 32" using assms(1,2) by (simp add: batch_inv_def)
  ultimately have "unat (fb_bytes b) + length (fb_frames b) * 32 \<le> 15872" by linarith
  then show ?thesis by (simp add: estimated_wire_def OWNED_BATCH_WIRE_OVERHEAD_PER_FRAME_def min_def)
next
  case False
  then obtain f where f: "fb_frames b = [f]"
    using assms(1) by (cases "fb_frames b") (auto simp: batch_inv_def)
  then have "unat (fb_bytes b) \<le> 15840"
    using assms(1,3) by (simp add: batch_inv_def frame_bytes_def unat_of_nat take_bit_nat_eq_self)
  then show ?thesis by (simp add: estimated_wire_def f OWNED_BATCH_WIRE_OVERHEAD_PER_FRAME_def)
qed

end
