(* ===== verification/Port.thy ===== *)
theory Port
  imports Owned_Queue Fec Adaptive
begin

text \<open>
  The aggregating port of a session (\<open>AsyncPort\<close> and \<open>Backend\<close> of \<open>net.rs\<close>): numbering,
  FEC encoding, path choice and the bounded hand-over to the connections. The channel of a
  backend without an ownership queue comes from the crossbeam library and is a parameter
  (\<open>chan_lib\<close>), as are the clock reading of the scheduler, the processor and the crypto library.
  Returning a buffer to its pool has no effect on a port.
\<close>

subsection \<open>Channels\<close>

text \<open>
  \<open>try_send\<close> is \<open>None\<close> when the channel is full or disconnected (the frame comes back
  unchanged), \<open>try_recv\<close> is \<open>None\<close> when nothing can be taken.
\<close>

record 'c chan_lib =
  cl_try_send :: "'c \<Rightarrow> vpn_frame \<Rightarrow> 'c option"
  cl_try_recv :: "'c \<Rightarrow> (vpn_frame \<times> 'c) option"
  cl_len :: "'c \<Rightarrow> nat"
  cl_capacity :: "'c \<Rightarrow> nat option"

text \<open>The documented contract of the channel: frames come out in the order they went in.\<close>

definition chan_ok :: "'c chan_lib \<Rightarrow> ('c \<Rightarrow> vpn_frame list) \<Rightarrow> bool" where
  "chan_ok CL cont \<longleftrightarrow>
     (\<forall>c f c'. cl_try_send CL c f = Some c' \<longrightarrow> cont c' = cont c @ [f])
     \<and> (\<forall>c f c'. cl_try_recv CL c = Some (f, c') \<longrightarrow> cont c = f # cont c')"

subsection \<open>Backends\<close>

record 'c pbackend =
  pb_chan_id :: nat
  pb_conn_id :: string
  pb_fence_gen :: u64
  pb_ch :: 'c
  pb_owned :: "owned_queue option"
  pb_rtt :: u32
  pb_notify :: "notify option"
  pb_sched :: sched_state

definition scheduler_queue_len :: "'c chan_lib \<Rightarrow> 'c pbackend \<Rightarrow> nat" where
  "scheduler_queue_len CL b = (case pb_owned b of Some q \<Rightarrow> len_frames q | None \<Rightarrow> cl_len CL (pb_ch b))"

definition scheduler_queue_capacity :: "'c chan_lib \<Rightarrow> 'c pbackend \<Rightarrow> nat" where
  "scheduler_queue_capacity CL b =
     (case pb_owned b of
        Some q \<Rightarrow> oq_capacity q
      | None \<Rightarrow> (case cl_capacity CL (pb_ch b) of Some n \<Rightarrow> n | None \<Rightarrow> 4096))"

text \<open>What the scheduler sees of a backend, and the scheduler state written back.\<close>

definition adaptive_view :: "'c chan_lib \<Rightarrow> 'c pbackend \<Rightarrow> backend" where
  "adaptive_view CL b =
     \<lparr>be_rtt_us = pb_rtt b, be_queue_len = scheduler_queue_len CL b,
      be_queue_capacity = scheduler_queue_capacity CL b, be_sched = pb_sched b\<rparr>"

definition set_sched :: "backend \<Rightarrow> 'c pbackend \<Rightarrow> 'c pbackend" where
  "set_sched v b = b\<lparr>pb_sched := be_sched v\<rparr>"

text \<open>One batch taken by the TLS writer of the connection.\<close>

definition try_recv_backend_batch :: "'c chan_lib \<Rightarrow> 'c pbackend \<Rightarrow> nat \<Rightarrow> vpn_frame_batch option \<times> 'c pbackend" where
  "try_recv_backend_batch CL b wire_budget =
     (case pb_owned b of
        Some q \<Rightarrow> (let (r, q') = try_pop_fitting q wire_budget in (r, b\<lparr>pb_owned := Some q'\<rparr>))
      | None \<Rightarrow>
          (case cl_try_recv CL (pb_ch b) of
             None \<Rightarrow> (None, b)
           | Some (f, c') \<Rightarrow> (Some (batch_from_frame f (frame_bytes f)), b\<lparr>pb_ch := c'\<rparr>)))"

definition backend_tx_is_empty :: "'c chan_lib \<Rightarrow> 'c pbackend \<Rightarrow> bool" where
  "backend_tx_is_empty CL b =
     (case pb_owned b of Some q \<Rightarrow> queue_is_empty q | None \<Rightarrow> cl_len CL (pb_ch b) = 0)"

definition backend_wake :: "'c pbackend \<Rightarrow> 'c pbackend" where
  "backend_wake b = b\<lparr>pb_notify := map_option wake (pb_notify b)\<rparr>"

definition backend_score :: "'c chan_lib \<Rightarrow> 'c pbackend \<Rightarrow> u32 option" where
  "backend_score CL b =
     (let q_len = (case pb_owned b of Some q \<Rightarrow> oq_hint q | None \<Rightarrow> cl_len CL (pb_ch b));
          capacity = scheduler_queue_capacity CL b
      in if capacity \<le> 2 \<or> q_len \<ge> capacity - 2 then None
         else
           let penalty = (if q_len > 10 then (of_nat q_len - 10) * 1000 else 0 :: u64)
           in Some (ucast (min (ucast (pb_rtt b) + penalty) (ucast (- 1 :: u32)))))"

text \<open>\<open>None\<close> is success; otherwise the payload comes back.\<close>

definition try_send_payload_to ::
  "'c chan_lib \<Rightarrow> 'c pbackend \<Rightarrow> u32 \<Rightarrow> frame_payload \<Rightarrow> frame_payload option \<times> 'c pbackend" where
  "try_send_payload_to CL b seq data =
     (let n = of_nat (length (as_slice data));
          b1 = b\<lparr>pb_sched := add_queued n (pb_sched b)\<rparr>;
          failed = b1\<lparr>pb_sched := complete_queued n (pb_sched b1)\<rparr>
      in case pb_owned b of
           Some q \<Rightarrow>
             (case try_push q \<lparr>vf_seq = seq, vf_data = data\<rparr> n of
                Inr q' \<Rightarrow> (None, backend_wake (b1\<lparr>pb_owned := Some q'\<rparr>))
              | Inl frame \<Rightarrow> (Some (vf_data frame), failed))
         | None \<Rightarrow>
             (case cl_try_send CL (pb_ch b) \<lparr>vf_seq = seq, vf_data = data\<rparr> of
                Some c' \<Rightarrow> (None, backend_wake (b1\<lparr>pb_ch := c'\<rparr>))
              | None \<Rightarrow> (Some data, failed)))"

definition try_send_payload_to_fenced ::
  "'c chan_lib \<Rightarrow> 'c pbackend \<Rightarrow> u32 \<Rightarrow> frame_payload \<Rightarrow> fec_mode_control option
     \<Rightarrow> frame_payload option \<times> 'c pbackend" where
  "try_send_payload_to_fenced CL b seq data control =
     (case control of
        None \<Rightarrow> try_send_payload_to CL b seq data
      | Some c \<Rightarrow>
          if pb_fence_gen b < fm_generation c then
            (case try_send_payload_to CL b 0 (Owned (encode_control c)) of
               (Some returned, b1) \<Rightarrow> (Some data, b1)
             | (None, b1) \<Rightarrow> try_send_payload_to CL (b1\<lparr>pb_fence_gen := fm_generation c\<rparr>) seq data)
          else try_send_payload_to CL b seq data)"

definition backend_note_assigned :: "u64 \<Rightarrow> 'c pbackend \<Rightarrow> 'c pbackend" where
  "backend_note_assigned n b = b\<lparr>pb_sched := note_assigned n (pb_sched b)\<rparr>"

definition backend_note_fec :: "u64 \<Rightarrow> 'c pbackend \<Rightarrow> 'c pbackend" where
  "backend_note_fec n b = b\<lparr>pb_sched := note_fec_assigned n (pb_sched b)\<rparr>"

subsection \<open>Ports\<close>

record 'c async_port =
  ap_id :: string
  ap_tx_seq :: u32
  ap_backends :: "'c pbackend list"
  ap_preferred :: nat
  ap_adaptive :: port_state
  ap_parity_cursor :: u64
  ap_encoder :: "fec_encoder option"
  ap_fec_mode :: fec_tx_mode
  ap_encoder_enabled :: bool
  ap_dropped :: u64
  ap_parity_sent :: u64
  ap_sequence_exhausted :: bool

definition port_new :: "string \<Rightarrow> 'c async_port" where
  "port_new i =
     \<lparr>ap_id = i, ap_tx_seq = 0, ap_backends = [], ap_preferred = USIZE_MAX, ap_adaptive = port_default,
      ap_parity_cursor = 0, ap_encoder = None, ap_fec_mode = tx_mode_default, ap_encoder_enabled = False,
      ap_dropped = 0, ap_parity_sent = 0, ap_sequence_exhausted = False\<rparr>"

definition attach_encoder :: "nat \<Rightarrow> inner_cipher option \<Rightarrow> 'c async_port \<Rightarrow> 'c async_port" where
  "attach_encoder k ic p = p\<lparr>ap_encoder := Some (encoder_new k ic), ap_encoder_enabled := True\<rparr>"

definition reset_epoch :: "nat \<Rightarrow> inner_cipher option \<Rightarrow> 'c async_port \<Rightarrow> 'c async_port" where
  "reset_epoch k ic p =
     (let enabled = (k \<ge> FEC_MIN_GROUP)
      in p\<lparr>ap_tx_seq := 0, ap_sequence_exhausted := False, ap_parity_cursor := 0,
           ap_fec_mode := tx_mode_reset (ap_fec_mode p),
           ap_backends := map (\<lambda>b. b\<lparr>pb_fence_gen := 0\<rparr>) (ap_backends p),
           ap_encoder := (if enabled then Some (encoder_new k ic) else None),
           ap_encoder_enabled := enabled\<rparr>)"

definition fec_tx_armed :: "'c async_port \<Rightarrow> bool" where
  "fec_tx_armed p \<longleftrightarrow>
     ap_encoder_enabled p \<and> (case ap_encoder p of Some e \<Rightarrow> encoder_armed e | None \<Rightarrow> False)"

definition register_backend :: "'c pbackend \<Rightarrow> 'c async_port \<Rightarrow> 'c async_port" where
  "register_backend b p = p\<lparr>ap_backends := ap_backends p @ [b]\<rparr>"

definition unregister_backend :: "nat \<Rightarrow> 'c async_port \<Rightarrow> 'c async_port" where
  "unregister_backend ch p =
     p\<lparr>ap_backends := filter (\<lambda>b. pb_chan_id b \<noteq> ch) (ap_backends p), ap_preferred := USIZE_MAX\<rparr>"

definition drop_n :: "u64 \<Rightarrow> 'c async_port \<Rightarrow> 'c async_port" where
  "drop_n n p = (if n > 0 then p\<lparr>ap_dropped := ap_dropped p + n\<rparr> else p)"

definition next_seq :: "'c async_port \<Rightarrow> u32 option \<times> 'c async_port" where
  "next_seq p =
     (if ap_tx_seq p = - 1 then (None, p\<lparr>ap_sequence_exhausted := True\<rparr>)
      else (Some (ap_tx_seq p + 1), p\<lparr>ap_tx_seq := ap_tx_seq p + 1\<rparr>))"

definition send_payload_to :: "'c chan_lib \<Rightarrow> nat \<Rightarrow> u32 \<Rightarrow> frame_payload \<Rightarrow> 'c async_port \<Rightarrow> nat \<times> 'c async_port" where
  "send_payload_to CL idx seq data p =
     (let (r, b) = try_send_payload_to CL (ap_backends p ! idx) seq data;
          p1 = p\<lparr>ap_backends := (ap_backends p)[idx := b]\<rparr>
      in case r of None \<Rightarrow> (0, p1) | Some _ \<Rightarrow> (1, drop_n 1 p1))"

text \<open>The fallback loop over the other backends, in order; \<open>None\<close> when no one took the frame.\<close>

fun send_any_loop ::
  "'c chan_lib \<Rightarrow> nat option \<Rightarrow> u32 \<Rightarrow> frame_payload \<Rightarrow> fec_mode_control option \<Rightarrow> u64 \<Rightarrow> nat list
     \<Rightarrow> 'c pbackend list \<Rightarrow> nat option \<times> 'c pbackend list" where
  "send_any_loop CL preferred seq data control n [] bs = (None, bs)"
| "send_any_loop CL preferred seq data control n (idx # idxs) bs =
     (if Some idx = preferred \<or> backend_score CL (bs ! idx) = None
      then send_any_loop CL preferred seq data control n idxs bs
      else
        case try_send_payload_to_fenced CL (bs ! idx) seq data control of
          (None, b) \<Rightarrow> (Some idx, bs[idx := backend_note_assigned n b])
        | (Some returned, b) \<Rightarrow> send_any_loop CL preferred seq returned control n idxs (bs[idx := b]))"

definition send_data_payload_to_any ::
  "'c chan_lib \<Rightarrow> nat option \<Rightarrow> u32 \<Rightarrow> frame_payload \<Rightarrow> fec_mode_control option \<Rightarrow> 'c async_port
     \<Rightarrow> nat option \<times> 'c async_port" where
  "send_data_payload_to_any CL preferred seq data control p =
     (let bs = ap_backends p;
          n = of_nat (length (as_slice data));
          fallback = (\<lambda>data bs.
            case send_any_loop CL preferred seq data control n [0..<length bs] bs of
              (Some idx, bs') \<Rightarrow> (Some idx, p\<lparr>ap_backends := bs'\<rparr>)
            | (None, bs') \<Rightarrow> (None, drop_n 1 (p\<lparr>ap_backends := bs'\<rparr>)))
      in case preferred of
           Some idx \<Rightarrow>
             if idx < length bs then
               (case try_send_payload_to_fenced CL (bs ! idx) seq data control of
                  (None, b) \<Rightarrow> (Some idx, p\<lparr>ap_backends := bs[idx := backend_note_assigned n b]\<rparr>)
                | (Some returned, b) \<Rightarrow> fallback returned (bs[idx := b]))
             else fallback data bs
         | None \<Rightarrow> fallback data bs)"

definition port_pick :: "'c chan_lib \<Rightarrow> u64 \<Rightarrow> u64 \<Rightarrow> 'c async_port \<Rightarrow> nat option \<times> 'c async_port" where
  "port_pick CL now incoming p =
     (let bs = ap_backends p;
          preferred = (if ap_preferred p < length bs then Some (ap_preferred p) else None);
          (picked, st, views) = pick now (ap_adaptive p) (map (adaptive_view CL) bs) preferred incoming;
          p1 = p\<lparr>ap_adaptive := st, ap_backends := map2 set_sched views bs\<rparr>
      in (picked, case picked of Some idx \<Rightarrow> p1\<lparr>ap_preferred := idx\<rparr> | None \<Rightarrow> p1))"

definition parity_backend_index :: "'c chan_lib \<Rightarrow> nat option \<Rightarrow> 'c async_port \<Rightarrow> nat option \<times> 'c async_port" where
  "parity_backend_index CL data_idx p =
     (let bs = ap_backends p; n = length bs
      in if bs = [] then (None, p)
         else
           let start = unat (ap_parity_cursor p) mod n;
               p1 = p\<lparr>ap_parity_cursor := ap_parity_cursor p + 1\<rparr>;
               ok = (\<lambda>idx. backend_score CL (bs ! idx) \<noteq> None);
               order = map (\<lambda>offset. (start + offset) mod n) [0..<n];
               other = (if n > 1 then find (\<lambda>idx. Some idx \<noteq> data_idx \<and> ok idx) order else None)
           in (Some (case other of
                       Some idx \<Rightarrow> idx
                     | None \<Rightarrow>
                         (case data_idx of
                            Some idx \<Rightarrow> if idx < n \<and> ok idx then idx
                                        else (case find ok order of Some i \<Rightarrow> i | None \<Rightarrow> start)
                          | None \<Rightarrow> (case find ok order of Some i \<Rightarrow> i | None \<Rightarrow> start))), p1))"

text \<open>The encoder section of \<open>write_payload\<close>: the parity frame, the governing control, the port.\<close>

definition encode_step ::
  "cpu \<Rightarrow> crypto_lib \<Rightarrow> u32 \<Rightarrow> bytes \<Rightarrow> 'c async_port \<Rightarrow> bytes option \<times> fec_mode_control option \<times> 'c async_port" where
  "encode_step cpu L seq frame p =
     (if ap_encoder_enabled p then
        case ap_encoder p of
          None \<Rightarrow> (None, None, p)
        | Some enc \<Rightarrow>
            let paths = length (ap_backends p);
                enc1 = set_physical_path_count enc paths;
                mode = snd (observe (ap_fec_mode p) paths seq (fe_k enc1));
                (parity, enc2) = encoder_add cpu L enc1 seq frame
            in (parity, tx_current mode, p\<lparr>ap_fec_mode := mode, ap_encoder := Some enc2\<rparr>)
      else (None, None, p))"

definition send_parity :: "'c chan_lib \<Rightarrow> nat option \<Rightarrow> bytes \<Rightarrow> 'c async_port \<Rightarrow> 'c async_port" where
  "send_parity CL data_idx par p =
     (if length (ap_backends p) < 2 then p
      else
        let p1 = p\<lparr>ap_parity_sent := ap_parity_sent p + 1\<rparr>;
            n = of_nat (length par)
        in case parity_backend_index CL data_idx p1 of
             (Some idx, p2) \<Rightarrow>
               (let (dropped, p3) = send_payload_to CL idx 0 (Owned par) p2
                in if dropped = 0
                   then p3\<lparr>ap_backends := (ap_backends p3)[idx := backend_note_fec n (ap_backends p3 ! idx)]\<rparr>
                   else p3)
           | (None, p2) \<Rightarrow> drop_n 1 p2)"

definition write_payload ::
  "cpu \<Rightarrow> crypto_lib \<Rightarrow> 'c chan_lib \<Rightarrow> u64 \<Rightarrow> frame_payload \<Rightarrow> 'c async_port \<Rightarrow> 'c async_port" where
  "write_payload cpu L CL now frame p =
     (if as_slice frame = [] then p
      else if ap_backends p = [] then drop_n 1 p
      else if \<not> list_ex (\<lambda>b. backend_score CL b \<noteq> None) (ap_backends p) then drop_n 1 p
      else
        case next_seq p of
          (None, p1) \<Rightarrow> drop_n 1 p1
        | (Some seq, p1) \<Rightarrow>
            let (parity, control, p2) = encode_step cpu L seq (as_slice frame) p1;
                (selected, p3) = port_pick CL now (of_nat (length (as_slice frame))) p2;
                (data_idx, p4) = send_data_payload_to_any CL selected seq frame control p3
            in case parity of None \<Rightarrow> p4 | Some par \<Rightarrow> send_parity CL data_idx par p4)"

subsection \<open>Batches\<close>

text \<open>
  The locked loop of \<open>write_payload_batch\<close> on the only backend's queue: it updates the queue
  below its lock and leaves the lock-free length hint alone.
\<close>

fun push_payloads ::
  "frame_payload list \<Rightarrow> owned_queue \<Rightarrow> sched_state \<Rightarrow> 'c async_port \<Rightarrow> nat \<Rightarrow> u64
     \<Rightarrow> owned_queue \<times> sched_state \<times> 'c async_port \<times> nat \<times> u64" where
  "push_payloads [] q s p accepted accepted_bytes = (q, s, p, accepted, accepted_bytes)"
| "push_payloads (data # frames) q s p accepted accepted_bytes =
     (if as_slice data = [] then push_payloads frames q s p accepted accepted_bytes
      else if oi_frames (oq_inner q) \<ge> oq_capacity q - 2
      then push_payloads frames q s (drop_n 1 p) accepted accepted_bytes
      else
        case next_seq p of
          (None, p1) \<Rightarrow> push_payloads frames q s (drop_n 1 p1) accepted accepted_bytes
        | (Some seq, p1) \<Rightarrow>
            let n = of_nat (length (as_slice data));
                q1 = q\<lparr>oq_inner := push_locked (oq_inner q) \<lparr>vf_seq = seq, vf_data = data\<rparr> n (oq_max_batch q)\<rparr>
            in push_payloads frames q1 (add_queued n s) p1 (accepted + 1) (accepted_bytes + n))"

definition write_payload_batch ::
  "cpu \<Rightarrow> crypto_lib \<Rightarrow> 'c chan_lib \<Rightarrow> u64 \<Rightarrow> frame_payload list \<Rightarrow> 'c async_port \<Rightarrow> 'c async_port" where
  "write_payload_batch cpu L CL now frames p =
     (case (if length (ap_backends p) = 1 \<and> \<not> ap_encoder_enabled p then pb_owned (ap_backends p ! 0) else None) of
        None \<Rightarrow> foldl (\<lambda>p f. write_payload cpu L CL now f p) p frames
      | Some q \<Rightarrow>
          let b = ap_backends p ! 0;
              (q1, s1, p1, accepted, accepted_bytes) = push_payloads frames q (pb_sched b) p 0 0;
              b1 = b\<lparr>pb_owned := Some q1, pb_sched := note_assigned accepted_bytes s1\<rparr>;
              b2 = (if accepted \<noteq> 0 then backend_wake b1 else b1)
          in p1\<lparr>ap_backends := [b2]\<rparr>)"

text \<open>
  \<open>dispatch_enqueued\<close> on a port with a dispatch thread (\<open>tx\<close> is the outcome of the bounded
  hand-over to it) or without one.
\<close>

definition dispatch_enqueued ::
  "cpu \<Rightarrow> crypto_lib \<Rightarrow> 'c chan_lib \<Rightarrow> u64 \<Rightarrow> bool option \<Rightarrow> frame_payload \<Rightarrow> 'c async_port \<Rightarrow> 'c async_port" where
  "dispatch_enqueued cpu L CL now tx payload p =
     (case tx of Some accepted \<Rightarrow> if accepted then p else drop_n 1 p | None \<Rightarrow> write_payload cpu L CL now payload p)"

definition write_owned_payload ::
  "cpu \<Rightarrow> crypto_lib \<Rightarrow> 'c chan_lib \<Rightarrow> u64 \<Rightarrow> bool option \<Rightarrow> frame_payload \<Rightarrow> 'c async_port \<Rightarrow> 'c async_port" where
  "write_owned_payload cpu L CL now tx payload p =
     (if as_slice payload = [] then p else dispatch_enqueued cpu L CL now tx payload p)"

definition DISPATCH_BATCH_MAX_BYTES :: u64 where "DISPATCH_BATCH_MAX_BYTES = 12 * 1024"

text \<open>The collection loop of the dispatch thread: the batch, its bytes, and what stays in the channel.\<close>

fun collect_batch :: "frame_payload list \<Rightarrow> u64 \<Rightarrow> frame_payload list \<Rightarrow> frame_payload list \<times> u64 \<times> frame_payload list" where
  "collect_batch batch batch_bytes [] = (batch, batch_bytes, [])"
| "collect_batch batch batch_bytes (f # rx) =
     (if batch_bytes < DISPATCH_BATCH_MAX_BYTES then
        if as_slice f = [] then collect_batch batch batch_bytes rx
        else collect_batch (batch @ [f]) (batch_bytes + of_nat (length (as_slice f))) rx
      else (batch, batch_bytes, f # rx))"

fun assign_seqs :: "frame_payload list \<Rightarrow> 'c async_port \<Rightarrow> vpn_frame list \<times> u64 \<times> 'c async_port" where
  "assign_seqs [] p = ([], 0, p)"
| "assign_seqs (f # fs) p =
     (case next_seq p of
        (None, p1) \<Rightarrow> assign_seqs fs (drop_n 1 p1)
      | (Some seq, p1) \<Rightarrow>
          (let (frames, bytes, p2) = assign_seqs fs p1
           in (\<lparr>vf_seq = seq, vf_data = f\<rparr> # frames, of_nat (length (as_slice f)) + bytes, p2)))"

text \<open>A backend without an ownership queue takes the frames one by one.\<close>

fun send_each :: "'c chan_lib \<Rightarrow> nat \<Rightarrow> vpn_frame list \<Rightarrow> 'c async_port \<Rightarrow> 'c async_port" where
  "send_each CL idx [] p = p"
| "send_each CL idx (f # fs) p =
     (let (dropped, p1) = send_payload_to CL idx (vf_seq f) (vf_data f) p
      in send_each CL idx fs
           (if dropped = 0
            then p1\<lparr>ap_backends := (ap_backends p1)[idx := backend_note_assigned (frame_bytes f) (ap_backends p1 ! idx)]\<rparr>
            else p1))"

text \<open>
  The hand-over of a numbered batch; \<open>attempts\<close> counts down the \<open>backends.len() + 1\<close> rounds
  the loop may take.
\<close>

fun send_batch_loop ::
  "'c chan_lib \<Rightarrow> nat \<Rightarrow> nat \<Rightarrow> u64 \<Rightarrow> vpn_frame list \<Rightarrow> 'c async_port \<Rightarrow> vpn_frame list \<times> 'c async_port" where
  "send_batch_loop CL 0 idx remaining frames p = (frames, p)"
| "send_batch_loop CL (Suc attempts) idx remaining frames p =
     (if frames = [] \<or> idx \<ge> length (ap_backends p) then (frames, p)
      else
        let b = ap_backends p ! idx
        in case pb_owned b of
             None \<Rightarrow> ([], send_each CL idx frames p)
           | Some q \<Rightarrow>
               let s1 = add_queued remaining (pb_sched b);
                   (count, accepted, rest, q') = try_push_batch q frames;
                   s2 = (if accepted < remaining then complete_queued (remaining - accepted) s1 else s1);
                   b1 = b\<lparr>pb_owned := Some q', pb_sched := s2\<rparr>;
                   b2 = (if count \<noteq> 0 then backend_wake (backend_note_assigned accepted b1) else b1);
                   p1 = p\<lparr>ap_backends := (ap_backends p)[idx := b2]\<rparr>
               in if rest = [] then ([], p1)
                  else case find (\<lambda>i. i \<noteq> idx \<and> backend_score CL (ap_backends p1 ! i) \<noteq> None)
                              [0..<length (ap_backends p1)] of
                         None \<Rightarrow> (rest, p1)
                       | Some i \<Rightarrow> send_batch_loop CL attempts i (saturating_sub remaining accepted) rest p1)"

definition dispatch_owned_batch ::
  "cpu \<Rightarrow> crypto_lib \<Rightarrow> 'c chan_lib \<Rightarrow> u64 \<Rightarrow> frame_payload list \<Rightarrow> u64 \<Rightarrow> 'c async_port \<Rightarrow> 'c async_port" where
  "dispatch_owned_batch cpu L CL now batch batch_bytes p =
     (if batch = [] then p
      else if ap_encoder_enabled p then foldl (\<lambda>p f. write_payload cpu L CL now f p) p batch
      else if ap_backends p = [] then drop_n (of_nat (length batch)) p
      else
        case port_pick CL now batch_bytes p of
          (None, p1) \<Rightarrow> drop_n (of_nat (length batch)) p1
        | (Some idx, p1) \<Rightarrow>
            let (frames, seq_bytes, p2) = assign_seqs batch p1
            in if frames = [] then p2
               else let (leftover, p3) = send_batch_loop CL (length (ap_backends p2) + 1) idx seq_bytes frames p2
                    in drop_n (of_nat (length leftover)) p3)"

text \<open>
  One round of the dispatch thread on a non-empty frame: \<open>slot\<close> is what waiting for a free
  backend returned, \<open>rx\<close> what the channel holds after that.
\<close>

definition dispatch_round ::
  "cpu \<Rightarrow> crypto_lib \<Rightarrow> 'c chan_lib \<Rightarrow> u64 \<Rightarrow> bool \<Rightarrow> frame_payload \<Rightarrow> frame_payload list \<Rightarrow> 'c async_port
     \<Rightarrow> frame_payload list \<times> 'c async_port" where
  "dispatch_round cpu L CL now slot frame rx p =
     (if as_slice frame = [] then (rx, p)
      else if \<not> slot then (rx, drop_n 1 p)
      else let (batch, batch_bytes, rest) = collect_batch [frame] (of_nat (length (as_slice frame))) rx
           in (rest, dispatch_owned_batch cpu L CL now batch batch_bytes p))"

end
