(* ===== verification/Port_Send.thy ===== *)
theory Port_Send
  imports Port Rx_Session Adaptive_Props
begin

text \<open>
  What a port puts into the queues of its connections: only numbered payloads, parity frames of
  its encoder and mode controls, whatever the path changes, failed hand-overs and batch sizes.
  The runs of a port are tied to the runs of the FEC encoder, so that what the receive session
  guarantees for the encoder's output holds for what leaves the port.
\<close>

subsection \<open>Contents of a backend\<close>

definition frame_item :: "vpn_frame \<Rightarrow> u32 \<times> bytes" where
  "frame_item f = (vf_seq f, as_slice (vf_data f))"

definition backend_contents :: "('c \<Rightarrow> vpn_frame list) \<Rightarrow> 'c pbackend \<Rightarrow> vpn_frame list" where
  "backend_contents cont b = (case pb_owned b of Some q \<Rightarrow> oq_contents q | None \<Rightarrow> cont (pb_ch b))"

definition backend_inv :: "'c pbackend \<Rightarrow> bool" where
  "backend_inv b \<longleftrightarrow> (case pb_owned b of Some q \<Rightarrow> oq_inv q | None \<Rightarrow> True)"

definition backend_holds :: "('c \<Rightarrow> vpn_frame list) \<Rightarrow> (u32 \<times> bytes) set \<Rightarrow> 'c pbackend \<Rightarrow> bool" where
  "backend_holds cont S b \<longleftrightarrow> backend_inv b \<and> frame_item ` set (backend_contents cont b) \<subseteq> S"

lemma backend_holds_mono: "backend_holds cont S b \<Longrightarrow> S \<subseteq> T \<Longrightarrow> backend_holds cont T b"
  by (auto simp: backend_holds_def)

lemma backend_view_simps [simp]:
  "backend_contents cont (b\<lparr>pb_sched := s\<rparr>) = backend_contents cont b" "backend_inv (b\<lparr>pb_sched := s\<rparr>) = backend_inv b"
  "backend_contents cont (b\<lparr>pb_fence_gen := g\<rparr>) = backend_contents cont b" "backend_inv (b\<lparr>pb_fence_gen := g\<rparr>) = backend_inv b"
  "backend_contents cont (b\<lparr>pb_rtt := r\<rparr>) = backend_contents cont b" "backend_inv (b\<lparr>pb_rtt := r\<rparr>) = backend_inv b"
  "backend_contents cont (backend_wake b) = backend_contents cont b" "backend_inv (backend_wake b) = backend_inv b"
  "backend_contents cont (backend_note_assigned n b) = backend_contents cont b"
  "backend_inv (backend_note_assigned n b) = backend_inv b"
  "backend_contents cont (backend_note_fec n b) = backend_contents cont b" "backend_inv (backend_note_fec n b) = backend_inv b"
  "backend_contents cont (set_sched v b) = backend_contents cont b" "backend_inv (set_sched v b) = backend_inv b"
  "backend_contents cont (b\<lparr>pb_notify := nt\<rparr>) = backend_contents cont b" "backend_inv (b\<lparr>pb_notify := nt\<rparr>) = backend_inv b"
  by (simp_all add: backend_contents_def backend_inv_def backend_wake_def backend_note_assigned_def
      backend_note_fec_def set_sched_def split: option.split)

lemma backend_holds_simps [simp]:
  "backend_holds cont S (b\<lparr>pb_sched := s\<rparr>) = backend_holds cont S b"
  "backend_holds cont S (b\<lparr>pb_fence_gen := g\<rparr>) = backend_holds cont S b"
  "backend_holds cont S (b\<lparr>pb_rtt := r\<rparr>) = backend_holds cont S b"
  "backend_holds cont S (backend_wake b) = backend_holds cont S b"
  "backend_holds cont S (backend_note_assigned n b) = backend_holds cont S b"
  "backend_holds cont S (backend_note_fec n b) = backend_holds cont S b"
  "backend_holds cont S (set_sched v b) = backend_holds cont S b"
  "backend_holds cont S (b\<lparr>pb_notify := nt\<rparr>) = backend_holds cont S b"
  by (simp_all add: backend_holds_def)

lemma backend_keeps_fields [simp]:
  "pb_fence_gen (backend_wake b) = pb_fence_gen b" "pb_chan_id (backend_wake b) = pb_chan_id b"
  "pb_fence_gen (backend_note_assigned n b) = pb_fence_gen b" "pb_chan_id (backend_note_assigned n b) = pb_chan_id b"
  "pb_fence_gen (backend_note_fec n b) = pb_fence_gen b" "pb_chan_id (backend_note_fec n b) = pb_chan_id b"
  "pb_fence_gen (set_sched v b) = pb_fence_gen b" "pb_chan_id (set_sched v b) = pb_chan_id b"
  by (simp_all add: backend_wake_def backend_note_assigned_def backend_note_fec_def set_sched_def)

text \<open>A hand-over either appends exactly its frame or changes nothing but scheduler counters.\<close>

lemma try_send_payload_to_ok:
  assumes "chan_ok CL cont" "backend_inv b" "try_send_payload_to CL b seq data = (r, b')"
  shows "backend_inv b'" "pb_fence_gen b' = pb_fence_gen b" "pb_chan_id b' = pb_chan_id b"
    "r = None \<or> r = Some data"
    "backend_contents cont b' = backend_contents cont b @ (if r = None then [\<lparr>vf_seq = seq, vf_data = data\<rparr>] else [])"
proof -
  have fb: "of_nat (length (as_slice data)) = frame_bytes \<lparr>vf_seq = seq, vf_data = data\<rparr>" by (simp add: frame_bytes_def)
  have "backend_inv b' \<and> pb_fence_gen b' = pb_fence_gen b \<and> pb_chan_id b' = pb_chan_id b \<and> (r = None \<or> r = Some data)
    \<and> backend_contents cont b' = backend_contents cont b @ (if r = None then [\<lparr>vf_seq = seq, vf_data = data\<rparr>] else [])"
  proof (cases "pb_owned b")
    case None
    then show ?thesis
      using assms by (auto simp: try_send_payload_to_def Let_def backend_inv_def backend_contents_def chan_ok_def
          backend_wake_def split: option.splits)
  next
    case (Some q)
    have q: "oq_inv q" using assms(2) by (simp add: backend_inv_def Some)
    show ?thesis
    proof (cases "try_push q \<lparr>vf_seq = seq, vf_data = data\<rparr> (frame_bytes \<lparr>vf_seq = seq, vf_data = data\<rparr>)")
      case (Inl f)
      then have "f = \<lparr>vf_seq = seq, vf_data = data\<rparr>" by (auto simp: try_push_def Let_def split: if_splits)
      then show ?thesis using assms(3) Inl Some q
        by (auto simp: try_send_payload_to_def Let_def fb backend_inv_def backend_contents_def)
    next
      case (Inr q')
      then show ?thesis using assms(3) Some try_push_ok [OF q Inr]
        by (auto simp: try_send_payload_to_def Let_def fb backend_inv_def backend_contents_def backend_wake_def)
    qed
  qed
  then show "backend_inv b'" "pb_fence_gen b' = pb_fence_gen b" "pb_chan_id b' = pb_chan_id b" "r = None \<or> r = Some data"
    "backend_contents cont b' = backend_contents cont b @ (if r = None then [\<lparr>vf_seq = seq, vf_data = data\<rparr>] else [])"
    by blast+
qed

lemma try_send_holds:
  assumes "chan_ok CL cont" "backend_holds cont S b" "(seq, as_slice data) \<in> S" "try_send_payload_to CL b seq data = (r, b')"
  shows "backend_holds cont S b' \<and> (r = None \<or> r = Some data)"
  using try_send_payload_to_ok [OF assms(1) _ assms(4)] assms(2,3) by (auto simp: backend_holds_def frame_item_def)

definition control_items :: "fec_mode_control option \<Rightarrow> (u32 \<times> bytes) set" where
  "control_items control = (case control of None \<Rightarrow> {} | Some c \<Rightarrow> {(0, encode_control c)})"

lemma try_send_fenced_holds:
  assumes C: "chan_ok CL cont" and b: "backend_holds cont S b" and S: "(seq, as_slice data) \<in> S" "control_items control \<subseteq> S"
    and r: "try_send_payload_to_fenced CL b seq data control = (r, b')"
  shows "backend_holds cont S b' \<and> (r = None \<or> r = Some data)"
proof (cases "\<exists>c. control = Some c \<and> pb_fence_gen b < fm_generation c")
  case True
  then obtain c where c: "control = Some c" "pb_fence_gen b < fm_generation c" by blast
  obtain r1 b1 where s: "try_send_payload_to CL b 0 (Owned (encode_control c)) = (r1, b1)" by fastforce
  have h: "backend_holds cont S b1" using try_send_holds [OF C b _ s] S(2) by (simp add: control_items_def c)
  show ?thesis
  proof (cases r1)
    case None
    then have "try_send_payload_to CL (b1\<lparr>pb_fence_gen := fm_generation c\<rparr>) seq data = (r, b')"
      using r by (simp add: try_send_payload_to_fenced_def c s)
    then show ?thesis using try_send_holds [OF C _ S(1)] h backend_holds_simps(2) by blast
  qed (use r h in \<open>auto simp: try_send_payload_to_fenced_def c s\<close>)
next
  case False
  then have "try_send_payload_to_fenced CL b seq data control = try_send_payload_to CL b seq data"
    by (auto simp: try_send_payload_to_fenced_def split: option.split)
  then have "try_send_payload_to CL b seq data = (r, b')" using r by simp
  then show ?thesis by (rule try_send_holds [OF C b S(1)])
qed

subsection \<open>Contents of a port\<close>

definition port_holds :: "('c \<Rightarrow> vpn_frame list) \<Rightarrow> (u32 \<times> bytes) set \<Rightarrow> 'c async_port \<Rightarrow> bool" where
  "port_holds cont S p \<longleftrightarrow> list_all (backend_holds cont S) (ap_backends p)"

text \<open>The fields a hand-over leaves alone.\<close>

definition same_tx :: "'c async_port \<Rightarrow> 'c async_port \<Rightarrow> bool" where
  "same_tx p p' \<longleftrightarrow>
     ap_tx_seq p' = ap_tx_seq p \<and> ap_encoder p' = ap_encoder p \<and> ap_encoder_enabled p' = ap_encoder_enabled p
     \<and> ap_fec_mode p' = ap_fec_mode p \<and> length (ap_backends p') = length (ap_backends p)"

lemma same_tx_refl [simp]: "same_tx p p"
  by (simp add: same_tx_def)

lemma same_tx_trans: "same_tx p q \<Longrightarrow> same_tx q r \<Longrightarrow> same_tx p r"
  by (simp add: same_tx_def)

lemma drop_n_simps [simp]:
  "ap_backends (drop_n n p) = ap_backends p" "ap_tx_seq (drop_n n p) = ap_tx_seq p"
  "ap_encoder (drop_n n p) = ap_encoder p" "ap_encoder_enabled (drop_n n p) = ap_encoder_enabled p"
  "ap_fec_mode (drop_n n p) = ap_fec_mode p"
  by (simp_all add: drop_n_def)

lemma same_tx_drop [simp]: "same_tx p (drop_n n p') = same_tx p p'" "port_holds cont S (drop_n n p) = port_holds cont S p"
  by (simp_all add: same_tx_def port_holds_def)

lemma list_all_update: "list_all P xs \<Longrightarrow> P y \<Longrightarrow> list_all P (xs[i := y])"
  unfolding list_all_iff by (auto dest!: subsetD [OF set_update_subset_insert])

lemma list_all_nth: "list_all P xs \<Longrightarrow> i < length xs \<Longrightarrow> P (xs ! i)"
  by (simp add: list_all_length)

text \<open>
  What a hand-over keeps of every backend: any predicate that a fenced send to one backend
  keeps and that does not read the scheduler counters.
\<close>

lemma send_any_loop_keeps:
  assumes P: "\<And>b r b'. P b \<Longrightarrow> try_send_payload_to_fenced CL b seq data control = (r, b') \<Longrightarrow> P b' \<and> (r = None \<or> r = Some data)"
      "\<And>b n. P b \<Longrightarrow> P (backend_note_assigned n b)"
    and r: "send_any_loop CL preferred seq data control n idxs bs = (r, bs')"
    and bs: "list_all P bs" "\<forall>i \<in> set idxs. i < length bs"
  shows "list_all P bs' \<and> length bs' = length bs"
  using bs r
proof (induction idxs arbitrary: bs)
  case (Cons i idxs)
  have b: "P (bs ! i)" using list_all_nth [OF Cons.prems(1)] Cons.prems(2) by simp
  show ?case
  proof (cases "Some i = preferred \<or> backend_score CL (bs ! i) = None")
    case True
    then have "send_any_loop CL preferred seq data control n idxs bs = (r, bs')" using Cons.prems(3) by simp
    then show ?thesis using Cons.IH [OF Cons.prems(1)] Cons.prems(2) by simp
  next
    case False
    obtain r1 b1 where s: "try_send_payload_to_fenced CL (bs ! i) seq data control = (r1, b1)" by fastforce
    note h = P(1) [OF b s]
    show ?thesis
    proof (cases r1)
      case None
      then have "bs' = bs[i := backend_note_assigned n b1]" using Cons.prems(3) False s by simp
      then show ?thesis using list_all_update [OF Cons.prems(1) P(2)] h by simp
    next
      case (Some d)
      then have "send_any_loop CL preferred seq data control n idxs (bs[i := b1]) = (r, bs')"
        using Cons.prems(3) False s h by simp
      then show ?thesis using Cons.IH [OF list_all_update [OF Cons.prems(1)], of b1 i] Cons.prems(2) h by simp
    qed
  qed
qed simp

lemma send_data_keeps:
  assumes P: "\<And>b r b'. P b \<Longrightarrow> try_send_payload_to_fenced CL b seq data control = (r, b') \<Longrightarrow> P b' \<and> (r = None \<or> r = Some data)"
      "\<And>b n. P b \<Longrightarrow> P (backend_note_assigned n b)"
    and bs: "list_all P (ap_backends p)" and r: "send_data_payload_to_any CL preferred seq data control p = (r, p')"
  shows "list_all P (ap_backends p') \<and> same_tx p p'"
proof -
  have loop: "list_all P (ap_backends p') \<and> same_tx p p'"
    if "(case send_any_loop CL preferred seq data control n [0..<length bs] bs of
           (Some idx, bs') \<Rightarrow> (Some idx, p\<lparr>ap_backends := bs'\<rparr>)
         | (None, bs') \<Rightarrow> (None, drop_n 1 (p\<lparr>ap_backends := bs'\<rparr>))) = (r, p')"
      "list_all P bs" "length bs = length (ap_backends p)" for bs n
  proof -
    obtain r1 bs1 where l: "send_any_loop CL preferred seq data control n [0..<length bs] bs = (r1, bs1)" by fastforce
    have "list_all P bs1 \<and> length bs1 = length bs"
      by (rule send_any_loop_keeps [OF P l that(2)]) simp_all
    then show ?thesis using that(1,3) unfolding l by (cases r1) (auto simp: same_tx_def)
  qed
  show ?thesis
  proof (cases "\<exists>i. preferred = Some i \<and> i < length (ap_backends p)")
    case True
    then obtain i where i: "preferred = Some i" "i < length (ap_backends p)" by blast
    obtain r1 b1 where s: "try_send_payload_to_fenced CL (ap_backends p ! i) seq data control = (r1, b1)" by fastforce
    note h = P(1) [OF list_all_nth [OF bs i(2)] s]
    show ?thesis
    proof (cases r1)
      case None
      then have "p' = p\<lparr>ap_backends := (ap_backends p)[i := backend_note_assigned (of_nat (length (as_slice data))) b1]\<rparr>"
        using r i s by (simp add: send_data_payload_to_any_def Let_def)
      then show ?thesis using list_all_update [OF bs P(2)] h by (simp add: same_tx_def)
    next
      case (Some d)
      then show ?thesis
        using r i s h loop [OF _ list_all_update [OF bs]] by (simp add: send_data_payload_to_any_def Let_def)
    qed
  next
    case False
    then show ?thesis using r loop [OF _ bs] by (auto simp: send_data_payload_to_any_def Let_def split: option.splits)
  qed
qed

lemma port_pick_keeps:
  assumes P: "\<And>b v. P b \<Longrightarrow> P (set_sched v b)" and bs: "list_all P (ap_backends p)"
    and r: "port_pick CL now incoming p = (r, p')"
  shows "list_all P (ap_backends p') \<and> same_tx p p' \<and> (ap_backends p \<noteq> [] \<longrightarrow> (\<exists>i < length (ap_backends p). r = Some i))"
proof (cases "ap_backends p = []")
  case True
  then show ?thesis using r by (auto simp: port_pick_def Let_def pick_def same_tx_def)
next
  case False
  define pref where "pref = (if ap_preferred p < length (ap_backends p) then Some (ap_preferred p) else None)"
  obtain i st views where k: "pick now (ap_adaptive p) (map (adaptive_view CL) (ap_backends p)) pref incoming = (Some i, st, views)"
    "i < length (ap_backends p)" "length views = length (ap_backends p)"
    by (rule pick_summary [where bs = "map (adaptive_view CL) (ap_backends p)" and now = now and p = "ap_adaptive p"
          and preferred = pref and incoming = incoming]) (use False in simp_all)
  have "list_all P (map2 set_sched views (ap_backends p))"
    using bs P by (auto simp: list_all_iff dest: set_zip_rightD)
  then show ?thesis using r k unfolding port_pick_def Let_def pref_def [symmetric] by (auto simp: same_tx_def)
qed

lemma find_in: "find P xs = Some x \<Longrightarrow> x \<in> set xs \<and> P x"
  by (auto simp: find_Some_iff)

lemma parity_backend_index_ok:
  assumes "ap_backends p \<noteq> []" "parity_backend_index CL data_idx p = (r, p')"
  shows "\<exists>i < length (ap_backends p). r = Some i" "p' = p\<lparr>ap_parity_cursor := ap_parity_cursor p + 1\<rparr>"
proof -
  define n where "n = length (ap_backends p)"
  define start where "start = unat (ap_parity_cursor p) mod n"
  define order where "order = map (\<lambda>offset. (start + offset) mod n) [0..<n]"
  define ok where "ok idx \<longleftrightarrow> backend_score CL (ap_backends p ! idx) \<noteq> None" for idx
  have n: "0 < n" using assms(1) by (simp add: n_def)
  have f: "find Q order = Some i \<Longrightarrow> i < n" for Q i using n by (auto dest!: find_in simp: order_def)
  have s: "start < n" using n by (simp add: start_def)
  have d: "(case find ok order of Some i \<Rightarrow> i | None \<Rightarrow> start) < n" using f s by (simp split: option.split)
  show "\<exists>i < length (ap_backends p). r = Some i" "p' = p\<lparr>ap_parity_cursor := ap_parity_cursor p + 1\<rparr>"
    using assms d f unfolding parity_backend_index_def Let_def n_def [symmetric] start_def [symmetric]
      order_def [symmetric] ok_def [symmetric]
    by (auto split: option.split)
qed

lemma send_payload_to_keeps:
  assumes P: "\<And>b r b'. P b \<Longrightarrow> try_send_payload_to CL b seq data = (r, b') \<Longrightarrow> P b'"
    and bs: "list_all P (ap_backends p)" "idx < length (ap_backends p)" and r: "send_payload_to CL idx seq data p = (d, p')"
  shows "list_all P (ap_backends p') \<and> same_tx p p'"
proof -
  obtain r1 b1 where s: "try_send_payload_to CL (ap_backends p ! idx) seq data = (r1, b1)" by fastforce
  have "list_all P ((ap_backends p)[idx := b1])" by (rule list_all_update [OF bs(1) P [OF list_all_nth [OF bs] s]])
  then show ?thesis using r unfolding send_payload_to_def s by (cases r1) (auto simp: same_tx_def)
qed

lemma send_parity_keeps:
  assumes P: "\<And>b r b'. P b \<Longrightarrow> try_send_payload_to CL b 0 (Owned par) = (r, b') \<Longrightarrow> P b'"
      "\<And>b n. P b \<Longrightarrow> P (backend_note_fec n b)"
    and bs: "list_all P (ap_backends p)"
  shows "list_all P (ap_backends (send_parity CL data_idx par p)) \<and> same_tx p (send_parity CL data_idx par p)"
proof (cases "length (ap_backends p) < 2")
  case True
  then show ?thesis using bs by (simp add: send_parity_def)
next
  case False
  define p1 where "p1 = p\<lparr>ap_parity_sent := ap_parity_sent p + 1\<rparr>"
  obtain r p2 where i: "parity_backend_index CL data_idx p1 = (r, p2)" by fastforce
  have ne: "ap_backends p1 \<noteq> []" using False by (auto simp: p1_def)
  obtain idx where idx: "idx < length (ap_backends p)" "r = Some idx" "ap_backends p2 = ap_backends p" "same_tx p p2"
    using parity_backend_index_ok [OF ne i] by (auto simp: p1_def same_tx_def)
  obtain d p3 where s: "send_payload_to CL idx 0 (Owned par) p2 = (d, p3)" by fastforce
  have k: "list_all P (ap_backends p3) \<and> same_tx p2 p3"
    by (rule send_payload_to_keeps [OF P(1) _ _ s]) (simp_all add: idx bs)
  then have l: "idx < length (ap_backends p3)" using idx by (simp add: same_tx_def)
  have "send_parity CL data_idx par p = (if d = 0
      then p3\<lparr>ap_backends := (ap_backends p3)[idx := backend_note_fec (of_nat (length par)) (ap_backends p3 ! idx)]\<rparr> else p3)"
    using False by (simp add: send_parity_def Let_def p1_def [symmetric] i idx(2) s)
  moreover have "P (backend_note_fec (of_nat (length par)) (ap_backends p3 ! idx))"
    by (rule P(2)) (rule list_all_nth [OF conjunct1 [OF k] l])
  ultimately show ?thesis using k idx(4) list_all_update [OF conjunct1 [OF k]] by (auto simp: same_tx_def)
qed

subsection \<open>One frame\<close>

lemma next_seq_cases:
  obtains (exhausted) "ap_tx_seq p = - 1" "next_seq p = (None, p\<lparr>ap_sequence_exhausted := True\<rparr>)"
  | (fresh) "ap_tx_seq p \<noteq> - 1" "next_seq p = (Some (ap_tx_seq p + 1), p\<lparr>ap_tx_seq := ap_tx_seq p + 1\<rparr>)"
  by (cases "ap_tx_seq p = - 1") (simp_all add: next_seq_def)

text \<open>
  \<open>write_payload\<close> either drops the frame before numbering it, or numbers it, runs the encoder
  section and hands the frame and the parity frame over.
\<close>

lemma write_payload_cases:
  obtains (skipped) "same_tx p (write_payload cpu L CL now frame p)"
      "ap_backends (write_payload cpu L CL now frame p) = ap_backends p"
  | (sent) parity control p2 p3 selected p4 data_idx where
      "as_slice frame \<noteq> []" "ap_tx_seq p \<noteq> - 1" "ap_backends p \<noteq> []"
      "encode_step cpu L (ap_tx_seq p + 1) (as_slice frame) (p\<lparr>ap_tx_seq := ap_tx_seq p + 1\<rparr>) = (parity, control, p2)"
      "port_pick CL now (of_nat (length (as_slice frame))) p2 = (selected, p3)"
      "send_data_payload_to_any CL selected (ap_tx_seq p + 1) frame control p3 = (data_idx, p4)"
      "write_payload cpu L CL now frame p = (case parity of None \<Rightarrow> p4 | Some par \<Rightarrow> send_parity CL data_idx par p4)"
proof (cases "as_slice frame = [] \<or> ap_backends p = [] \<or> \<not> list_ex (\<lambda>b. backend_score CL b \<noteq> None) (ap_backends p)")
  case True
  then show ?thesis using skipped by (auto simp: write_payload_def)
next
  case ok: False
  show ?thesis
  proof (cases rule: next_seq_cases [of p])
    case exhausted
    then show ?thesis using ok skipped by (simp add: write_payload_def same_tx_def)
  next
    case fresh
    obtain parity control p2 where e:
      "encode_step cpu L (ap_tx_seq p + 1) (as_slice frame) (p\<lparr>ap_tx_seq := ap_tx_seq p + 1\<rparr>) = (parity, control, p2)"
      by (cases "encode_step cpu L (ap_tx_seq p + 1) (as_slice frame) (p\<lparr>ap_tx_seq := ap_tx_seq p + 1\<rparr>)") auto
    obtain selected p3 where k: "port_pick CL now (of_nat (length (as_slice frame))) p2 = (selected, p3)" by fastforce
    obtain data_idx p4 where d: "send_data_payload_to_any CL selected (ap_tx_seq p + 1) frame control p3 = (data_idx, p4)"
      by fastforce
    show ?thesis by (rule sent [OF _ fresh(1) _ e k d]) (use ok fresh(2) e k d in \<open>simp_all add: write_payload_def\<close>)
  qed
qed

text \<open>The predicate on backends that a whole write keeps.\<close>

lemma write_payload_keeps:
  assumes P: "\<And>b r b'. P b \<Longrightarrow> try_send_payload_to_fenced CL b (ap_tx_seq p + 1) frame control = (r, b') \<Longrightarrow>
          P b' \<and> (r = None \<or> r = Some frame)"
      "\<And>par b r b'. parity = Some par \<Longrightarrow> P b \<Longrightarrow> try_send_payload_to CL b 0 (Owned par) = (r, b') \<Longrightarrow> P b'"
      "\<And>b n. P b \<Longrightarrow> P (backend_note_assigned n b)" "\<And>b n. P b \<Longrightarrow> P (backend_note_fec n b)" "\<And>b v. P b \<Longrightarrow> P (set_sched v b)"
    and bs: "list_all P (ap_backends p2)"
    and k: "port_pick CL now n p2 = (selected, p3)"
    and d: "send_data_payload_to_any CL selected (ap_tx_seq p + 1) frame control p3 = (data_idx, p4)"
  shows "list_all P (ap_backends (case parity of None \<Rightarrow> p4 | Some par \<Rightarrow> send_parity CL data_idx par p4))
    \<and> same_tx p2 (case parity of None \<Rightarrow> p4 | Some par \<Rightarrow> send_parity CL data_idx par p4)"
proof -
  have s3: "list_all P (ap_backends p3) \<and> same_tx p2 p3" using port_pick_keeps [OF P(5) bs k] by blast
  have s4: "list_all P (ap_backends p4) \<and> same_tx p3 p4" by (rule send_data_keeps [OF P(1,3) conjunct1 [OF s3] d])
  show ?thesis
  proof (cases parity)
    case None
    then show ?thesis using s3 s4 same_tx_trans by auto
  next
    case (Some par)
    have "list_all P (ap_backends (send_parity CL data_idx par p4)) \<and> same_tx p4 (send_parity CL data_idx par p4)"
      by (rule send_parity_keeps [OF P(2) [OF Some] P(4) conjunct1 [OF s4]])
    moreover from this have "same_tx p2 (send_parity CL data_idx par p4)" using s3 s4 same_tx_trans by blast
    ultimately show ?thesis using Some by simp
  qed
qed

end
