(* ===== verification/Port_Run.thy ===== *)
theory Port_Run
  imports Port_Send
begin

text \<open>
  Runs of a port between two resets: frames written one by one, in batches or by the dispatch
  thread, connections that come and go, batches taken by the TLS writers. The sequence numbers
  and the encoder state of the port are those of the encoder run over the numbered payloads, and
  every frame in a queue is an item of that run or a mode control.
\<close>

subsection \<open>Encoder runs\<close>

lemma enc_run_append:
  "enc_run cpu L e pos (evs @ evs') =
     (let (ws, e1) = enc_run cpu L e pos evs; (ws', e2) = enc_run cpu L e1 (pos + length (payloads evs)) evs' in (ws @ ws', e2))"
proof (induction evs arbitrary: e pos rule: payloads.induct)
  case (3 p evs)
  obtain r e1 where a: "encoder_add cpu L e (of_nat pos) p = (r, e1)" by fastforce
  obtain ws e2 where b: "enc_run cpu L e1 (pos + 1) evs = (ws, e2)" by fastforce
  obtain ws' e3 where c: "enc_run cpu L e2 (pos + 1 + length (payloads evs)) evs' = (ws', e3)" by fastforce
  have "enc_run cpu L e1 (pos + 1) (evs @ evs') = (ws @ ws', e3)" using 3 [of e1 "pos + 1"] b c by simp
  then show ?case using a b c by (simp split: option.split)
qed (simp_all split: prod.split)

lemma payloads_append [simp]: "payloads (evs @ evs') = payloads evs @ payloads evs'"
  by (induction evs rule: payloads.induct) simp_all

definition port_items :: "cpu \<Rightarrow> crypto_lib \<Rightarrow> nat \<Rightarrow> inner_cipher option \<Rightarrow> enc_event list \<Rightarrow> (u32 \<times> bytes) set" where
  "port_items cpu L n ic evs =
     wire_item ` set (fst (enc_run cpu L (encoder_new n ic) 1 evs)) \<union> range (\<lambda>c. (0, encode_control c))"

definition port_enc :: "cpu \<Rightarrow> crypto_lib \<Rightarrow> nat \<Rightarrow> inner_cipher option \<Rightarrow> enc_event list \<Rightarrow> fec_encoder" where
  "port_enc cpu L n ic evs = snd (enc_run cpu L (encoder_new n ic) 1 evs)"

lemma port_items_append:
  "port_items cpu L n ic (evs @ new) = port_items cpu L n ic evs
     \<union> wire_item ` set (fst (enc_run cpu L (port_enc cpu L n ic evs) (1 + length (payloads evs)) new))"
  unfolding port_items_def port_enc_def enc_run_append by (simp add: Let_def split_beta image_Un Un_ac)

lemma port_enc_append:
  "port_enc cpu L n ic (evs @ new) = snd (enc_run cpu L (port_enc cpu L n ic evs) (1 + length (payloads evs)) new)"
  unfolding port_enc_def enc_run_append by (simp add: Let_def split_beta)

lemma port_items_mono: "port_items cpu L n ic evs \<subseteq> port_items cpu L n ic (evs @ evs')"
  unfolding port_items_append by blast

lemma port_items_data:
  "(of_nat (length (payloads evs) + 1), x) \<in> port_items cpu L n ic (evs @ [Payload x])"
  "(of_nat (length (payloads evs) + 1), x) \<in> port_items cpu L n ic (evs @ [Paths m, Payload x])"
proof -
  have "wire_item (Ev_Data (of_nat (1 + length (payloads evs))) (payloads (evs @ ys) ! length (payloads evs)))
      \<in> port_items cpu L n ic (evs @ ys)" if "length (payloads evs) < length (payloads (evs @ ys))" for ys
    unfolding port_items_def by (intro UnI1 imageI enc_run_data that)
  from this [of "[Payload x]"] this [of "[Paths m, Payload x]"]
  show "(of_nat (length (payloads evs) + 1), x) \<in> port_items cpu L n ic (evs @ [Payload x])"
    "(of_nat (length (payloads evs) + 1), x) \<in> port_items cpu L n ic (evs @ [Paths m, Payload x])" by simp_all
qed

lemma control_items_in: "control_items c \<subseteq> port_items cpu L n ic evs"
  by (auto simp: control_items_def port_items_def split: option.splits)

subsection \<open>The invariant\<close>

definition port_inv ::
  "cpu \<Rightarrow> crypto_lib \<Rightarrow> ('c \<Rightarrow> vpn_frame list) \<Rightarrow> nat \<Rightarrow> inner_cipher option \<Rightarrow> enc_event list \<Rightarrow> 'c async_port \<Rightarrow> bool" where
  "port_inv cpu L cont n ic evs p \<longleftrightarrow>
     ap_tx_seq p = of_nat (length (payloads evs)) \<and> length (payloads evs) < 2 ^ 32 \<and> [] \<notin> set (payloads evs)
     \<and> (ap_encoder_enabled p \<longrightarrow> ap_encoder p = Some (port_enc cpu L n ic evs))
     \<and> port_holds cont (port_items cpu L n ic evs) p"

lemma port_holds_mono: "port_holds cont S p \<Longrightarrow> S \<subseteq> T \<Longrightarrow> port_holds cont T p"
  by (auto simp: port_holds_def list_all_iff intro: backend_holds_mono)

lemma port_inv_skip:
  "port_inv cpu L cont n ic evs p \<Longrightarrow> same_tx p p' \<Longrightarrow> port_holds cont (port_items cpu L n ic evs) p' \<Longrightarrow>
   port_inv cpu L cont n ic evs p'"
  by (simp add: port_inv_def same_tx_def)

text \<open>Numbering the next payload without an encoder, and with one.\<close>

lemma next_number:
  assumes "port_inv cpu L cont n ic evs p" "ap_tx_seq p \<noteq> - 1"
  shows "ap_tx_seq p + 1 = of_nat (length (payloads evs) + 1)" "length (payloads evs) + 1 < 2 ^ 32"
proof -
  show "ap_tx_seq p + 1 = of_nat (length (payloads evs) + 1)" using assms(1) by (simp add: port_inv_def)
  have "length (payloads evs) \<noteq> 2 ^ 32 - 1"
  proof
    assume "length (payloads evs) = 2 ^ 32 - 1"
    then have "ap_tx_seq p = of_nat (2 ^ 32 - 1)" using assms(1) by (simp add: port_inv_def)
    then show False using assms(2) by simp
  qed
  then show "length (payloads evs) + 1 < 2 ^ 32" using assms(1) by (simp add: port_inv_def)
qed

lemma port_inv_number:
  assumes i: "port_inv cpu L cont n ic evs p" and q: "ap_tx_seq p \<noteq> - 1" and x: "x \<noteq> []" and off: "\<not> ap_encoder_enabled p"
    and p': "ap_tx_seq p' = ap_tx_seq p + 1" "ap_encoder_enabled p' = ap_encoder_enabled p"
    and h: "port_holds cont (port_items cpu L n ic (evs @ [Payload x])) p'"
  shows "port_inv cpu L cont n ic (evs @ [Payload x]) p'"
  using i x off p' h next_number [OF i q] by (auto simp: port_inv_def)

lemma encode_step_inv:
  assumes i: "port_inv cpu L cont n ic evs p" and q: "ap_tx_seq p \<noteq> - 1" and x: "x \<noteq> []"
    and e: "encode_step cpu L (ap_tx_seq p + 1) x (p\<lparr>ap_tx_seq := ap_tx_seq p + 1\<rparr>) = (parity, control, p2)"
  obtains new where "payloads new = [x]" "port_inv cpu L cont n ic (evs @ new) p2"
    "(ap_tx_seq p + 1, x) \<in> port_items cpu L n ic (evs @ new)"
    "\<And>par. parity = Some par \<Longrightarrow> (0, par) \<in> port_items cpu L n ic (evs @ new)"
    "ap_backends p2 = ap_backends p"
proof -
  have holds: "port_holds cont (port_items cpu L n ic evs) p" using i by (simp add: port_inv_def)
  show ?thesis
proof (cases "ap_encoder_enabled p")
  case False
  then have p2: "parity = None" "p2 = p\<lparr>ap_tx_seq := ap_tx_seq p + 1\<rparr>" using e by (auto simp: encode_step_def)
  have h: "port_holds cont (port_items cpu L n ic (evs @ [Payload x])) p2"
    using port_holds_mono [OF holds port_items_mono] by (simp add: p2 port_holds_def)
  have "port_inv cpu L cont n ic (evs @ [Payload x]) p2"
    by (rule port_inv_number [OF i q x False _ _ h]) (simp_all add: p2)
  moreover have "(ap_tx_seq p + 1, x) \<in> port_items cpu L n ic (evs @ [Payload x])"
    unfolding next_number(1) [OF i q] by (rule port_items_data(1))
  moreover have "ap_backends p2 = ap_backends p" by (simp add: p2)
  ultimately show ?thesis using that [of "[Payload x]"] p2(1) by (simp only: payloads.simps option.distinct simp_thms)
next
  case True
  define m where "m = length (ap_backends p)"
  define enc where "enc = port_enc cpu L n ic evs"
  have enc: "ap_encoder p = Some enc" using i True by (simp add: port_inv_def enc_def)
  obtain par enc2 where a: "encoder_add cpu L (set_physical_path_count enc m) (ap_tx_seq p + 1) x = (par, enc2)" by fastforce
  have r: "parity = par" "ap_backends p2 = ap_backends p" "ap_tx_seq p2 = ap_tx_seq p + 1"
    "ap_encoder p2 = Some enc2" "ap_encoder_enabled p2"
    using e True enc a by (auto simp: encode_step_def Let_def m_def [symmetric])
  let ?new = "[Paths m, Payload x]"
  note nn = next_number [OF i q]
  have run: "enc_run cpu L enc (1 + length (payloads evs)) ?new =
      (Ev_Data (ap_tx_seq p + 1) x # (case par of None \<Rightarrow> [] | Some f \<Rightarrow> [Ev_Control f]), enc2)"
    using a nn(1) by (simp add: add.commute split: option.split)
  have items: "port_items cpu L n ic (evs @ ?new) = port_items cpu L n ic evs \<union>
      wire_item ` set (Ev_Data (ap_tx_seq p + 1) x # (case par of None \<Rightarrow> [] | Some f \<Rightarrow> [Ev_Control f]))"
    unfolding port_items_append enc_def [symmetric] run fst_conv ..
  have "port_enc cpu L n ic (evs @ ?new) = enc2"
    unfolding port_enc_append enc_def [symmetric] run snd_conv ..
  moreover have "port_holds cont (port_items cpu L n ic (evs @ ?new)) p2"
    using port_holds_mono [OF holds port_items_mono] by (simp add: r port_holds_def)
  ultimately have "port_inv cpu L cont n ic (evs @ ?new) p2"
    using i r x nn by (auto simp: port_inv_def)
  then show ?thesis using that [of ?new] r items by simp
qed
qed

lemma write_payload_inv:
  assumes C: "chan_ok CL cont" and i: "port_inv cpu L cont n ic evs p"
  shows "\<exists>new. subseq (payloads new) [as_slice frame] \<and> port_inv cpu L cont n ic (evs @ new) (write_payload cpu L CL now frame p)"
proof (cases rule: write_payload_cases [of p cpu L CL now frame])
  case skipped
  have "port_holds cont (port_items cpu L n ic evs) (write_payload cpu L CL now frame p)"
    using i unfolding port_inv_def port_holds_def skipped(2) by blast
  from port_inv_skip [OF i skipped(1) this] show ?thesis by (intro exI [of _ "[]"]) simp
next
  case (sent parity control p2 p3 selected p4 data_idx)
  obtain new where new: "payloads new = [as_slice frame]" "port_inv cpu L cont n ic (evs @ new) p2"
    "(ap_tx_seq p + 1, as_slice frame) \<in> port_items cpu L n ic (evs @ new)"
    "\<And>par. parity = Some par \<Longrightarrow> (0, par) \<in> port_items cpu L n ic (evs @ new)"
    by (rule encode_step_inv [OF i sent(2,1,4)]) blast
  let ?P = "backend_holds cont (port_items cpu L n ic (evs @ new))"
  have "list_all ?P (ap_backends (write_payload cpu L CL now frame p)) \<and> same_tx p2 (write_payload cpu L CL now frame p)"
    unfolding sent(7)
  proof (rule write_payload_keeps [OF _ _ _ _ _ _ sent(5,6)])
    show "list_all ?P (ap_backends p2)" using new(2) by (simp add: port_inv_def port_holds_def)
    show "?P b' \<and> (r = None \<or> r = Some frame)"
      if "?P b" "try_send_payload_to_fenced CL b (ap_tx_seq p + 1) frame control = (r, b')" for b r b'
      by (rule try_send_fenced_holds [OF C that(1) new(3) control_items_in that(2)])
    show "?P b'" if "parity = Some par" "?P b" "try_send_payload_to CL b 0 (Owned par) = (r, b')" for par b r b'
      using try_send_holds [OF C that(2) _ that(3)] new(4) [OF that(1)] by simp
  qed simp_all
  then have "port_inv cpu L cont n ic (evs @ new) (write_payload cpu L CL now frame p)"
    using port_inv_skip [OF new(2)] by (simp add: port_holds_def)
  then show ?thesis using new(1) by (intro exI [of _ new]) simp
qed

lemma port_inv_simps [simp]:
  "port_inv cpu L cont n ic evs (drop_n m p) = port_inv cpu L cont n ic evs p"
  "port_inv cpu L cont n ic evs (p\<lparr>ap_sequence_exhausted := x\<rparr>) = port_inv cpu L cont n ic evs p"
  by (simp_all add: port_inv_def port_holds_def)

lemma write_payloads_inv:
  assumes C: "chan_ok CL cont" and i: "port_inv cpu L cont n ic evs p"
  shows "\<exists>new. subseq (payloads new) (map as_slice frames)
    \<and> port_inv cpu L cont n ic (evs @ new) (foldl (\<lambda>p f. write_payload cpu L CL now f p) p frames)"
  using i
proof (induction frames arbitrary: evs p)
  case Nil
  then show ?case by (intro exI [of _ "[]"]) simp
next
  case (Cons f fs)
  obtain a where a: "subseq (payloads a) [as_slice f]" "port_inv cpu L cont n ic (evs @ a) (write_payload cpu L CL now f p)"
    using write_payload_inv [OF C Cons.prems] by blast
  obtain b where b: "subseq (payloads b) (map as_slice fs)"
    "port_inv cpu L cont n ic ((evs @ a) @ b) (foldl (\<lambda>p f. write_payload cpu L CL now f p) (write_payload cpu L CL now f p) fs)"
    using Cons.IH [OF a(2)] by blast
  have "subseq (payloads (a @ b)) (map as_slice (f # fs))" using list_emb_append_mono [OF a(1) b(1)] by simp
  then show ?case using b(2) by (intro exI [of _ "a @ b"]) simp
qed

subsection \<open>Batches\<close>

text \<open>A numbered payload enters a queue whose port has no encoder.\<close>

lemma number_payload:
  assumes i: "port_inv cpu L cont n ic evs p" and off: "\<not> ap_encoder_enabled p" and q: "ap_tx_seq p \<noteq> - 1" and x: "x \<noteq> []"
  shows "port_inv cpu L cont n ic (evs @ [Payload x]) (p\<lparr>ap_tx_seq := ap_tx_seq p + 1\<rparr>)"
    "(ap_tx_seq p + 1, x) \<in> port_items cpu L n ic (evs @ [Payload x])"
proof -
  have "port_holds cont (port_items cpu L n ic evs) p" using i by (simp add: port_inv_def)
  then have h: "port_holds cont (port_items cpu L n ic (evs @ [Payload x])) (p\<lparr>ap_tx_seq := ap_tx_seq p + 1\<rparr>)"
    using port_holds_mono [OF _ port_items_mono] by (simp add: port_holds_def)
  show "port_inv cpu L cont n ic (evs @ [Payload x]) (p\<lparr>ap_tx_seq := ap_tx_seq p + 1\<rparr>)"
    by (rule port_inv_number [OF i q x off _ _ h]) simp_all
  show "(ap_tx_seq p + 1, x) \<in> port_items cpu L n ic (evs @ [Payload x])"
    unfolding next_number(1) [OF i q] by (rule port_items_data(1))
qed

definition queue_holds :: "(u32 \<times> bytes) set \<Rightarrow> owned_queue \<Rightarrow> bool" where
  "queue_holds S q \<longleftrightarrow> oq_inv q \<and> frame_item ` set (oq_contents q) \<subseteq> S"

lemma queue_holds_mono: "queue_holds S q \<Longrightarrow> S \<subseteq> T \<Longrightarrow> queue_holds T q"
  by (auto simp: queue_holds_def)

lemma queue_holds_push:
  assumes "queue_holds S q" "(seq, as_slice data) \<in> S" "oi_frames (oq_inner q) < oq_capacity q"
  shows "queue_holds S (q\<lparr>oq_inner := push_locked (oq_inner q) \<lparr>vf_seq = seq, vf_data = data\<rparr>
           (of_nat (length (as_slice data))) (oq_max_batch q)\<rparr>)"
  using push_locked_inv [of "oq_max_batch q" "oq_inner q" "\<lparr>vf_seq = seq, vf_data = data\<rparr>"] assms
  by (simp add: queue_holds_def oq_inv_def oq_contents_def frame_bytes_def frame_item_def)

lemma push_payloads_inv:
  assumes "push_payloads frames q s p acc bytes = (q', s', p', acc', bytes')"
    and "port_inv cpu L cont n ic evs p" "\<not> ap_encoder_enabled p" "queue_holds (port_items cpu L n ic evs) q"
  shows "\<exists>new. subseq (payloads new) (map as_slice frames) \<and> port_inv cpu L cont n ic (evs @ new) p'
    \<and> queue_holds (port_items cpu L n ic (evs @ new)) q' \<and> ap_backends p' = ap_backends p \<and> \<not> ap_encoder_enabled p'"
  using assms
proof (induction frames q s p acc bytes arbitrary: evs rule: push_payloads.induct)
  case (1 q s p acc bytes)
  then show ?case by (intro exI [of _ "[]"]) simp
next
  case (2 data frames q s p acc bytes)
  let ?goal = "\<lambda>fs. \<exists>new. subseq (payloads new) (map as_slice fs) \<and> port_inv cpu L cont n ic (evs @ new) p'
    \<and> queue_holds (port_items cpu L n ic (evs @ new)) q' \<and> ap_backends p' = ap_backends p \<and> \<not> ap_encoder_enabled p'"
  have weaken: "?goal frames \<Longrightarrow> ?goal (data # frames)" by (auto intro: list_emb_Cons)
  note i = "2.prems"(2) and off = "2.prems"(3) and qh = "2.prems"(4)
  consider "as_slice data = []" | "as_slice data \<noteq> []" "oi_frames (oq_inner q) \<ge> oq_capacity q - 2"
    | "as_slice data \<noteq> []" "oi_frames (oq_inner q) < oq_capacity q - 2" by linarith
  then show ?case
  proof cases
    case 1
    then have "?goal frames" using "2.IH"(1) [OF 1] "2.prems" by simp
    then show ?thesis by (rule weaken)
  next
    case full: 2
    then have "?goal frames" using "2.IH"(2) [of evs] "2.prems" by simp
    then show ?thesis by (rule weaken)
  next
    case room: 3
    then have ncap: "\<not> oq_capacity q - 2 \<le> oi_frames (oq_inner q)" by simp
    show ?thesis
    proof (cases rule: next_seq_cases [of p])
      case exhausted
      then have "?goal frames" using "2.IH"(3) [OF room(1) ncap exhausted(2) [symmetric] refl, of evs] "2.prems" room ncap by simp
      then show ?thesis by (rule weaken)
    next
      case fresh
      let ?p1 = "p\<lparr>ap_tx_seq := ap_tx_seq p + 1\<rparr>" and ?evs = "evs @ [Payload (as_slice data)]"
      let ?q1 = "q\<lparr>oq_inner := push_locked (oq_inner q) \<lparr>vf_seq = ap_tx_seq p + 1, vf_data = data\<rparr>
           (of_nat (length (as_slice data))) (oq_max_batch q)\<rparr>"
      note np = number_payload [OF i off fresh(1) room(1)]
      have "queue_holds (port_items cpu L n ic ?evs) ?q1"
        using queue_holds_push [OF queue_holds_mono [OF qh port_items_mono] np(2)] room(2) by simp
      moreover have "push_payloads frames ?q1 (add_queued (of_nat (length (as_slice data))) s) ?p1 (acc + 1)
          (bytes + of_nat (length (as_slice data))) = (q', s', p', acc', bytes')"
        using "2.prems"(1) room ncap fresh(2) by (simp add: Let_def)
      ultimately obtain new where "subseq (payloads new) (map as_slice frames)" "port_inv cpu L cont n ic (?evs @ new) p'"
        "queue_holds (port_items cpu L n ic (?evs @ new)) q'" "ap_backends p' = ap_backends p" "\<not> ap_encoder_enabled p'"
        using "2.IH"(4) [OF room(1) ncap fresh(2) [symmetric] refl refl refl, of ?evs] np(1) off by auto
      then show ?thesis by (intro exI [of _ "Payload (as_slice data) # new"]) simp
    qed
  qed
qed

lemma write_payload_batch_inv:
  assumes C: "chan_ok CL cont" and i: "port_inv cpu L cont n ic evs p"
  shows "\<exists>new. subseq (payloads new) (map as_slice frames)
    \<and> port_inv cpu L cont n ic (evs @ new) (write_payload_batch cpu L CL now frames p)"
proof (cases "if length (ap_backends p) = 1 \<and> \<not> ap_encoder_enabled p then pb_owned (ap_backends p ! 0) else None")
  case None
  then have "write_payload_batch cpu L CL now frames p = foldl (\<lambda>p f. write_payload cpu L CL now f p) p frames"
    unfolding write_payload_batch_def by simp
  then show ?thesis using write_payloads_inv [OF C i] by simp
next
  case (Some q)
  then have one: "length (ap_backends p) = 1" "\<not> ap_encoder_enabled p" "pb_owned (ap_backends p ! 0) = Some q"
    by (auto split: if_splits)
  obtain b where b: "ap_backends p = [b]" using one(1) by (auto simp: length_Suc_conv)
  have "backend_holds cont (port_items cpu L n ic evs) b" using i by (simp add: port_inv_def port_holds_def b)
  then have qh: "queue_holds (port_items cpu L n ic evs) q"
    using one(3) by (simp add: backend_holds_def backend_inv_def backend_contents_def b queue_holds_def)
  obtain q1 s1 p1 acc bytes where l: "push_payloads frames q (pb_sched b) p 0 0 = (q1, s1, p1, acc, bytes)"
    by (cases "push_payloads frames q (pb_sched b) p 0 0") auto
  obtain new where new: "subseq (payloads new) (map as_slice frames)" "port_inv cpu L cont n ic (evs @ new) p1"
    "queue_holds (port_items cpu L n ic (evs @ new)) q1"
    using push_payloads_inv [OF l i one(2) qh] by blast
  define b1 where "b1 = b\<lparr>pb_owned := Some q1, pb_sched := note_assigned bytes s1\<rparr>"
  have "backend_holds cont (port_items cpu L n ic (evs @ new)) b1"
    using new(3) by (simp add: b1_def queue_holds_def backend_holds_def backend_inv_def backend_contents_def)
  then have h: "backend_holds cont (port_items cpu L n ic (evs @ new)) (if acc \<noteq> 0 then backend_wake b1 else b1)" by simp
  have "write_payload_batch cpu L CL now frames p = p1\<lparr>ap_backends := [if acc \<noteq> 0 then backend_wake b1 else b1]\<rparr>"
    unfolding write_payload_batch_def Some by (simp add: b l b1_def Let_def)
  moreover have "port_inv cpu L cont n ic (evs @ new) (p1\<lparr>ap_backends := [if acc \<noteq> 0 then backend_wake b1 else b1]\<rparr>)"
    using new(2) h unfolding port_inv_def port_holds_def by simp
  ultimately show ?thesis using new(1) by auto
qed

subsection \<open>The dispatch thread\<close>

lemma assign_seqs_inv:
  assumes "port_inv cpu L cont n ic evs p" "\<not> ap_encoder_enabled p" "\<forall>f \<in> set fs. as_slice f \<noteq> []"
    "assign_seqs fs p = (frames, bytes, p')"
  shows "\<exists>new. subseq (payloads new) (map as_slice fs) \<and> port_inv cpu L cont n ic (evs @ new) p'
    \<and> frame_item ` set frames \<subseteq> port_items cpu L n ic (evs @ new)"
  using assms
proof (induction fs arbitrary: evs p frames bytes)
  case Nil
  then show ?case by (intro exI [of _ "[]"]) simp
next
  case (Cons f fs)
  have ne: "as_slice f \<noteq> []" "\<forall>f \<in> set fs. as_slice f \<noteq> []" using Cons.prems(3) by simp_all
  show ?case
  proof (cases rule: next_seq_cases [of p])
    case exhausted
    then have "assign_seqs fs (drop_n 1 (p\<lparr>ap_sequence_exhausted := True\<rparr>)) = (frames, bytes, p')" using Cons.prems(4) by simp
    then show ?thesis
      using Cons.IH [of evs "drop_n 1 (p\<lparr>ap_sequence_exhausted := True\<rparr>)"] Cons.prems(1,2) ne(2) by (auto intro: list_emb_Cons)
  next
    case fresh
    let ?p1 = "p\<lparr>ap_tx_seq := ap_tx_seq p + 1\<rparr>" and ?evs = "evs @ [Payload (as_slice f)]"
    note np = number_payload [OF Cons.prems(1,2) fresh(1) ne(1)]
    obtain fr2 by2 p2 where a: "assign_seqs fs ?p1 = (fr2, by2, p2)" by (cases "assign_seqs fs ?p1") auto
    then have r: "frames = \<lparr>vf_seq = ap_tx_seq p + 1, vf_data = f\<rparr> # fr2" "p' = p2"
      using Cons.prems(4) fresh(2) by simp_all
    have off: "\<not> ap_encoder_enabled ?p1" using Cons.prems(2) by simp
    obtain new where new: "subseq (payloads new) (map as_slice fs)" "port_inv cpu L cont n ic (?evs @ new) p'"
      "frame_item ` set fr2 \<subseteq> port_items cpu L n ic (?evs @ new)"
      using Cons.IH [OF np(1) off ne(2) a [folded r(2)]] by blast
    have "(ap_tx_seq p + 1, as_slice f) \<in> port_items cpu L n ic (?evs @ new)" using np(2) port_items_mono by blast
    then show ?thesis using new r by (intro exI [of _ "Payload (as_slice f) # new"]) (simp add: frame_item_def)
  qed
qed

lemma send_each_keeps:
  assumes C: "chan_ok CL cont"
  shows "port_holds cont S p \<Longrightarrow> idx < length (ap_backends p) \<Longrightarrow> frame_item ` set frames \<subseteq> S \<Longrightarrow>
    port_holds cont S (send_each CL idx frames p) \<and> same_tx p (send_each CL idx frames p)"
proof (induction frames arbitrary: p)
  case (Cons f fs)
  obtain d p1 where s: "send_payload_to CL idx (vf_seq f) (vf_data f) p = (d, p1)" by fastforce
  have k: "list_all (backend_holds cont S) (ap_backends p1) \<and> same_tx p p1"
  proof (rule send_payload_to_keeps [OF _ _ Cons.prems(2) s])
    show "backend_holds cont S b'" if "backend_holds cont S b" "try_send_payload_to CL b (vf_seq f) (vf_data f) = (r, b')" for b r b'
      using try_send_holds [OF C that(1) _ that(2)] Cons.prems(3) by (simp add: frame_item_def)
  qed (use Cons.prems(1) in \<open>simp add: port_holds_def\<close>)
  then have l: "idx < length (ap_backends p1)" using Cons.prems(2) by (simp add: same_tx_def)
  define p2 where "p2 = (if d = 0
      then p1\<lparr>ap_backends := (ap_backends p1)[idx := backend_note_assigned (frame_bytes f) (ap_backends p1 ! idx)]\<rparr> else p1)"
  have "backend_holds cont S (backend_note_assigned (frame_bytes f) (ap_backends p1 ! idx))"
    using list_all_nth [OF conjunct1 [OF k] l] by simp
  then have "port_holds cont S p2" "same_tx p p2"
    using k list_all_update [OF conjunct1 [OF k]] by (simp_all add: p2_def port_holds_def same_tx_def)
  moreover have "send_each CL idx (f # fs) p = send_each CL idx fs p2" by (simp add: s p2_def)
  moreover have "idx < length (ap_backends p2)" using l by (simp add: p2_def)
  ultimately show ?case using Cons.IH [of p2] Cons.prems(3) same_tx_trans by fastforce
qed simp

lemma send_batch_loop_keeps:
  assumes C: "chan_ok CL cont"
  shows "send_batch_loop CL k idx remaining frames p = (left, p') \<Longrightarrow> port_holds cont S p \<Longrightarrow> frame_item ` set frames \<subseteq> S \<Longrightarrow>
    port_holds cont S p' \<and> same_tx p p'"
proof (induction k arbitrary: idx remaining frames p)
  case (Suc k)
  show ?case
  proof (cases "frames = [] \<or> idx \<ge> length (ap_backends p)")
    case True
    then show ?thesis using Suc.prems by simp
  next
    case False
    define b where "b = ap_backends p ! idx"
    have b: "backend_holds cont S b"
      using False Suc.prems(2) list_all_nth [of "backend_holds cont S"] by (simp add: b_def port_holds_def)
    show ?thesis
    proof (cases "pb_owned b")
      case None
      then have "p' = send_each CL idx frames p" using Suc.prems(1) False by (simp add: b_def)
      then show ?thesis using send_each_keeps [OF C Suc.prems(2) _ Suc.prems(3), of idx] False by simp
    next
      case (Some q)
      obtain count acc rest q' where t: "try_push_batch q frames = (count, acc, rest, q')"
        by (cases "try_push_batch q frames") auto
      define s2 where "s2 = (let s1 = add_queued remaining (pb_sched b)
          in if acc < remaining then complete_queued (remaining - acc) s1 else s1)"
      define b1 where "b1 = b\<lparr>pb_owned := Some q', pb_sched := s2\<rparr>"
      define b2 where "b2 = (if count \<noteq> 0 then backend_wake (backend_note_assigned acc b1) else b1)"
      define p1 where "p1 = p\<lparr>ap_backends := (ap_backends p)[idx := b2]\<rparr>"
      have q: "oq_inv q" using b Some by (simp add: backend_holds_def backend_inv_def)
      note tp = try_push_batch_ok [OF q t]
      have "set (take count frames) \<subseteq> set frames" "set rest \<subseteq> set frames" by (auto simp: tp(3) dest: in_set_takeD in_set_dropD)
      then have it: "frame_item ` set (take count frames) \<subseteq> S" "frame_item ` set rest \<subseteq> S" using Suc.prems(3) by blast+
      have "backend_holds cont S b1"
        using b it(1) Some tp(1,2) by (simp add: b1_def backend_holds_def backend_inv_def backend_contents_def image_Un)
      then have "backend_holds cont S b2" by (simp add: b2_def)
      then have h1: "port_holds cont S p1" "same_tx p p1"
        using list_all_update [of "backend_holds cont S"] Suc.prems(2) by (simp_all add: p1_def port_holds_def same_tx_def)
      have "send_batch_loop CL (Suc k) idx remaining frames p =
          (if rest = [] then ([], p1)
           else case find (\<lambda>i. i \<noteq> idx \<and> backend_score CL (ap_backends p1 ! i) \<noteq> None) [0..<length (ap_backends p1)] of
                  None \<Rightarrow> (rest, p1)
                | Some i \<Rightarrow> send_batch_loop CL k i (saturating_sub remaining acc) rest p1)"
        unfolding p1_def b2_def b1_def s2_def Let_def send_batch_loop.simps if_not_P [OF False]
          b_def [symmetric] Some option.case t prod.case by (rule refl)
      then show ?thesis
        using Suc.prems(1) h1 Suc.IH [OF _ h1(1) it(2)] same_tx_trans [OF h1(2)] by (auto split: if_splits option.splits)
    qed
  qed
qed simp

lemma dispatch_owned_batch_inv:
  assumes C: "chan_ok CL cont" and i: "port_inv cpu L cont n ic evs p" and ne: "\<forall>f \<in> set batch. as_slice f \<noteq> []"
  shows "\<exists>new. subseq (payloads new) (map as_slice batch)
    \<and> port_inv cpu L cont n ic (evs @ new) (dispatch_owned_batch cpu L CL now batch bytes p)"
proof (cases "batch = [] \<or> ap_encoder_enabled p \<or> ap_backends p = []")
  case True
  have "\<exists>new. subseq (payloads new) (map as_slice batch) \<and> port_inv cpu L cont n ic (evs @ new) p"
    using i by (intro exI [of _ "[]"]) simp
  then show ?thesis using True write_payloads_inv [OF C i, of batch now] by (auto simp: dispatch_owned_batch_def)
next
  case False
  obtain r p1 where k: "port_pick CL now bytes p = (r, p1)" by fastforce
  have "list_all (backend_holds cont (port_items cpu L n ic evs)) (ap_backends p)" using i by (simp add: port_inv_def port_holds_def)
  from port_pick_keeps [OF _ this k] False obtain idx where p1: "r = Some idx" "same_tx p p1"
    "port_holds cont (port_items cpu L n ic evs) p1" by (auto simp: port_holds_def)
  have i1: "port_inv cpu L cont n ic evs p1" by (rule port_inv_skip [OF i p1(2,3)])
  have off: "\<not> ap_encoder_enabled p1" using False p1(2) by (simp add: same_tx_def)
  obtain frames sb p2 where a: "assign_seqs batch p1 = (frames, sb, p2)" by (cases "assign_seqs batch p1") auto
  obtain new where new: "subseq (payloads new) (map as_slice batch)" "port_inv cpu L cont n ic (evs @ new) p2"
    "frame_item ` set frames \<subseteq> port_items cpu L n ic (evs @ new)"
    using assign_seqs_inv [OF i1 off ne a] by blast
  obtain lo p3 where s: "send_batch_loop CL (Suc (length (ap_backends p2))) idx sb frames p2 = (lo, p3)" by fastforce
  have "port_holds cont (port_items cpu L n ic (evs @ new)) p2" using new(2) by (simp add: port_inv_def)
  from send_batch_loop_keeps [OF C s this new(3)]
  have "port_inv cpu L cont n ic (evs @ new) p3" using port_inv_skip [OF new(2)] by blast
  then show ?thesis
    using new(1,2) False by (intro exI [of _ new]) (simp add: dispatch_owned_batch_def k p1(1) a s Let_def del: send_batch_loop.simps)
qed

lemma collect_batch_ok:
  "collect_batch batch bytes rx = (batch', bytes', rest) \<Longrightarrow> \<forall>f \<in> set batch. as_slice f \<noteq> [] \<Longrightarrow>
   \<forall>f \<in> set batch'. as_slice f \<noteq> []"
proof (induction rx arbitrary: batch bytes)
  case (Cons f rx)
  consider "\<not> bytes < DISPATCH_BATCH_MAX_BYTES" | "bytes < DISPATCH_BATCH_MAX_BYTES" "as_slice f = []"
    | "bytes < DISPATCH_BATCH_MAX_BYTES" "as_slice f \<noteq> []" by blast
  then show ?case
  proof cases
    case 1
    then have "batch' = batch" using Cons.prems(1) by (simp only: collect_batch.simps if_False prod.inject)
    then show ?thesis using Cons.prems(2) by (simp only:)
  next
    case 2
    then have "collect_batch batch bytes rx = (batch', bytes', rest)"
      using Cons.prems(1) by (simp only: collect_batch.simps if_True simp_thms)
    then show ?thesis by (rule Cons.IH [OF _ Cons.prems(2)])
  next
    case 3
    then have "collect_batch (batch @ [f]) (bytes + of_nat (length (as_slice f))) rx = (batch', bytes', rest)"
      using Cons.prems(1) by (simp only: collect_batch.simps if_True if_False)
    moreover have "\<forall>f \<in> set (batch @ [f]). as_slice f \<noteq> []" using Cons.prems(2) 3(2) by simp
    ultimately show ?thesis by (rule Cons.IH)
  qed
qed simp

lemma dispatch_round_inv:
  assumes C: "chan_ok CL cont" and i: "port_inv cpu L cont n ic evs p"
    and r: "dispatch_round cpu L CL now slot frame rx p = (rest, p')"
  shows "\<exists>new. subseq (payloads new) (map as_slice (fst (collect_batch [frame] (of_nat (length (as_slice frame))) rx)))
    \<and> port_inv cpu L cont n ic (evs @ new) p'"
proof (cases "as_slice frame = [] \<or> \<not> slot")
  case True
  then have "port_inv cpu L cont n ic evs p'" using r i by (auto simp: dispatch_round_def split: if_splits)
  then show ?thesis by (intro exI [of _ "[]"]) simp
next
  case False
  obtain batch bytes rest' where c: "collect_batch [frame] (of_nat (length (as_slice frame))) rx = (batch, bytes, rest')"
    by (cases "collect_batch [frame] (of_nat (length (as_slice frame))) rx")
  have "p' = dispatch_owned_batch cpu L CL now batch bytes p" using r False by (simp add: dispatch_round_def c)
  moreover have "\<forall>f \<in> set batch. as_slice f \<noteq> []" by (rule collect_batch_ok [OF c]) (use False in simp)
  ultimately show ?thesis using dispatch_owned_batch_inv [OF C i, of batch now bytes] by (simp add: c)
qed

lemma try_recv_backend_batch_ok:
  assumes C: "chan_ok CL cont" and b: "backend_inv b" and r: "try_recv_backend_batch CL b budget = (r, b')"
  shows "backend_inv b'" "backend_contents cont b = (case r of None \<Rightarrow> [] | Some x \<Rightarrow> fb_frames x) @ backend_contents cont b'"
    "pb_fence_gen b' = pb_fence_gen b" "pb_chan_id b' = pb_chan_id b"
proof -
  have "backend_inv b' \<and> backend_contents cont b = (case r of None \<Rightarrow> [] | Some x \<Rightarrow> fb_frames x) @ backend_contents cont b'
    \<and> pb_fence_gen b' = pb_fence_gen b \<and> pb_chan_id b' = pb_chan_id b"
  proof (cases "pb_owned b")
    case None
    then show ?thesis
      using C b r by (auto simp: try_recv_backend_batch_def chan_ok_def backend_contents_def backend_inv_def
          batch_from_frame_def batch_push_def batch_empty_def split: option.splits)
  next
    case (Some q)
    obtain x q' where p: "try_pop_fitting q budget = (x, q')" by fastforce
    have "oq_inv q" using b Some by (simp add: backend_inv_def)
    from try_pop_fitting_ok(1,2) [OF this p] show ?thesis
      using r Some p by (auto simp: try_recv_backend_batch_def backend_contents_def backend_inv_def)
  qed
  then show "backend_inv b'" "backend_contents cont b = (case r of None \<Rightarrow> [] | Some x \<Rightarrow> fb_frames x) @ backend_contents cont b'"
    "pb_fence_gen b' = pb_fence_gen b" "pb_chan_id b' = pb_chan_id b" by blast+
qed

end
