(* ===== verification/Port_Trace.thy ===== *)
theory Port_Trace
  imports Port_Run
begin

text \<open>
  Event sequences of a port and what reaches the TLS writers, tied to the encoder run of
  \<open>Port_Run\<close>; then the composition with the receive session of the peer.
\<close>

subsection \<open>Runs\<close>

text \<open>
  The events of a port: a connection that registers or goes away, a frame or a batch written, a
  round of the dispatch thread, a batch taken by the writer of connection \<open>i\<close>, and whatever
  the environment changes beside (round-trip time, scheduler counters, wake-up flag).
\<close>

datatype 'c port_event =
    Pe_Register "'c pbackend"
  | Pe_Unregister nat
  | Pe_Write u64 frame_payload
  | Pe_Batch u64 "frame_payload list"
  | Pe_Dispatch u64 bool frame_payload "frame_payload list"
  | Pe_Recv nat nat
  | Pe_Env nat u32 sched_state "notify option"

fun port_step :: "cpu \<Rightarrow> crypto_lib \<Rightarrow> 'c chan_lib \<Rightarrow> 'c port_event \<Rightarrow> 'c async_port \<Rightarrow> vpn_frame list \<times> 'c async_port" where
  "port_step cpu L CL (Pe_Register b) p = ([], register_backend b p)"
| "port_step cpu L CL (Pe_Unregister ch) p = ([], unregister_backend ch p)"
| "port_step cpu L CL (Pe_Write now f) p = ([], write_payload cpu L CL now f p)"
| "port_step cpu L CL (Pe_Batch now fs) p = ([], write_payload_batch cpu L CL now fs p)"
| "port_step cpu L CL (Pe_Dispatch now slot f rx) p = ([], snd (dispatch_round cpu L CL now slot f rx p))"
| "port_step cpu L CL (Pe_Recv i budget) p =
     (if i < length (ap_backends p) then
        (let (r, b) = try_recv_backend_batch CL (ap_backends p ! i) budget
         in (case r of None \<Rightarrow> [] | Some x \<Rightarrow> fb_frames x, p\<lparr>ap_backends := (ap_backends p)[i := b]\<rparr>))
      else ([], p))"
| "port_step cpu L CL (Pe_Env i rtt s nt) p =
     (if i < length (ap_backends p)
      then ([], p\<lparr>ap_backends := (ap_backends p)[i := (ap_backends p ! i)\<lparr>pb_rtt := rtt, pb_sched := s, pb_notify := nt\<rparr>]\<rparr>)
      else ([], p))"

fun port_run :: "cpu \<Rightarrow> crypto_lib \<Rightarrow> 'c chan_lib \<Rightarrow> 'c port_event list \<Rightarrow> 'c async_port \<Rightarrow> vpn_frame list \<times> 'c async_port" where
  "port_run cpu L CL [] p = ([], p)"
| "port_run cpu L CL (ev # evs) p =
     (let (out, p1) = port_step cpu L CL ev p; (outs, p2) = port_run cpu L CL evs p1 in (out @ outs, p2))"

text \<open>The payloads an event hands to the port.\<close>

fun event_payloads :: "'c port_event \<Rightarrow> bytes list" where
  "event_payloads (Pe_Write now f) = [as_slice f]"
| "event_payloads (Pe_Batch now fs) = map as_slice fs"
| "event_payloads (Pe_Dispatch now slot f rx) = map as_slice (fst (collect_batch [f] (of_nat (length (as_slice f))) rx))"
| "event_payloads ev = []"

text \<open>A connection registers with an empty queue and no fence generation.\<close>

definition fresh_backend :: "('c \<Rightarrow> vpn_frame list) \<Rightarrow> 'c pbackend \<Rightarrow> bool" where
  "fresh_backend cont b \<longleftrightarrow> backend_inv b \<and> backend_contents cont b = [] \<and> pb_fence_gen b = 0"

fun event_ok :: "('c \<Rightarrow> vpn_frame list) \<Rightarrow> 'c port_event \<Rightarrow> bool" where
  "event_ok cont (Pe_Register b) = fresh_backend cont b"
| "event_ok cont ev = True"

lemma port_inv_backends:
  "port_inv cpu L cont n ic evs p \<Longrightarrow> list_all (backend_holds cont (port_items cpu L n ic evs)) bs \<Longrightarrow>
   port_inv cpu L cont n ic evs (p\<lparr>ap_backends := bs\<rparr>) \<and> port_inv cpu L cont n ic evs (p\<lparr>ap_backends := bs, ap_preferred := k\<rparr>)"
  by (simp add: port_inv_def port_holds_def)

lemma port_step_inv:
  assumes C: "chan_ok CL cont" and i: "port_inv cpu L cont n ic evs p" and e: "event_ok cont ev"
    and s: "port_step cpu L CL ev p = (out, p')"
  shows "\<exists>new. subseq (payloads new) (event_payloads ev) \<and> port_inv cpu L cont n ic (evs @ new) p'
    \<and> frame_item ` set out \<subseteq> port_items cpu L n ic evs"
proof -
  let ?H = "backend_holds cont (port_items cpu L n ic evs)"
  have h: "list_all ?H (ap_backends p)" using i by (simp add: port_inv_def port_holds_def)
  note keep = port_inv_backends [OF i]
  have quiet: ?thesis if "port_inv cpu L cont n ic evs p'" "frame_item ` set out \<subseteq> port_items cpu L n ic evs"
    using that by (intro exI [of _ "[]"]) simp
  show ?thesis
  proof (cases ev)
    case (Pe_Register b)
    have "list_all ?H (ap_backends p @ [b])"
      using h e by (simp add: Pe_Register fresh_backend_def backend_holds_def)
    from keep [OF this] show ?thesis using s by (intro quiet) (auto simp: Pe_Register register_backend_def)
  next
    case (Pe_Unregister ch)
    have "list_all ?H (filter (\<lambda>b. pb_chan_id b \<noteq> ch) (ap_backends p))" using h by (simp add: list_all_iff)
    from keep [OF this, of USIZE_MAX] show ?thesis
      using s by (intro quiet) (auto simp: Pe_Unregister unregister_backend_def)
  next
    case (Pe_Write now f)
    then have "out = []" "p' = write_payload cpu L CL now f p" using s by simp_all
    then show ?thesis using write_payload_inv [OF C i] Pe_Write by simp
  next
    case (Pe_Batch now fs)
    then have "out = []" "p' = write_payload_batch cpu L CL now fs p" using s by simp_all
    then show ?thesis using write_payload_batch_inv [OF C i] Pe_Batch by simp
  next
    case (Pe_Dispatch now slot f rx)
    obtain rest p1 where d: "dispatch_round cpu L CL now slot f rx p = (rest, p1)" by fastforce
    then have "out = []" "p' = p1" using s by (simp_all add: Pe_Dispatch)
    then show ?thesis using dispatch_round_inv [OF C i d] Pe_Dispatch by simp
  next
    case (Pe_Recv j budget)
    show ?thesis
    proof (cases "j < length (ap_backends p)")
      case True
      obtain r b where t: "try_recv_backend_batch CL (ap_backends p ! j) budget = (r, b)" by fastforce
      have hj: "?H (ap_backends p ! j)" by (rule list_all_nth [OF h True])
      then have inv: "backend_inv (ap_backends p ! j)" by (simp add: backend_holds_def)
      note ok = try_recv_backend_batch_ok [OF C inv t]
      have o: "out = (case r of None \<Rightarrow> [] | Some x \<Rightarrow> fb_frames x)" "p' = p\<lparr>ap_backends := (ap_backends p)[j := b]\<rparr>"
        using s True t by (simp_all add: Pe_Recv)
      have sub: "frame_item ` (set out \<union> set (backend_contents cont b)) \<subseteq> port_items cpu L n ic evs"
        using hj unfolding backend_holds_def ok(2) o(1) [symmetric] by simp
      then have "?H b" using ok(1) by (auto simp: backend_holds_def)
      from keep [OF list_all_update [OF h this]] show ?thesis using o sub by (intro quiet) auto
    next
      case False
      then have "out = []" "p' = p" using s by (simp_all add: Pe_Recv)
      then show ?thesis using i by (intro quiet) simp_all
    qed
  next
    case (Pe_Env j rtt sc nt)
    show ?thesis
    proof (cases "j < length (ap_backends p)")
      case True
      have "?H ((ap_backends p ! j)\<lparr>pb_rtt := rtt, pb_sched := sc, pb_notify := nt\<rparr>)" using list_all_nth [OF h True] by simp
      from keep [OF list_all_update [OF h this]] show ?thesis using s True by (intro quiet) (auto simp: Pe_Env)
    next
      case False
      then have "out = []" "p' = p" using s by (simp_all add: Pe_Env)
      then show ?thesis using i by (intro quiet) simp_all
    qed
  qed
qed

lemma port_run_inv:
  assumes "chan_ok CL cont" "port_inv cpu L cont n ic evs p" "list_all (event_ok cont) es" "port_run cpu L CL es p = (out, p')"
  shows "\<exists>new. subseq (payloads new) (concat (map event_payloads es)) \<and> port_inv cpu L cont n ic (evs @ new) p'
    \<and> frame_item ` set out \<subseteq> port_items cpu L n ic (evs @ new)"
  using assms(2-)
proof (induction es arbitrary: evs p out)
  case Nil
  then show ?case by (intro exI [of _ "[]"]) simp
next
  case (Cons e es)
  obtain o1 p1 where s: "port_step cpu L CL e p = (o1, p1)" by fastforce
  obtain o2 p2 where r: "port_run cpu L CL es p1 = (o2, p2)" by fastforce
  have o: "out = o1 @ o2" "p' = p2" using Cons.prems(3) by (simp_all add: s r)
  have ok: "event_ok cont e" "list_all (event_ok cont) es" using Cons.prems(2) by simp_all
  obtain a where a: "subseq (payloads a) (event_payloads e)" "port_inv cpu L cont n ic (evs @ a) p1"
    "frame_item ` set o1 \<subseteq> port_items cpu L n ic evs"
    using port_step_inv [OF assms(1) Cons.prems(1) ok(1) s] by blast
  obtain b where b: "subseq (payloads b) (concat (map event_payloads es))" "port_inv cpu L cont n ic ((evs @ a) @ b) p2"
    "frame_item ` set o2 \<subseteq> port_items cpu L n ic ((evs @ a) @ b)"
    using Cons.IH [OF a(2) ok(2) r [folded o(2)]] o(2) by blast
  have "frame_item ` set o1 \<subseteq> port_items cpu L n ic (evs @ (a @ b))" using a(3) port_items_mono by blast
  then show ?case
    using b list_emb_append_mono [OF a(1) b(1)] by (intro exI [of _ "a @ b"]) (simp add: o image_Un)
qed

lemma port_inv_reset:
  assumes "list_all (fresh_backend cont) (ap_backends p)"
  shows "port_inv cpu L cont n ic [] (reset_epoch n ic p)"
  using assms by (auto simp: port_inv_def reset_epoch_def Let_def port_enc_def port_holds_def list_all_iff
      fresh_backend_def backend_holds_def)

end
