(* ===== verification/Session_Tx.thy ===== *)
theory Session_Tx
  imports Port_Trace "HOL-Library.Monad_Syntax"
begin

text \<open>
  The TLS writer of a server connection (\<open>flush_outbound\<close> and \<open>drain_tls\<close> of \<open>server.rs\<close>) and
  the counters of \<open>stats_accounting.rs\<close>. The rustls connection with its socket is a parameter
  (\<open>tls_lib\<close>); what is relied on is stated in \<open>tls_ok\<close>. A result \<open>None\<close> stands for a panic or
  a loop that does not return. Corking is an advisory socket option and is left out.
\<close>

subsection \<open>Frame counters\<close>

record tx_frame_totals =
  data_frames :: u64
  parity_frames :: u64
  control_frames :: u64
  data_wire_bytes :: u64
  parity_wire_bytes :: u64

definition totals_default :: tx_frame_totals where
  "totals_default =
     \<lparr>data_frames = 0, parity_frames = 0, control_frames = 0, data_wire_bytes = 0, parity_wire_bytes = 0\<rparr>"

definition add_frame :: "u32 \<Rightarrow> bytes \<Rightarrow> nat \<Rightarrow> tx_frame_totals \<Rightarrow> tx_frame_totals" where
  "add_frame seq payload wire_bytes t =
     (if seq \<noteq> 0 then
        t\<lparr>data_frames := saturating_add (data_frames t) 1,
          data_wire_bytes := saturating_add (data_wire_bytes t) (of_nat wire_bytes)\<rparr>
      else if payload \<noteq> [] \<and> hd payload = CONTROL_KIND_FEC_PARITY then
        t\<lparr>parity_frames := saturating_add (parity_frames t) 1,
          parity_wire_bytes := saturating_add (parity_wire_bytes t) (of_nat wire_bytes)\<rparr>
      else t\<lparr>control_frames := saturating_add (control_frames t) 1\<rparr>)"

text \<open>\<open>TxFrameCounters::record\<close>: the atomics wrap.\<close>

definition record_totals :: "tx_frame_totals \<Rightarrow> tx_frame_totals \<Rightarrow> tx_frame_totals" where
  "record_totals t c =
     \<lparr>data_frames = data_frames c + data_frames t, parity_frames = parity_frames c + parity_frames t,
      control_frames = control_frames c + control_frames t, data_wire_bytes = data_wire_bytes c + data_wire_bytes t,
      parity_wire_bytes = parity_wire_bytes c + parity_wire_bytes t\<rparr>"

record padding_stats =
  pad_wire_bytes :: u64
  pad_bytes :: u64

definition record_padding_write :: "nat \<Rightarrow> nat \<Rightarrow> padding_stats \<Rightarrow> padding_stats" where
  "record_padding_write wire_bytes n s =
     \<lparr>pad_wire_bytes = pad_wire_bytes s + of_nat wire_bytes, pad_bytes = pad_bytes s + of_nat n\<rparr>"

subsection \<open>The TLS connection\<close>

datatype tls_io = Tls_Wrote nat | Tls_Would_Block | Tls_Error

record 't tls_lib =
  tls_wants_write :: "'t \<Rightarrow> bool"
  tls_write_all :: "'t \<Rightarrow> bytes \<Rightarrow> 't option"
  tls_write_tls :: "'t \<Rightarrow> tls_io \<times> 't"

text \<open>
  The documented contract: a connection wants to write exactly while ciphertext is buffered,
  and a successful write sends some of it.
\<close>

definition tls_ok :: "'t tls_lib \<Rightarrow> ('t \<Rightarrow> nat) \<Rightarrow> bool" where
  "tls_ok TL backlog \<longleftrightarrow>
     (\<forall>t. tls_wants_write TL t \<longleftrightarrow> backlog t > 0)
     \<and> (\<forall>t n t'. tls_write_tls TL t = (Tls_Wrote n, t') \<longrightarrow> n > 0 \<longrightarrow> backlog t' < backlog t)"

subsection \<open>The session\<close>

record ('c, 't) tx_session =
  ts_tls :: 't
  ts_backend :: "'c pbackend"
  ts_epoch :: u64
  ts_pad_limit :: nat
  ts_write_stalled :: "nat option"
  ts_pending_payload :: u64
  ts_leftover :: bool
  ts_tx_packets :: u64
  ts_tx_bytes :: u64
  ts_written :: tx_frame_totals
  ts_padding :: padding_stats

text \<open>The loop of \<open>drain_tls\<close>: whether the connection has to close, and the new state.\<close>

partial_function (option) drain_tls_loop ::
  "'t tls_lib \<Rightarrow> nat \<Rightarrow> ('c, 't) tx_session \<Rightarrow> (bool \<times> ('c, 't) tx_session) option" where
  "drain_tls_loop TL now s =
     (if \<not> tls_wants_write TL (ts_tls s) then Some (False, s)
      else
        case tls_write_tls TL (ts_tls s) of
          (Tls_Wrote n, t) \<Rightarrow>
            if n = 0 then Some (True, s\<lparr>ts_tls := t\<rparr>) else drain_tls_loop TL now (s\<lparr>ts_tls := t\<rparr>)
        | (Tls_Would_Block, t) \<Rightarrow>
            Some (False, s\<lparr>ts_tls := t, ts_write_stalled := (if ts_write_stalled s = None then Some now else ts_write_stalled s)\<rparr>)
        | (Tls_Error, t) \<Rightarrow> Some (True, s\<lparr>ts_tls := t\<rparr>))"

definition drain_tls ::
  "'t tls_lib \<Rightarrow> nat \<Rightarrow> u64 \<Rightarrow> ('c, 't) tx_session \<Rightarrow> (bool \<times> ('c, 't) tx_session) option" where
  "drain_tls TL now now_us s =
     do {
       (close, s1) \<leftarrow> drain_tls_loop TL now s;
       Some (close,
         if tls_wants_write TL (ts_tls s1) then s1
         else
           let n = ts_pending_payload s1; b = ts_backend s1
           in s1\<lparr>ts_write_stalled := None, ts_pending_payload := 0,
                 ts_backend := (if n \<noteq> 0 then b\<lparr>pb_sched := observe_delivered now_us n (complete_queued n (pb_sched b))\<rparr> else b)\<rparr>)
     }"

subsection \<open>Pulling frames\<close>

text \<open>The buffer being filled, and what the loop of \<open>flush_outbound\<close> counts.\<close>

record 'c pull_state =
  pl_backend :: "'c pbackend"
  pl_buf :: bytes
  pl_rng :: u64
  pl_last :: "nat option"
  pl_pulled :: u64
  pl_payload :: u64
  pl_totals :: tx_frame_totals

fun append_frames ::
  "crypto_lib \<Rightarrow> u8 \<Rightarrow> bytes \<Rightarrow> inner_cipher option \<Rightarrow> vpn_frame list \<Rightarrow> 'c pull_state \<Rightarrow> 'c pull_state option" where
  "append_frames L code cache ic [] st = Some st"
| "append_frames L code cache ic (f # fs) st =
     (let ic_ref = (if vf_seq f \<noteq> 0 then ic else None)
      in case append_unpadded_frame L code cache (pl_buf st) (vf_seq f) (as_slice (vf_data f)) ic_ref (pl_rng st) of
           None \<Rightarrow> None
         | Some (start, buf, rng) \<Rightarrow>
             append_frames L code cache ic fs
               (st\<lparr>pl_buf := buf, pl_rng := rng, pl_last := Some start,
                   pl_totals := add_frame (vf_seq f) (as_slice (vf_data f)) (length buf - length (pl_buf st)) (pl_totals st)\<rparr>))"

definition pull_budget :: "bytes \<Rightarrow> nat" where
  "pull_budget buf = MAX_TLS_PLAINTEXT_RECORD - STREAM_PAD_ABSOLUTE_LIMIT - length buf"

text \<open>The loop; the flag says that it stopped at its limit.\<close>

partial_function (option) pull_loop ::
  "crypto_lib \<Rightarrow> 'c chan_lib \<Rightarrow> u8 \<Rightarrow> bytes \<Rightarrow> inner_cipher option \<Rightarrow> 'c pull_state \<Rightarrow> (bool \<times> 'c pull_state) option" where
  "pull_loop L CL code cache ic st =
     (if length (pl_buf st) \<ge> STREAM_TLS_BATCH_SOFT_LIMIT \<or> pl_pulled st \<ge> 2048 then Some (True, st)
      else
        case try_recv_backend_batch CL (pl_backend st) (pull_budget (pl_buf st)) of
          (None, b) \<Rightarrow> Some (False, st\<lparr>pl_backend := b\<rparr>)
        | (Some batch, b) \<Rightarrow>
            do {
              st1 \<leftarrow> append_frames L code cache ic (fb_frames batch) (st\<lparr>pl_backend := b\<rparr>);
              pull_loop L CL code cache ic
                (st1\<lparr>pl_payload := saturating_add (pl_payload st1) (fb_bytes batch),
                     pl_pulled := saturating_add (pl_pulled st1) (of_nat (length (fb_frames batch)))\<rparr>)
            })"

definition consume_backend_wake :: "'c pbackend \<Rightarrow> 'c pbackend" where
  "consume_backend_wake b = b\<lparr>pb_notify := map_option consume_wake (pb_notify b)\<rparr>"

text \<open>The counters after a plaintext was accepted by TLS.\<close>

definition account_write :: "bytes \<Rightarrow> nat \<Rightarrow> 'c pull_state \<Rightarrow> 't \<Rightarrow> ('c, 't) tx_session \<Rightarrow> ('c, 't) tx_session" where
  "account_write buf padded st t s =
     (let s1 = s\<lparr>ts_tls := t, ts_tx_bytes := ts_tx_bytes s + of_nat (length buf),
                 ts_pending_payload := saturating_add (ts_pending_payload s) (pl_payload st)\<rparr>
      in if pl_pulled st \<noteq> 0
         then s1\<lparr>ts_tx_packets := ts_tx_packets s1 + pl_pulled st,
                 ts_written := record_totals (pl_totals st) (ts_written s1),
                 ts_padding := record_padding_write (length buf) padded (ts_padding s1)\<rparr>
         else s1)"

text \<open>The end of \<open>flush_outbound\<close>: the filled buffer is handed to TLS, with its accounting.\<close>

definition flush_write ::
  "'t tls_lib \<Rightarrow> nat \<Rightarrow> u64 \<Rightarrow> nat \<Rightarrow> bytes \<Rightarrow> 'c pull_state \<Rightarrow> ('c, 't) tx_session
     \<Rightarrow> (bytes \<times> bool \<times> ('c, 't) tx_session) option" where
  "flush_write TL now now_us padded buf st s =
     (if buf = [] then do { (close, s1) \<leftarrow> drain_tls TL now now_us s; Some ([], close, s1) }
      else
        case tls_write_all TL (ts_tls s) buf of
          None \<Rightarrow> Some ([], True, s)
        | Some t \<Rightarrow>
            do { (close, s1) \<leftarrow> drain_tls TL now now_us (account_write buf padded st t s); Some (buf, close, s1) })"

text \<open>The middle of \<open>flush_outbound\<close>: pull, pad the tail, write.\<close>

definition flush_pull ::
  "'t tls_lib \<Rightarrow> crypto_lib \<Rightarrow> 'c chan_lib \<Rightarrow> u8 \<Rightarrow> bytes \<Rightarrow> nat \<Rightarrow> u64 \<Rightarrow> inner_cipher option \<Rightarrow> u64
     \<Rightarrow> ('c, 't) tx_session \<Rightarrow> (bytes \<times> bool \<times> ('c, 't) tx_session) option" where
  "flush_pull TL L CL code cache now now_us ic_tx rng s =
     do {
       (hit, st) \<leftarrow> pull_loop L CL code cache ic_tx
         \<lparr>pl_backend = ts_backend s, pl_buf = [], pl_rng = rng, pl_last = None, pl_pulled = 0, pl_payload = 0,
          pl_totals = totals_default\<rparr>;
       (padded, buf, rng1) \<leftarrow> (if pl_pulled st \<noteq> 0
          then pad_stream_batch_tail code cache (pl_buf st) (pl_last st) (ts_pad_limit s) (pl_rng st)
          else Some (0, pl_buf st, pl_rng st));
       flush_write TL now now_us padded buf st (s\<lparr>ts_backend := pl_backend st, ts_leftover := hit\<rparr>)
     }"

text \<open>
  \<open>flush_outbound\<close>: the plaintext handed to TLS (empty when none), whether the connection has
  to close, and the session. \<open>epoch\<close> and \<open>ic_tx\<close> are the session's current epoch state.
\<close>

definition flush_outbound ::
  "'t tls_lib \<Rightarrow> crypto_lib \<Rightarrow> 'c chan_lib \<Rightarrow> u8 \<Rightarrow> bytes \<Rightarrow> nat \<Rightarrow> u64 \<Rightarrow> u64 \<Rightarrow> inner_cipher option \<Rightarrow> u64
     \<Rightarrow> ('c, 't) tx_session \<Rightarrow> (bytes \<times> bool \<times> ('c, 't) tx_session) option" where
  "flush_outbound TL L CL code cache now now_us epoch ic_tx rng s0 =
     (let s = s0\<lparr>ts_backend := consume_backend_wake (ts_backend s0)\<rparr>;
          busy = (ts_write_stalled s \<noteq> None \<or> tls_wants_write TL (ts_tls s))
      in do {
           (close0, s1) \<leftarrow> (if busy then drain_tls TL now now_us s else Some (False, s));
           if busy \<and> (close0 \<or> tls_wants_write TL (ts_tls s1)) then Some ([], close0, s1)
           else if epoch \<noteq> ts_epoch s1 then Some ([], True, s1)
           else flush_pull TL L CL code cache now now_us ic_tx rng s1
         })"

end
