(* ===== verification/Session_Tx_Props.thy ===== *)
theory Session_Tx_Props
  imports Session_Tx
begin

text \<open>
  The writer of a connection: its loops return, what it hands to TLS is a prefix of what is
  queued, framed and sealed in order, and the peer decodes exactly those frames.
\<close>

subsection \<open>Draining TLS\<close>

lemma drain_tls_loop_returns:
  assumes T: "tls_ok TL backlog"
  shows "\<exists>close s' t st. drain_tls_loop TL now s = Some (close, s') \<and> s' = s\<lparr>ts_tls := t, ts_write_stalled := st\<rparr>
    \<and> (\<not> close \<longrightarrow> \<not> tls_wants_write TL t \<or> st \<noteq> None)"
proof (induction "backlog (ts_tls s)" arbitrary: s rule: less_induct)
  case less
  obtain io t where w: "tls_write_tls TL (ts_tls s) = (io, t)" by fastforce
  have one: ?case if "drain_tls_loop TL now s = Some (c, s\<lparr>ts_tls := t', ts_write_stalled := st\<rparr>)"
      "\<not> c \<longrightarrow> \<not> tls_wants_write TL t' \<or> st \<noteq> None" for c t' st
    using that by blast
  show ?case
  proof (cases "tls_wants_write TL (ts_tls s)")
    case False
    then have "drain_tls_loop TL now s = Some (False, s\<lparr>ts_tls := ts_tls s, ts_write_stalled := ts_write_stalled s\<rparr>)"
      by (subst drain_tls_loop.simps) simp
    then show ?thesis by (rule one) (simp add: False)
  next
    case True
    show ?thesis
    proof (cases io)
      case (Tls_Wrote n)
      show ?thesis
      proof (cases "n = 0")
        case zero: True
        then have "drain_tls_loop TL now s = Some (True, s\<lparr>ts_tls := t, ts_write_stalled := ts_write_stalled s\<rparr>)"
          using True w Tls_Wrote by (subst drain_tls_loop.simps) simp
        then show ?thesis by (rule one) simp
      next
        case n: False
        then have "backlog (ts_tls (s\<lparr>ts_tls := t\<rparr>)) < backlog (ts_tls s)" using T w Tls_Wrote by (auto simp: tls_ok_def)
        from less [OF this] obtain c t' st where d:
          "drain_tls_loop TL now (s\<lparr>ts_tls := t\<rparr>) = Some (c, s\<lparr>ts_tls := t', ts_write_stalled := st\<rparr>)"
          "\<not> c \<longrightarrow> \<not> tls_wants_write TL t' \<or> st \<noteq> None" by auto
        have "drain_tls_loop TL now s = drain_tls_loop TL now (s\<lparr>ts_tls := t\<rparr>)"
          using True w Tls_Wrote n by (subst drain_tls_loop.simps) simp
        then show ?thesis using d one by simp
      qed
    next
      case Tls_Would_Block
      then have "drain_tls_loop TL now s = Some (False, s\<lparr>ts_tls := t,
          ts_write_stalled := (if ts_write_stalled s = None then Some now else ts_write_stalled s)\<rparr>)"
        using True w by (subst drain_tls_loop.simps) simp
      then show ?thesis by (rule one) simp
    next
      case Tls_Error
      then have "drain_tls_loop TL now s = Some (True, s\<lparr>ts_tls := t, ts_write_stalled := ts_write_stalled s\<rparr>)"
        using True w by (subst drain_tls_loop.simps) simp
      then show ?thesis by (rule one) simp
    qed
  qed
qed

text \<open>Draining leaves the queue of the connection alone.\<close>

lemma drain_tls_returns:
  assumes "tls_ok TL backlog"
  obtains close s' where "drain_tls TL now now_us s = Some (close, s')"
    "backend_contents cont (ts_backend s') = backend_contents cont (ts_backend s)"
    "backend_inv (ts_backend s') = backend_inv (ts_backend s)" "ts_epoch s' = ts_epoch s" "ts_leftover s' = ts_leftover s"
    "ts_pad_limit s' = ts_pad_limit s" "pb_owned (ts_backend s') = pb_owned (ts_backend s)"
    "\<not> close \<Longrightarrow> tls_wants_write TL (ts_tls s') \<Longrightarrow> ts_write_stalled s' \<noteq> None"
proof -
  obtain close s1 t st where l: "drain_tls_loop TL now s = Some (close, s1)" "s1 = s\<lparr>ts_tls := t, ts_write_stalled := st\<rparr>"
    "\<not> close \<longrightarrow> \<not> tls_wants_write TL t \<or> st \<noteq> None"
    using drain_tls_loop_returns [OF assms, of now s] by blast
  show ?thesis
    by (rule that [unfolded drain_tls_def l(1) Option.bind.simps prod.case, OF refl])
      (use l(2,3) in \<open>simp_all add: Let_def split: if_splits\<close>)
qed

subsection \<open>Appending a batch\<close>

abbreviation wires :: "(u32 \<times> bytes \<times> bytes) list \<Rightarrow> bytes" where
  "wires ws \<equiv> concat (map (\<lambda>(seq, body, pad). wire_frame seq body pad) ws)"

definition sealed_frame :: "crypto_lib \<Rightarrow> inner_cipher option \<Rightarrow> vpn_frame \<Rightarrow> bytes \<times> u32" where
  "sealed_frame L ic f = (sealed L ic (vf_seq f) (as_slice (vf_data f)), vf_seq f)"

definition frames_on_wire ::
  "crypto_lib \<Rightarrow> inner_cipher option \<Rightarrow> vpn_frame list \<Rightarrow> (u32 \<times> bytes \<times> bytes) list \<Rightarrow> bool" where
  "frames_on_wire L ic fs ws \<longleftrightarrow>
     map (\<lambda>(seq, body, pad). (body, seq)) ws = map (sealed_frame L ic) fs \<and> (\<forall>(seq, body, pad) \<in> set ws. pad = [])"

lemma frames_on_wire_append:
  "frames_on_wire L ic fs ws \<Longrightarrow> frames_on_wire L ic gs vs \<Longrightarrow> frames_on_wire L ic (fs @ gs) (ws @ vs)"
  by (auto simp: frames_on_wire_def)

lemma append_frames_ok:
  assumes L: "crypto_lib_ok L" "4096 \<le> length cache"
  shows "\<exists>ws rng totals last. append_frames L code cache ic fs st =
      Some (st\<lparr>pl_buf := pl_buf st @ wires ws, pl_rng := rng, pl_last := last, pl_totals := totals\<rparr>)
    \<and> frames_on_wire L ic fs ws
    \<and> (if fs = [] then last = pl_last st else last = Some (length (pl_buf st @ wires (butlast ws))))"
proof (induction fs arbitrary: st)
  case Nil
  show ?case
    by (intro exI [of _ "[]"] exI [of _ "pl_rng st"] exI [of _ "pl_totals st"] exI [of _ "pl_last st"])
      (simp add: frames_on_wire_def)
next
  case (Cons f fs)
  define ref where "ref = (if vf_seq f \<noteq> 0 then ic else None)"
  obtain pad rng where a: "append_padded_frame_with_limit L code cache (pl_buf st) (vf_seq f) (as_slice (vf_data f)) ref 1 (pl_rng st) =
      Some (pl_buf st @ wire_frame (vf_seq f) (sealed L ref (vf_seq f) (as_slice (vf_data f))) pad, rng)"
    "length pad = fst (pad_length_with_limit code (length (sealed L ref (vf_seq f) (as_slice (vf_data f)))) 1 (pl_rng st))"
    using append_padded_frame_wire [OF L] by blast
  define w where "w = (vf_seq f, sealed L ref (vf_seq f) (as_slice (vf_data f)), pad)"
  have "pad = []" using a(2) pad_bucket_with_limit_none by (simp add: pad_length_with_limit_def split: if_splits)
  then have w: "frames_on_wire L ic [f] [w]"
    by (auto simp: frames_on_wire_def w_def sealed_frame_def ref_def sealed_def split: option.split)
  define st1 where "st1 = st\<lparr>pl_buf := pl_buf st @ wires [w], pl_rng := rng, pl_last := Some (length (pl_buf st)),
      pl_totals := add_frame (vf_seq f) (as_slice (vf_data f)) (length (pl_buf st @ wires [w]) - length (pl_buf st)) (pl_totals st)\<rparr>"
  have s: "append_frames L code cache ic (f # fs) st = append_frames L code cache ic fs st1"
    using a(1) by (simp add: ref_def [symmetric] append_unpadded_frame_def st1_def w_def)
  obtain ws rng' totals last where i: "append_frames L code cache ic fs st1 =
      Some (st1\<lparr>pl_buf := pl_buf st1 @ wires ws, pl_rng := rng', pl_last := last, pl_totals := totals\<rparr>)"
    "frames_on_wire L ic fs ws"
    "if fs = [] then last = pl_last st1 else last = Some (length (pl_buf st1 @ wires (butlast ws)))"
    using Cons.IH [of st1] by blast
  have e: "fs = [] \<longleftrightarrow> ws = []" using i(2) by (auto simp: frames_on_wire_def)
  have "last = Some (length (pl_buf st @ wires (butlast (w # ws))))" using i(3) e by (auto simp: st1_def)
  then have "if f # fs = [] then last = pl_last st else last = Some (length (pl_buf st @ wires (butlast (w # ws))))" by simp
  moreover have "frames_on_wire L ic (f # fs) (w # ws)" using frames_on_wire_append [OF w i(2)] by simp
  moreover have "append_frames L code cache ic (f # fs) st =
      Some (st\<lparr>pl_buf := pl_buf st @ wires (w # ws), pl_rng := rng', pl_last := last, pl_totals := totals\<rparr>)"
    unfolding s i(1) by (simp add: st1_def)
  ultimately show ?case by blast
qed

lemma frames_on_wire_length:
  assumes L: "crypto_lib_ok L" and w: "frames_on_wire L ic fs ws"
  shows "length (wires ws) \<le> sum_list (map (\<lambda>f. length (as_slice (vf_data f))) fs) + 26 * length fs"
  using w
proof (induction fs arbitrary: ws)
  case (Cons f fs)
  obtain seq body pad vs where ws: "ws = (seq, body, pad) # vs" using Cons.prems by (cases ws) (auto simp: frames_on_wire_def)
  have "frames_on_wire L ic fs vs" "pad = []" "body = sealed L ic (vf_seq f) (as_slice (vf_data f))"
    using Cons.prems by (auto simp: ws frames_on_wire_def sealed_frame_def)
  then show ?case
    using Cons.IH [of vs] length_sealed [OF L, of ic "vf_seq f" "as_slice (vf_data f)"] by (simp add: ws wire_frame_def)
qed (simp add: frames_on_wire_def)

subsection \<open>Pulling\<close>

definition frame_fits :: "vpn_frame \<Rightarrow> bool" where
  "frame_fits f \<longleftrightarrow> length (as_slice (vf_data f)) + 16 \<le> MAX_DATA_LENGTH"

text \<open>A batch of an owned queue fits the budget it was taken with.\<close>

lemma recv_batch_wire:
  assumes "backend_inv b" "pb_owned b \<noteq> None" "try_recv_backend_batch CL b budget = (Some x, b')" "list_all frame_fits (fb_frames x)"
  shows "sum_list (map (\<lambda>f. length (as_slice (vf_data f))) (fb_frames x)) + 32 * length (fb_frames x) \<le> budget" "pb_owned b' \<noteq> None"
proof -
  obtain q where q: "pb_owned b = Some q" "oq_inv q" using assms(1,2) by (auto simp: backend_inv_def)
  obtain r q' where p: "try_pop_fitting q budget = (r, q')" by fastforce
  have r: "r = Some x" "b' = b\<lparr>pb_owned := Some q'\<rparr>" using assms(3) q(1) p by (simp_all add: try_recv_backend_batch_def)
  then show "pb_owned b' \<noteq> None" by simp
  have i: "batch_inv (oq_max_batch q) x" "estimated_wire x \<le> budget" "length (fb_frames x) \<le> 32"
    using try_pop_fitting_ok(3) [OF q(2) p r(1)] q(2) by (auto simp: batch_inv_def oq_inv_def)
  have "unat (frame_bytes f) = length (as_slice (vf_data f))" if "f \<in> set (fb_frames x)" for f
  proof -
    have "length (as_slice (vf_data f)) < 2 ^ 64" using assms(4) that by (fastforce simp: list_all_iff frame_fits_def MAX_DATA_LENGTH_def)
    then show ?thesis by (simp add: frame_bytes_def unat_of_nat take_bit_nat_eq_self)
  qed
  then have "unat (fb_bytes x) = sum_list (map (\<lambda>f. length (as_slice (vf_data f))) (fb_frames x))"
    using i(1) by (simp add: batch_inv_def cong: map_cong)
  moreover have "unat (fb_bytes x) + 32 * length (fb_frames x) \<le> USIZE_MAX \<Longrightarrow> unat (fb_bytes x) + 32 * length (fb_frames x) \<le> budget"
    using i(2) by (simp add: estimated_wire_def OWNED_BATCH_WIRE_OVERHEAD_PER_FRAME_def min_def split: if_splits)
  moreover have "sum_list (map (\<lambda>f. length (as_slice (vf_data f))) fs) \<le> length fs * MAX_DATA_LENGTH" if "list_all frame_fits fs" for fs
    using that by (induction fs) (auto simp: frame_fits_def)
  note this [OF assms(4)]
  moreover have "length (fb_frames x) * MAX_DATA_LENGTH + 32 * length (fb_frames x) \<le> USIZE_MAX"
    using i(3) by (simp add: MAX_DATA_LENGTH_def USIZE_MAX_def)
  ultimately show "sum_list (map (\<lambda>f. length (as_slice (vf_data f))) (fb_frames x)) + 32 * length (fb_frames x) \<le> budget" by simp
qed

text \<open>The buffer stays within the record budget.\<close>

definition pull_fits :: "('c \<Rightarrow> vpn_frame list) \<Rightarrow> 'c pull_state \<Rightarrow> bool" where
  "pull_fits cont st \<longleftrightarrow> pb_owned (pl_backend st) \<noteq> None \<and> list_all frame_fits (backend_contents cont (pl_backend st)) \<and> length (pl_buf st) \<le> 15872"

lemma recv_batch_nonempty:
  assumes "backend_inv b" "try_recv_backend_batch CL b budget = (Some x, b')"
  shows "fb_frames x \<noteq> []" "length (fb_frames x) \<le> 32"
proof -
  have "fb_frames x \<noteq> [] \<and> length (fb_frames x) \<le> 32"
  proof (cases "pb_owned b")
    case None
    then show ?thesis
      using assms by (auto simp: try_recv_backend_batch_def batch_from_frame_def batch_push_def batch_empty_def split: option.splits)
  next
    case (Some q)
    obtain r q' where p: "try_pop_fitting q budget = (r, q')" by fastforce
    have q: "oq_inv q" using assms(1) Some by (simp add: backend_inv_def)
    have "r = Some x" using assms(2) Some p by (simp add: try_recv_backend_batch_def)
    from try_pop_fitting_ok(3) [OF q p this] show ?thesis using q by (auto simp: batch_inv_def oq_inv_def)
  qed
  then show "fb_frames x \<noteq> []" "length (fb_frames x) \<le> 32" by blast+
qed

lemma saturating_count_nonzero:
  assumes "0 < n" "n \<le> 32"
  shows "saturating_add a (of_nat n :: u64) \<noteq> 0"
proof -
  have "unat (of_nat n :: u64) = n" using assms(2) by (simp add: unat_of_nat)
  then have "0 < unat (saturating_add a (of_nat n :: u64))" using assms(1) by (simp add: unat_saturating_add)
  then show ?thesis by auto
qed

definition pull_result ::
  "crypto_lib \<Rightarrow> 'c chan_lib \<Rightarrow> ('c \<Rightarrow> vpn_frame list) \<Rightarrow> inner_cipher option \<Rightarrow> 'c pull_state \<Rightarrow> bool \<Rightarrow> 'c pull_state
     \<Rightarrow> vpn_frame list \<Rightarrow> (u32 \<times> bytes \<times> bytes) list \<Rightarrow> bool" where
  "pull_result L CL cont ic st hit st' fs ws \<longleftrightarrow>
     backend_contents cont (pl_backend st) = fs @ backend_contents cont (pl_backend st')
     \<and> backend_inv (pl_backend st') \<and> pl_buf st' = pl_buf st @ wires ws \<and> frames_on_wire L ic fs ws
     \<and> (if fs = [] then pl_last st' = pl_last st \<and> pl_pulled st' = pl_pulled st
        else pl_last st' = Some (length (pl_buf st @ wires (butlast ws))) \<and> pl_pulled st' \<noteq> 0)
     \<and> (\<not> hit \<longrightarrow> try_recv_backend_batch CL (pl_backend st') (pull_budget (pl_buf st')) = (None, pl_backend st'))
     \<and> (pull_fits cont st \<longrightarrow> pull_fits cont st')"

lemma recv_none_same:
  "try_recv_backend_batch CL b budget = (None, b') \<Longrightarrow> b' = b"
  by (auto simp: try_recv_backend_batch_def try_pop_fitting_def split: option.splits list.splits if_splits)

lemma pull_result_step:
  assumes r: "pull_result L CL cont ic st1 hit st' fs ws" and c: "backend_contents cont (pl_backend st) = gs @ backend_contents cont (pl_backend st1)"
    and b: "pl_buf st1 = pl_buf st @ wires vs" "frames_on_wire L ic gs vs" "gs \<noteq> []"
    and l: "pl_last st1 = Some (length (pl_buf st @ wires (butlast vs)))" "pl_pulled st1 \<noteq> 0" "pull_fits cont st \<longrightarrow> pull_fits cont st1"
  shows "pull_result L CL cont ic st hit st' (gs @ fs) (vs @ ws)"
proof -
  have e: "fs = [] \<longleftrightarrow> ws = []" using r by (auto simp: pull_result_def frames_on_wire_def)
  have "pl_last st' = Some (length (pl_buf st @ wires (butlast (vs @ ws)))) \<and> pl_pulled st' \<noteq> 0"
    using r b(1) l e by (cases "ws = []") (auto simp: pull_result_def butlast_append)
  moreover have "frames_on_wire L ic (gs @ fs) (vs @ ws)"
    using r by (intro frames_on_wire_append [OF b(2)]) (simp add: pull_result_def)
  ultimately show ?thesis using r c b(1,3) l(3) unfolding pull_result_def by auto
qed

lemma pull_fits_step:
  assumes L: "crypto_lib_ok L" and C: "chan_ok CL cont" and b: "backend_inv (pl_backend st)"
    and t: "try_recv_backend_batch CL (pl_backend st) (pull_budget (pl_buf st)) = (Some x, b')"
    and w: "frames_on_wire L ic (fb_frames x) ws" and s: "pl_backend st1 = b'" "pl_buf st1 = pl_buf st @ wires ws"
  shows "pull_fits cont st \<longrightarrow> pull_fits cont st1"
proof
  assume f: "pull_fits cont st"
  have c: "backend_contents cont (pl_backend st) = fb_frames x @ backend_contents cont b'" using try_recv_backend_batch_ok(2) [OF C b t] by simp
  have fits: "list_all frame_fits (fb_frames x)" "list_all frame_fits (backend_contents cont b')" using f c by (simp_all add: pull_fits_def)
  note r = recv_batch_wire [OF b _ t fits(1)]
  have "length (pl_buf st1) \<le> 15872"
  proof -
    have "sum_list (map (\<lambda>f. length (as_slice (vf_data f))) (fb_frames x)) + 32 * length (fb_frames x) \<le> 15872 - length (pl_buf st)"
      "length (pl_buf st) \<le> 15872"
      using r(1) f by (simp_all add: pull_fits_def pull_budget_def MAX_TLS_PLAINTEXT_RECORD_def STREAM_PAD_ABSOLUTE_LIMIT_def)
    then show ?thesis using frames_on_wire_length [OF L w] by (simp only: s(2) length_append)
  qed
  then show "pull_fits cont st1" using f fits(2) r(2) s by (simp add: pull_fits_def)
qed

lemma pull_loop_ok:
  assumes L: "crypto_lib_ok L" "4096 \<le> length cache" and C: "chan_ok CL cont"
  shows "backend_inv (pl_backend st) \<Longrightarrow>
    \<exists>hit st' fs ws. pull_loop L CL code cache ic st = Some (hit, st') \<and> pull_result L CL cont ic st hit st' fs ws"
proof (induction "length (backend_contents cont (pl_backend st))" arbitrary: st rule: less_induct)
  case less
  obtain r b where t: "try_recv_backend_batch CL (pl_backend st) (pull_budget (pl_buf st)) = (r, b)" by fastforce
  note ok = try_recv_backend_batch_ok [OF C less.prems t]
  have stop: ?case if "pull_loop L CL code cache ic st = Some (hit, st\<lparr>pl_backend := pl_backend st\<rparr>)"
      "\<not> hit \<longrightarrow> try_recv_backend_batch CL (pl_backend st) (pull_budget (pl_buf st)) = (None, pl_backend st)" for hit
    using that less.prems
    by (intro exI [of _ hit] exI [of _ "st\<lparr>pl_backend := pl_backend st\<rparr>"] exI [of _ "[]"])
      (auto simp: pull_result_def frames_on_wire_def)
  show ?case
  proof (cases "length (pl_buf st) \<ge> STREAM_TLS_BATCH_SOFT_LIMIT \<or> pl_pulled st \<ge> 2048")
    case True
    show ?thesis by (rule stop [of True], subst pull_loop.simps) (use True in simp_all)
  next
    case False
    show ?thesis
    proof (cases r)
      case None
      then have "b = pl_backend st" using t recv_none_same by blast
      then show ?thesis by (intro stop [of False], subst pull_loop.simps) (use False None t in simp_all)
    next
      case (Some x)
      note ne = recv_batch_nonempty [OF less.prems t [unfolded Some]]
      obtain ws rng totals last where a: "append_frames L code cache ic (fb_frames x) (st\<lparr>pl_backend := b\<rparr>) =
          Some (st\<lparr>pl_backend := b, pl_buf := pl_buf st @ wires ws, pl_rng := rng, pl_last := last, pl_totals := totals\<rparr>)"
        "frames_on_wire L ic (fb_frames x) ws" "last = Some (length (pl_buf st @ wires (butlast ws)))"
        using append_frames_ok [OF L, of code ic "fb_frames x" "st\<lparr>pl_backend := b\<rparr>"] ne(1) by auto
      define st1 where "st1 = st\<lparr>pl_backend := b, pl_buf := pl_buf st @ wires ws, pl_rng := rng, pl_last := last, pl_totals := totals,
          pl_payload := saturating_add (pl_payload st) (fb_bytes x),
          pl_pulled := saturating_add (pl_pulled st) (of_nat (length (fb_frames x)))\<rparr>"
      have s: "pull_loop L CL code cache ic st = pull_loop L CL code cache ic st1"
        using False t Some a(1) by (subst pull_loop.simps) (simp add: st1_def)
      have c: "backend_contents cont (pl_backend st) = fb_frames x @ backend_contents cont (pl_backend st1)"
        using ok(2) Some by (simp add: st1_def)
      have "length (backend_contents cont (pl_backend st1)) < length (backend_contents cont (pl_backend st))"
        using c ne(1) by simp
      moreover have "backend_inv (pl_backend st1)" using ok(1) by (simp add: st1_def)
      ultimately obtain hit st' fs vs where i: "pull_loop L CL code cache ic st1 = Some (hit, st')"
        "pull_result L CL cont ic st1 hit st' fs vs" using less.hyps by blast
      have "pl_pulled st1 \<noteq> 0" using saturating_count_nonzero [of "length (fb_frames x)"] ne by (simp add: st1_def)
      then have "pull_result L CL cont ic st hit st' (fb_frames x @ fs) (ws @ vs)"
        using pull_fits_step [OF L(1) C less.prems t [unfolded Some] a(2), of st1]
        by (intro pull_result_step [OF i(2) c _ a(2) ne(1)]) (simp_all add: st1_def a(3))
      then show ?thesis using s i(1) by auto
    qed
  qed
qed

subsection \<open>One flush\<close>

definition wire_ok :: "crypto_lib \<Rightarrow> inner_cipher option \<Rightarrow> vpn_frame list \<Rightarrow> bytes \<Rightarrow> bool" where
  "wire_ok L ic fs pt \<longleftrightarrow>
     (\<exists>ws. pt = wires ws \<and> map (\<lambda>(seq, body, pad). (body, seq)) ws = map (sealed_frame L ic) fs
        \<and> (\<forall>(seq, body, pad) \<in> set ws. length pad < 2 ^ 16))"

lemma wire_ok_Nil [simp]: "wire_ok L ic [] []"
  unfolding wire_ok_def by (intro exI [of _ "[]"]) simp

lemma wire_ok_append: "wire_ok L ic fs a \<Longrightarrow> wire_ok L ic gs b \<Longrightarrow> wire_ok L ic (fs @ gs) (a @ b)"
  unfolding wire_ok_def by (elim exE, rule_tac x = "ws @ wsa" in exI) auto

lemma wire_ok_cases:
  assumes "wire_ok L ic fs pt"
  obtains (Nil) "fs = []" "pt = []"
  | (Cons) f gs pad rest where "fs = f # gs" "pt = wire_frame (vf_seq f) (sealed L ic (vf_seq f) (as_slice (vf_data f))) pad @ rest"
      "length pad < 2 ^ 16" "wire_ok L ic gs rest"
proof -
  obtain ws where ws: "pt = wires ws" "map (\<lambda>(seq, body, pad). (body, seq)) ws = map (sealed_frame L ic) fs"
    "\<forall>(seq, body, pad) \<in> set ws. length pad < 2 ^ 16" using assms unfolding wire_ok_def by blast
  show ?thesis
  proof (cases ws)
    case Nil
    then show ?thesis using ws that(1) by simp
  next
    case (Cons w vs)
    obtain seq body pad where w: "w = (seq, body, pad)" by (cases w)
    obtain f gs where fs: "fs = f # gs" "sealed_frame L ic f = (body, seq)" using ws(2) Cons w by (cases fs) auto
    then have f: "seq = vf_seq f" "body = sealed L ic (vf_seq f) (as_slice (vf_data f))" by (auto simp: sealed_frame_def)
    have "wire_ok L ic gs (wires vs)" unfolding wire_ok_def using ws Cons fs by auto
    then show ?thesis using that(2) [OF fs(1)] ws Cons w f by auto
  qed
qed

text \<open>The peer's decoder on a flushed plaintext: exactly the frames, whatever follows.\<close>

lemma wire_ok_parse:
  assumes L: "crypto_lib_ok L" and w: "wire_ok L ic fs pt" and fit: "list_all frame_fits fs"
  shows "parse_all MAX_DATA_LENGTH (pt @ rest) =
    (map (sealed_frame L ic) fs @ fst (parse_all MAX_DATA_LENGTH rest), snd (parse_all MAX_DATA_LENGTH rest))"
proof -
  obtain ws where ws: "pt = wires ws" "map (\<lambda>(seq, body, pad). (body, seq)) ws = map (sealed_frame L ic) fs"
    "\<forall>(seq, body, pad) \<in> set ws. length pad < 2 ^ 16" using w unfolding wire_ok_def by blast
  have "length body \<le> MAX_DATA_LENGTH" if "(seq, body, pad) \<in> set ws" for seq body pad
  proof -
    have "(body, seq) \<in> set (map (sealed_frame L ic) fs)" using that unfolding ws(2) [symmetric] by force
    then obtain f where "f \<in> set fs" "body = sealed L ic (vf_seq f) (as_slice (vf_data f))" by (auto simp: sealed_frame_def)
    then show ?thesis
      using fit length_sealed [OF L, of ic "vf_seq f" "as_slice (vf_data f)"] by (fastforce simp: list_all_iff frame_fits_def)
  qed
  then have "\<forall>(seq, body, pad) \<in> set ws. length body \<le> MAX_DATA_LENGTH \<and> length body < 2 ^ 32 \<and> length pad < 2 ^ 16"
    using ws(3) by (fastforce simp: MAX_DATA_LENGTH_def)
  from parse_all_wire [OF this] show ?thesis by (simp add: ws(1,2))
qed

lemma open_sealed_frame: "crypto_lib_ok L \<Longrightarrow> open_payload L ic (sealed_frame L ic f) = Some (as_slice (vf_data f))"
  by (simp add: sealed_frame_def open_payload_sealed)

lemma padded_flush:
  assumes r: "pull_result L CL cont ic st hit st' fs ws" and L: "crypto_lib_ok L" and fit: "list_all frame_fits fs"
    and st: "pl_buf st = []" "pl_pulled st = 0"
  shows "\<exists>n buf rng. (if pl_pulled st' \<noteq> 0 then pad_stream_batch_tail code cache (pl_buf st') (pl_last st') limit (pl_rng st')
      else Some (0, pl_buf st', pl_rng st')) = Some (n, buf, rng) \<and> wire_ok L ic fs buf
      \<and> (pull_fits cont st \<longrightarrow> length buf \<le> MAX_TLS_PLAINTEXT_RECORD)"
proof (cases "fs = []")
  case True
  then have "ws = []" using r by (auto simp: pull_result_def frames_on_wire_def)
  then show ?thesis using r st True by (simp add: pull_result_def pull_fits_def MAX_TLS_PLAINTEXT_RECORD_def)
next
  case False
  have f: "frames_on_wire L ic fs ws" "pl_buf st' = wires ws" "pl_last st' = Some (length (wires (butlast ws)))" "pl_pulled st' \<noteq> 0"
    using r False st by (auto simp: pull_result_def)
  have m: "map (\<lambda>(seq, body, pad). (body, seq)) ws = map (sealed_frame L ic) fs" "\<forall>(seq, body, pad) \<in> set ws. pad = []"
    using f(1) by (auto simp: frames_on_wire_def)
  have ne: "ws \<noteq> []" using m(1) False by auto
  then obtain vs seq body pad where vs: "ws = vs @ [(seq, body, pad)]" by (metis append_butlast_last_id prod_cases3)
  have "(body, seq) \<in> set (map (sealed_frame L ic) fs)" unfolding m(1) [symmetric] vs by simp
  then obtain g where "g \<in> set fs" "body = sealed L ic (vf_seq g) (as_slice (vf_data g))" by (auto simp: sealed_frame_def)
  then have "length body < 2 ^ 32"
    using fit length_sealed [OF L, of ic "vf_seq g" "as_slice (vf_data g)"]
    by (fastforce simp: list_all_iff frame_fits_def MAX_DATA_LENGTH_def)
  moreover have "length pad < 2 ^ 16" using m(2) vs by simp
  moreover have "pl_buf st' = wires vs @ wire_frame seq body pad" using f(2) vs by simp
  ultimately obtain cover rng where
    "pad_stream_batch_tail code cache (pl_buf st') (Some (length (wires vs))) limit (pl_rng st') =
       Some (length cover, wires vs @ wire_frame seq body (pad @ cover), rng)" "length (pad @ cover) < 2 ^ 16"
    and size: "length (pl_buf st') + length cover \<le> max 16384 (length (pl_buf st'))"
    using pad_tail_wire [of body pad "pl_buf st'" "wires vs" seq code cache limit "pl_rng st'"] by blast
  moreover from this(2) have "wire_ok L ic fs (wires vs @ wire_frame seq body (pad @ cover))"
    unfolding wire_ok_def using m vs by (intro exI [of _ "vs @ [(seq, body, pad @ cover)]"]) auto
  moreover have "length (wires vs @ wire_frame seq body (pad @ cover)) = length (pl_buf st') + length cover"
    using \<open>pl_buf st' = wires vs @ wire_frame seq body pad\<close> by (simp add: wire_frame_def)
  moreover have "pull_fits cont st \<longrightarrow> length (pl_buf st') \<le> 15872" using r unfolding pull_result_def pull_fits_def by blast
  ultimately show ?thesis using f(3,4) vs size by (simp add: MAX_TLS_PLAINTEXT_RECORD_def max_def split: if_splits)
qed

lemma consume_backend_wake_simps [simp]:
  "pb_owned (consume_backend_wake b) = pb_owned b" "backend_contents cont (consume_backend_wake b) = backend_contents cont b" "backend_inv (consume_backend_wake b) = backend_inv b"
  by (simp_all add: consume_backend_wake_def)

definition flushed ::
  "crypto_lib \<Rightarrow> ('c \<Rightarrow> vpn_frame list) \<Rightarrow> inner_cipher option \<Rightarrow> ('c, 't) tx_session \<Rightarrow> bytes \<Rightarrow> bool \<Rightarrow> ('c, 't) tx_session \<Rightarrow> bool" where
  "flushed L cont ic s pt close s' \<longleftrightarrow>
     backend_inv (ts_backend s')
     \<and> (\<exists>fs. backend_contents cont (ts_backend s) = fs @ backend_contents cont (ts_backend s')
          \<and> (wire_ok L ic fs pt \<or> pt = [] \<and> close))
     \<and> (pb_owned (ts_backend s) \<noteq> None \<longrightarrow> length pt \<le> MAX_TLS_PLAINTEXT_RECORD)"

lemma drain_flushed:
  assumes T: "tls_ok TL backlog" and f: "flushed L cont ic s pt False s1"
  shows "\<exists>close s2. drain_tls TL now now_us s1 = Some (close, s2) \<and> flushed L cont ic s pt close s2"
proof -
  obtain close s2 where "drain_tls TL now now_us s1 = Some (close, s2)"
    "backend_contents cont (ts_backend s2) = backend_contents cont (ts_backend s1)" "backend_inv (ts_backend s2) = backend_inv (ts_backend s1)"
    by (rule drain_tls_returns [OF T])
  then show ?thesis using f by (auto simp: flushed_def)
qed

lemma flush_write_ok:
  assumes T: "tls_ok TL backlog" and f: "flushed L cont ic s buf False s1"
  shows "\<exists>pt close s'. flush_write TL now now_us padded buf st s1 = Some (pt, close, s') \<and> flushed L cont ic s pt close s'"
proof (cases "buf = []")
  case True
  then show ?thesis using drain_flushed [OF T f, of now now_us] by (auto simp: flush_write_def)
next
  case ne: False
  show ?thesis
  proof (cases "tls_write_all TL (ts_tls s1) buf")
    case None
    have "flushed L cont ic s [] True s1" using f by (auto simp: flushed_def)
    then show ?thesis using ne None by (auto simp: flush_write_def)
  next
    case (Some t)
    have "flushed L cont ic s buf False (account_write buf padded st t s1)"
      using f by (simp add: flushed_def account_write_def Let_def)
    from drain_flushed [OF T this, of now now_us] show ?thesis using ne Some by (auto simp: flush_write_def)
  qed
qed

lemma flush_pull_ok:
  assumes T: "tls_ok TL backlog" and L: "crypto_lib_ok L" "4096 \<le> length cache" and C: "chan_ok CL cont"
    and b: "backend_inv (ts_backend s1)" and fit: "list_all frame_fits (backend_contents cont (ts_backend s1))"
    and s: "backend_contents cont (ts_backend s) = backend_contents cont (ts_backend s1)" "pb_owned (ts_backend s) = pb_owned (ts_backend s1)"
  shows "\<exists>pt close s'. flush_pull TL L CL code cache now now_us ic rng s1 = Some (pt, close, s') \<and> flushed L cont ic s pt close s'"
proof -
  define st where "st = \<lparr>pl_backend = ts_backend s1, pl_buf = [], pl_rng = rng, pl_last = None, pl_pulled = 0, pl_payload = 0,
      pl_totals = totals_default\<rparr>"
  have "backend_inv (pl_backend st)" using b by (simp add: st_def)
  from pull_loop_ok [OF L C this, of code ic] obtain hit st' fs ws where
    p: "pull_loop L CL code cache ic st = Some (hit, st')" "pull_result L CL cont ic st hit st' fs ws" by blast
  have c: "backend_contents cont (ts_backend s1) = fs @ backend_contents cont (pl_backend st')" "backend_inv (pl_backend st')"
    using p(2) by (simp_all add: pull_result_def st_def)
  have "list_all frame_fits fs" using fit c(1) by simp
  from padded_flush [OF p(2) L(1) this, of code cache "ts_pad_limit s1"] obtain n buf rng1 where
    q: "(if pl_pulled st' \<noteq> 0 then pad_stream_batch_tail code cache (pl_buf st') (pl_last st') (ts_pad_limit s1) (pl_rng st')
    else Some (0, pl_buf st', pl_rng st')) = Some (n, buf, rng1)" "wire_ok L ic fs buf"
    "pull_fits cont st \<longrightarrow> length buf \<le> MAX_TLS_PLAINTEXT_RECORD" by (auto simp: st_def)
  have "pb_owned (ts_backend s) \<noteq> None \<longrightarrow> length buf \<le> MAX_TLS_PLAINTEXT_RECORD"
    using q(3) fit s(2) by (simp add: pull_fits_def st_def)
  have "flush_pull TL L CL code cache now now_us ic rng s1 =
      flush_write TL now now_us n buf st' (s1\<lparr>ts_backend := pl_backend st', ts_leftover := hit\<rparr>)"
    unfolding flush_pull_def st_def [symmetric] p(1) Option.bind.simps prod.case q(1) ..
  moreover have "flushed L cont ic s buf False (s1\<lparr>ts_backend := pl_backend st', ts_leftover := hit\<rparr>)"
    using c q(2) s \<open>pb_owned (ts_backend s) \<noteq> None \<longrightarrow> length buf \<le> MAX_TLS_PLAINTEXT_RECORD\<close> by (auto simp: flushed_def)
  ultimately show ?thesis using flush_write_ok [OF T] by simp
qed

lemma flush_outbound_ok:
  assumes T: "tls_ok TL backlog" and L: "crypto_lib_ok L" "4096 \<le> length cache" and C: "chan_ok CL cont"
    and b: "backend_inv (ts_backend s)" and fit: "list_all frame_fits (backend_contents cont (ts_backend s))"
  shows "\<exists>pt close s'. flush_outbound TL L CL code cache now now_us epoch ic rng s = Some (pt, close, s') \<and> flushed L cont ic s pt close s'"
proof -
  define s0 where "s0 = s\<lparr>ts_backend := consume_backend_wake (ts_backend s)\<rparr>"
  define busy where "busy \<longleftrightarrow> ts_write_stalled s0 \<noteq> None \<or> tls_wants_write TL (ts_tls s0)"
  have s0: "flushed L cont ic s [] False s0" using b by (simp add: flushed_def s0_def)
  obtain close0 s1 where d: "(if busy then drain_tls TL now now_us s0 else Some (False, s0)) = Some (close0, s1)"
    and s1: "backend_contents cont (ts_backend s1) = backend_contents cont (ts_backend s)" "backend_inv (ts_backend s1)"
      "pb_owned (ts_backend s1) = pb_owned (ts_backend s)"
  proof (cases busy)
    case True
    obtain c s' where "drain_tls TL now now_us s0 = Some (c, s')"
      "backend_contents cont (ts_backend s') = backend_contents cont (ts_backend s0)" "backend_inv (ts_backend s') = backend_inv (ts_backend s0)"
      "pb_owned (ts_backend s') = pb_owned (ts_backend s0)"
      by (rule drain_tls_returns [OF T])
    then show ?thesis using that True b by (simp add: s0_def)
  next
    case False
    then show ?thesis using that b by (simp add: s0_def)
  qed
  have early: "flushed L cont ic s [] c s1" for c using s1 by (simp add: flushed_def)
  have pull: "\<exists>pt close s'. flush_pull TL L CL code cache now now_us ic rng s1 = Some (pt, close, s') \<and> flushed L cont ic s pt close s'"
    by (rule flush_pull_ok [OF T L C s1(2)]) (simp_all add: s1 fit)
  have "flush_outbound TL L CL code cache now now_us epoch ic rng s =
      (if busy \<and> (close0 \<or> tls_wants_write TL (ts_tls s1)) then Some ([], close0, s1)
       else if epoch \<noteq> ts_epoch s1 then Some ([], True, s1)
       else flush_pull TL L CL code cache now now_us ic rng s1)"
    unfolding flush_outbound_def Let_def s0_def [symmetric] busy_def [symmetric] d Option.bind.simps prod.case ..
  then show ?thesis using early pull by auto
qed

end
