(* ===== verification/Session_Rx.thy ===== *)
theory Session_Rx
  imports Session_Tx_Props
begin

text \<open>
  The receive path of a server connection (\<open>process_plain_frames\<close> and \<open>flush_server_rx_batch\<close> of
  \<open>server.rs\<close>): scanning, opening, the epoch check, and the hand-over to the receive actor of the
  session or, without one, to its shared decoder and reorder buffer. The handshake handler is an
  argument. What is delivered to the switch is returned as a list of frames.
\<close>

subsection \<open>State\<close>

datatype handshake_outcome = HS_Ok | HS_Close | HS_TarpitClose

record rx_conn =
  rc_scanner :: frame_scanner
  rc_handshake_done :: bool
  rc_ic_rx :: "inner_cipher option"
  rc_epoch :: u64
  rc_has_session :: bool
  rc_producer :: "rx_producer option"
  rc_last_rx :: nat
  rc_fec_batch :: "(u32 \<times> bytes) list"
  rc_reorder_input :: "(u32 \<times> bytes) list"

text \<open>The receive fields of \<open>ClientSession\<close>, shared by its connections.\<close>

record client_rx =
  cx_epoch :: u64
  cx_fec :: "fec_decoder option"
  cx_progress :: bool
  cx_actor :: "rx_actor option"
  cx_reorder :: reorder_buffer
  cx_dedup :: "u32 list"
  cx_active_conns :: u32
  cx_rx_bytes :: u64
  cx_rx_packets :: u64

text \<open>The locals of one call.\<close>

record plain_state =
  pn_conn :: rx_conn
  pn_client :: client_rx
  pn_out :: "bytes list"
  pn_close :: bool
  pn_tarpit :: bool
  pn_bytes :: u64
  pn_packets :: u64
  pn_batch_session :: bool

definition fec_progress :: "client_rx \<Rightarrow> u32 option" where
  "fec_progress c = (if cx_progress c then Some (expected_seq (cx_reorder c)) else None)"

fun insert_all :: "nat \<Rightarrow> (u32 \<times> bytes) list \<Rightarrow> reorder_buffer \<Rightarrow> bytes list \<times> reorder_buffer" where
  "insert_all now [] rb = ([], rb)"
| "insert_all now ((seq, frame) # xs) rb =
     (let (o1, rb1) = insert_into now seq frame rb; (o2, rb2) = insert_all now xs rb1 in (o1 @ o2, rb2))"

definition flush_server_rx_batch :: "cpu \<Rightarrow> nat \<Rightarrow> bool \<Rightarrow> plain_state \<Rightarrow> plain_state" where
  "flush_server_rx_batch cpu now bypass st =
     (let conn = pn_conn st; client = pn_client st;
          (recovered, fec) =
            (case cx_fec client of
               Some dec \<Rightarrow>
                 if rc_fec_batch conn \<noteq> [] then
                   (let (rs, dec') = on_data_batch cpu (fec_progress client) dec (rc_fec_batch conn) in (rs, Some dec'))
                 else ([], Some dec)
             | None \<Rightarrow> ([], None));
          input = rc_reorder_input conn @ recovered;
          conn1 = conn\<lparr>rc_fec_batch := []\<rparr>; client1 = client\<lparr>cx_fec := fec\<rparr>
      in if input = [] then st\<lparr>pn_conn := conn1\<lparr>rc_reorder_input := input\<rparr>, pn_client := client1\<rparr>
         else
           let direct_ok = (cx_actor client = None \<and> cx_fec client = None \<and> cx_active_conns client = 1 \<and> bypass);
               (direct, ready, rest, rb) =
                 (if direct_ok then try_direct_batch input (cx_reorder client1) else (False, [], input, cx_reorder client1));
               (out, rb1) = (if direct then (ready, rb) else insert_all now rest rb)
           in st\<lparr>pn_conn := conn1\<lparr>rc_reorder_input := []\<rparr>, pn_client := client1\<lparr>cx_reorder := rb1\<rparr>,
                 pn_out := pn_out st @ out\<rparr>)"

subsection \<open>One frame\<close>

text \<open>The flag says whether the read loop goes on.\<close>

definition plain_close :: "plain_state \<Rightarrow> bool \<times> plain_state" where
  "plain_close st = (False, st\<lparr>pn_close := True\<rparr>)"

text \<open>An opened frame of an established connection without a receive actor.\<close>

definition legacy_frame ::
  "cpu \<Rightarrow> crypto_lib \<Rightarrow> nat \<Rightarrow> nat \<Rightarrow> bool \<Rightarrow> u32 \<Rightarrow> bytes \<Rightarrow> plain_state \<Rightarrow> bool \<times> plain_state" where
  "legacy_frame cpu L now cap bypass seq data st0 =
     (let st = st0\<lparr>pn_batch_session := True\<rparr>; client = pn_client st; conn = pn_conn st
      in if seq = 0 then
           (case cx_fec client of
              None \<Rightarrow> plain_close st
            | Some dec \<Rightarrow>
                (case on_control cpu L (fec_progress client) dec data of
                   (Inl e, dec') \<Rightarrow> plain_close (st\<lparr>pn_client := client\<lparr>cx_fec := Some dec'\<rparr>\<rparr>)
                 | (Inr r, dec') \<Rightarrow>
                     (True, st\<lparr>pn_client := client\<lparr>cx_fec := Some dec'\<rparr>,
                               pn_conn := conn\<lparr>rc_reorder_input := rc_reorder_input conn
                                 @ (case r of None \<Rightarrow> [] | Some x \<Rightarrow> [x])\<rparr>\<rparr>)))
         else
           let conn1 = (if cx_fec client \<noteq> None then conn\<lparr>rc_fec_batch := rc_fec_batch conn @ [(seq, data)]\<rparr> else conn);
               static_rx = (cx_actor client = None \<and> cx_fec client = None \<and> cx_active_conns client = 1 \<and> bypass);
               (dup, dedup) = (if static_rx then (False, cx_dedup client) else is_duplicate (cx_dedup client) seq);
               conn2 = (if \<not> dup then conn1\<lparr>rc_reorder_input := rc_reorder_input conn1 @ [(seq, data)]\<rparr> else conn1);
               st1 = st\<lparr>pn_conn := conn2, pn_client := client\<lparr>cx_dedup := dedup\<rparr>\<rparr>
           in (True, if length (rc_fec_batch conn2) \<ge> cap \<or> length (rc_reorder_input conn2) \<ge> cap
                     then flush_server_rx_batch cpu now bypass st1 else st1))"

text \<open>A frame of an established connection; a session with a producer has an actor.\<close>

definition data_frame ::
  "cpu \<Rightarrow> crypto_lib \<Rightarrow> nat \<Rightarrow> nat \<Rightarrow> bool \<Rightarrow> bytes \<times> u32 \<Rightarrow> plain_state \<Rightarrow> bool \<times> plain_state" where
  "data_frame cpu L now cap bypass f st =
     (let conn = pn_conn st; client = pn_client st; seq = snd f
      in case open_payload L (rc_ic_rx conn) f of
           None \<Rightarrow> (True, st)
         | Some data \<Rightarrow>
             if \<not> rc_has_session conn then (True, st)
             else if rc_epoch conn \<noteq> cx_epoch client then plain_close st
             else
               case rc_producer conn of
                 Some p \<Rightarrow>
                   (case cx_actor client of
                      None \<Rightarrow> plain_close st
                    | Some a \<Rightarrow>
                        (let (ok, ready, wake, p', a') = producer_push cpu L now p a seq data;
                             st1 = st\<lparr>pn_conn := conn\<lparr>rc_producer := Some p'\<rparr>, pn_client := client\<lparr>cx_actor := Some a'\<rparr>,
                                      pn_out := pn_out st @ ready\<rparr>
                         in if ok then (True, st1) else plain_close st1))
               | None \<Rightarrow> legacy_frame cpu L now cap bypass seq data st)"

definition plain_frame ::
  "(rx_conn \<Rightarrow> client_rx \<Rightarrow> bytes \<Rightarrow> handshake_outcome \<times> rx_conn \<times> client_rx) \<Rightarrow> cpu \<Rightarrow> crypto_lib \<Rightarrow> nat \<Rightarrow> nat \<Rightarrow> bool
     \<Rightarrow> bytes \<times> u32 \<Rightarrow> plain_state \<Rightarrow> bool \<times> plain_state" where
  "plain_frame hs cpu L now cap bypass f st =
     (let (raw, seq) = f; conn = pn_conn st
      in if raw = [] then (True, st\<lparr>pn_conn := conn\<lparr>rc_last_rx := now\<rparr>\<rparr>)
         else if seq = 0 \<and> \<not> rc_handshake_done conn then
           (case hs conn (pn_client st) raw of
              (HS_Ok, conn1, client1) \<Rightarrow>
                (True, st\<lparr>pn_conn := conn1\<lparr>rc_handshake_done := True,
                                            rc_scanner := set_max_data_len (rc_scanner conn1) MAX_DATA_LENGTH\<rparr>,
                          pn_client := client1\<rparr>)
            | (HS_Close, conn1, client1) \<Rightarrow> plain_close (st\<lparr>pn_conn := conn1, pn_client := client1\<rparr>)
            | (HS_TarpitClose, conn1, client1) \<Rightarrow>
                plain_close (st\<lparr>pn_conn := conn1, pn_client := client1, pn_tarpit := True\<rparr>))
         else if rc_handshake_done conn then
           data_frame cpu L now cap bypass f
             (st\<lparr>pn_bytes := saturating_add (pn_bytes st) (of_nat (length raw + 10)),
                 pn_packets := saturating_add (pn_packets st) 1\<rparr>)
         else (True, st))"

subsection \<open>The read loop\<close>

partial_function (option) plain_loop ::
  "(rx_conn \<Rightarrow> client_rx \<Rightarrow> bytes \<Rightarrow> handshake_outcome \<times> rx_conn \<times> client_rx) \<Rightarrow> cpu \<Rightarrow> crypto_lib \<Rightarrow> nat \<Rightarrow> nat \<Rightarrow> bool
     \<Rightarrow> read_event list \<Rightarrow> plain_state \<Rightarrow> (read_event list \<times> plain_state) option" where
  "plain_loop hs cpu L now cap bypass evs st =
     (case read_frame (rc_scanner (pn_conn st)) evs of
        (Inr (Some f), sc, evs1) \<Rightarrow>
          (let (go, st1) = plain_frame hs cpu L now cap bypass f (st\<lparr>pn_conn := (pn_conn st)\<lparr>rc_scanner := sc\<rparr>\<rparr>)
           in if go then plain_loop hs cpu L now cap bypass evs1 st1 else Some (evs1, st1))
      | (Inr None, sc, evs1) \<Rightarrow> Some (evs1, st\<lparr>pn_conn := (pn_conn st)\<lparr>rc_scanner := sc\<rparr>\<rparr>)
      | (Inl e, sc, evs1) \<Rightarrow> Some (evs1, st\<lparr>pn_conn := (pn_conn st)\<lparr>rc_scanner := sc\<rparr>, pn_close := True\<rparr>))"

text \<open>After the loop: the last batch, the producer's error, the session's counters.\<close>

definition plain_finish :: "cpu \<Rightarrow> crypto_lib \<Rightarrow> nat \<Rightarrow> bool \<Rightarrow> plain_state \<Rightarrow> plain_state" where
  "plain_finish cpu L now bypass st =
     (let st1 =
        (case (rc_producer (pn_conn st), cx_actor (pn_client st)) of
           (Some p, Some a) \<Rightarrow>
             (let (ok, ready, wake, p1, a1) = producer_flush cpu L now p a;
                  (err, p2) = producer_take_error p1
              in st\<lparr>pn_conn := (pn_conn st)\<lparr>rc_producer := Some p2\<rparr>, pn_client := (pn_client st)\<lparr>cx_actor := Some a1\<rparr>,
                    pn_out := pn_out st @ ready, pn_close := (pn_close st \<or> \<not> ok \<or> err \<noteq> None)\<rparr>)
         | (Some p, None) \<Rightarrow> st
         | (None, _) \<Rightarrow> if pn_batch_session st then flush_server_rx_batch cpu now bypass st else st)
      in if pn_packets st1 \<noteq> 0 \<and> rc_has_session (pn_conn st1)
         then st1\<lparr>pn_client := (pn_client st1)\<lparr>cx_rx_bytes := cx_rx_bytes (pn_client st1) + pn_bytes st1,
                                 cx_rx_packets := cx_rx_packets (pn_client st1) + pn_packets st1\<rparr>\<rparr>
         else st1)"

definition process_plain_frames ::
  "(rx_conn \<Rightarrow> client_rx \<Rightarrow> bytes \<Rightarrow> handshake_outcome \<times> rx_conn \<times> client_rx) \<Rightarrow> cpu \<Rightarrow> crypto_lib \<Rightarrow> nat \<Rightarrow> nat \<Rightarrow> bool
     \<Rightarrow> read_event list \<Rightarrow> rx_conn \<Rightarrow> client_rx \<Rightarrow> (read_event list \<times> plain_state) option" where
  "process_plain_frames hs cpu L now cap bypass evs conn client =
     (let st = \<lparr>pn_conn = conn, pn_client = client, pn_out = [], pn_close = False, pn_tarpit = False, pn_bytes = 0,
                pn_packets = 0, pn_batch_session = False\<rparr>
      in case map_option producer_take_error (rc_producer conn) of
           Some (Some err, p) \<Rightarrow> Some (evs, st\<lparr>pn_conn := conn\<lparr>rc_producer := Some p\<rparr>, pn_close := True\<rparr>)
         | r \<Rightarrow> map_option (\<lambda>(evs1, st1). (evs1, plain_finish cpu L now bypass st1)) (plain_loop hs cpu L now cap bypass evs st))"

end
