(* ===== verification/Session_Rx_Props.thy ===== *)
theory Session_Rx_Props
  imports Session_Rx
begin

text \<open>
  An established connection reads a stream of framed payloads, cut anywhere: the read loop
  returns, no frame of a good stream is rejected, and what the session delivers keeps the
  contract of the receive session. The contract is the interface \<open>receive_session\<close>; the receive
  actor provides it.
\<close>

subsection \<open>Good streams\<close>

lemma next_frame_good:
  assumes L: "crypto_lib_ok L" and w: "wire_ok L ic fs (u @ r)" and fit: "list_all frame_fits fs"
  shows "next_frame MAX_DATA_LENGTH u \<noteq> Inl e"
    "next_frame MAX_DATA_LENGTH u = Inr (Some (x, u')) \<Longrightarrow>
       \<exists>f gs. fs = f # gs \<and> x = sealed_frame L ic f \<and> wire_ok L ic gs (u' @ r)"
proof -
  have whole: "(fs = [] \<and> u @ r = [] \<and> next_frame MAX_DATA_LENGTH (u @ r) = Inr None)
    \<or> (\<exists>f gs rest. fs = f # gs \<and> wire_ok L ic gs rest
        \<and> next_frame MAX_DATA_LENGTH (u @ r) = Inr (Some (sealed_frame L ic f, rest)))"
    using w
  proof (cases rule: wire_ok_cases)
    case Nil
    then show ?thesis by (simp add: next_frame_def)
  next
    case (Cons f gs pad rest)
    have "length (sealed L ic (vf_seq f) (as_slice (vf_data f))) \<le> MAX_DATA_LENGTH"
      using length_sealed [OF L, of ic "vf_seq f" "as_slice (vf_data f)"] fit Cons(1) by (simp add: frame_fits_def)
    moreover from this have "length (sealed L ic (vf_seq f) (as_slice (vf_data f))) < 2 ^ 32" by (simp add: MAX_DATA_LENGTH_def)
    ultimately have "next_frame MAX_DATA_LENGTH (u @ r) = Inr (Some (sealed_frame L ic f, rest))"
      using Cons(2,3) next_frame_wire by (simp add: sealed_frame_def)
    then show ?thesis using Cons(1,4) by blast
  qed
  show "next_frame MAX_DATA_LENGTH u \<noteq> Inl e"
  proof
    assume "next_frame MAX_DATA_LENGTH u = Inl e"
    then have "next_frame MAX_DATA_LENGTH (u @ r) = Inl e" by (rule next_frame_append(2))
    then show False using whole by auto
  qed
  assume "next_frame MAX_DATA_LENGTH u = Inr (Some (x, u'))"
  then have "next_frame MAX_DATA_LENGTH (u @ r) = Inr (Some (x, u' @ r))" by (rule next_frame_append(1))
  then show "\<exists>f gs. fs = f # gs \<and> x = sealed_frame L ic f \<and> wire_ok L ic gs (u' @ r)" using whole by auto
qed

subsection \<open>The contract of a receive session\<close>

text \<open>
  \<open>good\<close> holds for the items the peer may send, \<open>ok D a\<close> for an actor that has delivered \<open>D\<close>: a
  batch of good items and a timeout keep it.
\<close>

locale receive_session =
  fixes L :: crypto_lib
    and good :: "u32 \<times> bytes \<Rightarrow> bool"
    and ok :: "bytes list \<Rightarrow> rx_actor \<Rightarrow> bool"
  assumes crypto: "ok D a \<Longrightarrow> crypto_lib_ok L"
    and batch_ok: "ok D a \<Longrightarrow> list_all good frames \<Longrightarrow> process_batch cpu L now a g frames err = (ready, w, err', a') \<Longrightarrow>
      ok (D @ ready) a'"
    and timeout_ok: "ok D a \<Longrightarrow> rx_flush_timeout now a = (ready, a') \<Longrightarrow> ok (D @ ready) a'"
begin

definition producer_good :: "rx_producer \<Rightarrow> bool" where
  "producer_good p \<longleftrightarrow> list_all good (rp_batch p)"

definition stream_good :: "inner_cipher option \<Rightarrow> bytes \<Rightarrow> bool" where
  "stream_good ic bs \<longleftrightarrow>
     (\<exists>fs. wire_ok L ic fs bs \<and> list_all frame_fits fs \<and> list_all (\<lambda>f. good (frame_item f)) fs)"

text \<open>A scanner whose unread bytes and rest of the stream \<open>rem\<close> are good, and an established connection of it.\<close>

definition scan_good :: "inner_cipher option \<Rightarrow> frame_scanner \<Rightarrow> bytes \<Rightarrow> bool" where
  "scan_good ic sc rem \<longleftrightarrow> scanner_wf sc \<and> max_data_len sc = MAX_DATA_LENGTH \<and> stream_good ic (unread sc @ rem)"

definition conn_good :: "rx_conn \<Rightarrow> bytes \<Rightarrow> bool" where
  "conn_good conn rem \<longleftrightarrow>
     scan_good (rc_ic_rx conn) (rc_scanner conn) rem \<and> rc_handshake_done conn
     \<and> (\<exists>p. rc_producer conn = Some p \<and> producer_good p)"

definition client_good :: "bytes list \<Rightarrow> client_rx \<Rightarrow> bool" where
  "client_good D client \<longleftrightarrow> (\<exists>a. cx_actor client = Some a \<and> ok D a)"

lemma flush_good:
  assumes "ok D a" "producer_good p" "producer_flush cpu L now p a = (b, ready, w, p', a')"
  shows "ok (D @ ready) a' \<and> producer_good p'"
proof (cases "rp_batch p = []")
  case True
  then show ?thesis using assms by (auto simp: producer_flush_def)
next
  case False
  obtain r w1 e a1 where b: "process_batch cpu L now a (rp_generation p) (rp_batch p) (rp_error p) = (r, w1, e, a1)"
    by (metis prod_cases4)
  then show ?thesis using assms False batch_ok [OF assms(1) _ b] by (auto simp: producer_flush_def producer_good_def)
qed

lemma push_good:
  assumes "ok D a" "producer_good p" "good (seq, data)" "producer_push cpu L now p a seq data = (b, ready, w, p', a')"
  shows "ok (D @ ready) a' \<and> producer_good p'"
proof -
  define p1 where "p1 = p\<lparr>rp_batch := rp_batch p @ [(seq, data)]\<rparr>"
  have g: "producer_good p1" using assms(2,3) by (simp add: producer_good_def p1_def)
  consider "ready = []" "p' = p" "a' = a" | "ready = []" "p' = p1" "a' = a" | "producer_flush cpu L now p1 a = (b, ready, w, p', a')"
    using assms(4) unfolding producer_push_def Let_def p1_def [symmetric] by (auto split: if_splits)
  then show ?thesis using assms(1,2) g flush_good [OF assms(1) g] by cases auto
qed

lemma take_error_good: "producer_good p \<Longrightarrow> producer_take_error p = (err, p') \<Longrightarrow> producer_good p'"
  by (auto simp: producer_take_error_def producer_good_def split: prod.splits)

text \<open>One frame of a good stream.\<close>

lemma data_frame_good:
  assumes c: "client_good D (pn_client st)" and p: "rc_producer (pn_conn st) = Some p" "producer_good p"
    and f: "good (frame_item f)" and r: "data_frame cpu L now cap bypass (sealed_frame L (rc_ic_rx (pn_conn st)) f) st = (go, st')"
  shows "\<exists>ready p'. pn_out st' = pn_out st @ ready \<and> client_good (D @ ready) (pn_client st')
    \<and> pn_conn st' = (pn_conn st)\<lparr>rc_producer := Some p'\<rparr> \<and> producer_good p'"
proof -
  obtain a where a: "cx_actor (pn_client st) = Some a" "ok D a" using c by (auto simp: client_good_def)
  have o: "open_payload L (rc_ic_rx (pn_conn st)) (sealed_frame L (rc_ic_rx (pn_conn st)) f) = Some (as_slice (vf_data f))"
    by (rule open_sealed_frame [OF crypto [OF a(2)]])
  have s: "snd (sealed_frame L (rc_ic_rx (pn_conn st)) f) = vf_seq f" by (simp add: sealed_frame_def)
  have same: "pn_conn st = (pn_conn st)\<lparr>rc_producer := Some p\<rparr>" using p(1) by simp
  have quiet: ?thesis if "pn_out st' = pn_out st" "pn_client st' = pn_client st" "pn_conn st' = pn_conn st"
    using that c p by (intro exI [of _ "[]"] exI [of _ p]) (use same in simp)
  consider "\<not> rc_has_session (pn_conn st)" | "rc_has_session (pn_conn st)" "rc_epoch (pn_conn st) \<noteq> cx_epoch (pn_client st)"
    | "rc_has_session (pn_conn st)" "rc_epoch (pn_conn st) = cx_epoch (pn_client st)" by blast
  then show ?thesis
  proof cases
    case 1
    then show ?thesis using r o by (intro quiet) (auto simp: data_frame_def Let_def)
  next
    case 2
    then show ?thesis using r o by (intro quiet) (auto simp: data_frame_def Let_def plain_close_def)
  next
    case 3
    obtain b ready w p' a' where push: "producer_push cpu L now p a (vf_seq f) (as_slice (vf_data f)) = (b, ready, w, p', a')"
      by (metis prod_cases5)
    have g: "ok (D @ ready) a' \<and> producer_good p'"
      by (rule push_good [OF a(2) p(2) _ push]) (use f in \<open>simp add: frame_item_def\<close>)
    have "pn_out st' = pn_out st @ ready" "pn_conn st' = (pn_conn st)\<lparr>rc_producer := Some p'\<rparr>" "cx_actor (pn_client st') = Some a'"
      using r o s 3 p(1) a(1) push by (auto simp: data_frame_def Let_def plain_close_def split: if_splits)
    then show ?thesis using g by (auto simp: client_good_def)
  qed
qed

lemma plain_frame_good:
  assumes c: "client_good D (pn_client st)" and p: "rc_producer (pn_conn st) = Some p" "producer_good p" "rc_handshake_done (pn_conn st)"
    and f: "good (frame_item f)" and r: "plain_frame hs cpu L now cap bypass (sealed_frame L (rc_ic_rx (pn_conn st)) f) st = (go, st')"
  shows "\<exists>ready p' t. pn_out st' = pn_out st @ ready \<and> client_good (D @ ready) (pn_client st')
    \<and> pn_conn st' = (pn_conn st)\<lparr>rc_producer := Some p', rc_last_rx := t\<rparr> \<and> producer_good p'"
proof (cases "fst (sealed_frame L (rc_ic_rx (pn_conn st)) f) = []")
  case True
  then have "st' = st\<lparr>pn_conn := (pn_conn st)\<lparr>rc_last_rx := now\<rparr>\<rparr>"
    using r by (auto simp: plain_frame_def Let_def split: prod.splits)
  moreover have "(pn_conn st)\<lparr>rc_last_rx := now\<rparr> = (pn_conn st)\<lparr>rc_producer := Some p, rc_last_rx := now\<rparr>" using p(1) by simp
  ultimately show ?thesis using c p(2) by (intro exI [of _ "[]"] exI [of _ p] exI [of _ now]) simp
next
  case False
  define st1 where "st1 = st\<lparr>pn_bytes := saturating_add (pn_bytes st) (of_nat (length (fst (sealed_frame L (rc_ic_rx (pn_conn st)) f)) + 10)),
      pn_packets := saturating_add (pn_packets st) 1\<rparr>"
  have "data_frame cpu L now cap bypass (sealed_frame L (rc_ic_rx (pn_conn st1)) f) st1 = (go, st')"
    using r False p(3) by (auto simp: plain_frame_def Let_def st1_def split: prod.splits)
  from data_frame_good [OF _ _ p(2) f this, of D] c p(1) obtain ready p' where
    "pn_out st' = pn_out st @ ready" "client_good (D @ ready) (pn_client st')"
    "pn_conn st' = (pn_conn st)\<lparr>rc_producer := Some p'\<rparr>" "producer_good p'" by (auto simp: st1_def)
  then show ?thesis by (intro exI [of _ ready] exI [of _ p'] exI [of _ "rc_last_rx (pn_conn st)"]) simp
qed

lemma scan_good_step:
  assumes g: "scan_good ic sc0 (ev_bytes evs @ rem)" and io: "IoFail \<notin> set evs" and L: "crypto_lib_ok L"
    and r: "read_frame sc0 evs = (x, sc, es)"
  shows "IoFail \<notin> set es" "x \<noteq> Inl e"
    "x = Inr None \<Longrightarrow> scan_good ic sc (ev_bytes es @ rem)"
    "x = Inr (Some y) \<Longrightarrow> scan_good ic sc (ev_bytes es @ rem) \<and> pending sc es < pending sc0 evs
       \<and> (\<exists>f. good (frame_item f) \<and> y = sealed_frame L ic f)"
proof -
  have wf: "scanner_wf sc0" "max_data_len sc0 = MAX_DATA_LENGTH" using g by (simp_all add: scan_good_def)
  note post = read_frame_refines [OF wf(1) io, unfolded r read_frame_post_def prod.case]
  obtain fs where fs: "wire_ok L ic fs ((unread sc0 @ ev_bytes evs) @ rem)"
    "list_all frame_fits fs" "list_all (\<lambda>f. good (frame_item f)) fs"
    using g by (auto simp: scan_good_def stream_good_def)
  note nf = next_frame_good [OF L fs(1,2)]
  show "IoFail \<notin> set es" using post by blast
  show "x \<noteq> Inl e" using post nf(1) wf(2) by auto
  show "scan_good ic sc (ev_bytes es @ rem)" if "x = Inr None"
  proof -
    have "unread sc @ ev_bytes es = unread sc0 @ ev_bytes evs" using post that by simp
    then have "unread sc @ ev_bytes es @ rem = unread sc0 @ ev_bytes evs @ rem" by (metis append.assoc)
    then have "stream_good ic (unread sc @ ev_bytes es @ rem)" using g by (metis scan_good_def)
    then show ?thesis using g post by (auto simp: scan_good_def)
  qed
  assume x: "x = Inr (Some y)"
  then have "next_frame MAX_DATA_LENGTH (unread sc0 @ ev_bytes evs) = Inr (Some (y, unread sc @ ev_bytes es))"
    using post wf(2) by simp
  from nf(2) [OF this] obtain f gs where f: "fs = f # gs" "y = sealed_frame L ic f"
    "wire_ok L ic gs (unread sc @ ev_bytes es @ rem)" by auto
  then have "stream_good ic (unread sc @ ev_bytes es @ rem)" using fs(2,3) by (auto simp: stream_good_def)
  then show "scan_good ic sc (ev_bytes es @ rem) \<and> pending sc es < pending sc0 evs
       \<and> (\<exists>f. good (frame_item f) \<and> y = sealed_frame L ic f)"
    using post x g f fs(3) by (auto simp: scan_good_def)
qed

lemma conn_good_update:
  "conn_good conn rem \<Longrightarrow> producer_good p \<Longrightarrow> conn_good (conn\<lparr>rc_producer := Some p, rc_last_rx := t\<rparr>) rem"
  by (simp add: conn_good_def)

lemma plain_loop_good:
  assumes "conn_good (pn_conn st) (ev_bytes evs @ rem)" "IoFail \<notin> set evs" "client_good D (pn_client st)"
  shows "\<exists>evs' st' ready. plain_loop hs cpu L now cap bypass evs st = Some (evs', st') \<and> pn_out st' = pn_out st @ ready
    \<and> client_good (D @ ready) (pn_client st') \<and> conn_good (pn_conn st') (ev_bytes evs' @ rem) \<and> IoFail \<notin> set evs'"
  using assms
proof (induction "pending (rc_scanner (pn_conn st)) evs" arbitrary: st evs D rule: less_induct)
  case less
  have L: "crypto_lib_ok L" using less.prems(3) crypto by (auto simp: client_good_def)
  obtain x sc es where r: "read_frame (rc_scanner (pn_conn st)) evs = (x, sc, es)" by (metis prod_cases3)
  have g0: "scan_good (rc_ic_rx (pn_conn st)) (rc_scanner (pn_conn st)) (ev_bytes evs @ rem)"
    using less.prems(1) by (simp add: conn_good_def)
  note step = scan_good_step [OF g0 less.prems(2) L r]
  define st0 where "st0 = st\<lparr>pn_conn := (pn_conn st)\<lparr>rc_scanner := sc\<rparr>\<rparr>"
  have s: "pn_conn st0 = (pn_conn st)\<lparr>rc_scanner := sc\<rparr>" "pn_client st0 = pn_client st" "pn_out st0 = pn_out st" by (simp_all add: st0_def)
  have x: "x = Inr None \<or> (\<exists>y. x = Inr (Some y))" using step(2) by (cases x) (use option.exhaust in blast)+
  then show ?case
  proof (elim disjE exE)
    assume n: "x = Inr None"
    then have "plain_loop hs cpu L now cap bypass evs st = Some (es, st0)"
      by (subst plain_loop.simps) (simp add: r st0_def)
    then show ?thesis using step(1) step(3) [OF n] less.prems(1,3) s
      by (intro exI [of _ es] exI [of _ st0] exI [of _ "[]"]) (simp add: conn_good_def)
  next
    fix y assume y: "x = Inr (Some y)"
    obtain f where f: "good (frame_item f)" "y = sealed_frame L (rc_ic_rx (pn_conn st0)) f"
      and g: "conn_good (pn_conn st0) (ev_bytes es @ rem)" and lt: "pending sc es < pending (rc_scanner (pn_conn st)) evs"
      using step(4) [OF y] less.prems(1) s by (auto simp: conn_good_def)
    obtain p where p: "rc_producer (pn_conn st0) = Some p" "producer_good p" "rc_handshake_done (pn_conn st0)"
      using g by (auto simp: conn_good_def)
    obtain go st1 where fr: "plain_frame hs cpu L now cap bypass (sealed_frame L (rc_ic_rx (pn_conn st0)) f) st0 = (go, st1)" by fastforce
    obtain ready p' t where o: "pn_out st1 = pn_out st0 @ ready" "client_good (D @ ready) (pn_client st1)"
      "pn_conn st1 = (pn_conn st0)\<lparr>rc_producer := Some p', rc_last_rx := t\<rparr>" "producer_good p'"
      using plain_frame_good [OF _ p f(1) fr, of D] less.prems(3) s(2) by auto
    have g1: "conn_good (pn_conn st1) (ev_bytes es @ rem)" unfolding o(3) by (rule conn_good_update [OF g o(4)])
    have eq: "plain_loop hs cpu L now cap bypass evs st = (if go then plain_loop hs cpu L now cap bypass es st1 else Some (es, st1))"
      using fr f(2) by (subst plain_loop.simps) (simp add: r y st0_def)
    show ?thesis
    proof (cases go)
      case False
      then show ?thesis using eq o(1,2) g1 step(1) s(3) by auto
    next
      case True
      have "pending (rc_scanner (pn_conn st1)) es < pending (rc_scanner (pn_conn st)) evs" using lt o(3) s(1) by simp
      from less.hyps [OF this g1 step(1) o(2)] obtain evs' st' more where
        "plain_loop hs cpu L now cap bypass es st1 = Some (evs', st')" "pn_out st' = pn_out st1 @ more"
        "client_good ((D @ ready) @ more) (pn_client st')" "conn_good (pn_conn st') (ev_bytes evs' @ rem)" "IoFail \<notin> set evs'" by blast
      then show ?thesis using eq True o(1) s(3) by (intro exI [of _ evs'] exI [of _ st'] exI [of _ "ready @ more"]) simp
    qed
  qed
qed

lemma process_plain_frames_good:
  assumes g: "conn_good conn (ev_bytes evs @ rem)" and io: "IoFail \<notin> set evs" and c: "client_good D client"
  shows "\<exists>evs' st. process_plain_frames hs cpu L now cap bypass evs conn client = Some (evs', st)
    \<and> client_good (D @ pn_out st) (pn_client st) \<and> conn_good (pn_conn st) (ev_bytes evs' @ rem) \<and> IoFail \<notin> set evs'"
proof -
  obtain p where p: "rc_producer conn = Some p" "producer_good p" using g by (auto simp: conn_good_def)
  define st0 where "st0 = \<lparr>pn_conn = conn, pn_client = client, pn_out = [], pn_close = False, pn_tarpit = False, pn_bytes = 0,
      pn_packets = 0, pn_batch_session = False\<rparr>"
  obtain err p0 where t: "producer_take_error p = (err, p0)" by fastforce
  have p0: "producer_good p0" by (rule take_error_good [OF p(2) t])
  show ?thesis
  proof (cases err)
    case (Some e)
    have "conn_good (conn\<lparr>rc_producer := Some p0\<rparr>) (ev_bytes evs @ rem)"
      using conn_good_update [OF g p0, of "rc_last_rx conn"] by simp
    then show ?thesis using p t Some c io by (simp add: process_plain_frames_def Let_def)
  next
    case None
    have "conn_good (pn_conn st0) (ev_bytes evs @ rem)" "client_good D (pn_client st0)" using g c by (simp_all add: st0_def)
    from plain_loop_good [OF this(1) io this(2), of hs cpu now cap bypass] obtain evs' st1 ready where
      l: "plain_loop hs cpu L now cap bypass evs st0 = Some (evs', st1)" "pn_out st1 = ready" "client_good (D @ ready) (pn_client st1)"
        "conn_good (pn_conn st1) (ev_bytes evs' @ rem)" "IoFail \<notin> set evs'" by (auto simp: st0_def)
    have eq: "process_plain_frames hs cpu L now cap bypass evs conn client = Some (evs', plain_finish cpu L now bypass st1)"
      using p t None l(1) by (simp add: process_plain_frames_def Let_def st0_def)
    obtain q where q: "rc_producer (pn_conn st1) = Some q" "producer_good q" using l(4) by (auto simp: conn_good_def)
    obtain a where a: "cx_actor (pn_client st1) = Some a" "ok (D @ ready) a" using l(3) by (auto simp: client_good_def)
    obtain b more w q1 a1 where fl: "producer_flush cpu L now q a = (b, more, w, q1, a1)" by (metis prod_cases5)
    obtain err2 q2 where te: "producer_take_error q1 = (err2, q2)" by fastforce
    note fg = flush_good [OF a(2) q(2) fl]
    have q2: "producer_good q2" using take_error_good [OF _ te] fg by blast
    define st2 where "st2 = plain_finish cpu L now bypass st1"
    have "pn_out st2 = ready @ more" "cx_actor (pn_client st2) = Some a1" "pn_conn st2 = (pn_conn st1)\<lparr>rc_producer := Some q2\<rparr>"
      using q(1) a(1) fl te l(2) by (simp_all add: st2_def plain_finish_def Let_def)
    moreover have "conn_good ((pn_conn st1)\<lparr>rc_producer := Some q2\<rparr>) (ev_bytes evs' @ rem)"
      using conn_good_update [OF l(4) q2, of "rc_last_rx (pn_conn st1)"] by simp
    ultimately show ?thesis
      using eq fg l(5) by (intro exI [of _ evs'] exI [of _ st2]) (simp add: st2_def [symmetric] client_good_def)
  qed
qed

end

end
