(* ===== verification/Client_Rx.thy ===== *)
theory Client_Rx
  imports Session_Rx_Props
begin

text \<open>
  The receive path of a client connection (the data loop of \<open>dial_and_serve\<close>,
  \<open>flush_client_rx_batch\<close>, \<open>flush_owned_frames\<close> and \<open>flush_reorder_to_tap\<close> of \<open>client.rs\<close>): scanning,
  opening, and the hand-over to the receive actor or, without one, to the client's shared decoder
  and reorder buffer, or to its owned fast path. What is handed to the TAP writer is returned as a
  list of frames.
\<close>

subsection \<open>State\<close>

record client_conn =
  kc_scanner :: frame_scanner
  kc_ic_rx :: "inner_cipher option"
  kc_producer :: "rx_producer option"
  kc_use_fec :: bool
  kc_static_rx :: bool
  kc_owned_rx :: bool
  kc_fec_batch :: "(u32 \<times> bytes) list"
  kc_reorder_input :: "(u32 \<times> bytes) list"
  kc_owned_input :: "(u32 \<times> bytes) list"
  kc_rx_bytes :: u64

text \<open>The receive fields of \<open>Client\<close>, shared by its connections.\<close>

record client_shared =
  ks_fec :: "fec_decoder option"
  ks_actor :: "rx_actor option"
  ks_reorder :: reorder_buffer
  ks_dedup :: "u32 list"
  ks_conns_count :: nat
  ks_rx_bytes :: u64
  ks_rx_packets :: u64

text \<open>The locals of one round of the data loop; \<open>kr_fec\<close> says that the round uses the shared decoder.\<close>

record client_read =
  kr_conn :: client_conn
  kr_shared :: client_shared
  kr_fec :: bool
  kr_out :: "bytes list"
  kr_closed :: bool
  kr_bytes :: u64
  kr_packets :: u64

definition client_static_rx :: "bool \<Rightarrow> nat \<Rightarrow> bool \<Rightarrow> bool \<Rightarrow> bool" where
  "client_static_rx has_producer conns_count use_xor_fec bypass \<longleftrightarrow> \<not> has_producer \<and> conns_count = 1 \<and> \<not> use_xor_fec \<and> bypass"

text \<open>The decoder of the round, if it has one; its reorder progress reads the client's buffer.\<close>

definition round_fec :: "client_read \<Rightarrow> fec_decoder option" where
  "round_fec st = (if kr_fec st then ks_fec (kr_shared st) else None)"

definition client_progress :: "client_shared \<Rightarrow> u32 option" where
  "client_progress cl = Some (expected_seq (ks_reorder cl))"

subsection \<open>Flushing\<close>

definition flush_client_rx_batch :: "cpu \<Rightarrow> nat \<Rightarrow> bool \<Rightarrow> client_read \<Rightarrow> client_read" where
  "flush_client_rx_batch cpu now bypass st =
     (let conn = kr_conn st; cl = kr_shared st;
          (recovered, cl1) =
            (case round_fec st of
               Some dec \<Rightarrow>
                 if kc_fec_batch conn \<noteq> [] then
                   (let (rs, dec') = on_data_batch cpu (client_progress cl) dec (kc_fec_batch conn) in (rs, cl\<lparr>ks_fec := Some dec'\<rparr>))
                 else ([], cl)
             | None \<Rightarrow> ([], cl));
          input = kc_reorder_input conn @ recovered;
          conn1 = conn\<lparr>kc_fec_batch := []\<rparr>
      in if input = [] then st\<lparr>kr_conn := conn1\<lparr>kc_reorder_input := input\<rparr>, kr_shared := cl1\<rparr>
         else
           let direct_ok = (ks_conns_count cl = 1 \<and> round_fec st = None \<and> bypass);
               (direct, ready, rest, rb) =
                 (if direct_ok then try_direct_batch input (ks_reorder cl1) else (False, [], input, ks_reorder cl1));
               (out, rb1) = (if direct then (ready, rb) else insert_all now rest rb)
           in st\<lparr>kr_conn := conn1\<lparr>kc_reorder_input := []\<rparr>, kr_shared := cl1\<lparr>ks_reorder := rb1\<rparr>, kr_out := kr_out st @ out\<rparr>)"

definition flush_owned_frames :: "nat \<Rightarrow> (u32 \<times> bytes) list \<Rightarrow> reorder_buffer \<Rightarrow> bytes list \<times> reorder_buffer" where
  "flush_owned_frames now input rb =
     (if input = [] then ([], rb)
      else
        case try_advance_sequences (map fst input) rb of
          (True, rb1) \<Rightarrow> (filter (\<lambda>frame. frame \<noteq> []) (map snd input), rb1)
        | (False, rb1) \<Rightarrow> insert_all now input rb1)"

definition flush_owned_client_rx_batch :: "nat \<Rightarrow> client_read \<Rightarrow> client_read" where
  "flush_owned_client_rx_batch now st =
     (let (out, rb) = flush_owned_frames now (kc_owned_input (kr_conn st)) (ks_reorder (kr_shared st))
      in st\<lparr>kr_conn := (kr_conn st)\<lparr>kc_owned_input := []\<rparr>, kr_shared := (kr_shared st)\<lparr>ks_reorder := rb\<rparr>, kr_out := kr_out st @ out\<rparr>)"

definition flush_reorder_to_tap :: "nat \<Rightarrow> client_shared \<Rightarrow> bytes list \<times> client_shared" where
  "flush_reorder_to_tap now cl =
     (let (ready, rb) = flush_timeout_into now (ks_reorder cl) in (ready, cl\<lparr>ks_reorder := rb\<rparr>))"

subsection \<open>One frame\<close>

text \<open>The flag says whether the read loop goes on.\<close>

definition client_close :: "client_read \<Rightarrow> bool \<times> client_read" where
  "client_close st = (False, st\<lparr>kr_closed := True\<rparr>)"

text \<open>An opened frame of a connection without a receive actor.\<close>

definition client_legacy_frame ::
  "cpu \<Rightarrow> crypto_lib \<Rightarrow> nat \<Rightarrow> nat \<Rightarrow> bool \<Rightarrow> u32 \<Rightarrow> bytes \<Rightarrow> client_read \<Rightarrow> bool \<times> client_read" where
  "client_legacy_frame cpu L now cap bypass seq data st =
     (let cl = kr_shared st; conn = kr_conn st
      in if seq = 0 then
           (case round_fec st of
              None \<Rightarrow> client_close st
            | Some dec \<Rightarrow>
                (case on_control cpu L (client_progress cl) dec data of
                   (Inl e, dec') \<Rightarrow> client_close (st\<lparr>kr_shared := cl\<lparr>ks_fec := Some dec'\<rparr>\<rparr>)
                 | (Inr r, dec') \<Rightarrow>
                     (True, st\<lparr>kr_shared := cl\<lparr>ks_fec := Some dec'\<rparr>,
                               kr_conn := conn\<lparr>kc_reorder_input := kc_reorder_input conn
                                 @ (case r of None \<Rightarrow> [] | Some x \<Rightarrow> [x])\<rparr>\<rparr>)))
         else
           let conn1 = (if round_fec st \<noteq> None then conn\<lparr>kc_fec_batch := kc_fec_batch conn @ [(seq, data)]\<rparr> else conn);
               (dup, dedup) = (if kc_static_rx conn then (False, ks_dedup cl) else is_duplicate (ks_dedup cl) seq);
               conn2 = (if \<not> dup then conn1\<lparr>kc_reorder_input := kc_reorder_input conn1 @ [(seq, data)]\<rparr> else conn1);
               st1 = st\<lparr>kr_conn := conn2, kr_shared := cl\<lparr>ks_dedup := dedup\<rparr>\<rparr>
           in (True, if length (kc_fec_batch conn2) \<ge> cap \<or> length (kc_reorder_input conn2) \<ge> cap
                     then flush_client_rx_batch cpu now bypass st1 else st1))"

text \<open>An opened frame: the owned fast path, the receive actor, or the shared decoder.\<close>

definition client_data_frame ::
  "cpu \<Rightarrow> crypto_lib \<Rightarrow> nat \<Rightarrow> nat \<Rightarrow> bool \<Rightarrow> u32 \<Rightarrow> bytes \<Rightarrow> client_read \<Rightarrow> bool \<times> client_read" where
  "client_data_frame cpu L now cap bypass seq data st =
     (let conn = kr_conn st; cl = kr_shared st
      in if kc_owned_rx conn \<and> seq \<noteq> 0 then
           (let st1 = st\<lparr>kr_conn := conn\<lparr>kc_owned_input := kc_owned_input conn @ [(seq, data)]\<rparr>\<rparr>
            in (True, if length (kc_owned_input (kr_conn st1)) \<ge> cap then flush_owned_client_rx_batch now st1 else st1))
         else
           case kc_producer conn of
             Some p \<Rightarrow>
               (case ks_actor cl of
                  None \<Rightarrow> client_close st
                | Some a \<Rightarrow>
                    (let (ok, ready, wake, p', a') = producer_push cpu L now p a seq data;
                         st1 = st\<lparr>kr_conn := conn\<lparr>kc_producer := Some p'\<rparr>, kr_shared := cl\<lparr>ks_actor := Some a'\<rparr>,
                                  kr_out := kr_out st @ ready\<rparr>
                     in if ok then (True, st1) else client_close st1))
           | None \<Rightarrow> client_legacy_frame cpu L now cap bypass seq data st)"

definition client_frame ::
  "cpu \<Rightarrow> crypto_lib \<Rightarrow> nat \<Rightarrow> nat \<Rightarrow> bool \<Rightarrow> bytes \<times> u32 \<Rightarrow> client_read \<Rightarrow> bool \<times> client_read" where
  "client_frame cpu L now cap bypass f st =
     (let (raw, seq) = f
      in if raw = [] then (True, st)
         else
           let st1 = st\<lparr>kr_bytes := saturating_add (kr_bytes st) (of_nat (length raw + 10)),
                        kr_packets := saturating_add (kr_packets st) 1\<rparr>
           in case open_payload L (kc_ic_rx (kr_conn st)) f of
                None \<Rightarrow> (True, st1)
              | Some data \<Rightarrow> client_data_frame cpu L now cap bypass seq data st1)"

subsection \<open>The read loop\<close>

partial_function (option) client_loop ::
  "cpu \<Rightarrow> crypto_lib \<Rightarrow> nat \<Rightarrow> nat \<Rightarrow> bool \<Rightarrow> read_event list \<Rightarrow> client_read \<Rightarrow> (read_event list \<times> client_read) option" where
  "client_loop cpu L now cap bypass evs st =
     (case read_frame (kc_scanner (kr_conn st)) evs of
        (Inr (Some f), sc, evs1) \<Rightarrow>
          (let (go, st1) = client_frame cpu L now cap bypass f (st\<lparr>kr_conn := (kr_conn st)\<lparr>kc_scanner := sc\<rparr>\<rparr>)
           in if go then client_loop cpu L now cap bypass evs1 st1 else Some (evs1, st1))
      | (Inr None, sc, evs1) \<Rightarrow> Some (evs1, st\<lparr>kr_conn := (kr_conn st)\<lparr>kc_scanner := sc\<rparr>\<rparr>)
      | (Inl e, sc, evs1) \<Rightarrow> Some (evs1, st\<lparr>kr_conn := (kr_conn st)\<lparr>kc_scanner := sc\<rparr>, kr_closed := True\<rparr>))"

text \<open>After the loop: the last batches, the producer's error, the counters.\<close>

definition client_finish :: "cpu \<Rightarrow> crypto_lib \<Rightarrow> nat \<Rightarrow> bool \<Rightarrow> client_read \<Rightarrow> client_read" where
  "client_finish cpu L now bypass st =
     (let st1 =
        (case (kc_producer (kr_conn st), ks_actor (kr_shared st)) of
           (Some p, Some a) \<Rightarrow>
             (let (ok, ready, wake, p1, a1) = producer_flush cpu L now p a;
                  (err, p2) = producer_take_error p1
              in st\<lparr>kr_conn := (kr_conn st)\<lparr>kc_producer := Some p2\<rparr>, kr_shared := (kr_shared st)\<lparr>ks_actor := Some a1\<rparr>,
                    kr_out := kr_out st @ ready, kr_closed := (kr_closed st \<or> \<not> ok \<or> err \<noteq> None)\<rparr>)
         | (Some p, None) \<Rightarrow> st
         | (None, _) \<Rightarrow> flush_client_rx_batch cpu now bypass (flush_owned_client_rx_batch now st))
      in if kr_packets st1 \<noteq> 0
         then st1\<lparr>kr_shared := (kr_shared st1)\<lparr>ks_rx_bytes := ks_rx_bytes (kr_shared st1) + kr_bytes st1,
                                 ks_rx_packets := ks_rx_packets (kr_shared st1) + kr_packets st1\<rparr>,
                  kr_conn := (kr_conn st1)\<lparr>kc_rx_bytes := kc_rx_bytes (kr_conn st1) + kr_bytes st1\<rparr>\<rparr>
         else st1)"

text \<open>The receive half of one round of the data loop, over the plaintext that TLS made available.\<close>

definition client_receive ::
  "cpu \<Rightarrow> crypto_lib \<Rightarrow> nat \<Rightarrow> nat \<Rightarrow> bool \<Rightarrow> read_event list \<Rightarrow> client_conn \<Rightarrow> client_shared
     \<Rightarrow> (read_event list \<times> client_read) option" where
  "client_receive cpu L now cap bypass evs conn cl =
     (let st = \<lparr>kr_conn = conn, kr_shared = cl, kr_fec = (kc_producer conn = None \<and> kc_use_fec conn), kr_out = [],
                kr_closed = False, kr_bytes = 0, kr_packets = 0\<rparr>
      in case map_option producer_take_error (kc_producer conn) of
           Some (Some err, p) \<Rightarrow> Some (evs, st\<lparr>kr_conn := conn\<lparr>kc_producer := Some p\<rparr>, kr_closed := True\<rparr>)
         | r \<Rightarrow> map_option (\<lambda>(evs1, st1). (evs1, client_finish cpu L now bypass st1)) (client_loop cpu L now cap bypass evs st))"

end
