(* ===== verification/Client_Rx_Props.thy ===== *)
theory Client_Rx_Props
  imports Client_Rx
begin

text \<open>
  The receive path of a client connection keeps the contract \<open>receive_session\<close>: reading a stream of
  good frames, cut anywhere, it returns, rejects none of them, and what it hands to the TAP writer
  is what the receive actor delivers.
\<close>

context receive_session
begin

definition client_conn_good :: "client_conn \<Rightarrow> bytes \<Rightarrow> bool" where
  "client_conn_good conn rem \<longleftrightarrow>
     scan_good (kc_ic_rx conn) (kc_scanner conn) rem \<and> \<not> kc_owned_rx conn
     \<and> (\<exists>p. kc_producer conn = Some p \<and> producer_good p)"

definition shared_good :: "bytes list \<Rightarrow> client_shared \<Rightarrow> bool" where
  "shared_good D cl \<longleftrightarrow> (\<exists>a. ks_actor cl = Some a \<and> ok D a)"

lemma client_frame_good:
  assumes c: "shared_good D (kr_shared st)"
    and p: "kc_producer (kr_conn st) = Some p" "producer_good p" "\<not> kc_owned_rx (kr_conn st)"
    and f: "good (frame_item f)" and r: "client_frame cpu L now cap bypass (sealed_frame L (kc_ic_rx (kr_conn st)) f) st = (go, st')"
  shows "\<exists>ready p'. kr_out st' = kr_out st @ ready \<and> shared_good (D @ ready) (kr_shared st')
    \<and> kr_conn st' = (kr_conn st)\<lparr>kc_producer := Some p'\<rparr> \<and> producer_good p'"
proof -
  obtain a where a: "ks_actor (kr_shared st) = Some a" "ok D a" using c by (auto simp: shared_good_def)
  have o: "open_payload L (kc_ic_rx (kr_conn st)) (sealed_frame L (kc_ic_rx (kr_conn st)) f) = Some (as_slice (vf_data f))"
    by (rule open_sealed_frame [OF crypto [OF a(2)]])
  have s: "snd (sealed_frame L (kc_ic_rx (kr_conn st)) f) = vf_seq f" by (simp add: sealed_frame_def)
  have same: "kr_conn st = (kr_conn st)\<lparr>kc_producer := Some p\<rparr>" using p(1) by simp
  show ?thesis
  proof (cases "fst (sealed_frame L (kc_ic_rx (kr_conn st)) f) = []")
    case True
    then have "st' = st" using r by (auto simp: client_frame_def split: prod.splits)
    then show ?thesis using c p(2) same by (intro exI [of _ "[]"] exI [of _ p]) simp
  next
    case False
    obtain b ready w p' a' where push: "producer_push cpu L now p a (vf_seq f) (as_slice (vf_data f)) = (b, ready, w, p', a')"
      by (metis prod_cases5)
    have g: "ok (D @ ready) a' \<and> producer_good p'"
      using push_good [OF a(2) p(2) _ push] f by (simp add: frame_item_def)
    have "kr_out st' = kr_out st @ ready" "ks_actor (kr_shared st') = Some a'" "kr_conn st' = (kr_conn st)\<lparr>kc_producer := Some p'\<rparr>"
      using r False s o p a(1) push
      by (auto simp: client_frame_def client_data_frame_def Let_def client_close_def split: prod.splits if_splits)
    then show ?thesis using g by (auto simp: shared_good_def)
  qed
qed

lemma client_conn_good_update:
  "client_conn_good conn rem \<Longrightarrow> producer_good p \<Longrightarrow> client_conn_good (conn\<lparr>kc_producer := Some p\<rparr>) rem"
  by (simp add: client_conn_good_def)

lemma client_loop_good:
  assumes "client_conn_good (kr_conn st) (ev_bytes evs @ rem)" "IoFail \<notin> set evs" "shared_good D (kr_shared st)"
  shows "\<exists>evs' st' ready. client_loop cpu L now cap bypass evs st = Some (evs', st') \<and> kr_out st' = kr_out st @ ready
    \<and> shared_good (D @ ready) (kr_shared st') \<and> client_conn_good (kr_conn st') (ev_bytes evs' @ rem) \<and> IoFail \<notin> set evs'"
  using assms
proof (induction "pending (kc_scanner (kr_conn st)) evs" arbitrary: st evs D rule: less_induct)
  case less
  have L: "crypto_lib_ok L" using less.prems(3) crypto by (auto simp: shared_good_def)
  obtain x sc es where r: "read_frame (kc_scanner (kr_conn st)) evs = (x, sc, es)" by (metis prod_cases3)
  have g0: "scan_good (kc_ic_rx (kr_conn st)) (kc_scanner (kr_conn st)) (ev_bytes evs @ rem)"
    using less.prems(1) by (simp add: client_conn_good_def)
  note step = scan_good_step [OF g0 less.prems(2) L r]
  define st0 where "st0 = st\<lparr>kr_conn := (kr_conn st)\<lparr>kc_scanner := sc\<rparr>\<rparr>"
  have s: "kr_conn st0 = (kr_conn st)\<lparr>kc_scanner := sc\<rparr>" "kr_shared st0 = kr_shared st" "kr_out st0 = kr_out st" by (simp_all add: st0_def)
  have x: "x = Inr None \<or> (\<exists>y. x = Inr (Some y))" using step(2) by (cases x) (use option.exhaust in blast)+
  then show ?case
  proof (elim disjE exE)
    assume n: "x = Inr None"
    then have "client_loop cpu L now cap bypass evs st = Some (es, st0)"
      by (subst client_loop.simps) (simp add: r st0_def)
    then show ?thesis using step(1) step(3) [OF n] less.prems(1,3) s
      by (intro exI [of _ es] exI [of _ st0] exI [of _ "[]"]) (simp add: client_conn_good_def)
  next
    fix y assume y: "x = Inr (Some y)"
    obtain f where f: "good (frame_item f)" "y = sealed_frame L (kc_ic_rx (kr_conn st0)) f"
      and g: "client_conn_good (kr_conn st0) (ev_bytes es @ rem)" and lt: "pending sc es < pending (kc_scanner (kr_conn st)) evs"
      using step(4) [OF y] less.prems(1) s by (auto simp: client_conn_good_def)
    obtain p where p: "kc_producer (kr_conn st0) = Some p" "producer_good p" "\<not> kc_owned_rx (kr_conn st0)"
      using g by (auto simp: client_conn_good_def)
    obtain go st1 where fr: "client_frame cpu L now cap bypass (sealed_frame L (kc_ic_rx (kr_conn st0)) f) st0 = (go, st1)" by fastforce
    obtain ready p' where o: "kr_out st1 = kr_out st0 @ ready" "shared_good (D @ ready) (kr_shared st1)"
      "kr_conn st1 = (kr_conn st0)\<lparr>kc_producer := Some p'\<rparr>" "producer_good p'"
      using client_frame_good [OF _ p f(1) fr, of D] less.prems(3) s(2) by auto
    have g1: "client_conn_good (kr_conn st1) (ev_bytes es @ rem)" unfolding o(3) by (rule client_conn_good_update [OF g o(4)])
    have eq: "client_loop cpu L now cap bypass evs st = (if go then client_loop cpu L now cap bypass es st1 else Some (es, st1))"
      using fr f(2) by (subst client_loop.simps) (simp add: r y st0_def)
    show ?thesis
    proof (cases go)
      case False
      then show ?thesis using eq o(1,2) g1 step(1) s(3) by auto
    next
      case True
      have "pending (kc_scanner (kr_conn st1)) es < pending (kc_scanner (kr_conn st)) evs" using lt o(3) s(1) by simp
      from less.hyps [OF this g1 step(1) o(2)] obtain evs' st' more where
        "client_loop cpu L now cap bypass es st1 = Some (evs', st')" "kr_out st' = kr_out st1 @ more"
        "shared_good ((D @ ready) @ more) (kr_shared st')" "client_conn_good (kr_conn st') (ev_bytes evs' @ rem)" "IoFail \<notin> set evs'" by blast
      then show ?thesis using eq True o(1) s(3) by (intro exI [of _ evs'] exI [of _ st'] exI [of _ "ready @ more"]) simp
    qed
  qed
qed

lemma client_receive_good:
  assumes g: "client_conn_good conn (ev_bytes evs @ rem)" and io: "IoFail \<notin> set evs" and c: "shared_good D cl"
  shows "\<exists>evs' st. client_receive cpu L now cap bypass evs conn cl = Some (evs', st)
    \<and> shared_good (D @ kr_out st) (kr_shared st) \<and> client_conn_good (kr_conn st) (ev_bytes evs' @ rem) \<and> IoFail \<notin> set evs'"
proof -
  obtain p where p: "kc_producer conn = Some p" "producer_good p" using g by (auto simp: client_conn_good_def)
  define st0 where "st0 = \<lparr>kr_conn = conn, kr_shared = cl, kr_fec = (kc_producer conn = None \<and> kc_use_fec conn), kr_out = [],
                kr_closed = False, kr_bytes = 0, kr_packets = 0\<rparr>"
  obtain err p0 where t: "producer_take_error p = (err, p0)" by fastforce
  have p0: "producer_good p0" by (rule take_error_good [OF p(2) t])
  show ?thesis
  proof (cases err)
    case (Some e)
    show ?thesis using p t Some c io client_conn_good_update [OF g p0] by (simp add: client_receive_def Let_def)
  next
    case None
    have "client_conn_good (kr_conn st0) (ev_bytes evs @ rem)" "shared_good D (kr_shared st0)" using g c by (simp_all add: st0_def)
    from client_loop_good [OF this(1) io this(2), of cpu now cap bypass] obtain evs' st1 ready where
      l: "client_loop cpu L now cap bypass evs st0 = Some (evs', st1)" "kr_out st1 = ready" "shared_good (D @ ready) (kr_shared st1)"
        "client_conn_good (kr_conn st1) (ev_bytes evs' @ rem)" "IoFail \<notin> set evs'" by (auto simp: st0_def)
    have eq: "client_receive cpu L now cap bypass evs conn cl = Some (evs', client_finish cpu L now bypass st1)"
      unfolding client_receive_def Let_def st0_def [symmetric] using p t None l(1) by simp
    obtain q where q: "kc_producer (kr_conn st1) = Some q" "producer_good q" using l(4) by (auto simp: client_conn_good_def)
    obtain a where a: "ks_actor (kr_shared st1) = Some a" "ok (D @ ready) a" using l(3) by (auto simp: shared_good_def)
    obtain b more w q1 a1 where fl: "producer_flush cpu L now q a = (b, more, w, q1, a1)" by (metis prod_cases5)
    obtain err2 q2 where te: "producer_take_error q1 = (err2, q2)" by fastforce
    note fg = flush_good [OF a(2) q(2) fl]
    have q2: "producer_good q2" using take_error_good [OF _ te] fg by blast
    define st2 where "st2 = client_finish cpu L now bypass st1"
    have st2: "kr_out st2 = ready @ more" "ks_actor (kr_shared st2) = Some a1"
      "\<exists>n. kr_conn st2 = (kr_conn st1)\<lparr>kc_producer := Some q2, kc_rx_bytes := n\<rparr>"
      using q(1) a(1) fl te l(2) by (auto simp: st2_def client_finish_def Let_def intro: exI [of _ "kc_rx_bytes (kr_conn st1)"])
    then have "client_conn_good (kr_conn st2) (ev_bytes evs' @ rem)"
      using client_conn_good_update [OF l(4) q2] by (auto simp: client_conn_good_def)
    then show ?thesis
      using eq fg l(5) st2 by (intro exI [of _ evs'] exI [of _ st2]) (simp add: st2_def [symmetric] shared_good_def)
  qed
qed

end

end
