(* ===== verification/Client_Tx.thy ===== *)
theory Client_Tx
  imports Session_Tx_Props
begin

text \<open>
  The send half of a client connection (the data loop of \<open>dial_and_serve\<close> in \<open>client.rs\<close>):
  pulling queued frames into one plaintext batch, the keepalive, the hand-over to TLS, draining
  with the write-interest flag, and the deadlines. The TLS connection and the results of the two
  interest changes at the poller are parameters.
\<close>

subsection \<open>State\<close>

record ('c, 't) client_tx =
  ct_tls :: 't
  ct_backend :: "'c pbackend"
  ct_pad_limit :: nat
  ct_pending_payload :: u64
  ct_last_keepalive :: nat
  ct_last_rx :: nat
  ct_last_write_progress :: nat
  ct_write_blocked :: bool
  ct_tx_packets :: u64
  ct_tx_bytes :: u64
  ct_conn_tx_bytes :: u64
  ct_written :: tx_frame_totals
  ct_padding :: padding_stats

definition KEEPALIVE_INTERVAL :: nat where "KEEPALIVE_INTERVAL = 4 * 10 ^ 9"
definition WRITE_STALL_LIMIT :: nat where "WRITE_STALL_LIMIT = 10 * 10 ^ 9"
definition RECEIVE_IDLE_LIMIT :: nat where "RECEIVE_IDLE_LIMIT = 15 * 10 ^ 9"

subsection \<open>Pulling frames\<close>

partial_function (option) client_pull ::
  "crypto_lib \<Rightarrow> 'c chan_lib \<Rightarrow> u8 \<Rightarrow> bytes \<Rightarrow> inner_cipher option \<Rightarrow> 'c pull_state \<Rightarrow> 'c pull_state option" where
  "client_pull L CL code cache ic st =
     (case try_recv_backend_batch CL (pl_backend st) (pull_budget (pl_buf st)) of
        (None, b) \<Rightarrow> Some (st\<lparr>pl_backend := b\<rparr>)
      | (Some batch, b) \<Rightarrow>
          do {
            st1 \<leftarrow> append_frames L code cache ic (fb_frames batch) (st\<lparr>pl_backend := b\<rparr>);
            let st2 = st1\<lparr>pl_payload := saturating_add (pl_payload st1) (fb_bytes batch),
                          pl_pulled := pl_pulled st1 + of_nat (length (fb_frames batch))\<rparr>
            in if length (pl_buf st2) \<ge> STREAM_TLS_BATCH_SOFT_LIMIT then Some st2
               else client_pull L CL code cache ic st2
          })"

text \<open>
  The batch of a round, unless TLS still has ciphertext or there is nothing to send: the padding
  added and what was pulled.
\<close>

definition client_batch ::
  "'t tls_lib \<Rightarrow> crypto_lib \<Rightarrow> 'c chan_lib \<Rightarrow> u8 \<Rightarrow> bytes \<Rightarrow> bool \<Rightarrow> inner_cipher option \<Rightarrow> u64 \<Rightarrow> ('c, 't) client_tx
     \<Rightarrow> (nat \<times> 'c pull_state) option" where
  "client_batch TL L CL code cache woken ic rng s =
     (let st = \<lparr>pl_backend = ct_backend s, pl_buf = [], pl_rng = rng, pl_last = None, pl_pulled = 0,
                pl_payload = ct_pending_payload s, pl_totals = totals_default\<rparr>
      in if \<not> tls_wants_write TL (ct_tls s) \<and> (woken \<or> \<not> backend_tx_is_empty CL (ct_backend s)) then
           do {
             st1 \<leftarrow> client_pull L CL code cache ic (st\<lparr>pl_backend := consume_backend_wake (ct_backend s)\<rparr>);
             (padded, buf, rng1) \<leftarrow> (if pl_pulled st1 \<noteq> 0
                then pad_stream_batch_tail code cache (pl_buf st1) (pl_last st1) (ct_pad_limit s) (pl_rng st1)
                else Some (0, pl_buf st1, pl_rng st1));
             Some (padded, st1\<lparr>pl_buf := buf, pl_rng := rng1\<rparr>)
           }
         else Some (0, st))"

text \<open>The keepalive frame of an idle connection.\<close>

definition client_keepalive ::
  "'t tls_lib \<Rightarrow> crypto_lib \<Rightarrow> u8 \<Rightarrow> bytes \<Rightarrow> nat \<Rightarrow> ('c, 't) client_tx \<Rightarrow> 'c pull_state \<Rightarrow> bytes option" where
  "client_keepalive TL L code cache now s st =
     (if pl_buf st = [] \<and> \<not> tls_wants_write TL (ct_tls s) \<and> now - ct_last_keepalive s > KEEPALIVE_INTERVAL
      then map_option fst (append_padded_frame_with_limit L code cache [] 0 [] None (ct_pad_limit s) (pl_rng st))
      else Some (pl_buf st))"

subsection \<open>Writing\<close>

definition client_account :: "nat \<Rightarrow> bytes \<Rightarrow> nat \<Rightarrow> 'c pull_state \<Rightarrow> 't \<Rightarrow> ('c, 't) client_tx \<Rightarrow> ('c, 't) client_tx" where
  "client_account now buf padded st t s =
     (let s1 = (if pl_pulled st \<noteq> 0
        then s\<lparr>ct_tx_packets := ct_tx_packets s + pl_pulled st, ct_written := record_totals (pl_totals st) (ct_written s),
               ct_padding := record_padding_write (length buf) padded (ct_padding s)\<rparr>
        else s)
      in s1\<lparr>ct_tls := t, ct_tx_bytes := ct_tx_bytes s1 + of_nat (length buf),
            ct_conn_tx_bytes := ct_conn_tx_bytes s1 + of_nat (length buf), ct_last_keepalive := now\<rparr>)"

text \<open>
  The drain loop: whether the connection has to close. \<open>rereg\<close> says whether the poller accepts
  the change to write interest.
\<close>

partial_function (option) client_drain ::
  "'t tls_lib \<Rightarrow> nat \<Rightarrow> bool \<Rightarrow> ('c, 't) client_tx \<Rightarrow> (bool \<times> ('c, 't) client_tx) option" where
  "client_drain TL now rereg s =
     (if \<not> tls_wants_write TL (ct_tls s) then Some (False, s)
      else
        case tls_write_tls TL (ct_tls s) of
          (Tls_Wrote n, t) \<Rightarrow>
            if n = 0 then Some (True, s\<lparr>ct_tls := t\<rparr>)
            else client_drain TL now rereg (s\<lparr>ct_tls := t, ct_last_write_progress := now\<rparr>)
        | (Tls_Would_Block, t) \<Rightarrow>
            Some (\<not> ct_write_blocked s \<and> \<not> rereg, s\<lparr>ct_tls := t, ct_write_blocked := (ct_write_blocked s \<or> rereg)\<rparr>)
        | (Tls_Error, t) \<Rightarrow> Some (True, s\<lparr>ct_tls := t\<rparr>))"

text \<open>After the drain: the scheduler's counters, the interest and the deadlines.\<close>

definition client_settle :: "'t tls_lib \<Rightarrow> nat \<Rightarrow> u64 \<Rightarrow> bool \<Rightarrow> bool \<Rightarrow> ('c, 't) client_tx \<Rightarrow> bool \<times> ('c, 't) client_tx" where
  "client_settle TL now now_us rereg closed s =
     (let idle = (\<not> tls_wants_write TL (ct_tls s)); n = ct_pending_payload s; b = ct_backend s;
          s1 = (if idle \<and> n \<noteq> 0
                then s\<lparr>ct_backend := b\<lparr>pb_sched := observe_delivered now_us n (complete_queued n (pb_sched b))\<rparr>, ct_pending_payload := 0\<rparr>
                else s);
          restore = (ct_write_blocked s1 \<and> idle \<and> \<not> closed);
          s2 = (if restore \<and> rereg then s1\<lparr>ct_write_blocked := False\<rparr> else s1)
      in (closed \<or> restore \<and> \<not> rereg \<or> now - ct_last_write_progress s2 > WRITE_STALL_LIMIT
            \<or> now - ct_last_rx s2 > RECEIVE_IDLE_LIMIT, s2))"

definition client_flush ::
  "'t tls_lib \<Rightarrow> nat \<Rightarrow> u64 \<Rightarrow> bool \<Rightarrow> bool \<Rightarrow> ('c, 't) client_tx \<Rightarrow> (bool \<times> ('c, 't) client_tx) option" where
  "client_flush TL now now_us rereg1 rereg2 s =
     map_option (\<lambda>(closed, s1). client_settle TL now now_us rereg2 closed s1) (client_drain TL now rereg1 s)"

text \<open>
  The send half of a round: the plaintext handed to TLS, whether the connection has to close, and
  the state.
\<close>

definition client_send ::
  "'t tls_lib \<Rightarrow> crypto_lib \<Rightarrow> 'c chan_lib \<Rightarrow> u8 \<Rightarrow> bytes \<Rightarrow> nat \<Rightarrow> u64 \<Rightarrow> bool \<Rightarrow> bool \<Rightarrow> bool \<Rightarrow> inner_cipher option \<Rightarrow> u64
     \<Rightarrow> ('c, 't) client_tx \<Rightarrow> (bytes \<times> bool \<times> ('c, 't) client_tx) option" where
  "client_send TL L CL code cache now now_us woken rereg1 rereg2 ic_tx rng s =
     do {
       (padded, st) \<leftarrow> client_batch TL L CL code cache woken ic_tx rng s;
       buf \<leftarrow> client_keepalive TL L code cache now s st;
       let s1 = s\<lparr>ct_backend := pl_backend st, ct_pending_payload := pl_payload st\<rparr>
       in if buf = [] then map_option (Pair []) (client_flush TL now now_us rereg1 rereg2 s1)
          else
            case tls_write_all TL (ct_tls s1) buf of
              None \<Rightarrow> Some ([], True, s1)
            | Some t \<Rightarrow> map_option (Pair buf) (client_flush TL now now_us rereg1 rereg2 (client_account now buf padded st t s1))
     }"

end
