(* ===== verification/Client_Tx_Props.thy ===== *)
theory Client_Tx_Props
  imports Client_Tx
begin

text \<open>
  The send half of a client connection returns, takes a prefix of what is queued and hands it to
  TLS framed and sealed in order, or sends a keepalive; then the interface \<open>frame_sender\<close> that it
  shares with the writer of the server.
\<close>

subsection \<open>Pulling\<close>

lemma length_wires: "10 * length ws \<le> length (wires ws)"
  by (induction ws) (auto simp: wire_frame_def)

lemma small_count:
  assumes "10 * unat (n :: u64) < 16384" "0 < k" "k \<le> 32"
  shows "unat (n + of_nat k) = unat n + k" "n + of_nat k \<noteq> 0"
proof -
  have k: "unat (of_nat k :: u64) = k" using assms(3) by (simp add: unat_of_nat)
  show *: "unat (n + of_nat k) = unat n + k" by (rule trans [OF unat_add_lem [THEN iffD1]]) (use k assms in simp_all)
  then show "n + of_nat k \<noteq> 0" using assms(2) by (metis add_eq_0_iff_both_eq_0 less_numeral_extra(3) unat_0)
qed

lemma client_pull_ok:
  assumes L: "crypto_lib_ok L" "4096 \<le> length cache" and C: "chan_ok CL cont"
  shows "backend_inv (pl_backend st) \<Longrightarrow> length (pl_buf st) < STREAM_TLS_BATCH_SOFT_LIMIT \<Longrightarrow>
      10 * unat (pl_pulled st) \<le> length (pl_buf st) \<Longrightarrow>
    \<exists>hit st' fs ws. client_pull L CL code cache ic st = Some st' \<and> pull_result L CL cont ic st hit st' fs ws"
proof (induction "length (backend_contents cont (pl_backend st))" arbitrary: st rule: less_induct)
  case less
  obtain r b where t: "try_recv_backend_batch CL (pl_backend st) (pull_budget (pl_buf st)) = (r, b)" by fastforce
  note ok = try_recv_backend_batch_ok [OF C less.prems(1) t]
  show ?case
  proof (cases r)
    case None
    then have "b = pl_backend st" using t recv_none_same by blast
    then have "client_pull L CL code cache ic st = Some (st\<lparr>pl_backend := pl_backend st\<rparr>)"
      using t None by (subst client_pull.simps) simp
    then show ?thesis using t None \<open>b = pl_backend st\<close> less.prems(1)
      by (intro exI [of _ False] exI [of _ "st\<lparr>pl_backend := pl_backend st\<rparr>"] exI [of _ "[]"])
        (auto simp: pull_result_def frames_on_wire_def)
  next
    case (Some x)
    note ne = recv_batch_nonempty [OF less.prems(1) t [unfolded Some]]
    obtain ws rng totals last where a: "append_frames L code cache ic (fb_frames x) (st\<lparr>pl_backend := b\<rparr>) =
        Some (st\<lparr>pl_backend := b, pl_buf := pl_buf st @ wires ws, pl_rng := rng, pl_last := last, pl_totals := totals\<rparr>)"
      "frames_on_wire L ic (fb_frames x) ws" "last = Some (length (pl_buf st @ wires (butlast ws)))"
      using append_frames_ok [OF L, of code ic "fb_frames x" "st\<lparr>pl_backend := b\<rparr>"] ne(1) by auto
    define st1 where "st1 = st\<lparr>pl_backend := b, pl_buf := pl_buf st @ wires ws, pl_rng := rng, pl_last := last, pl_totals := totals,
        pl_payload := saturating_add (pl_payload st) (fb_bytes x), pl_pulled := pl_pulled st + of_nat (length (fb_frames x))\<rparr>"
    have s: "client_pull L CL code cache ic st =
        (if length (pl_buf st1) \<ge> STREAM_TLS_BATCH_SOFT_LIMIT then Some st1 else client_pull L CL code cache ic st1)"
      using t Some a(1) by (subst client_pull.simps) (simp add: st1_def)
    have c: "backend_contents cont (pl_backend st) = fb_frames x @ backend_contents cont (pl_backend st1)"
      using ok(2) Some by (simp add: st1_def)
    have inv: "backend_inv (pl_backend st1)" using ok(1) by (simp add: st1_def)
    have "10 * unat (pl_pulled st) < 16384" using less.prems(2,3) by (simp add: STREAM_TLS_BATCH_SOFT_LIMIT_def)
    note n = small_count [OF this, of "length (fb_frames x)"]
    have lw: "length ws = length (fb_frames x)" using a(2) unfolding frames_on_wire_def by (metis length_map)
    have cnt: "10 * unat (pl_pulled st1) \<le> length (pl_buf st1)" "pl_pulled st1 \<noteq> 0"
      using n ne lw length_wires [of ws] less.prems(3) by (simp_all add: st1_def)
    have step: "pull_result L CL cont ic st hit st' (fb_frames x @ fs) (ws @ vs)" if "pull_result L CL cont ic st1 hit st' fs vs" for hit st' fs vs
      using pull_fits_step [OF L(1) C less.prems(1) t [unfolded Some] a(2), of st1]
      by (intro pull_result_step [OF that c _ a(2) ne(1)]) (use cnt(2) in \<open>simp_all add: st1_def a(3)\<close>)
    show ?thesis
    proof (cases "length (pl_buf st1) \<ge> STREAM_TLS_BATCH_SOFT_LIMIT")
      case True
      have "pull_result L CL cont ic st1 True st1 [] []" using inv by (simp add: pull_result_def frames_on_wire_def)
      from step [OF this] show ?thesis using s True by auto
    next
      case False
      have "length (backend_contents cont (pl_backend st1)) < length (backend_contents cont (pl_backend st))" using c ne(1) by simp
      from less.hyps [OF this inv _ cnt(1)] False obtain hit st' fs vs where
        i: "client_pull L CL code cache ic st1 = Some st'" "pull_result L CL cont ic st1 hit st' fs vs" by (auto simp: not_le)
      show ?thesis using s False i(1) step [OF i(2)] by auto
    qed
  qed
qed

subsection \<open>Draining\<close>

lemma client_drain_returns:
  assumes T: "tls_ok TL backlog"
  shows "\<exists>closed t p w. client_drain TL now rereg s =
    Some (closed, s\<lparr>ct_tls := t, ct_last_write_progress := p, ct_write_blocked := w\<rparr>)"
proof (induction "backlog (ct_tls s)" arbitrary: s rule: less_induct)
  case less
  obtain io t where w: "tls_write_tls TL (ct_tls s) = (io, t)" by fastforce
  have one: ?case if "client_drain TL now rereg s = Some (c, s\<lparr>ct_tls := t', ct_last_write_progress := p, ct_write_blocked := b\<rparr>)" for c t' p b
    using that by blast
  show ?case
  proof (cases "tls_wants_write TL (ct_tls s)")
    case False
    show ?thesis
      by (rule one [where c = "False" and t' = "ct_tls s" and p = "ct_last_write_progress s" and b = "ct_write_blocked s"], subst client_drain.simps) (use False in simp)
  next
    case True
    show ?thesis
    proof (cases io)
      case (Tls_Wrote n)
      show ?thesis
      proof (cases "n = 0")
        case zero: True
        show ?thesis
          by (rule one [where c = "True" and t' = "t" and p = "ct_last_write_progress s" and b = "ct_write_blocked s"], subst client_drain.simps)
            (use True w Tls_Wrote zero in simp)
      next
        case n: False
        let ?s = "s\<lparr>ct_tls := t, ct_last_write_progress := now\<rparr>"
        have "backlog (ct_tls ?s) < backlog (ct_tls s)" using T w Tls_Wrote n by (auto simp: tls_ok_def)
        from less [OF this] obtain c t' p b where d:
          "client_drain TL now rereg ?s = Some (c, s\<lparr>ct_tls := t', ct_last_write_progress := p, ct_write_blocked := b\<rparr>)" by auto
        have "client_drain TL now rereg s = client_drain TL now rereg ?s"
          using True w Tls_Wrote n by (subst client_drain.simps) simp
        then show ?thesis using d one by simp
      qed
    next
      case Tls_Would_Block
      show ?thesis
        by (rule one [where c = "\<not> ct_write_blocked s \<and> \<not> rereg" and t' = "t" and p = "ct_last_write_progress s" and b = "ct_write_blocked s \<or> rereg"],
            subst client_drain.simps) (use True w Tls_Would_Block in simp)
    next
      case Tls_Error
      show ?thesis
        by (rule one [where c = "True" and t' = "t" and p = "ct_last_write_progress s" and b = "ct_write_blocked s"], subst client_drain.simps)
          (use True w Tls_Error in simp)
    qed
  qed
qed

lemma client_flush_returns:
  assumes "tls_ok TL backlog"
  shows "\<exists>closed s'. client_flush TL now now_us rereg1 rereg2 s = Some (closed, s')
    \<and> backend_contents cont (ct_backend s') = backend_contents cont (ct_backend s) \<and> backend_inv (ct_backend s') = backend_inv (ct_backend s)"
proof -
  obtain c t p w where d: "client_drain TL now rereg1 s = Some (c, s\<lparr>ct_tls := t, ct_last_write_progress := p, ct_write_blocked := w\<rparr>)"
    using client_drain_returns [OF assms] by blast
  show ?thesis unfolding client_flush_def d by (simp add: client_settle_def Let_def)
qed

subsection \<open>One round\<close>

text \<open>What a writer may hand to TLS: framed frames \<open>fs\<close> of the queue, a keepalive, or nothing when it fails.\<close>

definition keepalive_frame :: vpn_frame where
  "keepalive_frame = \<lparr>vf_seq = 0, vf_data = Owned []\<rparr>"

definition handed :: "crypto_lib \<Rightarrow> inner_cipher option \<Rightarrow> vpn_frame list \<Rightarrow> bytes \<Rightarrow> bool \<Rightarrow> bool" where
  "handed L ic fs pt close \<longleftrightarrow>
     wire_ok L ic fs pt \<or> fs = [] \<and> wire_ok L ic [keepalive_frame] pt \<or> pt = [] \<and> close"

lemma client_batch_ok:
  assumes L: "crypto_lib_ok L" "4096 \<le> length cache" and C: "chan_ok CL cont"
    and b: "backend_inv (ct_backend s)" and fit: "list_all frame_fits (backend_contents cont (ct_backend s))"
  shows "\<exists>padded st fs. client_batch TL L CL code cache woken ic rng s = Some (padded, st) \<and> wire_ok L ic fs (pl_buf st)
    \<and> backend_inv (pl_backend st) \<and> backend_contents cont (ct_backend s) = fs @ backend_contents cont (pl_backend st)
    \<and> (pb_owned (ct_backend s) \<noteq> None \<longrightarrow> length (pl_buf st) \<le> MAX_TLS_PLAINTEXT_RECORD)"
proof (cases "\<not> tls_wants_write TL (ct_tls s) \<and> (woken \<or> \<not> backend_tx_is_empty CL (ct_backend s))")
  case False
  then have "client_batch TL L CL code cache woken ic rng s = Some (0, \<lparr>pl_backend = ct_backend s, pl_buf = [], pl_rng = rng,
      pl_last = None, pl_pulled = 0, pl_payload = ct_pending_payload s, pl_totals = totals_default\<rparr>)"
    unfolding client_batch_def Let_def by (rule if_not_P)
  then show ?thesis by (rule_tac exI, rule_tac exI, rule_tac exI [of _ "[]"], rule_tac conjI, assumption) (use b in simp)
next
  case True
  define st where "st = \<lparr>pl_backend = consume_backend_wake (ct_backend s), pl_buf = [], pl_rng = rng, pl_last = None, pl_pulled = 0,
      pl_payload = ct_pending_payload s, pl_totals = totals_default\<rparr>"
  have "backend_inv (pl_backend st)" "length (pl_buf st) < STREAM_TLS_BATCH_SOFT_LIMIT" "10 * unat (pl_pulled st) \<le> length (pl_buf st)"
    using b by (simp_all add: st_def STREAM_TLS_BATCH_SOFT_LIMIT_def)
  from client_pull_ok [OF L C this, of code ic] obtain hit st' fs ws where
    p: "client_pull L CL code cache ic st = Some st'" "pull_result L CL cont ic st hit st' fs ws" by blast
  have c: "backend_contents cont (ct_backend s) = fs @ backend_contents cont (pl_backend st')" "backend_inv (pl_backend st')"
    using p(2) by (simp_all add: pull_result_def st_def)
  have "list_all frame_fits fs" using fit c(1) by simp
  from padded_flush [OF p(2) L(1) this, of code cache "ct_pad_limit s"] obtain n buf rng1 where
    q: "(if pl_pulled st' \<noteq> 0 then pad_stream_batch_tail code cache (pl_buf st') (pl_last st') (ct_pad_limit s) (pl_rng st')
    else Some (0, pl_buf st', pl_rng st')) = Some (n, buf, rng1)" "wire_ok L ic fs buf"
    "pull_fits cont st \<longrightarrow> length buf \<le> MAX_TLS_PLAINTEXT_RECORD" by (auto simp: st_def)
  have "pb_owned (ct_backend s) \<noteq> None \<longrightarrow> length buf \<le> MAX_TLS_PLAINTEXT_RECORD"
    using q(3) fit by (simp add: pull_fits_def st_def)
  have "client_batch TL L CL code cache woken ic rng s = Some (n, st'\<lparr>pl_buf := buf, pl_rng := rng1\<rparr>)"
    using True p(1) q(1) by (simp add: client_batch_def st_def)
  then show ?thesis using c q(2) \<open>pb_owned (ct_backend s) \<noteq> None \<longrightarrow> length buf \<le> MAX_TLS_PLAINTEXT_RECORD\<close> by auto
qed

lemma keepalive_wire:
  assumes "crypto_lib_ok L" "4096 \<le> length cache"
  shows "\<exists>buf r. append_padded_frame_with_limit L code cache [] 0 [] None limit rng = Some (buf, r) \<and> wire_ok L ic [keepalive_frame] buf
    \<and> length buf \<le> MAX_TLS_PLAINTEXT_RECORD"
proof -
  obtain pad r where a: "append_padded_frame_with_limit L code cache [] 0 [] None limit rng = Some (wire_frame 0 [] pad, r)"
    "length pad = fst (pad_length_with_limit code 0 limit rng)"
    using append_padded_frame_wire [OF assms, of code "[]" 0 "[]" None limit rng] by (auto simp: sealed_def)
  have pad: "length pad \<le> 4096" using a(2) pad_length_max [of code 0 limit rng] by simp
  then have "wire_ok L ic [keepalive_frame] (wire_frame 0 [] pad)"
    unfolding wire_ok_def
    by (intro exI [of _ "[(0, [], pad)]"]) (auto simp: sealed_frame_def keepalive_frame_def sealed_def split: option.split)
  moreover have "length (wire_frame 0 [] pad) \<le> MAX_TLS_PLAINTEXT_RECORD" using pad by (simp add: wire_frame_def MAX_TLS_PLAINTEXT_RECORD_def)
  ultimately show ?thesis using a(1) by blast
qed

lemma client_send_ok:
  assumes T: "tls_ok TL backlog" and L: "crypto_lib_ok L" "4096 \<le> length cache" and C: "chan_ok CL cont"
    and b: "backend_inv (ct_backend s)" and fit: "list_all frame_fits (backend_contents cont (ct_backend s))"
  shows "\<exists>pt close s' fs. client_send TL L CL code cache now now_us woken rereg1 rereg2 ic rng s = Some (pt, close, s')
    \<and> backend_inv (ct_backend s') \<and> backend_contents cont (ct_backend s) = fs @ backend_contents cont (ct_backend s')
    \<and> handed L ic fs pt close \<and> (pb_owned (ct_backend s) \<noteq> None \<longrightarrow> length pt \<le> MAX_TLS_PLAINTEXT_RECORD)"
proof -
  obtain padded st fs where p: "client_batch TL L CL code cache woken ic rng s = Some (padded, st)" "wire_ok L ic fs (pl_buf st)"
    "backend_inv (pl_backend st)" "backend_contents cont (ct_backend s) = fs @ backend_contents cont (pl_backend st)"
    "pb_owned (ct_backend s) \<noteq> None \<longrightarrow> length (pl_buf st) \<le> MAX_TLS_PLAINTEXT_RECORD"
    using client_batch_ok [OF L C b fit] by blast
  have empty: "fs = []" if "pl_buf st = []"
    using p(2)
  proof (cases rule: wire_ok_cases)
    case (Cons f gs pad rest)
    have "length (pl_buf st) \<ge> 10" unfolding Cons(2) by (simp add: wire_frame_def)
    then show ?thesis using that by simp
  qed simp
  obtain buf where k: "client_keepalive TL L code cache now s st = Some buf" "handed L ic fs buf False"
    "pb_owned (ct_backend s) \<noteq> None \<longrightarrow> length buf \<le> MAX_TLS_PLAINTEXT_RECORD"
    using keepalive_wire [OF L, of code "ct_pad_limit s" "pl_rng st" ic] p(2,5) empty
    by (cases "pl_buf st = [] \<and> \<not> tls_wants_write TL (ct_tls s) \<and> now - ct_last_keepalive s > KEEPALIVE_INTERVAL")
      (auto simp: client_keepalive_def handed_def)
  define s1 where "s1 = s\<lparr>ct_backend := pl_backend st, ct_pending_payload := pl_payload st\<rparr>"
  have fl: "\<exists>c s'. client_flush TL now now_us rereg1 rereg2 s2 = Some (c, s') \<and> backend_inv (ct_backend s')
      \<and> backend_contents cont (ct_backend s) = fs @ backend_contents cont (ct_backend s')" if "ct_backend s2 = pl_backend st" for s2
    using client_flush_returns [OF T, of now now_us rereg1 rereg2 s2 cont] p(3,4) that by auto
  have eq: "client_send TL L CL code cache now now_us woken rereg1 rereg2 ic rng s =
      (if buf = [] then map_option (Pair []) (client_flush TL now now_us rereg1 rereg2 s1)
       else case tls_write_all TL (ct_tls s1) buf of None \<Rightarrow> Some ([], True, s1)
         | Some t \<Rightarrow> map_option (Pair buf) (client_flush TL now now_us rereg1 rereg2 (client_account now buf padded st t s1)))"
    unfolding client_send_def p(1) k(1) Option.bind.simps prod.case Let_def s1_def ..
  have h: "handed L ic fs buf c" for c using k(2) by (auto simp: handed_def)
  show ?thesis
  proof (cases "buf = []")
    case True
    then show ?thesis using eq fl [of s1] h k(3) by (auto simp: s1_def)
  next
    case ne: False
    show ?thesis
    proof (cases "tls_write_all TL (ct_tls s1) buf")
      case None
      then have "client_send TL L CL code cache now now_us woken rereg1 rereg2 ic rng s = Some ([], True, s1)" using eq ne by simp
      then show ?thesis using p(3,4) by (auto simp: s1_def handed_def)
    next
      case (Some t)
      have "ct_backend (client_account now buf padded st t s1) = pl_backend st" by (simp add: client_account_def Let_def s1_def)
      from fl [OF this] show ?thesis using eq ne Some h k(3) by auto
    qed
  qed
qed

end
