(* ===== verification/Session_Tick.thy ===== *)
theory Session_Tick
  imports Client_Tx_Props
begin

text \<open>
  One connection in the timer scan of the server's worker loop (\<open>worker_loop\<close> of \<open>server.rs\<close>):
  the idle limit, the round-trip-time refresh, the keepalive, sequence exhaustion, epoch and
  kick checks, the write-stall limit, and the decision to flush; then the flush of a connection
  whose token was marked dirty. Times are in nanoseconds.
\<close>

subsection \<open>State\<close>

text \<open>The fields of the logical session that the scan reads and writes.\<close>

record tick_shared =
  tk_exhausted :: bool
  tk_epoch :: u64
  tk_instance_id :: string
  tk_ic_tx :: "inner_cipher option"
  tk_active_conns :: u32
  tk_force_disconnect :: bool

record ('c, 't) tick_session =
  tk_tx :: "('c, 't) tx_session"
  tk_handshake_done :: bool
  tk_last_keepalive :: nat
  tk_last_rx :: nat
  tk_rtt_timer :: nat

subsection \<open>The scan\<close>

definition tick_rtt :: "nat \<Rightarrow> u32 \<Rightarrow> nat \<Rightarrow> ('c, 't) tick_session \<Rightarrow> ('c, 't) tick_session" where
  "tick_rtt now sample idle s =
     (if now - tk_rtt_timer s > 200 * 10 ^ 6
      then s\<lparr>tk_tx := (tk_tx s)\<lparr>ts_backend := (ts_backend (tk_tx s))\<lparr>pb_rtt := (if idle \<ge> 5 then 100000 else sample)\<rparr>\<rparr>,
             tk_rtt_timer := now\<rparr>
      else s)"

text \<open>The keepalive: the plaintext handed to TLS, empty when none.\<close>

definition tick_keepalive ::
  "'t tls_lib \<Rightarrow> crypto_lib \<Rightarrow> u8 \<Rightarrow> bytes \<Rightarrow> nat \<Rightarrow> u64 \<Rightarrow> ('c, 't) tick_session \<Rightarrow> (bytes \<times> ('c, 't) tick_session) option" where
  "tick_keepalive TL L code cache now rng s =
     (if now - tk_last_keepalive s > KEEPALIVE_INTERVAL \<and> ts_write_stalled (tk_tx s) = None \<and> \<not> tls_wants_write TL (ts_tls (tk_tx s)) then
        (case append_padded_frame_with_limit L code cache [] 0 [] None (ts_pad_limit (tk_tx s)) rng of
           None \<Rightarrow> None
         | Some (buf, rng1) \<Rightarrow>
             (case tls_write_all TL (ts_tls (tk_tx s)) buf of
                None \<Rightarrow> Some ([], s)
              | Some t \<Rightarrow> Some (buf, s\<lparr>tk_tx := (tk_tx s)\<lparr>ts_tls := t\<rparr>, tk_last_keepalive := now\<rparr>)))
      else Some ([], s))"

definition exhausted_instance :: "string \<Rightarrow> bool" where
  "exhausted_instance i \<longleftrightarrow> take 10 i = ''exhausted-''"

text \<open>An exhausted port starts a new epoch once; \<open>fresh\<close> is the generated id.\<close>

definition tick_exhausted :: "string \<Rightarrow> tick_shared \<Rightarrow> tick_shared" where
  "tick_exhausted fresh c =
     (if exhausted_instance (tk_instance_id c) then c
      else c\<lparr>tk_instance_id := ''exhausted-'' @ fresh, tk_epoch := saturating_add (tk_epoch c) 1, tk_active_conns := 0\<rparr>)"

definition wake_pending :: "('c, 't) tick_session \<Rightarrow> bool" where
  "wake_pending s = (case pb_notify (ts_backend (tk_tx s)) of None \<Rightarrow> False | Some n \<Rightarrow> nt_pending n)"

definition needs_flush :: "'t tls_lib \<Rightarrow> ('c, 't) tick_session \<Rightarrow> bool" where
  "needs_flush TL s \<longleftrightarrow>
     wake_pending s \<or> ts_leftover (tk_tx s) \<or> tls_wants_write TL (ts_tls (tk_tx s)) \<or> ts_write_stalled (tk_tx s) \<noteq> None"

text \<open>\<open>flush_outbound\<close> of a connection, with the session's current epoch and cipher.\<close>

definition tick_flush ::
  "'t tls_lib \<Rightarrow> crypto_lib \<Rightarrow> 'c chan_lib \<Rightarrow> u8 \<Rightarrow> bytes \<Rightarrow> nat \<Rightarrow> u64 \<Rightarrow> u64 \<Rightarrow> tick_shared \<Rightarrow> ('c, 't) tick_session
     \<Rightarrow> (bytes \<times> bool \<times> ('c, 't) tick_session) option" where
  "tick_flush TL L CL code cache now now_us rng c s =
     map_option (\<lambda>(pt, close, tx). (pt, close, s\<lparr>tk_tx := tx\<rparr>))
       (flush_outbound TL L CL code cache now now_us (tk_epoch c) (tk_ic_tx c) rng (tk_tx s))"

text \<open>
  The scan of one connection of an established session: the plaintexts handed to TLS in order,
  whether it has to close, the logical session and the connection.
\<close>

definition session_tick ::
  "'t tls_lib \<Rightarrow> crypto_lib \<Rightarrow> 'c chan_lib \<Rightarrow> u8 \<Rightarrow> bytes \<Rightarrow> nat \<Rightarrow> u64 \<Rightarrow> u32 \<Rightarrow> string \<Rightarrow> u64 \<Rightarrow> u64
     \<Rightarrow> tick_shared \<Rightarrow> ('c, 't) tick_session \<Rightarrow> (bytes \<times> bool \<times> tick_shared \<times> ('c, 't) tick_session) option" where
  "session_tick TL L CL code cache now now_us sample fresh rng1 rng2 c s =
     (let idle = (now - tk_last_rx s) div 10 ^ 9
      in if idle > 15 then Some ([], True, c, s)
         else if \<not> tk_handshake_done s then Some ([], False, c, s)
         else
           do {
             (ka, s1) \<leftarrow> tick_keepalive TL L code cache now rng1 (tick_rtt now sample idle s);
             if tk_exhausted c then Some (ka, True, tick_exhausted fresh c, s1)
             else if tk_epoch c \<noteq> ts_epoch (tk_tx s1) \<or> tk_force_disconnect c then Some (ka, True, c, s1)
             else if (case ts_write_stalled (tk_tx s1) of None \<Rightarrow> False | Some t0 \<Rightarrow> now - t0 > WRITE_STALL_LIMIT)
             then Some (ka, True, c, s1)
             else if needs_flush TL s1 then
               map_option (\<lambda>(pt, close, s2). (ka @ pt, close, c, s2)) (tick_flush TL L CL code cache now now_us rng2 c s1)
             else Some (ka, False, c, s1)
           })"

end
