(* ===== verification/Tunnel_Send.thy ===== *)
theory Tunnel_Send
  imports Session_Tick
begin

text \<open>
  The sending end of a tunnel: a port, its connections with their TLS writers, and the byte
  stream each connection has handed to TLS. The interface \<open>frame_sender\<close> is what the two writers
  (\<open>client_send\<close> and the server's timer scan with its dirty flush) promise; every run of a sending
  end returns, and its streams are framed items of the port.
\<close>

subsection \<open>Frames that fit\<close>

lemma max_length_le: "\<forall>p \<in> set ps. length p \<le> B \<Longrightarrow> max_length ps \<le> B"
proof -
  assume b: "\<forall>p \<in> set ps. length p \<le> B"
  have "fold max xs a \<le> B" if "\<forall>x \<in> set xs. x \<le> B" "a \<le> B" for xs and a :: nat
    using that by (induction xs arbitrary: a) auto
  then show "max_length ps \<le> B" unfolding max_length_def using b by auto
qed

lemma port_items_fit:
  assumes L: "crypto_lib_ok L" and len: "length (payloads evs) < 2 ^ 32" "[] \<notin> set (payloads evs)"
    and b: "\<forall>p \<in> set (payloads evs). length p \<le> 65535" and i: "item \<in> port_items cpu L n ic evs"
  shows "length (snd item) + 16 \<le> MAX_DATA_LENGTH"
proof -
  define pay where "pay = sent_of [0] (payloads evs)"
  define k where "k = clamp_fec_group n"
  have le: "length (pay seq) \<le> 65535" for seq
    using sent_of_in [of "[0]" "payloads evs" seq] b unfolding pay_def by (metis One_nat_def insert_iff length_Cons list.size(3) one_le_numeral)
  have k: "k \<le> 64" by (simp add: k_def clamp_fec_group_def clamp_def FEC_MIN_GROUP_def FEC_MAX_GROUP_def)
  from i consider w where "w \<in> set (fst (enc_run cpu L (encoder_new n ic) 1 evs))" "item = wire_item w" | c where "item = (0, encode_control c)"
    unfolding port_items_def by blast
  then show ?thesis
  proof cases
    case 1
    have "emitted L ic k pay w"
      using enc_run_emitted [OF enc_ok_new feeds_sent_of [OF len(1)]] sent_of_nonempty [OF len(2), of "[0]"] 1(1)
      unfolding pay_def k_def by blast
    then show ?thesis
    proof (cases w)
      case (Ev_Control x)
      then obtain start where "x = genuine_parity L ic k pay start" using \<open>emitted L ic k pay w\<close> by auto
      moreover have "max_length (group_payloads pay k start) \<le> 65535"
        by (rule max_length_le) (auto simp: group_payloads_def member_def le)
      moreover have "length (group_payloads pay k start) = k" by (simp add: group_payloads_def)
      moreover have "tag_size ic \<le> 16" by (simp add: tag_size_def tag_len_def enc_consts split: option.split)
      ultimately have "length x \<le> 6 + 4 * 64 + 65535 + 16" using k by (simp add: genuine_parity_def length_parity_frame [OF L])
      then show ?thesis by (simp add: 1(2) Ev_Control MAX_DATA_LENGTH_def)
    next
      case (Ev_Data seq p)
      then have "length p \<le> 65535" using \<open>emitted L ic k pay w\<close> le by simp
      then show ?thesis by (simp add: 1(2) Ev_Data MAX_DATA_LENGTH_def)
    qed
  next
    case 2
    then show ?thesis by (simp add: MAX_DATA_LENGTH_def)
  qed
qed

subsection \<open>The interface of a writer\<close>

text \<open>
  A writer works on shared state \<open>'g\<close> and on its connection \<open>'s\<close>, which holds the backend. A step
  takes a prefix \<open>fs\<close> of the queue; what it hands to TLS is framed, sealed in order, and made of
  these frames and keepalives.
\<close>

locale frame_sender =
  fixes L :: crypto_lib
    and cont :: "'c \<Rightarrow> vpn_frame list"
    and ic :: "inner_cipher option"
    and get :: "'s \<Rightarrow> 'c pbackend"
    and put :: "'c pbackend \<Rightarrow> 's \<Rightarrow> 's"
    and ready :: "'g \<Rightarrow> bool"
    and step :: "'i \<Rightarrow> 'g \<Rightarrow> 's \<Rightarrow> (bytes \<times> bool \<times> 'g \<times> 's) option"
  assumes get_put: "get (put b s) = b"
    and step_ok: "ready g \<Longrightarrow> backend_inv (get s) \<Longrightarrow> list_all frame_fits (backend_contents cont (get s)) \<Longrightarrow>
      \<exists>pt close g' s' fs gs. step i g s = Some (pt, close, g', s') \<and> ready g' \<and> backend_inv (get s')
        \<and> backend_contents cont (get s) = fs @ backend_contents cont (get s')
        \<and> wire_ok L ic gs pt \<and> set gs \<subseteq> insert keepalive_frame (set fs)"

subsection \<open>A sending end\<close>

record ('c, 's, 'g) sender_sys =
  ss_port :: "'c async_port"
  ss_conns :: "nat \<Rightarrow> 's"
  ss_shared :: 'g
  ss_wire :: "nat \<Rightarrow> bytes"

text \<open>An event of the port, or a step of the writer of connection \<open>ch\<close>.\<close>

datatype ('c, 'i) sender_event = Se_Port "'c port_event" | Se_Send nat 'i

definition backend_index :: "nat \<Rightarrow> 'c pbackend list \<Rightarrow> nat option" where
  "backend_index ch bs = (let i = length (takeWhile (\<lambda>b. pb_chan_id b \<noteq> ch) bs) in if i < length bs then Some i else None)"

fun sender_step ::
  "cpu \<Rightarrow> crypto_lib \<Rightarrow> 'c chan_lib \<Rightarrow> ('s \<Rightarrow> 'c pbackend) \<Rightarrow> ('c pbackend \<Rightarrow> 's \<Rightarrow> 's)
     \<Rightarrow> ('i \<Rightarrow> 'g \<Rightarrow> 's \<Rightarrow> (bytes \<times> bool \<times> 'g \<times> 's) option) \<Rightarrow> ('c, 'i) sender_event \<Rightarrow> ('c, 's, 'g) sender_sys
     \<Rightarrow> ('c, 's, 'g) sender_sys option" where
  "sender_step cpu L CL get put step (Se_Port e) y = Some (y\<lparr>ss_port := snd (port_step cpu L CL e (ss_port y))\<rparr>)"
| "sender_step cpu L CL get put step (Se_Send ch i) y =
     (let p = ss_port y in
      case backend_index ch (ap_backends p) of
        None \<Rightarrow> Some y
      | Some j \<Rightarrow>
          (case step i (ss_shared y) (put (ap_backends p ! j) (ss_conns y ch)) of
             None \<Rightarrow> None
           | Some (pt, close, g, s) \<Rightarrow>
               Some (y\<lparr>ss_port := p\<lparr>ap_backends := (ap_backends p)[j := get s]\<rparr>, ss_conns := (ss_conns y)(ch := s),
                       ss_shared := g, ss_wire := (ss_wire y)(ch := ss_wire y ch @ pt)\<rparr>)))"

fun sender_run ::
  "cpu \<Rightarrow> crypto_lib \<Rightarrow> 'c chan_lib \<Rightarrow> ('s \<Rightarrow> 'c pbackend) \<Rightarrow> ('c pbackend \<Rightarrow> 's \<Rightarrow> 's)
     \<Rightarrow> ('i \<Rightarrow> 'g \<Rightarrow> 's \<Rightarrow> (bytes \<times> bool \<times> 'g \<times> 's) option) \<Rightarrow> ('c, 'i) sender_event list \<Rightarrow> ('c, 's, 'g) sender_sys
     \<Rightarrow> ('c, 's, 'g) sender_sys option" where
  "sender_run cpu L CL get put step [] y = Some y"
| "sender_run cpu L CL get put step (e # es) y =
     (case sender_step cpu L CL get put step e y of None \<Rightarrow> None | Some y1 \<Rightarrow> sender_run cpu L CL get put step es y1)"

text \<open>The payloads written, and what is asked of an event: fresh backends, and payloads of bounded size.\<close>

fun sender_payloads :: "('c, 'i) sender_event \<Rightarrow> bytes list" where
  "sender_payloads (Se_Port e) = event_payloads e"
| "sender_payloads (Se_Send ch i) = []"

fun sender_ok :: "('c \<Rightarrow> vpn_frame list) \<Rightarrow> ('c, 'i) sender_event \<Rightarrow> bool" where
  "sender_ok cont (Se_Port e) \<longleftrightarrow> event_ok cont e \<and> list_all (\<lambda>p. length p \<le> 65535) (event_payloads e)"
| "sender_ok cont (Se_Send ch i) \<longleftrightarrow> True"

lemma backend_index_less: "backend_index ch bs = Some j \<Longrightarrow> j < length bs"
  by (auto simp: backend_index_def Let_def split: if_splits)

text \<open>The items that may be on the wire, and a stream of them.\<close>

definition wire_items :: "cpu \<Rightarrow> crypto_lib \<Rightarrow> nat \<Rightarrow> inner_cipher option \<Rightarrow> enc_event list \<Rightarrow> (u32 \<times> bytes) set" where
  "wire_items cpu L n fic evs = insert (0, []) (port_items cpu L n fic evs)"

definition stream_of :: "crypto_lib \<Rightarrow> inner_cipher option \<Rightarrow> (u32 \<times> bytes) set \<Rightarrow> bytes \<Rightarrow> bool" where
  "stream_of L ic S bs \<longleftrightarrow> (\<exists>fs. wire_ok L ic fs bs \<and> list_all frame_fits fs \<and> frame_item ` set fs \<subseteq> S)"

lemma stream_of_Nil: "stream_of L ic S []"
  unfolding stream_of_def by (intro exI [of _ "[]"]) simp

lemma stream_of_append: "stream_of L ic S a \<Longrightarrow> stream_of L ic S b \<Longrightarrow> stream_of L ic S (a @ b)"
  unfolding stream_of_def by (elim exE, rule_tac x = "fs @ fsa" in exI) (auto intro: wire_ok_append)

lemma stream_of_mono: "stream_of L ic S bs \<Longrightarrow> S \<subseteq> T \<Longrightarrow> stream_of L ic T bs"
  unfolding stream_of_def by blast

definition sys_ok ::
  "cpu \<Rightarrow> crypto_lib \<Rightarrow> ('c \<Rightarrow> vpn_frame list) \<Rightarrow> inner_cipher option \<Rightarrow> nat \<Rightarrow> inner_cipher option \<Rightarrow> enc_event list
     \<Rightarrow> ('c, 's, 'g) sender_sys \<Rightarrow> bool" where
  "sys_ok cpu L cont ic n fic evs y \<longleftrightarrow>
     port_inv cpu L cont n fic evs (ss_port y) \<and> (\<forall>p \<in> set (payloads evs). length p \<le> 65535)
     \<and> (\<forall>ch. stream_of L ic (wire_items cpu L n fic evs) (ss_wire y ch))"

lemma backend_fits:
  assumes "sys_ok cpu L cont ic n fic evs y" "crypto_lib_ok L" "j < length (ap_backends (ss_port y))"
  shows "backend_inv (ap_backends (ss_port y) ! j)" "list_all frame_fits (backend_contents cont (ap_backends (ss_port y) ! j))"
    "frame_item ` set (backend_contents cont (ap_backends (ss_port y) ! j)) \<subseteq> port_items cpu L n fic evs"
proof -
  have i: "port_inv cpu L cont n fic evs (ss_port y)" and b: "\<forall>p \<in> set (payloads evs). length p \<le> 65535"
    using assms(1) by (simp_all add: sys_ok_def)
  have h: "backend_holds cont (port_items cpu L n fic evs) (ap_backends (ss_port y) ! j)"
    using i list_all_nth [OF _ assms(3)] by (auto simp: port_inv_def port_holds_def)
  then show s: "frame_item ` set (backend_contents cont (ap_backends (ss_port y) ! j)) \<subseteq> port_items cpu L n fic evs"
    and "backend_inv (ap_backends (ss_port y) ! j)" by (simp_all add: backend_holds_def)
  have "frame_fits f" if "frame_item f \<in> port_items cpu L n fic evs" for f
    using port_items_fit [OF assms(2) _ _ b that] i by (simp add: port_inv_def frame_fits_def frame_item_def)
  then show "list_all frame_fits (backend_contents cont (ap_backends (ss_port y) ! j))" using s by (auto simp: list_all_iff)
qed

context frame_sender
begin

lemma sender_step_ok:
  assumes C: "chan_ok CL cont" "crypto_lib_ok L" and y: "sys_ok cpu L cont ic n fic evs y" "ready (ss_shared y)" and e: "sender_ok cont e"
  shows "\<exists>new y'. sender_step cpu L CL get put step e y = Some y' \<and> sys_ok cpu L cont ic n fic (evs @ new) y' \<and> ready (ss_shared y')
    \<and> subseq (payloads new) (sender_payloads e)"
proof (cases e)
  case (Se_Port pe)
  obtain out p' where s: "port_step cpu L CL pe (ss_port y) = (out, p')" by fastforce
  have i: "port_inv cpu L cont n fic evs (ss_port y)" "event_ok cont pe" using y(1) e by (simp_all add: sys_ok_def Se_Port)
  obtain new where n: "subseq (payloads new) (event_payloads pe)" "port_inv cpu L cont n fic (evs @ new) p'"
    using port_step_inv [OF C(1) i s] by blast
  have "set (payloads new) \<subseteq> set (event_payloads pe)" using n(1) by (auto elim: list_emb_set)
  then have b: "\<forall>p \<in> set (payloads (evs @ new)). length p \<le> 65535"
    using y(1) e by (auto simp: sys_ok_def Se_Port list_all_iff)
  have mono: "wire_items cpu L n fic evs \<subseteq> wire_items cpu L n fic (evs @ new)"
    unfolding wire_items_def by (rule insert_mono [OF port_items_mono])
  have "stream_of L ic (wire_items cpu L n fic (evs @ new)) (ss_wire y ch)" for ch
    by (rule stream_of_mono [OF _ mono]) (use y(1) in \<open>simp add: sys_ok_def\<close>)
  then have "sys_ok cpu L cont ic n fic (evs @ new) (y\<lparr>ss_port := p'\<rparr>)"
    using n(2) b by (simp add: sys_ok_def del: payloads_append)
  then show ?thesis using s n(1) y(2) by (auto simp: Se_Port)
next
  case (Se_Send ch i)
  show ?thesis
  proof (cases "backend_index ch (ap_backends (ss_port y))")
    case None
    then show ?thesis using y by (auto simp: Se_Send intro!: exI [of _ "[]"])
  next
    case (Some j)
    note j = backend_index_less [OF Some]
    note fits = backend_fits [OF y(1) C(2) j]
    let ?b = "ap_backends (ss_port y) ! j"
    obtain pt close g' s' fs gs where st: "step i (ss_shared y) (put ?b (ss_conns y ch)) = Some (pt, close, g', s')" "ready g'"
      "backend_inv (get s')" "backend_contents cont ?b = fs @ backend_contents cont (get s')"
      "wire_ok L ic gs pt" "set gs \<subseteq> insert keepalive_frame (set fs)"
      using step_ok [OF y(2), of "put ?b (ss_conns y ch)" i] fits(1,2) unfolding get_put by blast
    define y' where "y' = y\<lparr>ss_port := (ss_port y)\<lparr>ap_backends := (ap_backends (ss_port y))[j := get s']\<rparr>, ss_conns := (ss_conns y)(ch := s'),
        ss_shared := g', ss_wire := (ss_wire y)(ch := ss_wire y ch @ pt)\<rparr>"
    have eq: "sender_step cpu L CL get put step e y = Some y'"
      unfolding Se_Send sender_step.simps Let_def Some option.case st(1) prod.case y'_def ..
    have h: "list_all (backend_holds cont (port_items cpu L n fic evs)) (ap_backends (ss_port y))"
      using y(1) by (simp add: sys_ok_def port_inv_def port_holds_def)
    have "backend_holds cont (port_items cpu L n fic evs) (get s')"
      using st(3,4) fits(3) by (auto simp: backend_holds_def)
    from port_inv_backends [OF _ list_all_update [OF h this]]
    have inv: "port_inv cpu L cont n fic evs (ss_port y')" using y(1) by (simp add: sys_ok_def y'_def)
    have "frame_fits f \<and> frame_item f \<in> wire_items cpu L n fic evs" if "f \<in> set gs" for f
    proof (cases "f = keepalive_frame")
      case True
      then show ?thesis by (simp add: wire_items_def keepalive_frame_def frame_item_def frame_fits_def MAX_DATA_LENGTH_def)
    next
      case False
      then have "f \<in> set (backend_contents cont ?b)" using that st(4,6) by auto
      then show ?thesis using fits(2,3) by (auto simp: wire_items_def list_all_iff)
    qed
    then have "stream_of L ic (wire_items cpu L n fic evs) pt"
      unfolding stream_of_def using st(5) by (auto simp: list_all_iff)
    then have "\<forall>c. stream_of L ic (wire_items cpu L n fic evs) (ss_wire y' c)"
      using y(1) by (simp add: sys_ok_def y'_def stream_of_append)
    then have "sys_ok cpu L cont ic n fic (evs @ []) y'" using inv y(1) by (simp add: sys_ok_def)
    moreover have "ready (ss_shared y')" using st(2) by (simp add: y'_def)
    ultimately show ?thesis using eq by (intro exI [of _ "[]"] exI [of _ y']) (simp add: Se_Send)
  qed
qed

lemma sender_run_ok:
  assumes C: "chan_ok CL cont" "crypto_lib_ok L"
  shows "sys_ok cpu L cont ic n fic evs y \<Longrightarrow> ready (ss_shared y) \<Longrightarrow> list_all (sender_ok cont) es \<Longrightarrow>
    \<exists>new y'. sender_run cpu L CL get put step es y = Some y' \<and> sys_ok cpu L cont ic n fic (evs @ new) y'
      \<and> subseq (payloads new) (concat (map sender_payloads es))"
proof (induction es arbitrary: evs y)
  case Nil
  then show ?case by (intro exI [of _ "[]"]) simp
next
  case (Cons e es)
  obtain a y1 where a: "sender_step cpu L CL get put step e y = Some y1" "sys_ok cpu L cont ic n fic (evs @ a) y1" "ready (ss_shared y1)"
    "subseq (payloads a) (sender_payloads e)"
    using sender_step_ok [OF C Cons.prems(1,2), of e] Cons.prems(3) by auto
  obtain b y2 where b: "sender_run cpu L CL get put step es y1 = Some y2" "sys_ok cpu L cont ic n fic ((evs @ a) @ b) y2"
    "subseq (payloads b) (concat (map sender_payloads es))"
    using Cons.IH [OF a(2,3)] Cons.prems(3) by auto
  show ?case using a(1,4) b list_emb_append_mono [OF a(4) b(3)] by (intro exI [of _ "a @ b"] exI [of _ y2]) simp
qed

end

end
