(* ===== verification/Tunnel_Writers.thy ===== *)
theory Tunnel_Writers
  imports Tunnel_Send
begin

text \<open>
  The two writers of the program provide the interface \<open>frame_sender\<close>: a round of the client's
  data loop, and a connection of the server in the timer scan or after a wake-up.
\<close>

definition writer_env :: "'t tls_lib \<Rightarrow> ('t \<Rightarrow> nat) \<Rightarrow> crypto_lib \<Rightarrow> 'c chan_lib \<Rightarrow> ('c \<Rightarrow> vpn_frame list) \<Rightarrow> bytes \<Rightarrow> bool" where
  "writer_env TL backlog L CL cont cache \<longleftrightarrow>
     tls_ok TL backlog \<and> crypto_lib_ok L \<and> chan_ok CL cont \<and> 4096 \<le> length cache"

lemma handed_wire:
  assumes "handed L ic fs pt close"
  shows "\<exists>gs. wire_ok L ic gs pt \<and> set gs \<subseteq> insert keepalive_frame (set fs)"
  using assms wire_ok_Nil [of L ic] unfolding handed_def by (elim disjE) (fastforce intro: exI [of _ "[]"])+

subsection \<open>The client\<close>

text \<open>The inputs of a round: the times, whether the poller woke up, its two answers, the random state.\<close>

type_synonym client_input = "nat \<times> u64 \<times> bool \<times> bool \<times> bool \<times> u64"

definition client_put :: "'c pbackend \<Rightarrow> ('c, 't) client_tx \<Rightarrow> ('c, 't) client_tx" where
  "client_put b s = s\<lparr>ct_backend := b\<rparr>"

fun client_writer ::
  "'t tls_lib \<Rightarrow> crypto_lib \<Rightarrow> 'c chan_lib \<Rightarrow> u8 \<Rightarrow> bytes \<Rightarrow> inner_cipher option \<Rightarrow> client_input \<Rightarrow> unit \<Rightarrow> ('c, 't) client_tx
     \<Rightarrow> (bytes \<times> bool \<times> unit \<times> ('c, 't) client_tx) option" where
  "client_writer TL L CL code cache ic (now, now_us, woken, rereg1, rereg2, rng) g s =
     map_option (\<lambda>(pt, close, s'). (pt, close, g, s')) (client_send TL L CL code cache now now_us woken rereg1 rereg2 ic rng s)"

interpretation client_writer: frame_sender L cont ic ct_backend client_put "\<lambda>_ :: unit. writer_env TL backlog L CL cont cache"
    "client_writer TL L CL code cache ic" for L cont ic TL backlog CL code cache
proof unfold_locales
  fix g :: unit and s :: "('a, 'b) client_tx" and i :: client_input
  assume e: "writer_env TL backlog L CL cont cache" and b: "backend_inv (ct_backend s)"
    "list_all frame_fits (backend_contents cont (ct_backend s))"
  obtain now now_us woken r1 r2 rng where i: "i = (now, now_us, woken, r1, r2, rng)" by (metis prod_cases6)
  obtain pt close s' fs where s: "client_send TL L CL code cache now now_us woken r1 r2 ic rng s = Some (pt, close, s')"
    "backend_inv (ct_backend s')" "backend_contents cont (ct_backend s) = fs @ backend_contents cont (ct_backend s')"
    "handed L ic fs pt close"
    using client_send_ok [of TL backlog L cache CL cont s code now now_us woken r1 r2 ic rng] e b unfolding writer_env_def by blast
  obtain gs where "wire_ok L ic gs pt" "set gs \<subseteq> insert keepalive_frame (set fs)" using handed_wire [OF s(4)] by blast
  then show "\<exists>pt close g' s' fs gs. client_writer TL L CL code cache ic i g s = Some (pt, close, g', s')
      \<and> writer_env TL backlog L CL cont cache \<and> backend_inv (ct_backend s')
      \<and> backend_contents cont (ct_backend s) = fs @ backend_contents cont (ct_backend s')
      \<and> wire_ok L ic gs pt \<and> set gs \<subseteq> insert keepalive_frame (set fs)"
    using e s i by (intro exI [of _ pt] exI [of _ close] exI [of _ g] exI [of _ s'] exI [of _ fs] exI [of _ gs]) simp
qed (simp add: client_put_def)

subsection \<open>The server\<close>

text \<open>
  A connection in the timer scan (times, round-trip sample, generated id, two random states), or
  one whose token is dirty.
\<close>

datatype server_input = In_Tick nat u64 u32 string u64 u64 | In_Dirty nat u64 u64

definition server_put :: "'c pbackend \<Rightarrow> ('c, 't) tick_session \<Rightarrow> ('c, 't) tick_session" where
  "server_put b s = s\<lparr>tk_tx := (tk_tx s)\<lparr>ts_backend := b\<rparr>\<rparr>"

fun server_writer ::
  "'t tls_lib \<Rightarrow> crypto_lib \<Rightarrow> 'c chan_lib \<Rightarrow> u8 \<Rightarrow> bytes \<Rightarrow> server_input \<Rightarrow> tick_shared \<Rightarrow> ('c, 't) tick_session
     \<Rightarrow> (bytes \<times> bool \<times> tick_shared \<times> ('c, 't) tick_session) option" where
  "server_writer TL L CL code cache (In_Tick now now_us sample fresh rng1 rng2) c s =
     session_tick TL L CL code cache now now_us sample fresh rng1 rng2 c s"
| "server_writer TL L CL code cache (In_Dirty now now_us rng) c s =
     map_option (\<lambda>(pt, close, s'). (pt, close, c, s')) (tick_flush TL L CL code cache now now_us rng c s)"

text \<open>What both promise of a connection.\<close>

definition tick_sent ::
  "crypto_lib \<Rightarrow> ('c \<Rightarrow> vpn_frame list) \<Rightarrow> inner_cipher option \<Rightarrow> ('c, 't) tick_session \<Rightarrow> bytes \<Rightarrow> ('c, 't) tick_session \<Rightarrow> bool" where
  "tick_sent L cont ic s pt s' \<longleftrightarrow>
     backend_inv (ts_backend (tk_tx s'))
     \<and> (\<exists>fs gs. backend_contents cont (ts_backend (tk_tx s)) = fs @ backend_contents cont (ts_backend (tk_tx s'))
          \<and> wire_ok L ic gs pt \<and> set gs \<subseteq> insert keepalive_frame (set fs))"

lemma tick_flush_ok:
  assumes e: "writer_env TL backlog L CL cont cache" and b: "backend_inv (ts_backend (tk_tx s))"
    "list_all frame_fits (backend_contents cont (ts_backend (tk_tx s)))"
  shows "\<exists>pt close s'. tick_flush TL L CL code cache now now_us rng c s = Some (pt, close, s') \<and> tick_sent L cont (tk_ic_tx c) s pt s'"
proof -
  obtain pt close tx where f: "flush_outbound TL L CL code cache now now_us (tk_epoch c) (tk_ic_tx c) rng (tk_tx s) = Some (pt, close, tx)"
    "flushed L cont (tk_ic_tx c) (tk_tx s) pt close tx"
    using flush_outbound_ok [of TL backlog L cache CL cont "tk_tx s" code now now_us "tk_epoch c" "tk_ic_tx c" rng] e b
    unfolding writer_env_def by blast
  obtain fs where fs: "backend_contents cont (ts_backend (tk_tx s)) = fs @ backend_contents cont (ts_backend tx)"
    "wire_ok L (tk_ic_tx c) fs pt \<or> pt = [] \<and> close" using f(2) by (auto simp: flushed_def)
  have "\<exists>gs. wire_ok L (tk_ic_tx c) gs pt \<and> set gs \<subseteq> insert keepalive_frame (set fs)"
    by (rule handed_wire [of _ _ _ _ close]) (use fs(2) in \<open>auto simp: handed_def\<close>)
  then have "tick_sent L cont (tk_ic_tx c) s pt (s\<lparr>tk_tx := tx\<rparr>)"
    using f(2) fs(1) by (auto simp: tick_sent_def flushed_def)
  then show ?thesis using f(1) by (simp add: tick_flush_def)
qed

lemma tick_keepalive_ok:
  assumes e: "writer_env TL backlog L CL cont cache"
  shows "\<exists>ka s' t k gs. tick_keepalive TL L code cache now rng s = Some (ka, s')
    \<and> s' = s\<lparr>tk_tx := (tk_tx s)\<lparr>ts_tls := t\<rparr>, tk_last_keepalive := k\<rparr> \<and> wire_ok L ic gs ka \<and> set gs \<subseteq> {keepalive_frame}"
proof -
  obtain buf r where k: "append_padded_frame_with_limit L code cache [] 0 [] None (ts_pad_limit (tk_tx s)) rng = Some (buf, r)"
    "wire_ok L ic [keepalive_frame] buf" using keepalive_wire [of L cache] e unfolding writer_env_def by blast
  have none: ?thesis if "tick_keepalive TL L code cache now rng s = Some ([], s)"
    using that by (intro exI [of _ "[]"] exI [of _ s] exI [of _ "ts_tls (tk_tx s)"] exI [of _ "tk_last_keepalive s"]) simp
  show ?thesis
  proof (cases "now - tk_last_keepalive s > KEEPALIVE_INTERVAL \<and> ts_write_stalled (tk_tx s) = None \<and> \<not> tls_wants_write TL (ts_tls (tk_tx s))")
    case False
    show ?thesis by (rule none) (unfold tick_keepalive_def, rule if_not_P [OF False])
  next
    case True
    show ?thesis
    proof (cases "tls_write_all TL (ts_tls (tk_tx s)) buf")
      case None
      show ?thesis by (rule none) (use True k(1) None in \<open>simp add: tick_keepalive_def\<close>)
    next
      case (Some t)
      have "tick_keepalive TL L code cache now rng s = Some (buf, s\<lparr>tk_tx := (tk_tx s)\<lparr>ts_tls := t\<rparr>, tk_last_keepalive := now\<rparr>)"
        using True k(1) Some by (simp add: tick_keepalive_def)
      then show ?thesis using k(2) by (intro exI [of _ buf] exI exI [of _ t] exI [of _ now] exI [of _ "[keepalive_frame]"]) simp
    qed
  qed
qed

lemma tick_sent_prepend:
  assumes "tick_sent L cont ic s1 pt s2" "ts_backend (tk_tx s1) = b" "backend_contents cont b = backend_contents cont (ts_backend (tk_tx s))"
    "wire_ok L ic gs ka" "set gs \<subseteq> {keepalive_frame}"
  shows "tick_sent L cont ic s (ka @ pt) s2"
proof -
  obtain fs hs where "backend_contents cont (ts_backend (tk_tx s1)) = fs @ backend_contents cont (ts_backend (tk_tx s2))"
    "wire_ok L ic hs pt" "set hs \<subseteq> insert keepalive_frame (set fs)" using assms(1) by (auto simp: tick_sent_def)
  moreover from this(2,3) have "wire_ok L ic (gs @ hs) (ka @ pt)" "set (gs @ hs) \<subseteq> insert keepalive_frame (set fs)"
    using wire_ok_append [OF assms(4)] assms(5) by auto
  ultimately show ?thesis using assms(1-3) unfolding tick_sent_def by metis
qed

lemma session_tick_ok:
  assumes e: "writer_env TL backlog L CL cont cache" and b: "backend_inv (ts_backend (tk_tx s))"
    "list_all frame_fits (backend_contents cont (ts_backend (tk_tx s)))"
  shows "\<exists>pt close c' s'. session_tick TL L CL code cache now now_us sample fresh rng1 rng2 c s = Some (pt, close, c', s')
    \<and> tk_ic_tx c' = tk_ic_tx c \<and> tick_sent L cont (tk_ic_tx c) s pt s'"
proof -
  let ?ic = "tk_ic_tx c"
  define idle where "idle = (now - tk_last_rx s) div 10 ^ 9"
  define s0 where "s0 = tick_rtt now sample idle s"
  have s0: "backend_contents cont (ts_backend (tk_tx s0)) = backend_contents cont (ts_backend (tk_tx s))"
    "backend_inv (ts_backend (tk_tx s0)) = backend_inv (ts_backend (tk_tx s))" by (simp_all add: s0_def tick_rtt_def)
  obtain ka s1 t k gs where ka: "tick_keepalive TL L code cache now rng1 s0 = Some (ka, s1)"
    "s1 = s0\<lparr>tk_tx := (tk_tx s0)\<lparr>ts_tls := t\<rparr>, tk_last_keepalive := k\<rparr>" "wire_ok L ?ic gs ka" "set gs \<subseteq> {keepalive_frame}"
    using tick_keepalive_ok [OF e] by blast
  have s1: "ts_backend (tk_tx s1) = ts_backend (tk_tx s0)" by (simp add: ka(2))
  have stay: "tick_sent L cont ?ic s [] s" using b(1) by (auto simp: tick_sent_def intro!: exI [of _ "[]"])
  have "tick_sent L cont ?ic s1 [] s1" using b(1) s0(2) s1 by (auto simp: tick_sent_def intro!: exI [of _ "[]"])
  from tick_sent_prepend [OF this s1 s0(1) ka(3,4)] have kept: "tick_sent L cont ?ic s ka s1" by simp
  obtain pt close s2 where f: "tick_flush TL L CL code cache now now_us rng2 c s1 = Some (pt, close, s2)" "tick_sent L cont ?ic s1 pt s2"
    using tick_flush_ok [OF e, of s1 code now now_us rng2 c] b s0 s1 by auto
  note sent = tick_sent_prepend [OF f(2) s1 s0(1) ka(3,4)]
  have ex: "tk_ic_tx (tick_exhausted fresh c) = ?ic" by (simp add: tick_exhausted_def)
  show ?thesis
    unfolding session_tick_def Let_def idle_def [symmetric] s0_def [symmetric] ka(1) Option.bind.simps prod.case
    by (cases "needs_flush TL s1") (auto simp: stay kept f(1) sent ex)
qed

interpretation server_writer: frame_sender L cont ic "\<lambda>s. ts_backend (tk_tx s)" server_put
    "\<lambda>c :: tick_shared. writer_env TL backlog L CL cont cache \<and> tk_ic_tx c = ic" "server_writer TL L CL code cache"
  for L cont ic TL backlog CL code cache
proof unfold_locales
  fix c :: tick_shared and s :: "('a, 'b) tick_session" and i
  assume e: "writer_env TL backlog L CL cont cache \<and> tk_ic_tx c = ic" and b: "backend_inv (ts_backend (tk_tx s))"
    "list_all frame_fits (backend_contents cont (ts_backend (tk_tx s)))"
  obtain pt close c' s' where "server_writer TL L CL code cache i c s = Some (pt, close, c', s')" "tk_ic_tx c' = ic" "tick_sent L cont ic s pt s'"
  proof (cases i)
    case (In_Tick now now_us sample fresh rng1 rng2)
    then show ?thesis using that session_tick_ok [of TL backlog L CL cont cache s code now now_us sample fresh rng1 rng2 c] e b by auto
  next
    case (In_Dirty now now_us rng)
    then show ?thesis using that tick_flush_ok [of TL backlog L CL cont cache s code now now_us rng c] e b by auto
  qed
  then show "\<exists>pt close g' s' fs gs. server_writer TL L CL code cache i c s = Some (pt, close, g', s')
      \<and> (writer_env TL backlog L CL cont cache \<and> tk_ic_tx g' = ic) \<and> backend_inv (ts_backend (tk_tx s'))
      \<and> backend_contents cont (ts_backend (tk_tx s)) = fs @ backend_contents cont (ts_backend (tk_tx s'))
      \<and> wire_ok L ic gs pt \<and> set gs \<subseteq> insert keepalive_frame (set fs)"
    using e unfolding tick_sent_def by blast
qed (simp add: server_put_def)

end
