(* ===== verification/Tunnel_Receive.thy ===== *)
theory Tunnel_Receive
  imports Client_Rx_Props
begin

text \<open>
  The receiving end of a tunnel: the connections of a session read their byte streams in any
  chunks and in any interleaving, and time passes at the receive actor. The interface
  \<open>stream_receiver\<close> is what a receive path promises; a session that keeps the contract
  \<open>receive_session\<close> provides it on the server and on the client.
\<close>

subsection \<open>A receiving end\<close>

record ('r, 'h) recv_sys =
  rv_conns :: "nat \<Rightarrow> 'r"
  rv_rest :: "nat \<Rightarrow> bytes"
  rv_shared :: 'h
  rv_out :: "bytes list"

text \<open>Connection \<open>ch\<close> reads chunks of what is left of its stream, or a timeout at the session.\<close>

datatype 'j recv_event = Re_Read nat 'j "read_event list" | Re_Timeout nat

type_synonym ('j, 'r, 'h) reader = "'j \<Rightarrow> read_event list \<Rightarrow> 'r \<Rightarrow> 'h \<Rightarrow> (read_event list \<times> bytes list \<times> 'r \<times> 'h) option"

fun recv_step :: "('j, 'r, 'h) reader \<Rightarrow> (nat \<Rightarrow> 'h \<Rightarrow> bytes list \<times> 'h) \<Rightarrow> 'j recv_event \<Rightarrow> ('r, 'h) recv_sys \<Rightarrow> ('r, 'h) recv_sys option" where
  "recv_step read tick (Re_Read ch j evs) y =
     (let bs = ev_bytes evs
      in if IoFail \<notin> set evs \<and> take (length bs) (rv_rest y ch) = bs then
           (case read j evs (rv_conns y ch) (rv_shared y) of
              None \<Rightarrow> None
            | Some (evs', out, r, h) \<Rightarrow>
                Some (y\<lparr>rv_conns := (rv_conns y)(ch := r),
                        rv_rest := (rv_rest y)(ch := ev_bytes evs' @ drop (length bs) (rv_rest y ch)),
                        rv_shared := h, rv_out := rv_out y @ out\<rparr>))
         else Some y)"
| "recv_step read tick (Re_Timeout now) y =
     (let (out, h) = tick now (rv_shared y) in Some (y\<lparr>rv_shared := h, rv_out := rv_out y @ out\<rparr>))"

fun recv_run :: "('j, 'r, 'h) reader \<Rightarrow> (nat \<Rightarrow> 'h \<Rightarrow> bytes list \<times> 'h) \<Rightarrow> 'j recv_event list \<Rightarrow> ('r, 'h) recv_sys \<Rightarrow> ('r, 'h) recv_sys option" where
  "recv_run read tick [] y = Some y"
| "recv_run read tick (e # es) y = (case recv_step read tick e y of None \<Rightarrow> None | Some y1 \<Rightarrow> recv_run read tick es y1)"

subsection \<open>The interface of a receive path\<close>

locale stream_receiver =
  fixes conn_ok :: "'r \<Rightarrow> bytes \<Rightarrow> bool"
    and shared_ok :: "bytes list \<Rightarrow> 'h \<Rightarrow> bool"
    and read :: "('j, 'r, 'h) reader"
    and tick :: "nat \<Rightarrow> 'h \<Rightarrow> bytes list \<times> 'h"
  assumes read_ok: "conn_ok r (ev_bytes evs @ rem) \<Longrightarrow> IoFail \<notin> set evs \<Longrightarrow> shared_ok D h \<Longrightarrow>
      \<exists>evs' out r' h'. read j evs r h = Some (evs', out, r', h') \<and> shared_ok (D @ out) h' \<and> conn_ok r' (ev_bytes evs' @ rem)"
    and tick_ok: "shared_ok D h \<Longrightarrow> tick now h = (out, h') \<Longrightarrow> shared_ok (D @ out) h'"
begin

definition recv_ok :: "('r, 'h) recv_sys \<Rightarrow> bool" where
  "recv_ok y \<longleftrightarrow> (\<forall>ch. conn_ok (rv_conns y ch) (rv_rest y ch)) \<and> shared_ok (rv_out y) (rv_shared y)"

lemma recv_step_ok:
  assumes y: "recv_ok y"
  shows "\<exists>y'. recv_step read tick e y = Some y' \<and> recv_ok y'"
proof (cases e)
  case (Re_Read ch j evs)
  let ?bs = "ev_bytes evs"
  show ?thesis
  proof (cases "IoFail \<notin> set evs \<and> take (length ?bs) (rv_rest y ch) = ?bs")
    case True
    then have r: "rv_rest y ch = ?bs @ drop (length ?bs) (rv_rest y ch)" by (metis append_take_drop_id)
    have c: "conn_ok (rv_conns y ch) (?bs @ drop (length ?bs) (rv_rest y ch))" "shared_ok (rv_out y) (rv_shared y)"
      using y r by (simp_all add: recv_ok_def)
    obtain evs' out r' h' where s: "read j evs (rv_conns y ch) (rv_shared y) = Some (evs', out, r', h')"
      "shared_ok (rv_out y @ out) h'" "conn_ok r' (ev_bytes evs' @ drop (length ?bs) (rv_rest y ch))"
      using read_ok [OF c(1) _ c(2), of j] True by blast
    have "recv_step read tick e y = Some (y\<lparr>rv_conns := (rv_conns y)(ch := r'),
        rv_rest := (rv_rest y)(ch := ev_bytes evs' @ drop (length ?bs) (rv_rest y ch)), rv_shared := h', rv_out := rv_out y @ out\<rparr>)"
      using True s(1) by (simp add: Re_Read)
    then show ?thesis using y s(2,3) by (simp add: recv_ok_def)
  next
    case False
    then have "recv_step read tick e y = Some y" by (simp only: Re_Read recv_step.simps Let_def if_False)
    then show ?thesis using y by simp
  qed
next
  case (Re_Timeout now)
  obtain out h where t: "tick now (rv_shared y) = (out, h)" by fastforce
  then show ?thesis using y tick_ok [OF _ t] by (simp add: Re_Timeout recv_ok_def)
qed

lemma recv_run_ok: "recv_ok y \<Longrightarrow> \<exists>y'. recv_run read tick es y = Some y' \<and> recv_ok y'"
proof (induction es arbitrary: y)
  case (Cons e es)
  then show ?case using recv_step_ok [OF Cons.prems, of e] by auto
qed simp

end

subsection \<open>The server and the client\<close>

type_synonym server_read_input =
  "(rx_conn \<Rightarrow> client_rx \<Rightarrow> bytes \<Rightarrow> handshake_outcome \<times> rx_conn \<times> client_rx) \<times> cpu \<times> nat \<times> nat \<times> bool"

fun server_reader :: "crypto_lib \<Rightarrow> (server_read_input, rx_conn, client_rx) reader" where
  "server_reader L (hs, cpu, now, cap, bypass) evs conn client =
     map_option (\<lambda>(evs', st). (evs', pn_out st, pn_conn st, pn_client st)) (process_plain_frames hs cpu L now cap bypass evs conn client)"

definition server_timeout :: "nat \<Rightarrow> client_rx \<Rightarrow> bytes list \<times> client_rx" where
  "server_timeout now client =
     (case cx_actor client of None \<Rightarrow> ([], client)
      | Some a \<Rightarrow> (let (out, a') = rx_flush_timeout now a in (out, client\<lparr>cx_actor := Some a'\<rparr>)))"

type_synonym client_read_input = "cpu \<times> nat \<times> nat \<times> bool"

fun client_reader :: "crypto_lib \<Rightarrow> (client_read_input, client_conn, client_shared) reader" where
  "client_reader L (cpu, now, cap, bypass) evs conn cl =
     map_option (\<lambda>(evs', st). (evs', kr_out st, kr_conn st, kr_shared st)) (client_receive cpu L now cap bypass evs conn cl)"

definition client_timeout :: "nat \<Rightarrow> client_shared \<Rightarrow> bytes list \<times> client_shared" where
  "client_timeout now cl =
     (case ks_actor cl of None \<Rightarrow> ([], cl)
      | Some a \<Rightarrow> (let (out, a') = rx_flush_timeout now a in (out, cl\<lparr>ks_actor := Some a'\<rparr>)))"

sublocale receive_session \<subseteq> server_end: stream_receiver conn_good client_good "server_reader L" server_timeout
proof unfold_locales
  fix r evs rem D h and j :: server_read_input
  assume g: "conn_good r (ev_bytes evs @ rem)" "IoFail \<notin> set evs" "client_good D h"
  obtain hs cpu now cap bypass where j: "j = (hs, cpu, now, cap, bypass)" by (metis prod_cases5)
  obtain evs' st where "process_plain_frames hs cpu L now cap bypass evs r h = Some (evs', st)"
    "client_good (D @ pn_out st) (pn_client st)" "conn_good (pn_conn st) (ev_bytes evs' @ rem)"
    using process_plain_frames_good [OF g, of hs cpu now cap bypass] by blast
  then show "\<exists>evs' out r' h'. server_reader L j evs r h = Some (evs', out, r', h') \<and> client_good (D @ out) h'
      \<and> conn_good r' (ev_bytes evs' @ rem)" by (auto simp: j)
next
  fix D h now out h'
  assume "client_good D h" "server_timeout now h = (out, h')"
  then show "client_good (D @ out) h'" using timeout_ok by (auto simp: client_good_def server_timeout_def split: prod.splits)
qed

sublocale receive_session \<subseteq> client_end: stream_receiver client_conn_good shared_good "client_reader L" client_timeout
proof unfold_locales
  fix r evs rem D h and j :: client_read_input
  assume g: "client_conn_good r (ev_bytes evs @ rem)" "IoFail \<notin> set evs" "shared_good D h"
  obtain cpu now cap bypass where j: "j = (cpu, now, cap, bypass)" by (metis prod_cases4)
  obtain evs' st where "client_receive cpu L now cap bypass evs r h = Some (evs', st)"
    "shared_good (D @ kr_out st) (kr_shared st)" "client_conn_good (kr_conn st) (ev_bytes evs' @ rem)"
    using client_receive_good [OF g, of cpu now cap bypass] by blast
  then show "\<exists>evs' out r' h'. client_reader L j evs r h = Some (evs', out, r', h') \<and> shared_good (D @ out) h'
      \<and> client_conn_good r' (ev_bytes evs' @ rem)" by (auto simp: j)
next
  fix D h now out h'
  assume "shared_good D h" "client_timeout now h = (out, h')"
  then show "shared_good (D @ out) h'" using timeout_ok by (auto simp: shared_good_def client_timeout_def split: prod.splits)
qed

subsection \<open>The receive actor provides the contract\<close>

definition session_contract :: "crypto_lib \<Rightarrow> inner_cipher option \<Rightarrow> nat \<Rightarrow> bytes list \<Rightarrow> bytes list \<Rightarrow> rx_actor \<Rightarrow> bool" where
  "session_contract L fic k ps D a \<longleftrightarrow>
     crypto_lib_ok L \<and> stream_ok ps \<and> (\<forall>p \<in> set ps. length p < 2 ^ 32) \<and> session_ok fic k ps D (ra_state a)"

interpretation rx: receive_session L "item_sent L fic k ps" "session_contract L fic k ps" for L fic k ps
proof unfold_locales
  fix D a frames cpu now g err ready w err' a'
  assume c: "session_contract L fic k ps D a" and f: "list_all (item_sent L fic k ps) frames"
    and b: "process_batch cpu L now a g frames err = (ready, w, err', a')"
  show "session_contract L fic k ps (D @ ready) a'"
  proof (cases "frames = [] \<or> g \<noteq> rs_generation (ra_state a)")
    case True
    then show ?thesis using b c by (auto simp: process_batch_def split: if_splits)
  next
    case False
    obtain e out st where p: "process_items cpu L now (ra_state a) frames = (e, out, st)" by (metis prod_cases3)
    have "session_ok fic k ps (D @ out) st"
      using process_items_ok [OF _ _ _ _ _ p] c f by (auto simp: session_contract_def list_all_iff)
    then show ?thesis using b c False p by (auto simp: process_batch_def session_contract_def)
  qed
next
  fix D a now ready a'
  assume c: "session_contract L fic k ps D a" and t: "rx_flush_timeout now a = (ready, a')"
  then show "session_contract L fic k ps (D @ ready) a'"
    using timeout_sent [of ps D "rs_reorder (ra_state a)" now]
    by (auto simp: session_contract_def session_ok_def rx_flush_timeout_def split: prod.splits)
qed (simp add: session_contract_def)

lemma session_contract_new:
  assumes "crypto_lib_ok L" "stream_ok ps" "\<forall>p \<in> set ps. length p < 2 ^ 32" "fec = None \<or> fec = Some (decoder_new n fic)"
  shows "session_contract L fic (clamp_fec_group n) ps [] (rx_actor_new fec)"
proof -
  have "decoder_sent fic (clamp_fec_group n) ps fec" using assms(4) dec_ok_new [of _ fic n] by (auto simp: decoder_sent_def)
  then show ?thesis using assms(1-3) holds_sent_new by (simp add: session_contract_def session_ok_def rx_actor_new_def rx_state_new_def)
qed

lemma session_contract_subseq: "session_contract L fic k ps D a \<Longrightarrow> subseq D ps"
  using holds_sent_subseq by (auto simp: session_contract_def session_ok_def)

end
