(* ===== verification/Tunnel.thy ===== *)
theory Tunnel
  imports Tunnel_Writers Tunnel_Receive
begin

text \<open>
  The tunnel from end to end, in both directions: a port, the writers of its connections, the
  bytes on the connections, the read paths of the peer and its receive session.
\<close>

subsection \<open>Starting states\<close>

text \<open>The port of a new session on the server.\<close>

definition session_port :: "string \<Rightarrow> nat \<Rightarrow> inner_cipher option \<Rightarrow> 'c async_port" where
  "session_port client_id fec_enc_k fec_tx =
     (let port = port_new client_id in if fec_enc_k > 0 then attach_encoder fec_enc_k fec_tx port else port)"

definition sender_start :: "'c async_port \<Rightarrow> (nat \<Rightarrow> 's) \<Rightarrow> 'g \<Rightarrow> ('c, 's, 'g) sender_sys" where
  "sender_start p conns g = \<lparr>ss_port = p, ss_conns = conns, ss_shared = g, ss_wire = (\<lambda>ch. [])\<rparr>"

definition recv_start :: "(nat \<Rightarrow> 'r) \<Rightarrow> (nat \<Rightarrow> bytes) \<Rightarrow> 'h \<Rightarrow> ('r, 'h) recv_sys" where
  "recv_start conns wire h = \<lparr>rv_conns = conns, rv_rest = wire, rv_shared = h, rv_out = []\<rparr>"

definition idle_scanner :: "frame_scanner \<Rightarrow> bool" where
  "idle_scanner sc \<longleftrightarrow> scanner_wf sc \<and> max_data_len sc = MAX_DATA_LENGTH \<and> unread sc = []"

text \<open>A connection that has finished its handshake, before its first frame.\<close>

definition server_established :: "inner_cipher option \<Rightarrow> rx_conn \<Rightarrow> bool" where
  "server_established ic conn \<longleftrightarrow>
     idle_scanner (rc_scanner conn) \<and> rc_handshake_done conn \<and> rc_ic_rx conn = ic
     \<and> (case rc_producer conn of None \<Rightarrow> False | Some p \<Rightarrow> rp_batch p = [])"

definition client_established :: "inner_cipher option \<Rightarrow> client_conn \<Rightarrow> bool" where
  "client_established ic conn \<longleftrightarrow>
     idle_scanner (kc_scanner conn) \<and> \<not> kc_owned_rx conn \<and> kc_ic_rx conn = ic
     \<and> (case kc_producer conn of None \<Rightarrow> False | Some p \<Rightarrow> rp_batch p = [])"

lemma sys_ok_start:
  "port_inv cpu L cont n fic [] p \<Longrightarrow> sys_ok cpu L cont ic n fic [] (sender_start p conns g)"
  by (simp add: sys_ok_def sender_start_def stream_of_Nil)

lemma session_port_inv: "port_inv cpu L cont n fic [] (session_port cid n fic)"
  by (simp add: session_port_def Let_def attach_encoder_def port_new_def port_inv_def port_enc_def port_holds_def)

subsection \<open>From the sender's streams to the receiver's contract\<close>

text \<open>An epoch short of the end of the sequence space by the reorder window.\<close>

definition stream_short :: "bytes list \<Rightarrow> bool" where
  "stream_short ps \<longleftrightarrow> length ps + 65536 < 2 ^ 32"

lemma stream_short_subseq: "stream_short qs \<Longrightarrow> subseq ps qs \<Longrightarrow> stream_short ps"
  using list_emb_length [of "(=)" ps qs] by (simp add: stream_short_def)

text \<open>What a run leaves on the wire, as the receiver needs it.\<close>

lemma sys_ok_streams:
  assumes y: "sys_ok cpu L cont ic n fic evs y" and L: "crypto_lib_ok L" and n: "stream_short (payloads evs)"
  defines "ps \<equiv> payloads evs"
  shows "stream_ok ps" "\<forall>p \<in> set ps. length p < 2 ^ 32"
    "rx.stream_good L fic (clamp_fec_group n) ps ic (ss_wire y ch)"
proof -
  have i: "port_inv cpu L cont n fic evs (ss_port y)" "\<forall>p \<in> set ps. length p \<le> 65535"
    "stream_of L ic (wire_items cpu L n fic evs) (ss_wire y ch)" using y by (simp_all add: sys_ok_def ps_def)
  show s: "stream_ok ps" using i(1) n by (simp add: port_inv_def stream_ok_def ps_def stream_short_def)
  show "\<forall>p \<in> set ps. length p < 2 ^ 32" using i(2) by fastforce
  have "item_sent L fic (clamp_fec_group n) ps item" if "item \<in> wire_items cpu L n fic evs" for item
  proof -
    have kind: "control_kind (encode_control c) \<noteq> Inr CONTROL_KIND_FEC_PARITY" "control_kind [] \<noteq> Inr CONTROL_KIND_FEC_PARITY" for c
      by (simp_all add: control_kind_def encode_control_def Let_def CONTROL_KIND_FEC_PARITY_def CONTROL_KIND_FEC_MODE_def)
    from that consider "item \<in> wire_item ` set (fst (enc_run cpu L (encoder_new n fic) 1 evs))" | c where "item = (0, encode_control c)" | "item = (0, [])"
      unfolding wire_items_def port_items_def by blast
    then show ?thesis
    proof cases
      case 1
      then show ?thesis by (rule item_sent_wire [OF s meta_eq_to_obj_eq [OF ps_def]])
    qed (use kind in \<open>simp_all add: item_sent_control\<close>)
  qed
  then have "frame_item ` set fs \<subseteq> wire_items cpu L n fic evs \<Longrightarrow>
      list_all (\<lambda>f. item_sent L fic (clamp_fec_group n) ps (frame_item f)) fs" for fs
    unfolding list_all_iff by blast
  then show "rx.stream_good L fic (clamp_fec_group n) ps ic (ss_wire y ch)"
    using i(3) unfolding stream_of_def rx.stream_good_def by blast
qed

lemma server_established_good:
  "server_established ic conn \<Longrightarrow> rx.stream_good L fic k ps ic bs \<Longrightarrow> rx.conn_good L fic k ps conn bs"
  by (auto simp: server_established_def idle_scanner_def rx.conn_good_def rx.scan_good_def rx.producer_good_def split: option.splits)

lemma client_established_good:
  "client_established ic conn \<Longrightarrow> rx.stream_good L fic k ps ic bs \<Longrightarrow> rx.client_conn_good L fic k ps conn bs"
  by (auto simp: client_established_def idle_scanner_def rx.client_conn_good_def rx.scan_good_def rx.producer_good_def split: option.splits)

lemma server_side:
  assumes y: "sys_ok cpu L cont ic n fic evs y" and L: "crypto_lib_ok L" and sh: "stream_short (payloads evs)" and c: "\<forall>ch. server_established ic (conns ch)"
    and a: "cx_actor client = Some (rx_actor_new fec)" "fec = None \<or> fec = Some (decoder_new n fic)"
  shows "\<exists>z. recv_run (server_reader L) server_timeout rs (recv_start conns (ss_wire y) client) = Some z \<and> subseq (rv_out z) (payloads evs)"
proof -
  let ?k = "clamp_fec_group n" and ?ps = "payloads evs"
  note st = sys_ok_streams [OF y L sh]
  have "rx.server_end.recv_ok L fic ?k ?ps (recv_start conns (ss_wire y) client)"
    unfolding rx.server_end.recv_ok_def
    using server_established_good [OF c [rule_format] st(3)] session_contract_new [OF L st(1,2) a(2)] a(1)
    by (simp add: recv_start_def rx.client_good_def)
  from rx.server_end.recv_run_ok [OF this, of rs] obtain z where
    "recv_run (server_reader L) server_timeout rs (recv_start conns (ss_wire y) client) = Some z" "rx.server_end.recv_ok L fic ?k ?ps z" by blast
  then show ?thesis using session_contract_subseq by (auto simp: rx.server_end.recv_ok_def rx.client_good_def)
qed

lemma client_side:
  assumes y: "sys_ok cpu L cont ic n fic evs y" and L: "crypto_lib_ok L" and sh: "stream_short (payloads evs)" and c: "\<forall>ch. client_established ic (conns ch)"
    and a: "ks_actor cl = Some (rx_actor_new fec)" "fec = None \<or> fec = Some (decoder_new n fic)"
  shows "\<exists>z. recv_run (client_reader L) client_timeout rs (recv_start conns (ss_wire y) cl) = Some z \<and> subseq (rv_out z) (payloads evs)"
proof -
  let ?k = "clamp_fec_group n" and ?ps = "payloads evs"
  note st = sys_ok_streams [OF y L sh]
  have "rx.client_end.recv_ok L fic ?k ?ps (recv_start conns (ss_wire y) cl)"
    unfolding rx.client_end.recv_ok_def
    using client_established_good [OF c [rule_format] st(3)] session_contract_new [OF L st(1,2) a(2)] a(1)
    by (simp add: recv_start_def rx.shared_good_def)
  from rx.client_end.recv_run_ok [OF this, of rs] obtain z where
    "recv_run (client_reader L) client_timeout rs (recv_start conns (ss_wire y) cl) = Some z" "rx.client_end.recv_ok L fic ?k ?ps z" by blast
  then show ?thesis using session_contract_subseq by (auto simp: rx.client_end.recv_ok_def rx.shared_good_def)
qed

subsection \<open>Both directions\<close>



subsection \<open>A concrete environment\<close>

text \<open>A channel as a list, a TLS connection as the size of its backlog, and fresh states over them.\<close>

definition list_chan :: "vpn_frame list chan_lib" where
  "list_chan =
     \<lparr>cl_try_send = (\<lambda>c f. if length c < 1024 then Some (c @ [f]) else None),
      cl_try_recv = (\<lambda>c. case c of [] \<Rightarrow> None | x # xs \<Rightarrow> Some (x, xs)), cl_len = length, cl_capacity = (\<lambda>c. Some 1024)\<rparr>"

definition count_tls :: "nat tls_lib" where
  "count_tls = \<lparr>tls_wants_write = (\<lambda>t. t > 0), tls_write_all = (\<lambda>t b. Some (t + length b)), tls_write_tls = (\<lambda>t. (Tls_Wrote t, 0))\<rparr>"

definition sample_backend :: "vpn_frame list pbackend" where
  "sample_backend =
     \<lparr>pb_chan_id = 0, pb_conn_id = [], pb_fence_gen = 0, pb_ch = [], pb_owned = Some (owned_queue_new None 1024), pb_rtt = 50000,
      pb_notify = Some (notify_new 0), pb_sched = sched_default\<rparr>"

definition sample_client_tx :: "(vpn_frame list, nat) client_tx" where
  "sample_client_tx =
     \<lparr>ct_tls = 0, ct_backend = sample_backend, ct_pad_limit = 1400, ct_pending_payload = 0, ct_last_keepalive = 0, ct_last_rx = 0,
      ct_last_write_progress = 0, ct_write_blocked = False, ct_tx_packets = 0, ct_tx_bytes = 0, ct_conn_tx_bytes = 0,
      ct_written = totals_default, ct_padding = \<lparr>pad_wire_bytes = 0, pad_bytes = 0\<rparr>\<rparr>"

definition sample_tick_session :: "(vpn_frame list, nat) tick_session" where
  "sample_tick_session =
     \<lparr>tk_tx = \<lparr>ts_tls = 0, ts_backend = sample_backend, ts_epoch = 1, ts_pad_limit = 1400, ts_write_stalled = None,
        ts_pending_payload = 0, ts_leftover = False, ts_tx_packets = 0, ts_tx_bytes = 0, ts_written = totals_default,
        ts_padding = \<lparr>pad_wire_bytes = 0, pad_bytes = 0\<rparr>\<rparr>,
      tk_handshake_done = True, tk_last_keepalive = 0, tk_last_rx = 0, tk_rtt_timer = 0\<rparr>"

definition sample_shared :: tick_shared where
  "sample_shared =
     \<lparr>tk_exhausted = False, tk_epoch = 1, tk_instance_id = ''a'', tk_ic_tx = None, tk_active_conns = 1, tk_force_disconnect = False\<rparr>"

definition sample_rx_conn :: "fec_decoder option \<Rightarrow> rx_conn" where
  "sample_rx_conn fec =
     \<lparr>rc_scanner = scanner_new False, rc_handshake_done = True, rc_ic_rx = None, rc_epoch = 1, rc_has_session = True,
      rc_producer = Some (rx_new_producer None (rx_actor_new fec)), rc_last_rx = 0, rc_fec_batch = [], rc_reorder_input = []\<rparr>"

definition sample_client_rx :: "fec_decoder option \<Rightarrow> client_rx" where
  "sample_client_rx fec =
     \<lparr>cx_epoch = 1, cx_fec = None, cx_progress = False, cx_actor = Some (rx_actor_new fec), cx_reorder = reorder_new,
      cx_dedup = dedup_new, cx_active_conns = 1, cx_rx_bytes = 0, cx_rx_packets = 0\<rparr>"

definition sample_client_conn :: "fec_decoder option \<Rightarrow> client_conn" where
  "sample_client_conn fec =
     \<lparr>kc_scanner = scanner_new False, kc_ic_rx = None, kc_producer = Some (rx_new_producer None (rx_actor_new fec)), kc_use_fec = True,
      kc_static_rx = False, kc_owned_rx = False, kc_fec_batch = [], kc_reorder_input = [], kc_owned_input = [], kc_rx_bytes = 0\<rparr>"

definition sample_client_shared :: "fec_decoder option \<Rightarrow> client_shared" where
  "sample_client_shared fec =
     \<lparr>ks_fec = None, ks_actor = Some (rx_actor_new fec), ks_reorder = reorder_new, ks_dedup = dedup_new, ks_conns_count = 2,
      ks_rx_bytes = 0, ks_rx_packets = 0\<rparr>"

lemma sample_env: "writer_env count_tls (\<lambda>t. t) sample_lib list_chan (\<lambda>c. c) (replicate 4096 0)"
  by (auto simp: writer_env_def tls_ok_def count_tls_def sample_lib_ok chan_ok_def list_chan_def split: if_splits list.splits)

lemma sample_fresh: "fresh_backend (\<lambda>c. c) sample_backend"
proof -
  have "oq_contents (owned_queue_new None 1024) = []" by (simp add: oq_contents_def owned_queue_new_def)
  then show ?thesis by (simp add: fresh_backend_def sample_backend_def backend_inv_def backend_contents_def oq_inv_new)
qed

lemma sample_idle: "idle_scanner (scanner_new False)"
  by (simp add: idle_scanner_def scanner_new_def scanner_wf_def unread_def)

lemma sample_established: "server_established None (sample_rx_conn fec)" "client_established None (sample_client_conn fec)"
  by (simp_all add: server_established_def client_established_def sample_rx_conn_def sample_client_conn_def sample_idle rx_new_producer_def)



end
