(* ===== verification/Session_Flush.thy ===== *)
theory Session_Flush
  imports Tunnel
begin

text \<open>
  One flush of a server connection, as the peer sees it: it returns, it takes a prefix of the
  queue, its plaintext fits one TLS record and decodes to exactly the frames taken. Then a state
  in which a flush leaves frames behind that no flag announces.
\<close>

subsection \<open>What a flush sends\<close>

lemma wire_ok_decode:
  assumes L: "crypto_lib_ok L" and w: "wire_ok L ic fs pt" and fit: "list_all frame_fits fs"
  shows "map (\<lambda>f. (snd f, open_payload L ic f)) (fst (parse_all MAX_DATA_LENGTH pt)) = map (\<lambda>f. (vf_seq f, Some (as_slice (vf_data f)))) fs"
proof -
  have "fst (parse_all MAX_DATA_LENGTH pt) = map (sealed_frame L ic) fs" using wire_ok_parse [OF L w fit, of "[]"] by simp
  then show ?thesis using open_sealed_frame [OF L] by (simp add: sealed_frame_def)
qed

text \<open>
  C5. Flushing a connection always returns. It takes a prefix \<open>fs\<close> of the queued frames; the
  plaintext it hands to TLS fits one TLS record, and unless the connection has to close, the
  peer's scanner and cipher recover from it exactly the sequence numbers and payloads of \<open>fs\<close>.
\<close>

theorem flush_sends_queue_prefix:
  assumes env: "writer_env TL backlog L CL cont cache" and b: "backend_inv (ts_backend s)" "pb_owned (ts_backend s) \<noteq> None"
    and fit: "list_all frame_fits (backend_contents cont (ts_backend s))"
  shows "\<exists>pt close s' fs. flush_outbound TL L CL code cache now now_us epoch ic rng s = Some (pt, close, s')
    \<and> backend_contents cont (ts_backend s) = fs @ backend_contents cont (ts_backend s') \<and> backend_inv (ts_backend s')
    \<and> length pt \<le> MAX_TLS_PLAINTEXT_RECORD
    \<and> (close \<or> map (\<lambda>f. (snd f, open_payload L ic f)) (fst (parse_all MAX_DATA_LENGTH pt)) = map (\<lambda>f. (vf_seq f, Some (as_slice (vf_data f)))) fs)"
proof -
  have e: "tls_ok TL backlog" "crypto_lib_ok L" "4096 \<le> length cache" "chan_ok CL cont" using env by (simp_all add: writer_env_def)
  obtain pt close s' where f: "flush_outbound TL L CL code cache now now_us epoch ic rng s = Some (pt, close, s')" "flushed L cont ic s pt close s'"
    using flush_outbound_ok [OF e b(1) fit] by blast
  obtain fs where fs: "backend_contents cont (ts_backend s) = fs @ backend_contents cont (ts_backend s')" "wire_ok L ic fs pt \<or> pt = [] \<and> close"
    using f(2) by (auto simp: flushed_def)
  have "list_all frame_fits fs" using fit fs(1) by simp
  then show ?thesis using f fs b(2) wire_ok_decode [OF e(2)] by (auto simp: flushed_def)
qed

theorem flush_sends_queue_prefix_witness:
  "\<exists>pt close s' fs. flush_outbound count_tls sample_lib list_chan 0 (replicate 4096 0) 1 1 1 None 1 (tk_tx sample_tick_session) = Some (pt, close, s')
    \<and> backend_contents (\<lambda>c. c) (ts_backend (tk_tx sample_tick_session)) = fs @ backend_contents (\<lambda>c. c) (ts_backend s')
    \<and> backend_inv (ts_backend s') \<and> length pt \<le> MAX_TLS_PLAINTEXT_RECORD
    \<and> (close \<or> map (\<lambda>f. (snd f, open_payload sample_lib None f)) (fst (parse_all MAX_DATA_LENGTH pt)) = map (\<lambda>f. (vf_seq f, Some (as_slice (vf_data f)))) fs)"
proof -
  have "ts_backend (tk_tx sample_tick_session) = sample_backend" by (simp add: sample_tick_session_def)
  moreover have "backend_inv sample_backend" "backend_contents (\<lambda>c. c) sample_backend = []" "pb_owned sample_backend \<noteq> None"
    using sample_fresh by (simp_all add: fresh_backend_def sample_backend_def)
  ultimately show ?thesis using flush_sends_queue_prefix [OF sample_env, of "tk_tx sample_tick_session"] by simp
qed

subsection \<open>Frames left without a flag\<close>

text \<open>Two frames of 8000 bytes, pushed into a new queue, are two batches.\<close>

definition large_frame :: "u32 \<Rightarrow> vpn_frame" where
  "large_frame seq = \<lparr>vf_seq = seq, vf_data = Owned (replicate 8000 0)\<rparr>"

definition push_or_same :: "vpn_frame \<Rightarrow> owned_queue \<Rightarrow> owned_queue" where
  "push_or_same f q = (case try_push q f (frame_bytes f) of Inl _ \<Rightarrow> q | Inr q' \<Rightarrow> q')"

definition two_large :: "(vpn_frame list, nat) tx_session" where
  "two_large = (tk_tx sample_tick_session)\<lparr>ts_backend := sample_backend\<lparr>
     pb_owned := Some (push_or_same (large_frame 2) (push_or_same (large_frame 1) (owned_queue_new None 1024)))\<rparr>\<rparr>"

lemma two_large_queue:
  "push_or_same (large_frame 2) (push_or_same (large_frame 1) (owned_queue_new None 1024)) =
     \<lparr>oq_inner = \<lparr>oi_batches = [batch_from_frame (large_frame 1) 8000, batch_from_frame (large_frame 2) 8000], oi_frames = 2\<rparr>,
      oq_hint = 2, oq_capacity = 1024, oq_max_batch = 8\<rparr>"
  by (simp add: push_or_same_def try_push_def push_locked_def can_append_def owned_queue_new_def tx_batch_size_def OWNED_BATCH_MAX_FRAMES_def
      OWNED_BATCH_MAX_BYTES_def Let_def frame_bytes_def large_frame_def batch_from_frame_def batch_push_def batch_empty_def saturating_add_def)

lemma append_large:
  "\<exists>st1. append_frames sample_lib 0 (replicate 4096 0) None [large_frame n] st = Some st1 \<and> length (pl_buf st1) = length (pl_buf st) + 8010
    \<and> pl_backend st1 = pl_backend st \<and> pl_pulled st1 = pl_pulled st \<and> pl_payload st1 = pl_payload st"
proof -
  obtain pad rng where a: "append_padded_frame_with_limit sample_lib 0 (replicate 4096 0) (pl_buf st) n (replicate 8000 0) None 1 (pl_rng st) =
      Some (pl_buf st @ wire_frame n (replicate 8000 0) pad, rng)" "length pad = 0"
    using append_padded_frame_wire [OF sample_lib_ok, of "replicate 4096 0" 0 "pl_buf st" n "replicate 8000 0" None 1 "pl_rng st"]
    by (auto simp: sealed_def pad_length_with_limit_def PAD_OFF_def)
  then show ?thesis by (simp add: append_unpadded_frame_def large_frame_def wire_frame_def)
qed

lemma drain_count:
  assumes "0 < ts_tls s" and "tls_wants_write TL = tls_wants_write count_tls" "tls_write_tls TL = tls_write_tls count_tls"
  shows "\<exists>s'. drain_tls TL now now_us s = Some (False, s') \<and> pb_owned (ts_backend s') = pb_owned (ts_backend s)
    \<and> pb_notify (ts_backend s') = pb_notify (ts_backend s) \<and> ts_leftover s' = ts_leftover s \<and> ts_tls s' = 0 \<and> ts_write_stalled s' = None"
proof -
  have "drain_tls_loop TL now s = Some (False, s\<lparr>ts_tls := 0\<rparr>)"
    using assms by (subst drain_tls_loop.simps, subst drain_tls_loop.simps) (simp add: count_tls_def)
  then show ?thesis using assms(2) by (simp add: drain_tls_def Let_def count_tls_def)
qed

text \<open>
  The second batch no longer fits the record, so the loop ends without its limit, and the wake-up
  was consumed before: the scan's gate for a flush is closed although a frame is queued.
\<close>

theorem flush_leaves_frame_unannounced:
  "\<exists>pt s'. flush_outbound count_tls sample_lib list_chan 0 (replicate 4096 0) now now_us 1 None rng two_large = Some (pt, False, s')
    \<and> backend_contents (\<lambda>c. c) (ts_backend s') = [large_frame 2] \<and> \<not> needs_flush count_tls (sample_tick_session\<lparr>tk_tx := s'\<rparr>)"
proof -
  define q where "q = \<lparr>oq_inner = \<lparr>oi_batches = [batch_from_frame (large_frame 1) 8000, batch_from_frame (large_frame 2) 8000], oi_frames = 2\<rparr>,
      oq_hint = 2, oq_capacity = 1024, oq_max_batch = 8\<rparr>"
  define q1 where "q1 = \<lparr>oq_inner = \<lparr>oi_batches = [batch_from_frame (large_frame 2) 8000], oi_frames = 1\<rparr>,
      oq_hint = 1, oq_capacity = 1024, oq_max_batch = 8\<rparr>"
  define b where "b = sample_backend\<lparr>pb_owned := Some q\<rparr>"
  have pop: "try_pop_fitting q 15872 = (Some (batch_from_frame (large_frame 1) 8000), q1)" "try_pop_fitting q1 7862 = (None, q1)"
    by (simp_all add: try_pop_fitting_def q_def q1_def estimated_wire_def batch_from_frame_def batch_push_def batch_empty_def
        OWNED_BATCH_WIRE_OVERHEAD_PER_FRAME_def USIZE_MAX_def Let_def)
  define st where "st = \<lparr>pl_backend = consume_backend_wake b, pl_buf = [], pl_rng = rng, pl_last = None, pl_pulled = 0, pl_payload = 0,
      pl_totals = totals_default\<rparr>"
  let ?b1 = "(consume_backend_wake b)\<lparr>pb_owned := Some q1\<rparr>"
  obtain st1 where a: "append_frames sample_lib 0 (replicate 4096 0) None [large_frame 1] (st\<lparr>pl_backend := ?b1\<rparr>) = Some st1"
    "length (pl_buf st1) = 8010" "pl_backend st1 = ?b1" "pl_pulled st1 = 0" "pl_payload st1 = 0"
    using append_large [of 1 "st\<lparr>pl_backend := ?b1\<rparr>"] by (auto simp: st_def)
  have r: "try_recv_backend_batch list_chan (consume_backend_wake b) 15872 = (Some (batch_from_frame (large_frame 1) 8000), ?b1)"
    "try_recv_backend_batch list_chan ?b1 7862 = (None, ?b1)"
    using pop by (simp_all add: try_recv_backend_batch_def b_def consume_backend_wake_def)
  define st2 where "st2 = st1\<lparr>pl_payload := 8000, pl_pulled := 1\<rparr>"
  note limits = pull_budget_def MAX_TLS_PLAINTEXT_RECORD_def STREAM_PAD_ABSOLUTE_LIMIT_def STREAM_TLS_BATCH_SOFT_LIMIT_def
  have one: "pl_pulled st2 = 1" "pl_buf st2 = pl_buf st1" "pl_backend st2 = ?b1" using a(3) by (simp_all add: st2_def)
  have "pull_loop sample_lib list_chan 0 (replicate 4096 0) None st2 = Some (False, st2\<lparr>pl_backend := ?b1\<rparr>)"
    by (subst pull_loop.simps) (simp add: limits one a(2) r(2) word_le_nat_alt)
  moreover have "fb_frames (batch_from_frame (large_frame 1) 8000) = [large_frame 1]" "fb_bytes (batch_from_frame (large_frame 1) 8000) = 8000"
    by (simp_all add: batch_from_frame_def batch_push_def batch_empty_def saturating_add_def)
  moreover have "pl_buf st = []" "pl_pulled st = 0" "pl_backend st = consume_backend_wake b" by (simp_all add: st_def)
  ultimately have pl: "pull_loop sample_lib list_chan 0 (replicate 4096 0) None st = Some (False, st2\<lparr>pl_backend := ?b1\<rparr>)"
    by (subst pull_loop.simps) (simp add: limits a(1,4,5) r(1) word_le_nat_alt flip: st2_def del: append_frames.simps)
  define s1 where "s1 = two_large\<lparr>ts_backend := ?b1, ts_leftover := False\<rparr>"
  have tx: "ts_backend two_large = b" "ts_write_stalled two_large = None" "ts_tls two_large = 0" "ts_epoch two_large = 1"
    by (simp_all add: two_large_def two_large_queue b_def q_def sample_tick_session_def)
  have ne: "pl_buf st1 \<noteq> []" using a(2) by auto
  have fl: "flush_outbound count_tls sample_lib list_chan 0 (replicate 4096 0) now now_us 1 None rng two_large =
      flush_write count_tls now now_us 0 (pl_buf st1) (st2\<lparr>pl_backend := ?b1\<rparr>) s1"
    unfolding flush_outbound_def flush_pull_def
    using pl tx one by (simp add: s1_def count_tls_def pad_stream_batch_tail_def pad_mode_name_def PAD_OFF_def flip: st_def)
  define s2 where "s2 = account_write (pl_buf st1) 0 (st2\<lparr>pl_backend := ?b1\<rparr>) 8010 s1"
  have acc: "ts_tls s2 = 8010" "ts_backend s2 = ?b1" "\<not> ts_leftover s2" by (simp_all add: s2_def account_write_def s1_def Let_def)
  obtain s' where d: "drain_tls count_tls now now_us s2 = Some (False, s')" "pb_owned (ts_backend s') = Some q1"
    "pb_notify (ts_backend s') = Some (notify_new 0)" "\<not> ts_leftover s'" "ts_tls s' = 0" "ts_write_stalled s' = None"
    using drain_count [of s2 count_tls now now_us] acc by (auto simp: b_def sample_backend_def consume_backend_wake_def consume_wake_def notify_new_def)
  have "tls_write_all count_tls (ts_tls s1) (pl_buf st1) = Some 8010" using a(2) tx by (simp add: count_tls_def s1_def)
  then have "flush_outbound count_tls sample_lib list_chan 0 (replicate 4096 0) now now_us 1 None rng two_large = Some (pl_buf st1, False, s')"
    using ne d(1) by (simp add: fl flush_write_def flip: s2_def)
  moreover have "backend_contents (\<lambda>c. c) (ts_backend s') = [large_frame 2]"
    using d(2) by (simp add: backend_contents_def oq_contents_def q1_def batch_from_frame_def batch_push_def batch_empty_def)
  moreover have "\<not> needs_flush count_tls (sample_tick_session\<lparr>tk_tx := s'\<rparr>)"
    using d by (simp add: needs_flush_def wake_pending_def notify_new_def count_tls_def)
  ultimately show ?thesis by blast
qed

end
