(* ===== verification/Vswitch.thy ===== *)
theory Vswitch
  imports Frame Complex_Main
begin

text \<open>
  The learning switch of \<open>net.rs\<close> (\<open>VSwitch\<close>): ports, the MAC table with its static entries of
  authenticated sessions, the source check, forwarding, and flooding under a token budget per
  source port. An \<open>Arc\<close> of a port is the number of the port object, an \<open>Arc\<close> of a frame its
  strong count with its bytes; the calls the switch makes on ports are returned in order.
  Instants are nanoseconds. An \<open>f64\<close> is a rational, and the result of an operation on \<open>f64\<close> is
  the exact result rounded by the argument \<open>rnd\<close>.
\<close>

type_synonym mac = bytes
type_synonym arc_frame = "nat \<times> bytes"

subsection \<open>State\<close>

record mac_entry =
  me_port_id :: string
  me_port :: "nat option"
  me_updated :: nat
  me_static :: bool

record flood_budget =
  fl_tokens :: rat
  fl_last :: nat

record vswitch =
  sw_ports :: "(string \<times> nat) list"
  sw_macs :: "mac \<Rightarrow> mac_entry option"
  sw_validate :: "(string \<Rightarrow> mac \<Rightarrow> bool) option"
  sw_spoof_drops :: u64
  sw_flood :: "string \<Rightarrow> flood_budget option"
  sw_burst :: rat
  sw_rate :: rat
  sw_flood_drops :: u64
  sw_trusted :: string

definition TAP_PORT_ID :: string where
  "TAP_PORT_ID = ''TAP_LOCAL''"

definition zero_mac :: mac where
  "zero_mac = replicate 6 0"

definition with_flood_budgets :: "rat \<Rightarrow> rat \<Rightarrow> vswitch" where
  "with_flood_budgets burst rate_per_sec =
     \<lparr>sw_ports = [], sw_macs = (\<lambda>_. None), sw_validate = None, sw_spoof_drops = 0, sw_flood = (\<lambda>_. None),
      sw_burst = burst, sw_rate = rate_per_sec, sw_flood_drops = 0, sw_trusted = TAP_PORT_ID\<rparr>"

definition vswitch_new :: vswitch where
  "vswitch_new = with_flood_budgets 8192 16384"

subsection \<open>Ports and static entries\<close>

text \<open>The collector thread keeps static entries and those younger than 1800 seconds.\<close>

definition retain_macs :: "(mac_entry \<Rightarrow> bool) \<Rightarrow> vswitch \<Rightarrow> vswitch" where
  "retain_macs keep s = s\<lparr>sw_macs := (\<lambda>m. case sw_macs s m of None \<Rightarrow> None | Some e \<Rightarrow> if keep e then Some e else None)\<rparr>"

definition mac_gc :: "nat \<Rightarrow> vswitch \<Rightarrow> vswitch" where
  "mac_gc now s = retain_macs (\<lambda>e. me_static e \<or> now - me_updated e < 1800 * 10 ^ 9) s"

definition add_port :: "string \<Rightarrow> nat \<Rightarrow> vswitch \<Rightarrow> vswitch" where
  "add_port port_id port s = s\<lparr>sw_ports := (port_id, port) # filter (\<lambda>p. fst p \<noteq> port_id) (sw_ports s)\<rparr>"

definition add_static_mac :: "nat \<Rightarrow> string \<Rightarrow> mac \<Rightarrow> vswitch \<Rightarrow> vswitch" where
  "add_static_mac now port_id m s =
     (if m = zero_mac then s
      else s\<lparr>sw_macs := (sw_macs s)(m \<mapsto>
        \<lparr>me_port_id = port_id, me_port = map_of (sw_ports s) port_id, me_updated = now, me_static = True\<rparr>)\<rparr>)"

definition remove_port :: "string \<Rightarrow> vswitch \<Rightarrow> vswitch" where
  "remove_port port_id s =
     retain_macs (\<lambda>e. me_port_id e \<noteq> port_id)
       (s\<lparr>sw_ports := filter (\<lambda>p. fst p \<noteq> port_id) (sw_ports s), sw_flood := (sw_flood s)(port_id := None)\<rparr>)"

definition set_validate_mac :: "(string \<Rightarrow> mac \<Rightarrow> bool) \<Rightarrow> vswitch \<Rightarrow> vswitch" where
  "set_validate_mac f s = s\<lparr>sw_validate := Some f\<rparr>"

subsection \<open>Flooding\<close>

text \<open>\<open>Duration::as_secs_f64\<close>.\<close>

definition as_secs_f64 :: "(rat \<Rightarrow> rat) \<Rightarrow> nat \<Rightarrow> rat" where
  "as_secs_f64 rnd ns = rnd (rnd (of_nat (ns div 10 ^ 9)) + rnd (of_nat (ns mod 10 ^ 9) / 10 ^ 9))"

definition allow_flood :: "(rat \<Rightarrow> rat) \<Rightarrow> nat \<Rightarrow> string \<Rightarrow> vswitch \<Rightarrow> bool \<times> vswitch" where
  "allow_flood rnd now src_port_id s =
     (case sw_flood s src_port_id of
        None \<Rightarrow> (True, s\<lparr>sw_flood := (sw_flood s)(src_port_id \<mapsto> \<lparr>fl_tokens = rnd (sw_burst s - 1), fl_last = now\<rparr>)\<rparr>)
      | Some b \<Rightarrow>
          let elapsed = as_secs_f64 rnd (now - fl_last b);
              b1 = (if elapsed > 0
                    then b\<lparr>fl_tokens := min (rnd (fl_tokens b + rnd (elapsed * sw_rate s))) (sw_burst s), fl_last := now\<rparr>
                    else b)
          in if fl_tokens b1 < 1 then (False, s\<lparr>sw_flood := (sw_flood s)(src_port_id \<mapsto> b1)\<rparr>)
             else (True, s\<lparr>sw_flood := (sw_flood s)(src_port_id \<mapsto> b1\<lparr>fl_tokens := rnd (fl_tokens b1 - 1)\<rparr>)\<rparr>))"

text \<open>The calls on a port object: \<open>write_owned_payload\<close>, \<open>write_payload_batch\<close>, \<open>write_frame\<close>.\<close>

datatype port_call =
    Call_Owned nat frame_payload
  | Call_Batch nat "frame_payload list"
  | Call_Frame nat bytes

definition flood :: "(rat \<Rightarrow> rat) \<Rightarrow> nat \<Rightarrow> string \<Rightarrow> frame_payload \<Rightarrow> vswitch \<Rightarrow> port_call list \<times> vswitch" where
  "flood rnd now exclude frame s =
     (let (ok, s1) = (if exclude \<noteq> sw_trusted s then allow_flood rnd now exclude s else (True, s))
      in if \<not> ok then ([], s1\<lparr>sw_flood_drops := sw_flood_drops s1 + 1\<rparr>)
         else (map (\<lambda>p. Call_Frame (snd p) (as_slice frame)) (filter (\<lambda>p. fst p \<noteq> exclude) (sw_ports s1)), s1))"

subsection \<open>Learning and forwarding\<close>

definition spoof_drop :: "vswitch \<Rightarrow> vswitch" where
  "spoof_drop s = s\<lparr>sw_spoof_drops := sw_spoof_drops s + 1\<rparr>"

text \<open>\<open>(need_update, static_elsewhere)\<close> of \<open>process_frame_inner\<close>.\<close>

definition source_state :: "nat \<Rightarrow> string \<Rightarrow> mac \<Rightarrow> vswitch \<Rightarrow> bool \<times> bool" where
  "source_state now src_port_id src_mac s =
     (case sw_macs s src_mac of
        Some e \<Rightarrow> if me_static e then (False, me_port_id e \<noteq> src_port_id)
                   else (me_port_id e \<noteq> src_port_id \<or> now - me_updated e > 5 * 10 ^ 9, False)
      | None \<Rightarrow> (True, False))"

text \<open>The update of the table entry: whether the frame goes on, and the switch.\<close>

definition learn_entry :: "nat \<Rightarrow> string \<Rightarrow> mac \<Rightarrow> vswitch \<Rightarrow> bool \<times> vswitch" where
  "learn_entry now src_port_id src_mac s =
     (let learned_port = map_of (sw_ports s) src_port_id;
          entry = (\<lambda>st. \<lparr>me_port_id = src_port_id, me_port = learned_port, me_updated = now, me_static = st\<rparr>)
      in case sw_macs s src_mac of
           Some e \<Rightarrow>
             if me_static e \<and> me_port_id e \<noteq> src_port_id
             then (if src_port_id \<noteq> sw_trusted s then (False, spoof_drop s) else (True, s))
             else (True, s\<lparr>sw_macs := (sw_macs s)(src_mac \<mapsto> entry (me_static e))\<rparr>)
         | None \<Rightarrow> (True, s\<lparr>sw_macs := (sw_macs s)(src_mac \<mapsto> entry False)\<rparr>))"

definition learn_source :: "nat \<Rightarrow> string \<Rightarrow> mac \<Rightarrow> vswitch \<Rightarrow> bool \<times> vswitch" where
  "learn_source now src_port_id src_mac s =
     (let (need_update, static_elsewhere) = source_state now src_port_id src_mac s
      in if static_elsewhere \<and> src_port_id \<noteq> sw_trusted s then (False, spoof_drop s)
         else if need_update then
           (if (case sw_validate s of Some f \<Rightarrow> \<not> f src_port_id src_mac | None \<Rightarrow> False) then (False, spoof_drop s)
            else learn_entry now src_port_id src_mac s)
         else (True, s))"

definition forward :: "(rat \<Rightarrow> rat) \<Rightarrow> nat \<Rightarrow> string \<Rightarrow> frame_payload \<Rightarrow> vswitch \<Rightarrow> port_call list \<times> vswitch" where
  "forward rnd now src_port_id frame s =
     (let dst_mac = take 6 (as_slice frame)
      in case (if (dst_mac ! 0) AND 1 = 0 then sw_macs s dst_mac else None) of
           None \<Rightarrow> flood rnd now src_port_id frame s
         | Some e \<Rightarrow>
             if me_port_id e = src_port_id then ([], s)
             else case me_port e of
               Some port \<Rightarrow> ([Call_Owned port frame], s)
             | None \<Rightarrow> (case map_of (sw_ports s) (me_port_id e) of
                            Some port \<Rightarrow> ([Call_Owned port frame], s)
                          | None \<Rightarrow> ([], s)))"

definition process_frame_inner ::
  "(rat \<Rightarrow> rat) \<Rightarrow> nat \<Rightarrow> string \<Rightarrow> mac option \<Rightarrow> frame_payload \<Rightarrow> vswitch \<Rightarrow> port_call list \<times> vswitch" where
  "process_frame_inner rnd now src_port_id registered_mac frame s =
     (if length (as_slice frame) < 14 then ([], s)
      else
        let src_mac = take 6 (drop 6 (as_slice frame))
        in case (if registered_mac = Some zero_mac then None else registered_mac) of
             Some registered \<Rightarrow>
               if src_mac \<noteq> registered then ([], spoof_drop s) else forward rnd now src_port_id frame s
           | None \<Rightarrow>
               let (ok, s1) = learn_source now src_port_id src_mac s
               in if ok then forward rnd now src_port_id frame s1 else ([], s1))"

definition process_frame :: "(rat \<Rightarrow> rat) \<Rightarrow> nat \<Rightarrow> string \<Rightarrow> arc_frame \<Rightarrow> vswitch \<Rightarrow> port_call list \<times> vswitch" where
  "process_frame rnd now src_port_id frame s =
     process_frame_inner rnd now src_port_id None (from_shared (fst frame) (snd frame)) s"

definition process_owned_frame :: "(rat \<Rightarrow> rat) \<Rightarrow> nat \<Rightarrow> string \<Rightarrow> bytes \<Rightarrow> vswitch \<Rightarrow> port_call list \<times> vswitch" where
  "process_owned_frame rnd now src_port_id frame s = process_frame_inner rnd now src_port_id None (Owned frame) s"

definition process_session_frame ::
  "(rat \<Rightarrow> rat) \<Rightarrow> nat \<Rightarrow> string \<Rightarrow> mac \<Rightarrow> arc_frame \<Rightarrow> vswitch \<Rightarrow> port_call list \<times> vswitch" where
  "process_session_frame rnd now src_port_id registered_mac frame s =
     process_frame_inner rnd now src_port_id (Some registered_mac) (from_shared (fst frame) (snd frame)) s"

subsection \<open>Batches of a session\<close>

text \<open>The port a frame may start a run for: the cached port of its destination.\<close>

definition run_port :: "string \<Rightarrow> mac \<Rightarrow> bytes \<Rightarrow> vswitch \<Rightarrow> nat option" where
  "run_port src_port_id registered_mac frame s =
     (if registered_mac \<noteq> zero_mac \<and> length frame \<ge> 14 \<and> take 6 (drop 6 frame) = registered_mac \<and> (frame ! 0) AND 1 = 0
      then case sw_macs s (take 6 frame) of
             Some e \<Rightarrow> if me_port_id e \<noteq> src_port_id then me_port e else None
           | None \<Rightarrow> None
      else None)"

definition run_next :: "mac \<Rightarrow> mac \<Rightarrow> bytes \<Rightarrow> bool" where
  "run_next dst registered_mac frame \<longleftrightarrow>
     length frame \<ge> 14 \<and> take 6 frame = dst \<and> take 6 (drop 6 frame) = registered_mac"

function process_session_batch ::
  "(rat \<Rightarrow> rat) \<Rightarrow> nat \<Rightarrow> string \<Rightarrow> mac \<Rightarrow> arc_frame list \<Rightarrow> vswitch \<Rightarrow> port_call list \<times> vswitch" where
  "process_session_batch rnd now src_port_id registered_mac [] s = ([], s)"
| "process_session_batch rnd now src_port_id registered_mac (frame # frames) s =
     (case run_port src_port_id registered_mac (snd frame) s of
        Some port \<Rightarrow>
          let more = takeWhile (\<lambda>f. run_next (take 6 (snd frame)) registered_mac (snd f)) frames;
              rest = dropWhile (\<lambda>f. run_next (take 6 (snd frame)) registered_mac (snd f)) frames;
              (calls, s1) = process_session_batch rnd now src_port_id registered_mac rest s
          in (Call_Batch port (map (\<lambda>f. from_shared (fst f) (snd f)) (frame # more)) # calls, s1)
      | None \<Rightarrow>
          let (calls, s1) = process_session_frame rnd now src_port_id registered_mac frame s;
              (calls2, s2) = process_session_batch rnd now src_port_id registered_mac frames s1
          in (calls @ calls2, s2))"
  by pat_completeness auto
termination
  by (relation "measure (\<lambda>(rnd, now, p, m, frames, s). length frames)") (auto simp: le_imp_less_Suc length_dropWhile_le)

end
