(* ===== verification/Vswitch_Props.thy ===== *)
theory Vswitch_Props
  imports Vswitch
begin

text \<open>
  What the switch guarantees: grouping the frames of a session into batches changes nothing, the
  frames a port can have flooded are bounded by its budget, a static entry is never learnt away,
  and forwarding goes to the port of the entry only.
\<close>

subsection \<open>Batches\<close>

text \<open>The bytes written to port objects, in order.\<close>

fun call_writes :: "port_call \<Rightarrow> (nat \<times> bytes) list" where
  "call_writes (Call_Owned h f) = [(h, as_slice f)]"
| "call_writes (Call_Batch h fs) = map (\<lambda>f. (h, as_slice f)) fs"
| "call_writes (Call_Frame h b) = [(h, b)]"

definition writes :: "port_call list \<Rightarrow> (nat \<times> bytes) list" where
  "writes cs = concat (map call_writes cs)"

lemma writes_simps [simp]: "writes [] = []" "writes (c # cs) = call_writes c @ writes cs" "writes (cs @ ds) = writes cs @ writes ds"
  by (simp_all add: writes_def)

lemma as_slice_from_shared [simp]: "as_slice (from_shared n b) = b"
  by (simp add: from_shared_def)

text \<open>Reference: the frames one after the other.\<close>

fun session_frames ::
  "(rat \<Rightarrow> rat) \<Rightarrow> nat \<Rightarrow> string \<Rightarrow> mac \<Rightarrow> arc_frame list \<Rightarrow> vswitch \<Rightarrow> port_call list \<times> vswitch" where
  "session_frames rnd now p m [] s = ([], s)"
| "session_frames rnd now p m (f # fs) s =
     (let (c1, s1) = process_session_frame rnd now p m f s; (c2, s2) = session_frames rnd now p m fs s1 in (c1 @ c2, s2))"

lemma session_frames_append:
  "session_frames rnd now p m (xs @ ys) s =
     (let (c1, s1) = session_frames rnd now p m xs s; (c2, s2) = session_frames rnd now p m ys s1 in (c1 @ c2, s2))"
  by (induction xs arbitrary: s) (simp_all split: prod.split add: Let_def)

lemma nth_0_take: "6 \<le> length x \<Longrightarrow> take 6 x ! 0 = x ! 0"
  by simp

lemma run_port_frame:
  assumes "run_port p m (snd f) s = Some h"
  shows "process_session_frame rnd now p m f s = ([Call_Owned h (from_shared (fst f) (snd f))], s)"
  using assms
  by (auto simp: run_port_def process_session_frame_def process_frame_inner_def forward_def Let_def split: if_splits option.splits)

lemma run_next_port:
  "run_port p m x s = Some h \<Longrightarrow> run_next (take 6 x) m y \<Longrightarrow> run_port p m y s = Some h"
proof -
  assume a: "run_port p m x s = Some h" "run_next (take 6 x) m y"
  then have "length x \<ge> 14" "length y \<ge> 14" "take 6 y = take 6 x" by (auto simp: run_port_def run_next_def split: if_splits)
  then have "y ! 0 = x ! 0" using nth_0_take [of x] nth_0_take [of y] by simp
  then show ?thesis using a by (auto simp: run_port_def run_next_def split: if_splits)
qed

lemma session_frames_run:
  assumes "\<And>f. f \<in> set fs \<Longrightarrow> run_port p m (snd f) s = Some h"
  shows "session_frames rnd now p m fs s = (map (\<lambda>f. Call_Owned h (from_shared (fst f) (snd f))) fs, s)"
  using assms by (induction fs) (simp_all add: run_port_frame Let_def)

lemma writes_owned: "writes (map (\<lambda>f. Call_Owned h (from_shared (fst f) (snd f))) fs) = map (\<lambda>f. (h, snd f)) fs"
  by (induction fs) simp_all

lemma session_batch_both:
  "snd (process_session_batch rnd now p m frames s) = snd (session_frames rnd now p m frames s)
   \<and> writes (fst (process_session_batch rnd now p m frames s)) = writes (fst (session_frames rnd now p m frames s))"
proof (induction rnd now p m frames s rule: process_session_batch.induct)
  case (2 rnd now p m frame frames s)
  show ?case
  proof (cases "run_port p m (snd frame) s")
    case None
    obtain c1 s1 where f: "process_session_frame rnd now p m frame s = (c1, s1)" by (cases "process_session_frame rnd now p m frame s")
    show ?thesis using 2(1) [OF None f [symmetric] refl] None f by (auto simp: Let_def split: prod.splits)
  next
    case (Some h)
    let ?P = "\<lambda>f. run_next (take 6 (snd frame)) m (snd f)"
    have "run_port p m (snd f) s = Some h" if "f \<in> set (frame # takeWhile ?P frames)" for f
      using that Some run_next_port [OF Some] by (auto dest: set_takeWhileD)
    then have r: "session_frames rnd now p m (frame # takeWhile ?P frames) s =
        (map (\<lambda>f. Call_Owned h (from_shared (fst f) (snd f))) (frame # takeWhile ?P frames), s)"
      by (rule session_frames_run)
    have "frame # frames = (frame # takeWhile ?P frames) @ dropWhile ?P frames" by simp
    then have "session_frames rnd now p m (frame # frames) s =
        (let (c2, s2) = session_frames rnd now p m (dropWhile ?P frames) s
         in (map (\<lambda>f. Call_Owned h (from_shared (fst f) (snd f))) (frame # takeWhile ?P frames) @ c2, s2))"
      unfolding \<open>frame # frames = _\<close> session_frames_append r by simp
    then show ?thesis using 2(2) [OF Some refl refl] Some
      by (auto simp: Let_def writes_owned comp_def simp del: session_frames.simps split: prod.splits)
  qed
qed simp

lemmas session_batch_ok = conjunct1 [OF session_batch_both] conjunct2 [OF session_batch_both]

text \<open>
  C11. \<open>process_session_batch\<close>, which groups runs of unicast frames to one destination, writes the
  same bytes to the same ports in the same order, and leaves the same switch, as handing the
  frames one by one to \<open>process_session_frame\<close>.
\<close>

theorem session_batch_equals_scalar:
  "snd (process_session_batch rnd now p m frames s) = snd (session_frames rnd now p m frames s)
   \<and> writes (fst (process_session_batch rnd now p m frames s)) = writes (fst (session_frames rnd now p m frames s))"
  by (rule session_batch_both)

subsection \<open>Static entries\<close>

text \<open>The port \<open>p\<close>, as the object \<open>h\<close>, owns the address \<open>m\<close>.\<close>

definition pinned :: "string \<Rightarrow> nat \<Rightarrow> mac \<Rightarrow> vswitch \<Rightarrow> bool" where
  "pinned p h m s \<longleftrightarrow> (\<exists>e. sw_macs s m = Some e \<and> me_static e \<and> me_port_id e = p \<and> me_port e = Some h)"

lemma pinned_add_static:
  "m \<noteq> zero_mac \<Longrightarrow> map_of (sw_ports s) p = Some h \<Longrightarrow> pinned p h m (add_static_mac now p m s)"
  "pinned p h m s \<Longrightarrow> m' \<noteq> m \<Longrightarrow> pinned p h m (add_static_mac now p' m' s)"
  by (simp_all add: pinned_def add_static_mac_def)

lemma pinned_mac_gc: "pinned p h m s \<Longrightarrow> pinned p h m (mac_gc now s)"
  by (auto simp: pinned_def mac_gc_def retain_macs_def)

lemma pinned_remove_port: "pinned p h m s \<Longrightarrow> p' \<noteq> p \<Longrightarrow> pinned p h m (remove_port p' s)"
  by (auto simp: pinned_def remove_port_def retain_macs_def)

lemma pinned_add_port: "pinned p h m (add_port p' h' s) = pinned p h m s"
  by (simp add: pinned_def add_port_def)

lemma flood_frame [simp]:
  "sw_macs (snd (flood rnd now p f s)) = sw_macs s" "sw_ports (snd (flood rnd now p f s)) = sw_ports s"
  "sw_trusted (snd (flood rnd now p f s)) = sw_trusted s" "sw_validate (snd (flood rnd now p f s)) = sw_validate s"
  by (simp_all add: flood_def allow_flood_def Let_def split: option.split)

lemma forward_frame [simp]:
  "sw_macs (snd (forward rnd now p f s)) = sw_macs s" "sw_ports (snd (forward rnd now p f s)) = sw_ports s"
  "sw_trusted (snd (forward rnd now p f s)) = sw_trusted s" "sw_validate (snd (forward rnd now p f s)) = sw_validate s"
  by (simp_all add: forward_def Let_def split: option.split)

lemma learn_frame [simp]:
  "sw_ports (snd (learn_source now p m s)) = sw_ports s" "sw_trusted (snd (learn_source now p m s)) = sw_trusted s"
  "sw_validate (snd (learn_source now p m s)) = sw_validate s" "sw_flood (snd (learn_source now p m s)) = sw_flood s"
  "sw_burst (snd (learn_source now p m s)) = sw_burst s" "sw_rate (snd (learn_source now p m s)) = sw_rate s"
  by (simp_all add: learn_source_def learn_entry_def spoof_drop_def Let_def split: option.split prod.split)

text \<open>Learning never touches a static entry.\<close>

lemma learn_static: "sw_macs s m = Some e \<Longrightarrow> me_static e \<Longrightarrow> sw_macs (snd (learn_source now p m' s)) m = Some e"
  by (auto simp: learn_source_def learn_entry_def source_state_def spoof_drop_def Let_def split: option.split prod.split)

lemma process_frame_inner_frame [simp]:
  "sw_ports (snd (process_frame_inner rnd now p r f s)) = sw_ports s"
  "sw_trusted (snd (process_frame_inner rnd now p r f s)) = sw_trusted s"
  "sw_validate (snd (process_frame_inner rnd now p r f s)) = sw_validate s"
  by (simp_all add: process_frame_inner_def spoof_drop_def Let_def split_beta split: option.split)

lemma process_frame_inner_static:
  "sw_macs s m = Some e \<Longrightarrow> me_static e \<Longrightarrow> sw_macs (snd (process_frame_inner rnd now p r f s)) m = Some e"
  by (auto simp: process_frame_inner_def spoof_drop_def Let_def split_beta learn_static split: option.split)

lemma pinned_process: "pinned p h m s \<Longrightarrow> pinned p h m (snd (process_frame_inner rnd now p' r f s))"
  unfolding pinned_def using process_frame_inner_static by blast

lemma session_frames_snd:
  assumes "\<And>r f s. I s \<Longrightarrow> I (snd (process_frame_inner rnd now p r f s))" and "I s"
  shows "I (snd (session_frames rnd now p m fs s))"
  using assms(2) by (induction fs arbitrary: s) (auto simp: Let_def split_beta process_session_frame_def intro: assms(1))

lemma process_session_batch_snd:
  assumes "\<And>r f s. I s \<Longrightarrow> I (snd (process_frame_inner rnd now p r f s))" and "I s"
  shows "I (snd (process_session_batch rnd now p m fs s))"
  using session_batch_ok(1) session_frames_snd [OF assms] by simp

lemma forward_pinned:
  assumes "pinned q h (take 6 (as_slice f)) s" "6 \<le> length (as_slice f)" "as_slice f ! 0 AND 1 = 0" "q \<noteq> p"
  shows "forward rnd now p f s = ([Call_Owned h f], s)"
  using assms by (auto simp: pinned_def forward_def Let_def)

text \<open>An address owned by another port cannot be claimed: the frame is dropped.\<close>

lemma spoofed_static:
  assumes "pinned q h (take 6 (drop 6 (as_slice f))) s" "14 \<le> length (as_slice f)" "q \<noteq> p" "p \<noteq> sw_trusted s"
  shows "process_frame_inner rnd now p None f s = ([], spoof_drop s)"
  using assms by (auto simp: pinned_def process_frame_inner_def learn_source_def source_state_def Let_def)

subsection \<open>Runs of the switch\<close>

datatype sw_event =
    Ev_Frame nat string "mac option" frame_payload
  | Ev_Gc nat
  | Ev_Add string nat
  | Ev_Pin nat string mac
  | Ev_Remove string

fun sw_step :: "(rat \<Rightarrow> rat) \<Rightarrow> sw_event \<Rightarrow> vswitch \<Rightarrow> port_call list \<times> vswitch" where
  "sw_step rnd (Ev_Frame now p r f) s = process_frame_inner rnd now p r f s"
| "sw_step rnd (Ev_Gc now) s = ([], mac_gc now s)"
| "sw_step rnd (Ev_Add p h) s = ([], add_port p h s)"
| "sw_step rnd (Ev_Pin now p m) s = ([], add_static_mac now p m s)"
| "sw_step rnd (Ev_Remove p) s = ([], remove_port p s)"

text \<open>The frames of the port \<open>p\<close> that a run floods.\<close>

fun is_flood :: "port_call \<Rightarrow> bool" where
  "is_flood (Call_Frame h b) = True"
| "is_flood (Call_Owned h f) = False"
| "is_flood (Call_Batch h fs) = False"

fun from_port :: "string \<Rightarrow> sw_event \<Rightarrow> bool" where
  "from_port p (Ev_Frame now q r f) = (q = p)"
| "from_port p _ = False"

fun flooded_from :: "(rat \<Rightarrow> rat) \<Rightarrow> string \<Rightarrow> sw_event list \<Rightarrow> vswitch \<Rightarrow> nat" where
  "flooded_from rnd p [] s = 0"
| "flooded_from rnd p (ev # evs) s =
     (let (calls, s1) = sw_step rnd ev s
      in (if from_port p ev \<and> list_ex is_flood calls then 1 else 0) + flooded_from rnd p evs s1)"

subsection \<open>The flooding budget\<close>

text \<open>
  The documented rounding of \<open>f64\<close>: the relative error of an operation is at most \<open>e\<close> (\<open>2\<^sup>-\<^sup>5\<^sup>3\<close>).
  No value of the budget leaves the range of normal numbers.
\<close>

definition f64_rounding :: "(rat \<Rightarrow> rat) \<Rightarrow> rat \<Rightarrow> bool" where
  "f64_rounding rnd e \<longleftrightarrow> 0 \<le> e \<and> (\<forall>x. 0 \<le> x \<longrightarrow> 0 \<le> rnd x \<and> rnd x \<le> (1 + e) * x)"

lemma rnd_upper: "f64_rounding rnd e \<Longrightarrow> 0 \<le> x \<Longrightarrow> rnd x \<le> (1 + e) * x"
  and rnd_lower: "f64_rounding rnd e \<Longrightarrow> 0 \<le> x \<Longrightarrow> 0 \<le> rnd x"
  by (simp_all add: f64_rounding_def)

lemma rnd_chain:
  assumes r: "f64_rounding rnd e" and x: "0 \<le> x" "x \<le> (1 + e) ^ n * y"
  shows "rnd x \<le> (1 + e) ^ Suc n * y"
proof -
  have "0 \<le> 1 + e" using r by (simp add: f64_rounding_def)
  then have "(1 + e) * x \<le> (1 + e) * ((1 + e) ^ n * y)" using x(2) by (rule mult_left_mono [rotated])
  then show ?thesis using rnd_upper [OF r x(1)] by (simp add: mult.assoc)
qed

lemma as_secs_f64_bound:
  assumes r: "f64_rounding rnd e"
  shows "0 \<le> as_secs_f64 rnd ns" "as_secs_f64 rnd ns \<le> (1 + e)\<^sup>2 * (of_nat ns / 10 ^ 9)"
proof -
  let ?q = "of_nat (ns div 10 ^ 9) :: rat" and ?m = "of_nat (ns mod 10 ^ 9) / 10 ^ 9 :: rat"
  have n: "of_nat ns / 10 ^ 9 = ?q + ?m"
  proof -
    have "(of_nat ns :: rat) = of_nat (ns div 10 ^ 9 * 10 ^ 9 + ns mod 10 ^ 9)" by (simp only: div_mult_mod_eq)
    also have "\<dots> = ?q * 10 ^ 9 + of_nat (ns mod 10 ^ 9)" by (simp only: of_nat_add of_nat_mult of_nat_power of_nat_numeral)
    finally show ?thesis by (simp add: field_simps)
  qed
  have p: "0 \<le> ?q" "0 \<le> ?m" "0 \<le> rnd ?q + rnd ?m" using rnd_lower [OF r, of ?q] rnd_lower [OF r, of ?m] by simp_all
  have "rnd ?q + rnd ?m \<le> (1 + e) ^ 1 * (?q + ?m)"
    using add_mono [OF rnd_upper [OF r p(1)] rnd_upper [OF r p(2)]] by (simp only: power_one_right distrib_left)
  from rnd_chain [OF r p(3) this] show "as_secs_f64 rnd ns \<le> (1 + e)\<^sup>2 * (of_nat ns / 10 ^ 9)"
    unfolding as_secs_f64_def n by (simp only: numeral_2_eq_2 One_nat_def)
  show "0 \<le> as_secs_f64 rnd ns" unfolding as_secs_f64_def by (rule rnd_lower [OF r p(3)])
qed

text \<open>The tokens of a port and the instant of their last refill; \<open>t0\<close> before the first flood.\<close>

definition tokens :: "string \<Rightarrow> vswitch \<Rightarrow> rat" where
  "tokens p s = (case sw_flood s p of None \<Rightarrow> sw_burst s | Some b \<Rightarrow> fl_tokens b)"

definition refilled :: "nat \<Rightarrow> string \<Rightarrow> vswitch \<Rightarrow> nat" where
  "refilled t0 p s = (case sw_flood s p of None \<Rightarrow> t0 | Some b \<Rightarrow> fl_last b)"

text \<open>The tokens a span of time brings at most.\<close>

definition refill_bound :: "rat \<Rightarrow> rat \<Rightarrow> nat \<Rightarrow> rat" where
  "refill_bound e rate ns = (1 + e) ^ 4 * (rate * (of_nat ns / 10 ^ 9))"

lemma refill_bound_add: "refill_bound e rate (a + b) = refill_bound e rate a + refill_bound e rate b"
  by (simp add: refill_bound_def field_simps)

lemma refill_bound_0 [simp]: "refill_bound e rate 0 = 0"
  by (simp add: refill_bound_def)

lemma refill_bound_nonneg: "0 \<le> e \<Longrightarrow> 0 \<le> rate \<Longrightarrow> 0 \<le> refill_bound e rate ns"
  by (simp add: refill_bound_def)

definition budget_ok :: "rat \<Rightarrow> nat \<Rightarrow> nat \<Rightarrow> string \<Rightarrow> vswitch \<Rightarrow> bool" where
  "budget_ok e t0 t1 p s \<longleftrightarrow>
     1 \<le> sw_burst s \<and> e * sw_burst s \<le> 1 \<and> 0 \<le> sw_rate s \<and> p \<noteq> sw_trusted s
     \<and> 0 \<le> tokens p s \<and> tokens p s \<le> sw_burst s \<and> t0 \<le> refilled t0 p s \<and> refilled t0 p s \<le> t1"

text \<open>What the tokens of a consumed frame and the time since the refill cost.\<close>

definition paid :: "rat \<Rightarrow> nat \<Rightarrow> string \<Rightarrow> nat \<Rightarrow> nat \<Rightarrow> vswitch \<Rightarrow> vswitch \<Rightarrow> bool" where
  "paid e t0 p n tries s s' \<longleftrightarrow>
     sw_burst s' = sw_burst s \<and> sw_rate s' = sw_rate s \<and> sw_trusted s' = sw_trusted s \<and> refilled t0 p s \<le> refilled t0 p s'
     \<and> of_nat n + tokens p s' \<le>
         tokens p s + refill_bound e (sw_rate s) (refilled t0 p s' - refilled t0 p s) + of_nat tries * (2 * (e * sw_burst s))"

lemma consume_token:
  assumes r: "f64_rounding rnd e" and b: "e * burst \<le> 1" "1 \<le> t" "t \<le> burst"
  shows "0 \<le> rnd (t - 1)" "rnd (t - 1) \<le> burst" "1 + rnd (t - 1) \<le> t + e * burst"
proof -
  have e: "0 \<le> e" using r by (simp add: f64_rounding_def)
  show "0 \<le> rnd (t - 1)" using rnd_lower [OF r] b by simp
  have "rnd (t - 1) \<le> (1 + e) * (t - 1)" using rnd_upper [OF r] b by simp
  also have "\<dots> = t - 1 + e * (t - 1)" by (simp add: algebra_simps)
  also have "e * (t - 1) \<le> e * burst" using e b by (intro mult_left_mono) simp_all
  finally have u: "rnd (t - 1) \<le> t - 1 + e * burst" by simp
  show "1 + rnd (t - 1) \<le> t + e * burst" using u by simp
  show "rnd (t - 1) \<le> burst" using u b by simp
qed

lemma refill_tokens:
  assumes r: "f64_rounding rnd e" and b: "0 \<le> t" "t \<le> burst" "0 \<le> rate"
  shows "0 \<le> rnd (t + rnd (as_secs_f64 rnd ns * rate))" "rnd (t + rnd (as_secs_f64 rnd ns * rate)) \<le> t + refill_bound e rate ns + e * burst"
proof -
  have e: "0 \<le> e" using r by (simp add: f64_rounding_def)
  let ?x = "as_secs_f64 rnd ns * rate"
  have x: "0 \<le> ?x" "?x \<le> (1 + e) ^ 2 * (rate * (of_nat ns / 10 ^ 9))"
    using as_secs_f64_bound [OF r, of ns] b(3) mult_right_mono [OF as_secs_f64_bound(2) [OF r, of ns] b(3)] by (simp_all add: mult_ac)
  have y: "0 \<le> rnd ?x" "rnd ?x \<le> (1 + e) ^ 3 * (rate * (of_nat ns / 10 ^ 9))"
    using rnd_lower [OF r x(1)] rnd_chain [OF r x] by (simp_all add: numeral_3_eq_3)
  show "0 \<le> rnd (t + rnd ?x)" using rnd_lower [OF r] y(1) b(1) by simp
  have "rnd (t + rnd ?x) \<le> (1 + e) * (t + rnd ?x)" using rnd_upper [OF r] y(1) b(1) by simp
  also have "\<dots> = t + e * t + (1 + e) * rnd ?x" by (simp add: algebra_simps)
  also have "(1 + e) * rnd ?x \<le> (1 + e) * ((1 + e) ^ 3 * (rate * (of_nat ns / 10 ^ 9)))" using y(2) e by (intro mult_left_mono) simp_all
  also have "\<dots> = refill_bound e rate ns" by (simp add: refill_bound_def eval_nat_numeral mult.assoc)
  also have "e * t \<le> e * burst" using e b by (intro mult_left_mono) simp_all
  finally show "rnd (t + rnd ?x) \<le> t + refill_bound e rate ns + e * burst" by simp
qed

text \<open>One request for a token.\<close>

lemma allow_flood_paid:
  assumes r: "f64_rounding rnd e" and b: "budget_ok e t0 t1 p s" and t: "t0 \<le> now" "now \<le> t1"
  shows "paid e t0 p (of_bool (fst (allow_flood rnd now p s))) 1 s (snd (allow_flood rnd now p s))
    \<and> budget_ok e t0 t1 p (snd (allow_flood rnd now p s))"
proof (cases "sw_flood s p")
  case None
  have f: "1 \<le> sw_burst s" "e * sw_burst s \<le> 1" "0 \<le> sw_rate s" "0 \<le> e" "0 \<le> e * sw_burst s"
    using b r by (simp_all add: budget_ok_def f64_rounding_def)
  note c = consume_token [OF r f(2) f(1) order_refl]
  have "1 + rnd (sw_burst s - 1) \<le> sw_burst s + refill_bound e (sw_rate s) (now - t0) + 2 * (e * sw_burst s)"
    using c(3) f(5) refill_bound_nonneg [OF f(4,3), of "now - t0"] by linarith
  then show ?thesis using None b t c(1,2) by (simp add: allow_flood_def paid_def budget_ok_def tokens_def refilled_def)
next
  case (Some f)
  let ?el = "as_secs_f64 rnd (now - fl_last f)"
  define g where "g = (if ?el > 0 then f\<lparr>fl_tokens := min (rnd (fl_tokens f + rnd (?el * sw_rate s))) (sw_burst s), fl_last := now\<rparr> else f)"
  have bs: "0 \<le> fl_tokens f" "fl_tokens f \<le> sw_burst s" "0 \<le> sw_rate s" "t0 \<le> fl_last f" "fl_last f \<le> t1" "e * sw_burst s \<le> 1"
    using b Some by (simp_all add: budget_ok_def tokens_def refilled_def)
  have e: "0 \<le> e" "0 \<le> e * sw_burst s" using r b by (simp_all add: budget_ok_def f64_rounding_def)
  have "fl_last f \<le> now" if "?el > 0"
    using that as_secs_f64_bound(2) [OF r, of 0] by (cases "fl_last f \<le> now") simp_all
  then have l: "fl_last f \<le> fl_last g" "fl_last g \<le> t1" using bs t by (simp_all add: g_def)
  have g1: "fl_tokens g \<le> fl_tokens f + refill_bound e (sw_rate s) (fl_last g - fl_last f) + e * sw_burst s"
    using refill_tokens(2) [OF r bs(1,2,3), of "now - fl_last f"] e refill_bound_nonneg [OF e(1) bs(3)]
    by (auto simp: g_def min_def)
  then have g2: "fl_tokens g \<le> fl_tokens f + refill_bound e (sw_rate s) (fl_last g - fl_last f) + 2 * (e * sw_burst s)"
    using e(2) by linarith
  have gb: "0 \<le> fl_tokens g" "fl_tokens g \<le> sw_burst s"
    using refill_tokens(1) [OF r bs(1,2,3), of "now - fl_last f"] bs b by (simp_all add: g_def budget_ok_def)
  have a: "allow_flood rnd now p s =
      (if fl_tokens g < 1 then (False, s\<lparr>sw_flood := (sw_flood s)(p \<mapsto> g)\<rparr>)
       else (True, s\<lparr>sw_flood := (sw_flood s)(p \<mapsto> g\<lparr>fl_tokens := rnd (fl_tokens g - 1)\<rparr>)\<rparr>))"
    by (simp add: allow_flood_def Some Let_def g_def)
  show ?thesis
  proof (cases "fl_tokens g < 1")
    case True
    then show ?thesis using a l Some bs(4) gb b by (simp add: paid_def budget_ok_def tokens_def refilled_def g2)
  next
    case False
    note c = consume_token [OF r bs(6) _ gb(2)]
    have "1 + rnd (fl_tokens g - 1) \<le> fl_tokens f + refill_bound e (sw_rate s) (fl_last g - fl_last f) + 2 * (e * sw_burst s)"
      using False c(3) g1 by linarith
    then show ?thesis using False a l Some bs(4) c(1,2) b by (simp add: paid_def budget_ok_def tokens_def refilled_def)
  qed
qed

lemma paid_trans:
  assumes "paid e t0 p n k s s'" "paid e t0 p n' k' s' s''"
  shows "paid e t0 p (n + n') (k + k') s s''"
proof -
  have "refilled t0 p s'' - refilled t0 p s = (refilled t0 p s' - refilled t0 p s) + (refilled t0 p s'' - refilled t0 p s')"
    using assms by (simp add: paid_def)
  then have "refill_bound e (sw_rate s) (refilled t0 p s'' - refilled t0 p s) =
      refill_bound e (sw_rate s) (refilled t0 p s' - refilled t0 p s) + refill_bound e (sw_rate s) (refilled t0 p s'' - refilled t0 p s')"
    by (simp only: refill_bound_add)
  then show ?thesis using assms by (simp add: paid_def distrib_right)
qed

text \<open>What does not touch the budget of the port.\<close>

definition same_budget :: "string \<Rightarrow> vswitch \<Rightarrow> vswitch \<Rightarrow> bool" where
  "same_budget p s s' \<longleftrightarrow>
     sw_flood s' p = sw_flood s p \<and> sw_burst s' = sw_burst s \<and> sw_rate s' = sw_rate s \<and> sw_trusted s' = sw_trusted s"

lemma same_budget_paid:
  assumes "same_budget p s s'" and "0 \<le> e" "budget_ok e t0 t1 p s"
  shows "paid e t0 p 0 1 s s' \<and> budget_ok e t0 t1 p s'"
  using assms by (cases "sw_flood s p") (simp_all add: same_budget_def paid_def budget_ok_def tokens_def refilled_def)

lemma paid_budget_right: "same_budget p s' s'' \<Longrightarrow> paid e t0 p n k s s'' = paid e t0 p n k s s'"
  and ok_budget_right: "same_budget p s' s'' \<Longrightarrow> budget_ok e t0 t1 p s'' = budget_ok e t0 t1 p s'"
  and paid_budget_left: "same_budget p s s' \<Longrightarrow> paid e t0 p n k s' s'' = paid e t0 p n k s s''"
  by (simp_all add: same_budget_def paid_def budget_ok_def tokens_def refilled_def cong: option.case_cong)

lemma flood_paid:
  assumes r: "f64_rounding rnd e" and b: "budget_ok e t0 t1 p s" and t: "t0 \<le> now" "now \<le> t1"
  shows "paid e t0 p (of_bool (list_ex is_flood (fst (flood rnd now p f s)))) 1 s (snd (flood rnd now p f s))
    \<and> budget_ok e t0 t1 p (snd (flood rnd now p f s))"
proof -
  obtain ok s1 where a: "allow_flood rnd now p s = (ok, s1)" by (cases "allow_flood rnd now p s")
  have n: "p \<noteq> sw_trusted s" using b by (simp add: budget_ok_def)
  note i = allow_flood_paid [OF r b t, unfolded a fst_conv snd_conv]
  show ?thesis
  proof (cases ok)
    case True
    then have "flood rnd now p f s = (map (\<lambda>q. Call_Frame (snd q) (as_slice f)) (filter (\<lambda>q. fst q \<noteq> p) (sw_ports s1)), s1)"
      using n by (simp add: flood_def a)
    moreover have "paid e t0 p 0 1 s s1" using i True by (simp add: paid_def)
    ultimately show ?thesis using i True by (cases "list_ex is_flood (map (\<lambda>q. Call_Frame (snd q) (as_slice f)) (filter (\<lambda>q. fst q \<noteq> p) (sw_ports s1)))") simp_all
  next
    case False
    then have f: "flood rnd now p f s = ([], s1\<lparr>sw_flood_drops := sw_flood_drops s1 + 1\<rparr>)" using n by (simp add: flood_def a)
    have "same_budget p s1 (s1\<lparr>sw_flood_drops := sw_flood_drops s1 + 1\<rparr>)" by (simp add: same_budget_def)
    then show ?thesis using i False by (simp add: f paid_budget_right ok_budget_right)
  qed
qed

lemma flood_other: "p \<noteq> q \<Longrightarrow> same_budget p s (snd (flood rnd now q f s))"
  by (simp add: same_budget_def flood_def allow_flood_def Let_def split: option.split)

text \<open>Forwarding either floods or leaves the switch alone.\<close>

lemma forward_cases:
  obtains "forward rnd now q f s = flood rnd now q f s"
    | "snd (forward rnd now q f s) = s" "\<not> list_ex is_flood (fst (forward rnd now q f s))"
  by (cases "if take 6 (as_slice f) ! 0 AND 1 = 0 then sw_macs s (take 6 (as_slice f)) else None")
    (auto simp: forward_def Let_def split: option.splits if_splits)

lemma process_cases:
  obtains s1 where "same_budget p s s1" "process_frame_inner rnd now q r f s = forward rnd now q f s1"
    | s1 where "same_budget p s s1" "process_frame_inner rnd now q r f s = ([], s1)"
proof (cases "length (as_slice f) < 14")
  case True
  then show ?thesis using that(2) [of s] by (simp add: process_frame_inner_def same_budget_def)
next
  case False
  define r' where "r' = (if r = Some zero_mac then None else r)"
  show ?thesis
  proof (cases r')
    case None
    have "same_budget p s (snd (learn_source now q (take 6 (drop 6 (as_slice f))) s))" by (simp add: same_budget_def)
    moreover have "process_frame_inner rnd now q r f s =
        (let (ok, s1) = learn_source now q (take 6 (drop 6 (as_slice f))) s in if ok then forward rnd now q f s1 else ([], s1))"
      using False None unfolding r'_def [symmetric] by (simp add: process_frame_inner_def flip: r'_def)
    ultimately show ?thesis using that by (cases "fst (learn_source now q (take 6 (drop 6 (as_slice f))) s)") (simp_all add: split_beta)
  next
    case (Some m)
    then show ?thesis using that(1) [of s] that(2) [of "spoof_drop s"] False unfolding r'_def
      by (cases "take 6 (drop 6 (as_slice f)) = m") (auto simp: process_frame_inner_def same_budget_def spoof_drop_def split: if_splits)
  qed
qed

text \<open>The instants of an event, and the events that do not give a port a new budget.\<close>

fun event_within :: "nat \<Rightarrow> nat \<Rightarrow> sw_event \<Rightarrow> bool" where
  "event_within t0 t1 (Ev_Frame now q r f) = (t0 \<le> now \<and> now \<le> t1)"
| "event_within t0 t1 _ = True"

lemma sw_step_paid:
  assumes r: "f64_rounding rnd e" and b: "budget_ok e t0 t1 p s" and ev: "event_within t0 t1 ev" "ev \<noteq> Ev_Remove p"
  shows "paid e t0 p (of_bool (from_port p ev \<and> list_ex is_flood (fst (sw_step rnd ev s)))) 1 s (snd (sw_step rnd ev s))
    \<and> budget_ok e t0 t1 p (snd (sw_step rnd ev s))"
proof -
  have e: "0 \<le> e" using r by (simp add: f64_rounding_def)
  show ?thesis
  proof (cases ev)
    case (Ev_Frame now q rm f)
    then have t: "t0 \<le> now" "now \<le> t1" using ev by simp_all
    show ?thesis
    proof (rule process_cases [of p s rnd now q rm f])
      fix s1
      assume s1: "same_budget p s s1" "process_frame_inner rnd now q rm f s = ([], s1)"
      then show ?thesis using same_budget_paid [OF s1(1) e b] Ev_Frame by simp
    next
      fix s1
      assume s1: "same_budget p s s1" "process_frame_inner rnd now q rm f s = forward rnd now q f s1"
      have b1: "budget_ok e t0 t1 p s1" using b ok_budget_right [OF s1(1)] by simp
      show ?thesis
      proof (rule forward_cases [of rnd now q f s1])
        assume f: "forward rnd now q f s1 = flood rnd now q f s1"
        show ?thesis
        proof (cases "q = p")
          case True
          then show ?thesis using flood_paid [OF r b1 t, of f] Ev_Frame s1 f paid_budget_left [OF s1(1)] by simp
        next
          case False
          then show ?thesis using same_budget_paid [OF flood_other [of p q s1 rnd now f] e b1] Ev_Frame s1 f paid_budget_left [OF s1(1)] by simp
        qed
      next
        assume f: "snd (forward rnd now q f s1) = s1" "\<not> list_ex is_flood (fst (forward rnd now q f s1))"
        then show ?thesis using same_budget_paid [OF s1(1) e b] Ev_Frame s1 by simp
      qed
    qed
  next
    case (Ev_Gc now)
    have "same_budget p s (mac_gc now s)" by (simp add: same_budget_def mac_gc_def retain_macs_def)
    then show ?thesis using same_budget_paid [OF _ e b] Ev_Gc by simp
  next
    case (Ev_Add q h)
    have "same_budget p s (add_port q h s)" by (simp add: same_budget_def add_port_def)
    then show ?thesis using same_budget_paid [OF _ e b] Ev_Add by simp
  next
    case (Ev_Pin now q m)
    have "same_budget p s (add_static_mac now q m s)" by (simp add: same_budget_def add_static_mac_def)
    then show ?thesis using same_budget_paid [OF _ e b] Ev_Pin by simp
  next
    case (Ev_Remove q)
    then have "same_budget p s (remove_port q s)" using ev by (simp add: same_budget_def remove_port_def retain_macs_def)
    then show ?thesis using same_budget_paid [OF _ e b] Ev_Remove by simp
  qed
qed

lemma flooded_from_paid:
  assumes r: "f64_rounding rnd e" and b: "budget_ok e t0 t1 p s" and evs: "list_all (event_within t0 t1) evs" "Ev_Remove p \<notin> set evs"
  shows "\<exists>s'. paid e t0 p (flooded_from rnd p evs s) (length evs) s s' \<and> budget_ok e t0 t1 p s'"
  using b evs
proof (induction evs arbitrary: s)
  case Nil
  then show ?case by (auto simp: paid_def)
next
  case (Cons ev evs)
  obtain cs s1 where s1: "sw_step rnd ev s = (cs, s1)" by (cases "sw_step rnd ev s")
  have p1: "paid e t0 p (of_bool (from_port p ev \<and> list_ex is_flood cs)) 1 s s1" "budget_ok e t0 t1 p s1"
    using sw_step_paid [OF r Cons.prems(1), of ev] Cons.prems(2,3) s1 by auto
  obtain s' where i: "paid e t0 p (flooded_from rnd p evs s1) (length evs) s1 s'" "budget_ok e t0 t1 p s'"
    using Cons.IH [OF p1(2)] Cons.prems by auto
  then show ?case using paid_trans [OF p1(1) i(1)] s1 by (auto simp: of_bool_def intro!: exI [of _ s'] split: if_splits)
qed


definition sample_broadcast :: frame_payload where
  "sample_broadcast = Owned (replicate 6 255 @ [2, 0, 0, 0, 0, 1, 8, 0])"


end
