(* ===== verification/Ip_Addr.thy ===== *)
theory Ip_Addr
  imports Utils
begin

text \<open>
  What the sources use of \<open>std::net\<close>: parsing and printing of \<open>Ipv4Addr\<close> and \<open>Ipv6Addr\<close>, with
  the conversions of \<open>utils.rs\<close>. The parser of the standard library reads a number of at most a
  given count of digits and fails as a whole when one more follows.
\<close>

type_synonym u128 = "128 word"

subsection \<open>Numbers\<close>

definition to_digit :: "nat \<Rightarrow> char \<Rightarrow> nat option" where
  "to_digit radix c =
     (let n = (of_char c :: nat);
          d = (if 48 \<le> n \<and> n \<le> 57 then Some (n - 48) else if 97 \<le> n \<and> n \<le> 122 then Some (n - 87)
               else if 65 \<le> n \<and> n \<le> 90 then Some (n - 55) else None)
      in case d of Some v \<Rightarrow> if v < radix then Some v else None | None \<Rightarrow> None)"

fun read_digits :: "nat \<Rightarrow> nat \<Rightarrow> nat \<Rightarrow> nat \<Rightarrow> string \<Rightarrow> (nat \<times> nat \<times> string) option" where
  "read_digits radix mx cnt acc [] = Some (acc, cnt, [])"
| "read_digits radix mx cnt acc (c # cs) =
     (case to_digit radix c of
        None \<Rightarrow> Some (acc, cnt, c # cs)
      | Some d \<Rightarrow> if cnt + 1 > mx then None else read_digits radix mx (cnt + 1) (acc * radix + d) cs)"

definition read_number :: "nat \<Rightarrow> nat \<Rightarrow> bool \<Rightarrow> nat \<Rightarrow> string \<Rightarrow> (nat \<times> string) option" where
  "read_number radix mx zero_prefix lim s =
     (case read_digits radix mx 0 0 s of
        None \<Rightarrow> None
      | Some (v, cnt, rest) \<Rightarrow>
          if cnt = 0 then None
          else if \<not> zero_prefix \<and> take 1 s = ''0'' \<and> cnt > 1 then None
          else if v < lim then Some (v, rest) else None)"

definition read_separator :: "char \<Rightarrow> nat \<Rightarrow> (string \<Rightarrow> ('a \<times> string) option) \<Rightarrow> string \<Rightarrow> ('a \<times> string) option" where
  "read_separator sep i rd s =
     (if i > 0 then (case s of [] \<Rightarrow> None | c # cs \<Rightarrow> if c = sep then rd cs else None) else rd s)"

text \<open>Decimal and lower-case hexadecimal printing, without leading zeros.\<close>

fun show_radix :: "nat \<Rightarrow> nat \<Rightarrow> string" where
  "show_radix radix n = (if radix < 2 \<or> n < radix then [hex_nibble n] else show_radix radix (n div radix) @ [hex_nibble (n mod radix)])"

declare show_radix.simps [simp del]

text \<open>\<open>str::parse::<u32>\<close>: an optional plus sign and digits; too large a value is an error.\<close>

definition parse_u32 :: "string \<Rightarrow> u32 option" where
  "parse_u32 s =
     (let ds = (if s \<noteq> [] \<and> hd s = CHR ''+'' then tl s else s)
      in if ds \<noteq> [] \<and> list_all (\<lambda>c. to_digit 10 c \<noteq> None) ds
         then let v = foldl (\<lambda>a c. a * 10 + the (to_digit 10 c)) 0 ds in if v < 2 ^ 32 then Some (of_nat v) else None
         else None)"

subsection \<open>IPv4\<close>

fun read_octets :: "nat \<Rightarrow> nat \<Rightarrow> string \<Rightarrow> (nat list \<times> string) option" where
  "read_octets 0 i s = Some ([], s)"
| "read_octets (Suc k) i s =
     (case read_separator CHR ''.'' i (read_number 10 3 False 256) s of
        None \<Rightarrow> None
      | Some (v, rest) \<Rightarrow> (case read_octets k (i + 1) rest of None \<Rightarrow> None | Some (vs, r) \<Rightarrow> Some (v # vs, r)))"

definition read_ipv4 :: "string \<Rightarrow> (nat list \<times> string) option" where
  "read_ipv4 s = read_octets 4 0 s"

definition ipv4_from_str :: "string \<Rightarrow> u32 option" where
  "ipv4_from_str s =
     (if length s > 15 then None
      else case read_ipv4 s of
        Some (os, []) \<Rightarrow> Some (rd32 (map of_nat os))
      | _ \<Rightarrow> None)"

fun join_char :: "char \<Rightarrow> string list \<Rightarrow> string" where
  "join_char c [] = []"
| "join_char c [p] = p"
| "join_char c (p # q # ps) = p @ c # join_char c (q # ps)"

definition ipv4_to_string :: "u32 \<Rightarrow> string" where
  "ipv4_to_string ip = join_char CHR ''.'' (map (\<lambda>b. show_radix 10 (unat b)) (be32 ip))"

definition ip4_to_u32 :: "string \<Rightarrow> u32" where
  "ip4_to_u32 ip = (case ipv4_from_str ip of Some v \<Rightarrow> v | None \<Rightarrow> rd32 [10, 0, 0, 1])"

definition u32_to_ip4 :: "u32 \<Rightarrow> string" where
  "u32_to_ip4 val = ipv4_to_string val"

subsection \<open>IPv6\<close>

fun read_groups :: "nat \<Rightarrow> nat \<Rightarrow> string \<Rightarrow> nat list \<times> bool \<times> string" where
  "read_groups 0 i s = ([], False, s)"
| "read_groups (Suc k) i s =
     (case (if k \<ge> 1 then read_separator CHR '':'' i read_ipv4 s else None) of
        Some (os, rest) \<Rightarrow> ([os ! 0 * 256 + os ! 1, os ! 2 * 256 + os ! 3], True, rest)
      | None \<Rightarrow>
          (case read_separator CHR '':'' i (read_number 16 4 True 65536) s of
             None \<Rightarrow> ([], False, s)
           | Some (g, rest) \<Rightarrow> let (gs, v4, r) = read_groups k (i + 1) rest in (g # gs, v4, r)))"

definition read_ipv6 :: "string \<Rightarrow> (nat list \<times> string) option" where
  "read_ipv6 s =
     (let (head, v4, r) = read_groups 8 0 s
      in if length head = 8 then Some (head, r)
         else if v4 then None
         else if take 2 r \<noteq> ''::'' then None
         else let (tail, _, r2) = read_groups (8 - (length head + 1)) 0 (drop 2 r)
              in Some (head @ replicate (8 - length head - length tail) 0 @ tail, r2))"

definition from_segments :: "nat list \<Rightarrow> u128" where
  "from_segments gs = of_nat (foldl (\<lambda>a g. a * 65536 + g) 0 gs)"

definition segments :: "u128 \<Rightarrow> nat list" where
  "segments ip = map (\<lambda>i. unat ip div 65536 ^ (7 - i) mod 65536) [0..<8]"

definition ipv6_from_str :: "string \<Rightarrow> u128 option" where
  "ipv6_from_str s = (case read_ipv6 s of Some (gs, []) \<Rightarrow> Some (from_segments gs) | _ \<Rightarrow> None)"

text \<open>The longest run of zero segments, the first of them when there are several.\<close>

fun zero_span :: "nat \<Rightarrow> nat \<times> nat \<Rightarrow> nat \<times> nat \<Rightarrow> nat list \<Rightarrow> nat \<times> nat" where
  "zero_span i longest current [] = longest"
| "zero_span i longest current (g # gs) =
     (if g = 0
      then let c = (if snd current = 0 then i else fst current, snd current + 1)
           in zero_span (i + 1) (if snd c > snd longest then c else longest) c gs
      else zero_span (i + 1) longest (0, 0) gs)"

definition fmt_segments :: "nat list \<Rightarrow> string" where
  "fmt_segments gs = join_char CHR '':'' (map (show_radix 16) gs)"

definition ipv6_to_string :: "u128 \<Rightarrow> string" where
  "ipv6_to_string ip =
     (let gs = segments ip
      in if take 6 gs = [0, 0, 0, 0, 0, 65535]
         then ''::ffff:'' @ ipv4_to_string (of_nat (gs ! 6 * 65536 + gs ! 7))
         else let (start, len) = zero_span 0 (0, 0) (0, 0) gs
              in if len > 1 then fmt_segments (take start gs) @ ''::'' @ fmt_segments (drop (start + len) gs)
                 else fmt_segments gs)"

definition ip6_to_u128 :: "string \<Rightarrow> u128" where
  "ip6_to_u128 ip = (case ipv6_from_str ip of Some v \<Rightarrow> v | None \<Rightarrow> from_segments [0xfd00, 0, 0, 0, 0, 0, 0, 1])"

definition u128_to_ip6 :: "u128 \<Rightarrow> string" where
  "u128_to_ip6 val = ipv6_to_string val"

end
