(* ===== verification/Ip_Pool.thy ===== *)
theory Ip_Pool
  imports Ip_Addr
begin

text \<open>
  The address pool of the server (\<open>IpPool\<close> of \<open>server.rs\<close>): the sets of used addresses are sets
  of their printed forms, as in the code; an allocation takes the requested address when it is free
  and in the network, else the first free one of a scan.
\<close>

subsection \<open>Networks\<close>

text \<open>The parts of \<open>splitn(2, '/')\<close>.\<close>

definition before_slash :: "string \<Rightarrow> string" where
  "before_slash s = takeWhile (\<lambda>c. c \<noteq> CHR ''/'') s"

definition after_slash :: "string \<Rightarrow> string option" where
  "after_slash s = (case dropWhile (\<lambda>c. c \<noteq> CHR ''/'') s of [] \<Rightarrow> None | _ # cs \<Rightarrow> Some cs)"

definition prefix_bits :: "nat \<Rightarrow> string \<Rightarrow> nat" where
  "prefix_bits dflt cidr =
     (case after_slash cidr of
        None \<Rightarrow> dflt
      | Some b \<Rightarrow> (case parse_u32 b of Some w \<Rightarrow> unat w | None \<Rightarrow> dflt))"

definition parse_v4_cidr :: "string \<Rightarrow> u32 \<times> nat" where
  "parse_v4_cidr cidr =
     (let bits = prefix_bits 24 cidr;
          mask = (if bits = 0 then 0 else push_bit (32 - min bits 32) (- 1))
      in (ip4_to_u32 (before_slash cidr) AND mask, min bits 32))"

definition parse_v6_cidr :: "string \<Rightarrow> u128 \<times> nat" where
  "parse_v6_cidr cidr =
     (let bits = prefix_bits 64 cidr;
          mask = (if bits = 0 then 0 else if bits \<ge> 128 then - 1 else push_bit (128 - bits) (- 1))
      in (ip6_to_u128 (before_slash cidr) AND mask, min bits 128))"

subsection \<open>State\<close>

record ip_pool =
  used_v4 :: "string set"
  used_v6 :: "string set"
  v4_base :: u32
  v4_mask_bits :: nat
  v6_base :: u128
  v6_mask_bits :: nat
  mac_to_ip :: "string \<Rightarrow> (string \<times> string) option"

definition ip_pool_new :: "string \<Rightarrow> string \<Rightarrow> ip_pool \<times> string \<times> string" where
  "ip_pool_new v4cidr v6cidr =
     (let (b4, m4) = parse_v4_cidr v4cidr; (b6, m6) = parse_v6_cidr v6cidr;
          gw_v4 = u32_to_ip4 (b4 + 1); gw_v6 = u128_to_ip6 (b6 + 1)
      in (\<lparr>used_v4 = {gw_v4}, used_v6 = {gw_v6}, v4_base = b4, v4_mask_bits = m4, v6_base = b6, v6_mask_bits = m6,
           mac_to_ip = (\<lambda>_. None)\<rparr>, gw_v4, gw_v6))"

definition v4_broadcast :: "ip_pool \<Rightarrow> u32" where
  "v4_broadcast p =
     (let host_bits = 32 - v4_mask_bits p in if host_bits \<ge> 32 then - 1 else v4_base p OR (push_bit host_bits 1 - 1))"

definition v6_broadcast :: "ip_pool \<Rightarrow> u128" where
  "v6_broadcast p =
     (let host_bits = 128 - v6_mask_bits p in if host_bits \<ge> 128 then - 1 else v6_base p OR (push_bit host_bits 1 - 1))"

subsection \<open>Allocation\<close>

lemma unat_next: "cur < b \<Longrightarrow> unat (cur + 1) = unat cur + 1" for cur b :: "'a::len word"
proof -
  assume "cur < b"
  moreover have "unat b < 2 ^ LENGTH('a)" by (rule unsigned_less)
  ultimately have "Suc (unat cur) < 2 ^ LENGTH('a)" unfolding word_less_nat_alt by linarith
  then show ?thesis by (simp add: unat_word_ariths)
qed

text \<open>The loop of \<open>alloc_v4\<close> and \<open>alloc_v6\<close>, over the width of the address.\<close>

function scan_ip :: "('a::len word \<Rightarrow> string) \<Rightarrow> string set \<Rightarrow> 'a word \<Rightarrow> 'a word \<Rightarrow> string" where
  "scan_ip pr used broadcast cur =
     (if cur < broadcast
      then if cur AND 255 \<noteq> 0 \<and> cur AND 255 \<noteq> 255 \<and> pr cur \<notin> used then pr cur
           else scan_ip pr used broadcast (cur + 1)
      else [])"
  by pat_completeness auto
termination
  by (relation "measure (\<lambda>(pr, used, b, cur). unat b - unat cur)") (auto simp: unat_next word_less_nat_alt)

declare scan_ip.simps [simp del]

definition alloc_v4 :: "string \<Rightarrow> ip_pool \<Rightarrow> string \<times> ip_pool" where
  "alloc_v4 req p =
     (let host_bits = 32 - v4_mask_bits p;
          taken = (case ipv4_from_str (before_slash req) of
                     None \<Rightarrow> None
                   | Some val \<Rightarrow>
                       if (host_bits \<ge> 32 \<or> drop_bit host_bits val = drop_bit host_bits (v4_base p)) \<and> ipv4_to_string val \<notin> used_v4 p
                       then Some (ipv4_to_string val) else None);
          s = (case taken of Some s \<Rightarrow> s | None \<Rightarrow> scan_ip u32_to_ip4 (used_v4 p) (v4_broadcast p) (v4_base p + 1))
      in (s, if s = [] then p else p\<lparr>used_v4 := insert s (used_v4 p)\<rparr>))"

definition alloc_v6 :: "string \<Rightarrow> ip_pool \<Rightarrow> string \<times> ip_pool" where
  "alloc_v6 req p =
     (let host_bits = 128 - v6_mask_bits p;
          taken = (case ipv6_from_str (before_slash req) of
                     None \<Rightarrow> None
                   | Some val \<Rightarrow>
                       if (host_bits \<ge> 128 \<or> drop_bit host_bits val = drop_bit host_bits (v6_base p)) \<and> ipv6_to_string val \<notin> used_v6 p
                       then Some (ipv6_to_string val) else None);
          s = (case taken of Some s \<Rightarrow> s | None \<Rightarrow> scan_ip u128_to_ip6 (used_v6 p) (v6_broadcast p) (v6_base p + 1))
      in (s, if s = [] then p else p\<lparr>used_v6 := insert s (used_v6 p)\<rparr>))"

definition pool_release :: "string \<Rightarrow> string \<Rightarrow> string \<Rightarrow> ip_pool \<Rightarrow> ip_pool" where
  "pool_release m v4 v6 p =
     (let p1 = p\<lparr>used_v4 := used_v4 p - {v4}, used_v6 := used_v6 p - {v6}\<rparr>
      in if (case mac_to_ip p m of Some b \<Rightarrow> fst b = v4 | None \<Rightarrow> False) then p1\<lparr>mac_to_ip := (mac_to_ip p1)(m := None)\<rparr> else p1)"

definition pool_status :: "ip_pool \<Rightarrow> nat \<times> nat \<times> nat" where
  "pool_status p =
     (let host_bits = 32 - v4_mask_bits p;
          c = 2 ^ host_bits :: nat;
          total = (if host_bits \<ge> 16 then 2 ^ 16 else if c > 2 then c - 2 else c)
      in (card (used_v4 p), total, card (used_v6 p)))"

subsection \<open>Lemmas\<close>

lemma show_radix_nonempty [simp]: "show_radix r n \<noteq> []"
  by (subst show_radix.simps) simp

lemma join_char_nonempty: "p \<noteq> [] \<Longrightarrow> join_char c (p # ps) \<noteq> []"
  by (cases ps) simp_all

lemma ipv4_to_string_nonempty [simp]: "ipv4_to_string ip \<noteq> []"
proof -
  obtain b bs where "be32 ip = b # bs" using length_be32 [of ip] by (cases "be32 ip") auto
  then show ?thesis by (simp add: ipv4_to_string_def join_char_nonempty)
qed

lemma ipv6_to_string_nonempty [simp]: "ipv6_to_string ip \<noteq> []"
proof -
  obtain g gs where "segments ip = g # gs" by (cases "segments ip") (simp_all add: segments_def)
  then show ?thesis by (simp add: ipv6_to_string_def fmt_segments_def join_char_nonempty Let_def split: prod.split)
qed

text \<open>The scan returns a free address of the range, and no address only when all of them are used.\<close>

definition host_part :: "'a::len word \<Rightarrow> bool" where
  "host_part a \<longleftrightarrow> a AND 255 \<noteq> 0 \<and> a AND 255 \<noteq> 255"

lemma scan_ip_cases:
  assumes "\<And>a. pr a \<noteq> []"
  shows "(\<exists>a. scan_ip pr used b cur = pr a \<and> cur \<le> a \<and> a < b \<and> host_part a \<and> pr a \<notin> used)
    \<or> scan_ip pr used b cur = [] \<and> (\<forall>a. cur \<le> a \<longrightarrow> a < b \<longrightarrow> host_part a \<longrightarrow> pr a \<in> used)"
proof (induction pr used b cur rule: scan_ip.induct)
  case (1 pr used b cur)
  show ?case
  proof (cases "cur < b \<and> \<not> (host_part cur \<and> pr cur \<notin> used)")
    case True
    then have e: "scan_ip pr used b cur = scan_ip pr used b (cur + 1)" by (subst scan_ip.simps) (auto simp: host_part_def)
    have le: "cur \<le> a \<longleftrightarrow> cur = a \<or> cur + 1 \<le> a" for a
      using True unat_next [of cur b] by (auto simp: word_le_nat_alt word_unat_eq_iff)
    show ?thesis using "1.IH" True unfolding e host_part_def [symmetric] le by (auto simp: host_part_def)
  next
    case False
    then show ?thesis by (subst (1 2) scan_ip.simps) (auto simp: host_part_def)
  qed
qed

lemma alloc_v4_cases:
  obtains "alloc_v4 req p = ([], p)" "\<forall>a. v4_base p + 1 \<le> a \<longrightarrow> a < v4_broadcast p \<longrightarrow> host_part a \<longrightarrow> u32_to_ip4 a \<in> used_v4 p"
    | s where "alloc_v4 req p = (s, p\<lparr>used_v4 := insert s (used_v4 p)\<rparr>)" "s \<noteq> []" "s \<notin> used_v4 p"
  using scan_ip_cases [of u32_to_ip4 "used_v4 p" "v4_broadcast p" "v4_base p + 1"]
  by (fastforce simp: alloc_v4_def Let_def u32_to_ip4_def split: option.splits if_splits)

lemma alloc_v6_cases:
  obtains "alloc_v6 req p = ([], p)" "\<forall>a. v6_base p + 1 \<le> a \<longrightarrow> a < v6_broadcast p \<longrightarrow> host_part a \<longrightarrow> u128_to_ip6 a \<in> used_v6 p"
    | s where "alloc_v6 req p = (s, p\<lparr>used_v6 := insert s (used_v6 p)\<rparr>)" "s \<noteq> []" "s \<notin> used_v6 p"
  using scan_ip_cases [of u128_to_ip6 "used_v6 p" "v6_broadcast p" "v6_base p + 1"]
  by (fastforce simp: alloc_v6_def Let_def u128_to_ip6_def split: option.splits if_splits)

end
