(* ===== verification/Server_Session.thy ===== *)
theory Server_Session
  imports Session_Rx Session_Tick Vswitch Ip_Pool
begin

text \<open>
  The server's shared state and the life of a client session (\<open>server.rs\<close>, the ban list of
  \<open>api.rs\<close>, the peer information of \<open>peer_info.rs\<close>): the resume tokens of a session, the rotation
  of its key epoch, the retention after its last connection, and its destruction. An \<open>Arc\<close> of a
  session is a number, which is also the number of its port object in the switch.
\<close>

subsection \<open>Maps with unspecified iteration order\<close>

definition assoc_put :: "'k \<Rightarrow> 'v \<Rightarrow> ('k \<times> 'v) list \<Rightarrow> ('k \<times> 'v) list" where
  "assoc_put k v xs = (k, v) # filter (\<lambda>p. fst p \<noteq> k) xs"

definition assoc_del :: "'k \<Rightarrow> ('k \<times> 'v) list \<Rightarrow> ('k \<times> 'v) list" where
  "assoc_del k xs = filter (\<lambda>p. fst p \<noteq> k) xs"

subsection \<open>Peer information\<close>

record peer_info =
  pi_implementation :: string
  pi_hostname :: string
  pi_os :: string
  pi_os_version :: string
  pi_kernel :: string
  pi_arch :: string
  pi_version :: string
  pi_git_commit :: string
  pi_build_time :: string

definition PEER_INFO_FIELD_MAX :: nat where
  "PEER_INFO_FIELD_MAX = 256"

text \<open>\<open>str::is_char_boundary\<close> on the UTF-8 bytes of a string.\<close>

definition is_char_boundary :: "string \<Rightarrow> nat \<Rightarrow> bool" where
  "is_char_boundary s i \<longleftrightarrow>
     i = 0 \<or> i = length s \<or> i < length s \<and> \<not> (128 \<le> (of_char (s ! i) :: nat) \<and> (of_char (s ! i) :: nat) < 192)"

fun char_floor :: "string \<Rightarrow> nat \<Rightarrow> nat" where
  "char_floor s 0 = 0"
| "char_floor s (Suc n) = (if is_char_boundary s (Suc n) then Suc n else char_floor s n)"

definition trim_field :: "string \<Rightarrow> string" where
  "trim_field value =
     (let trimmed = str_trim value
      in if length trimmed \<le> PEER_INFO_FIELD_MAX then trimmed else take (char_floor trimmed PEER_INFO_FIELD_MAX) trimmed)"

definition normalize_peer_info :: "peer_info \<Rightarrow> peer_info" where
  "normalize_peer_info i =
     \<lparr>pi_implementation = trim_field (pi_implementation i), pi_hostname = trim_field (pi_hostname i), pi_os = trim_field (pi_os i),
      pi_os_version = trim_field (pi_os_version i), pi_kernel = trim_field (pi_kernel i), pi_arch = trim_field (pi_arch i),
      pi_version = trim_field (pi_version i), pi_git_commit = trim_field (pi_git_commit i),
      pi_build_time = trim_field (pi_build_time i)\<rparr>"

subsection \<open>Bans\<close>

text \<open>Client id to the end of the ban in unix milliseconds, 0 for ever.\<close>

definition ban :: "int \<Rightarrow> string \<Rightarrow> int \<Rightarrow> (string \<Rightarrow> int option) \<Rightarrow> bool \<times> (string \<Rightarrow> int option)" where
  "ban now_ms client_id ttl_minutes m =
     (if client_id = [] then (False, m)
      else (True, m(client_id \<mapsto> (if ttl_minutes \<le> 0 then 0 else now_ms + ttl_minutes * 60 * 1000))))"

definition unban :: "string \<Rightarrow> (string \<Rightarrow> int option) \<Rightarrow> (string \<Rightarrow> int option)" where
  "unban client_id m = m(client_id := None)"

definition is_banned :: "int \<Rightarrow> string \<Rightarrow> (string \<Rightarrow> int option) \<Rightarrow> bool \<times> (string \<Rightarrow> int option)" where
  "is_banned now_ms client_id m =
     (if client_id = [] then (False, m)
      else case m client_id of
        None \<Rightarrow> (False, m)
      | Some e \<Rightarrow> if e > 0 \<and> now_ms \<ge> e then (False, m(client_id := None)) else (True, m))"

subsection \<open>Sessions\<close>

record session_epoch_state =
  ep_instance_id :: string
  ep_resume_token :: string
  ep_pending_token :: string
  ep_enc_algo :: int
  ep_salt_a :: bytes
  ep_salt_b :: bytes
  ep_ic_tx :: "inner_cipher option"
  ep_ic_rx :: "inner_cipher option"

text \<open>
  \<open>ClientSession\<close> with its \<open>ClientStat\<close>. The epoch number and the shared decoder are fields of
  the receive state \<open>cs_rx\<close>, as is the number of active connections.
\<close>

record 'c client_session =
  cs_arc :: nat
  cs_session_id :: string
  cs_client_id :: string
  cs_port :: "'c async_port"
  cs_rx :: client_rx
  cs_fec_enc_k :: int
  cs_mac :: string
  cs_peer_info :: "peer_info option"
  cs_mac_bin :: mac
  cs_ipv4 :: string
  cs_ipv6 :: string
  cs_epoch :: session_epoch_state
  cs_deadline :: "(nat \<times> u64) option"
  cs_disconnect_version :: u64
  cs_fec_recovered :: u64
  cs_fec_lost :: u64
  cs_fec_mode :: string
  cs_brutal_tx :: u64
  cs_brutal_rx :: u64
  cs_brutal_applied :: u64
  cs_brutal_error :: string

record 'c server_core =
  co_psk :: string
  co_psk_hash :: string
  co_encrypt :: bool
  co_enc_algo :: int
  co_brutal :: bool
  co_brutal_up :: u64
  co_brutal_down :: u64
  co_switch :: vswitch
  co_sessions :: "(string \<times> 'c client_session) list"
  co_recovered_retired :: u64
  co_lost_retired :: u64
  co_pool :: ip_pool
  co_banned :: "string \<Rightarrow> int option"
  co_registry :: "string set"
  co_gw_v4 :: string
  co_gw_v6 :: string
  co_min_enc :: int
  co_max_sessions :: int
  co_fec_group_min :: int
  co_fec_group_max :: int
  co_last_reap_ms :: u64

definition normalize_max_sessions :: "int \<Rightarrow> int" where
  "normalize_max_sessions n = (if n = 0 then 1024 else n)"

definition src_mac_allowed :: "mac option \<Rightarrow> mac \<Rightarrow> bool" where
  "src_mac_allowed registered m = (case registered of Some r \<Rightarrow> if r \<noteq> zero_mac then r = m else True | None \<Rightarrow> True)"

text \<open>The ownership callback of the switch: it reads the current sessions.\<close>

definition core_validate :: "'c server_core \<Rightarrow> string \<Rightarrow> mac \<Rightarrow> bool" where
  "core_validate core src_port_id m = src_mac_allowed (map_option cs_mac_bin (map_of (co_sessions core) src_port_id)) m"

subsection \<open>Resume tokens\<close>

definition valid_session_token_format :: "crypto_lib \<Rightarrow> string \<Rightarrow> bool" where
  "valid_session_token_format L token \<longleftrightarrow>
     length token = 64 \<and> (case lib_hex_decode L token of Some raw \<Rightarrow> length raw = 32 | None \<Rightarrow> False)"

definition accept_session_resume_token :: "session_epoch_state \<Rightarrow> string \<Rightarrow> bool \<times> session_epoch_state" where
  "accept_session_resume_token e presented =
     (if verify_random_session_token (ep_resume_token e) presented then (True, e)
      else if ep_pending_token e \<noteq> [] \<and> verify_random_session_token (ep_pending_token e) presented
      then (True, e\<lparr>ep_resume_token := ep_pending_token e, ep_pending_token := []\<rparr>)
      else (False, e))"

definition ensure_pending_resume_token :: "crypto_lib \<Rightarrow> bytes option \<Rightarrow> session_epoch_state \<Rightarrow> session_epoch_state option" where
  "ensure_pending_resume_token L entropy e =
     (if ep_pending_token e = []
      then map_option (\<lambda>t. e\<lparr>ep_pending_token := t\<rparr>) (new_session_token L entropy)
      else Some e)"

definition response_resume_token :: "session_epoch_state \<Rightarrow> string" where
  "response_resume_token e = (if ep_pending_token e = [] then ep_resume_token e else ep_pending_token e)"

text \<open>A connection of the same process instance that presents the pending token promotes it.\<close>

definition promote_pending :: "string \<Rightarrow> session_epoch_state \<Rightarrow> session_epoch_state" where
  "promote_pending presented e =
     (if ep_pending_token e \<noteq> [] \<and> verify_random_session_token (ep_pending_token e) presented
      then e\<lparr>ep_resume_token := ep_pending_token e, ep_pending_token := []\<rparr> else e)"

subsection \<open>Key epochs\<close>

text \<open>The four ciphers of an epoch: data and FEC, sending and receiving.\<close>

definition epoch_ciphers ::
  "crypto_lib \<Rightarrow> string \<Rightarrow> bool \<Rightarrow> int \<Rightarrow> bytes \<Rightarrow> bytes
     \<Rightarrow> cipher_error + (inner_cipher option \<times> inner_cipher option \<times> inner_cipher option \<times> inner_cipher option)" where
  "epoch_ciphers L psk encrypt algo salt_a salt_b =
     (if \<not> encrypt then Inr (None, None, None, None)
      else case for_algo L psk salt_b algo of
        Inl e \<Rightarrow> Inl e
      | Inr tx \<Rightarrow> (case for_algo L psk salt_a algo of
          Inl e \<Rightarrow> Inl e
        | Inr rx \<Rightarrow> (case domain_for_algo L psk salt_b ''fec'' algo of
            Inl e \<Rightarrow> Inl e
          | Inr ftx \<Rightarrow> (case domain_for_algo L psk salt_a ''fec'' algo of
              Inl e \<Rightarrow> Inl e
            | Inr frx \<Rightarrow> Inr (Some tx, Some rx, Some ftx, Some frx)))))"

text \<open>The receive state of a session that starts a new epoch.\<close>

definition rotate_rx :: "int \<Rightarrow> inner_cipher option \<Rightarrow> client_rx \<Rightarrow> client_rx" where
  "rotate_rx k fec_rx c =
     (case cx_actor c of
        Some a \<Rightarrow>
          c\<lparr>cx_actor := Some (rx_reconfigure a (if k > 0 then Some (decoder_new (nat k) fec_rx) else None)),
            cx_fec := None, cx_progress := False, cx_epoch := saturating_add (cx_epoch c) 1, cx_active_conns := 0\<rparr>
      | None \<Rightarrow>
          c\<lparr>cx_reorder := reorder_reset (cx_reorder c), cx_dedup := dedup_reset (cx_dedup c),
            cx_fec := (if k > 0 then Some (decoder_new (nat k) fec_rx) else None), cx_progress := False,
            cx_epoch := saturating_add (cx_epoch c) 1, cx_active_conns := 0\<rparr>)"

definition rotate_session_epoch ::
  "crypto_lib \<Rightarrow> string \<Rightarrow> bool \<Rightarrow> string \<Rightarrow> bytes \<Rightarrow> bytes \<Rightarrow> 'c client_session \<Rightarrow> cipher_error + 'c client_session" where
  "rotate_session_epoch L psk encrypt instance_id salt_a salt_b s =
     (case epoch_ciphers L psk encrypt (ep_enc_algo (cs_epoch s)) salt_a salt_b of
        Inl e \<Rightarrow> Inl e
      | Inr (ic_tx, ic_rx, fec_tx, fec_rx) \<Rightarrow>
          let k = cs_fec_enc_k s;
              (r, l) = (case (cx_actor (cs_rx s), cx_fec (cs_rx s)) of
                          (None, Some old) \<Rightarrow> (fd_recovered old, fd_lost old) | _ \<Rightarrow> (0, 0))
          in Inr (s\<lparr>cs_rx := rotate_rx k fec_rx (cs_rx s),
                   cs_fec_recovered := cs_fec_recovered s + r, cs_fec_lost := cs_fec_lost s + l,
                   cs_port := (if k > 0 then reset_epoch (nat k) fec_tx (cs_port s) else reset_epoch 0 None (cs_port s)),
                   cs_epoch := (cs_epoch s)\<lparr>ep_instance_id := instance_id, ep_salt_a := salt_a, ep_salt_b := salt_b,
                                            ep_ic_tx := ic_tx, ep_ic_rx := ic_rx\<rparr>\<rparr>))"

text \<open>The timer scan on exhausted sequence numbers, on the session.\<close>

definition session_exhausted :: "string \<Rightarrow> 'c client_session \<Rightarrow> 'c client_session" where
  "session_exhausted fresh s =
     (let t = tick_exhausted fresh
           \<lparr>tk_exhausted = ap_sequence_exhausted (cs_port s), tk_epoch = cx_epoch (cs_rx s), tk_instance_id = ep_instance_id (cs_epoch s),
            tk_ic_tx = ep_ic_tx (cs_epoch s), tk_active_conns = cx_active_conns (cs_rx s), tk_force_disconnect = False\<rparr>
      in if ap_sequence_exhausted (cs_port s)
         then s\<lparr>cs_rx := (cs_rx s)\<lparr>cx_epoch := tk_epoch t, cx_active_conns := tk_active_conns t\<rparr>,
                cs_epoch := (cs_epoch s)\<lparr>ep_instance_id := tk_instance_id t\<rparr>\<rparr>
         else s)"

subsection \<open>Retention and destruction\<close>

definition rx_runtime_snapshot :: "'c client_session \<Rightarrow> u64 \<times> u64" where
  "rx_runtime_snapshot s =
     (case cx_actor (cs_rx s) of
        Some a \<Rightarrow> (saturating_add (cs_fec_recovered s) (sn_recovered (rx_snapshot a)), saturating_add (cs_fec_lost s) (sn_lost (rx_snapshot a)))
      | None \<Rightarrow>
          let (r, l) = (case cx_fec (cs_rx s) of Some d \<Rightarrow> (fd_recovered d, fd_lost d) | None \<Rightarrow> (0, 0))
          in (saturating_add (cs_fec_recovered s) r, saturating_add (cs_fec_lost s) l))"

definition destroy_session :: "'c client_session \<Rightarrow> 'c server_core \<Rightarrow> 'c server_core" where
  "destroy_session s core =
     (let cid = cs_client_id s
      in case map_of (co_sessions core) cid of
           None \<Rightarrow> core
         | Some current \<Rightarrow>
             if cs_arc current \<noteq> cs_arc s then core
             else let (recovered, lost) = rx_runtime_snapshot current
                  in core\<lparr>co_recovered_retired := co_recovered_retired core + recovered, co_lost_retired := co_lost_retired core + lost,
                          co_sessions := assoc_del cid (co_sessions core), co_switch := remove_port cid (co_switch core),
                          co_registry := co_registry core - {cid},
                          co_pool := pool_release (cs_mac current) (cs_ipv4 current) (cs_ipv6 current) (co_pool core)\<rparr>)"

text \<open>The session part of \<open>on_conn_closed\<close>; the version is the counter after its increment.\<close>

definition session_conn_closed :: "nat \<Rightarrow> nat \<Rightarrow> u64 \<Rightarrow> bool \<Rightarrow> 'c client_session \<Rightarrow> 'c client_session" where
  "session_conn_closed now ch connection_epoch brutal_applied s =
     (let s1 = s\<lparr>cs_port := unregister_backend ch (cs_port s),
                 cs_brutal_applied := (if brutal_applied then saturating_sub (cs_brutal_applied s) 1 else cs_brutal_applied s)\<rparr>
      in if cx_epoch (cs_rx s1) \<noteq> connection_epoch then s1
         else let n = cx_active_conns (cs_rx s1);
                  s2 = s1\<lparr>cs_rx := (cs_rx s1)\<lparr>cx_active_conns := n - 1\<rparr>\<rparr>
              in if n \<le> 1
                 then let v = cs_disconnect_version s2 + 1
                      in s2\<lparr>cs_disconnect_version := v, cs_deadline := Some (now + 120 * 10 ^ 9, v)\<rparr>
                 else s2)"

definition session_expired :: "nat \<Rightarrow> 'c client_session \<Rightarrow> bool" where
  "session_expired now s \<longleftrightarrow>
     cx_active_conns (cs_rx s) = 0
     \<and> (case cs_deadline s of Some (deadline, v) \<Rightarrow> v = cs_disconnect_version s \<and> now \<ge> deadline | None \<Rightarrow> False)"

definition reap_sessions :: "nat \<Rightarrow> u64 \<Rightarrow> 'c server_core \<Rightarrow> 'c server_core" where
  "reap_sessions now now_ms core =
     (if saturating_sub now_ms (co_last_reap_ms core) \<ge> 1000
      then fold (\<lambda>s. destroy_session s) (filter (session_expired now) (map snd (co_sessions core))) (core\<lparr>co_last_reap_ms := now_ms\<rparr>)
      else core)"

end
