(* ===== verification/Server_Handshake.thy ===== *)
theory Server_Handshake
  imports Server_Session
begin

text \<open>
  The application handshake of the server (\<open>handle_handshake\<close> of \<open>server.rs\<close>) with its messages
  (\<open>api.rs\<close>): admission, joining or creating a session, the rate negotiation, the response.
  JSON, UUIDs, the TLS engine, the socket option and the randomness of the system are arguments.
  A panic is \<open>None\<close>.
\<close>

subsection \<open>Messages\<close>

record handshake_req =
  hq_protocol_version :: int
  hq_client_instance :: string
  hq_conn_id :: string
  hq_client_id :: string
  hq_psk :: string
  hq_mac :: string
  hq_ipv4 :: string
  hq_ipv6 :: string
  hq_padding :: string
  hq_brutal_groups :: bool
  hq_brutal_total_tx :: u64
  hq_brutal_total_rx :: u64
  hq_brutal_conns :: int
  hq_brutal_conn_index :: int
  hq_fec :: bool
  hq_fec_group :: int
  hq_encrypt :: bool
  hq_enc_algo :: int
  hq_session_token :: string
  hq_peer_info :: "peer_info option"

record tls_handshake_info =
  ti_fingerprint_kind :: string
  ti_fingerprint_sha256 :: string
  ti_version_id :: u16
  ti_version :: string
  ti_cipher_suite_id :: u16
  ti_cipher_suite :: string
  ti_alpn :: string
  ti_sni :: string
  ti_offered_cipher_suites :: "u16 list"
  ti_offered_signature_schemes :: "u16 list"
  ti_offered_groups :: "u16 list"
  ti_offered_alpn :: "string list"

record handshake_resp =
  hp_protocol_version :: int
  hp_session_epoch :: u64
  hp_success :: bool
  hp_message :: string
  hp_session_id :: string
  hp_client_id :: string
  hp_ipv4 :: string
  hp_ipv6 :: string
  hp_gw_v4 :: string
  hp_gw_v6 :: string
  hp_padding :: string
  hp_brutal_groups :: bool
  hp_brutal_total_tx :: u64
  hp_brutal_total_rx :: u64
  hp_fec :: bool
  hp_fec_group :: int
  hp_encrypt :: bool
  hp_enc_algo :: int
  hp_enc_salt :: string
  hp_enc_salt2 :: string
  hp_session_token :: string
  hp_tls :: "tls_handshake_info option"
  hp_peer_info :: "peer_info option"

definition PROTOCOL_VERSION :: int where
  "PROTOCOL_VERSION = 3"

subsection \<open>Libraries and inputs\<close>

text \<open>
  \<open>serde_json\<close> on the two messages, \<open>Uuid::parse_str\<close> with its printed form, and the name-based
  UUID in the namespace of the program.
\<close>

record hs_lib =
  hl_parse_req :: "bytes \<Rightarrow> handshake_req option"
  hl_show_resp :: "handshake_resp \<Rightarrow> bytes"
  hl_uuid_parse :: "string \<Rightarrow> string option"
  hl_uuid_v5 :: "bytes \<Rightarrow> string"

text \<open>
  What one handshake takes from its surroundings: the clocks, the generator of the thread (when a
  session id is drawn and when the response is built), system randomness, the number of a new \<open>Arc\<close>, what TLS observed, this host, and what the socket option
  answers.
\<close>

record hs_input =
  hi_now :: nat
  hi_now_us :: u64
  hi_now_ms :: int
  hi_rng :: u64
  hi_rng_resp :: u64
  hi_salt_a :: bytes
  hi_salt_b :: bytes
  hi_token :: "bytes option"
  hi_arc :: nat
  hi_tls_info :: "tls_handshake_info option"
  hi_local :: peer_info
  hi_brutal_applied :: bool
  hi_brutal_error :: string
  hi_pad_code :: u8
  hi_pad_cache :: bytes
  hi_rx_batch :: "nat option"

text \<open>The fields of \<open>MioSession\<close> that the handshake changes.\<close>

record ('c, 't) mio_session =
  ms_tx :: "('c, 't) tx_session"
  ms_rx :: rx_conn
  ms_client :: "(string \<times> nat) option"
  ms_brutal_applied :: bool

definition generate_padding :: "crypto_lib \<Rightarrow> nat \<Rightarrow> nat \<Rightarrow> u64 \<Rightarrow> string \<times> u64" where
  "generate_padding L mn mx rng =
     (let (len, r1) = gen_range mn (mx + 1) rng; (buf, r2) = fill_bytes len r1 in (lib_hex_encode L buf, r2))"

definition gen_session_id :: "crypto_lib \<Rightarrow> u64 \<Rightarrow> string \<times> u64" where
  "gen_session_id L rng = (let (buf, r) = fill_bytes 16 rng in (lib_hex_encode L buf, r))"

subsection \<open>Admission\<close>

definition parse_conn_id :: "hs_lib \<Rightarrow> string \<Rightarrow> string" where
  "parse_conn_id H s = (case hl_uuid_parse H (str_trim s) of Some v \<Rightarrow> v | None \<Rightarrow> [])"

definition expected_client_id :: "hs_lib \<Rightarrow> string \<Rightarrow> string \<Rightarrow> string" where
  "expected_client_id H m psk = hl_uuid_v5 H (as_bytes (m @ psk))"

text \<open>
  The checks up to the ban list: the outcome of a refusal, or the request with its canonical MAC
  and the ban list after the look-up.
\<close>

definition hs_admit ::
  "crypto_lib \<Rightarrow> hs_lib \<Rightarrow> int \<Rightarrow> 'c server_core \<Rightarrow> handshake_req \<Rightarrow> (handshake_outcome + (handshake_req \<times> 'c server_core)) option" where
  "hs_admit L H now_ms core req =
     (if \<not> constant_time_eq (as_bytes (hq_psk req)) (as_bytes (co_psk_hash core)) then Some (Inl HS_TarpitClose)
      else if hq_encrypt req \<noteq> co_encrypt core then Some (Inl HS_TarpitClose)
      else if co_encrypt core \<and> co_min_enc core > 0 \<and> \<not> is_inner_aead_algo (hq_enc_algo req) then Some (Inl HS_Close)
      else if co_encrypt core \<and> hq_enc_algo req \<noteq> co_enc_algo core then Some (Inl HS_Close)
      else if hq_client_id req = [] then Some (Inl HS_Close)
      else if \<not> is_valid_client_id (hq_client_id req) then Some (Inl HS_Close)
      else if \<not> is_valid_session_mac (lib_hex_decode L) (hq_mac req) then Some (Inl HS_Close)
      else if hq_protocol_version req \<noteq> PROTOCOL_VERSION then Some (Inl HS_Close)
      else if hq_fec req \<and> (hq_fec_group req < co_fec_group_min core \<or> hq_fec_group req > co_fec_group_max core) then Some (Inl HS_Close)
      else if \<not> is_valid_client_instance (hq_client_instance req) then Some (Inl HS_Close)
      else
        case canonical_mac (lib_hex_decode L) (hq_mac req) of
          None \<Rightarrow> None
        | Some m \<Rightarrow>
            if \<not> constant_time_eq (as_bytes (hq_client_id req)) (as_bytes (expected_client_id H m (co_psk core))) then Some (Inl HS_Close)
            else let (banned, b) = is_banned now_ms (hq_client_id req) (co_banned core)
                 in if banned then Some (Inl HS_TarpitClose) else Some (Inr (req\<lparr>hq_mac := m\<rparr>, core\<lparr>co_banned := b\<rparr>)))"

subsection \<open>Joining an existing session\<close>

text \<open>A new process instance takes the session over: token, new epoch, next token.\<close>

definition hs_rotate ::
  "crypto_lib \<Rightarrow> hs_input \<Rightarrow> handshake_req \<Rightarrow> 'd server_core \<Rightarrow> 'c client_session \<Rightarrow> handshake_outcome option \<times> 'c client_session" where
  "hs_rotate L i req core s =
     (let (ok, e1) = accept_session_resume_token (cs_epoch s) (hq_session_token req); s1 = s\<lparr>cs_epoch := e1\<rparr>
      in if \<not> ok then (Some HS_Close, s1)
         else case rotate_session_epoch L (co_psk core) (co_encrypt core) (hq_client_instance req) (hi_salt_a i) (hi_salt_b i) s1 of
           Inl _ \<Rightarrow> (Some HS_Close, s1)
         | Inr s2 \<Rightarrow>
             (case ensure_pending_resume_token L (hi_token i) (cs_epoch s2) of
                None \<Rightarrow> (Some HS_Close, s2)
              | Some e2 \<Rightarrow> (None, s2\<lparr>cs_epoch := e2\<rparr>)))"

definition hs_join ::
  "crypto_lib \<Rightarrow> hs_input \<Rightarrow> handshake_req \<Rightarrow> 'd server_core \<Rightarrow> 'c client_session \<Rightarrow> handshake_outcome option \<times> 'c client_session" where
  "hs_join L i req core s =
     (if \<not> constant_time_eq (as_bytes (hq_mac req)) (as_bytes (cs_mac s)) then (Some HS_TarpitClose, s)
      else if ep_enc_algo (cs_epoch s) \<noteq> hq_enc_algo req then (Some HS_Close, s)
      else
        let (r, s1) = (if ep_instance_id (cs_epoch s) \<noteq> hq_client_instance req then hs_rotate L i req core s
                       else (None, s\<lparr>cs_epoch := promote_pending (hq_session_token req) (cs_epoch s)\<rparr>))
        in case r of
             Some oc \<Rightarrow> (Some oc, s1)
           | None \<Rightarrow>
               let s2 = s1\<lparr>cs_deadline := None\<rparr>
               in if cx_active_conns (cs_rx s2) \<ge> 16 then (Some HS_Close, s2)
                  else (None, s2\<lparr>cs_rx := (cs_rx s2)\<lparr>cx_active_conns := cx_active_conns (cs_rx s2) + 1\<rparr>\<rparr>))"

subsection \<open>Creating a session\<close>

definition fec_label :: "int \<Rightarrow> string" where
  "fec_label k = (if k > 0 then ''xor K='' @ show_radix 10 (nat k) else ''off'')"

definition inner_ok :: "cipher_error + inner_cipher \<Rightarrow> inner_cipher option" where
  "inner_ok r = (case r of Inl _ \<Rightarrow> None | Inr c \<Rightarrow> Some c)"

text \<open>The ciphers of a new session; a cipher that cannot be built is a panic.\<close>

definition new_ciphers ::
  "crypto_lib \<Rightarrow> hs_input \<Rightarrow> 'c server_core
     \<Rightarrow> (int \<times> inner_cipher option \<times> inner_cipher option \<times> inner_cipher option \<times> inner_cipher option) option" where
  "new_ciphers L i core =
     (if \<not> co_encrypt core then Some (ENC_ALGO_NONE, None, None, None, None)
      else
        do {
          tx \<leftarrow> inner_ok (for_algo L (co_psk core) (hi_salt_b i) (co_enc_algo core));
          rx \<leftarrow> inner_ok (for_algo L (co_psk core) (hi_salt_a i) (co_enc_algo core));
          if is_inner_aead_algo (co_enc_algo core)
          then do {
            ftx \<leftarrow> inner_ok (domain_for_algo L (co_psk core) (hi_salt_b i) ''fec'' (co_enc_algo core));
            frx \<leftarrow> inner_ok (domain_for_algo L (co_psk core) (hi_salt_a i) ''fec'' (co_enc_algo core));
            Some (co_enc_algo core, Some tx, Some rx, Some ftx, Some frx)
          }
          else Some (co_enc_algo core, Some tx, Some rx, None, None)
        })"

definition new_session_record ::
  "crypto_lib \<Rightarrow> hs_input \<Rightarrow> handshake_req \<Rightarrow> int \<times> inner_cipher option \<times> inner_cipher option \<times> inner_cipher option \<times> inner_cipher option
     \<Rightarrow> string \<Rightarrow> string \<Rightarrow> string \<Rightarrow> 'c client_session" where
  "new_session_record L i req ciphers token v4ip v6ip =
     (let (enc_algo, ic_tx, ic_rx, fec_tx, fec_rx) = ciphers;
          k = (if hq_fec req then hq_fec_group req else 0);
          multi_rx = (hq_brutal_conns req > 1);
          dec = (if k > 0 then Some (decoder_new (nat k) fec_rx) else None);
          port = port_new (hq_client_id req)
      in \<lparr>cs_arc = hi_arc i, cs_session_id = fst (gen_session_id L (hi_rng i)), cs_client_id = hq_client_id req,
          cs_port = (if k > 0 then attach_encoder (nat k) fec_tx port else port),
          cs_rx = \<lparr>cx_epoch = 1, cx_fec = (if multi_rx then None else dec), cx_progress = False,
                   cx_actor = (if multi_rx then Some (rx_actor_new dec) else None),
                   cx_reorder = reorder_new, cx_dedup = dedup_new, cx_active_conns = 1, cx_rx_bytes = 0, cx_rx_packets = 0\<rparr>,
          cs_fec_enc_k = k, cs_mac = hq_mac req, cs_peer_info = map_option normalize_peer_info (hq_peer_info req),
          cs_mac_bin = (case parse_mac_key (lib_hex_decode L) (hq_mac req) of Some m \<Rightarrow> m | None \<Rightarrow> zero_mac),
          cs_ipv4 = v4ip, cs_ipv6 = v6ip,
          cs_epoch = \<lparr>ep_instance_id = hq_client_instance req, ep_resume_token = token, ep_pending_token = [], ep_enc_algo = enc_algo,
                      ep_salt_a = hi_salt_a i, ep_salt_b = hi_salt_b i, ep_ic_tx = ic_tx, ep_ic_rx = ic_rx\<rparr>,
          cs_deadline = None, cs_disconnect_version = 0, cs_fec_recovered = 0, cs_fec_lost = 0, cs_fec_mode = fec_label k,
          cs_brutal_tx = 0, cs_brutal_rx = 0, cs_brutal_applied = 0, cs_brutal_error = []\<rparr>)"

definition register_session :: "nat \<Rightarrow> 'c client_session \<Rightarrow> 'c server_core \<Rightarrow> 'c server_core" where
  "register_session now s core =
     (let cid = cs_client_id s; p = co_pool core
      in core\<lparr>co_switch := add_static_mac now cid (cs_mac_bin s) (add_port cid (cs_arc s) (co_switch core)),
              co_pool := (if cs_mac s \<noteq> [] then p\<lparr>mac_to_ip := (mac_to_ip p)(cs_mac s \<mapsto> (cs_ipv4 s, cs_ipv6 s))\<rparr> else p),
              co_registry := insert cid (co_registry core),
              co_sessions := assoc_put cid s (co_sessions core)\<rparr>)"

definition hs_create ::
  "crypto_lib \<Rightarrow> hs_input \<Rightarrow> handshake_req \<Rightarrow> 'c server_core \<Rightarrow> ((handshake_outcome + 'c client_session) \<times> 'c server_core) option" where
  "hs_create L i req core =
     (if co_max_sessions core > 0 \<and> int (length (co_sessions core)) \<ge> co_max_sessions core then Some (Inl HS_TarpitClose, core)
      else
        let (req_v4, req_v6) = (case (if hq_mac req \<noteq> [] then mac_to_ip (co_pool core) (hq_mac req) else None) of
                                  Some b \<Rightarrow> b | None \<Rightarrow> (hq_ipv4 req, hq_ipv6 req))
        in do {
             ciphers \<leftarrow> new_ciphers L i core;
             let (v4ip, p1) = alloc_v4 req_v4 (co_pool core);
             if v4ip = [] then Some (Inl HS_TarpitClose, core\<lparr>co_pool := p1\<rparr>)
             else
               let (v6ip, p2) = alloc_v6 req_v6 p1
               in if v6ip = [] then Some (Inl HS_TarpitClose, core\<lparr>co_pool := p2\<lparr>used_v4 := used_v4 p2 - {v4ip}\<rparr>\<rparr>)
                  else
                    case (if valid_session_token_format L (hq_session_token req) then Some (hq_session_token req)
                          else new_session_token L (hi_token i)) of
                      None \<Rightarrow> Some (Inl HS_Close, core\<lparr>co_pool := pool_release (hq_mac req) v4ip v6ip p2\<rparr>)
                    | Some token \<Rightarrow>
                        let s = new_session_record L i req ciphers token v4ip v6ip
                        in Some (Inr s, register_session (hi_now i) s (core\<lparr>co_pool := p2\<rparr>))
           })"

definition hs_session ::
  "crypto_lib \<Rightarrow> hs_input \<Rightarrow> handshake_req \<Rightarrow> 'c server_core \<Rightarrow> ((handshake_outcome + 'c client_session) \<times> 'c server_core) option" where
  "hs_session L i req core =
     (case map_of (co_sessions core) (hq_client_id req) of
        Some s \<Rightarrow>
          let (r, s1) = hs_join L i req core s; core1 = core\<lparr>co_sessions := assoc_put (hq_client_id req) s1 (co_sessions core)\<rparr>
          in Some (case r of Some oc \<Rightarrow> Inl oc | None \<Rightarrow> Inr s1, core1)
      | None \<Rightarrow> hs_create L i req core)"

subsection \<open>Rates\<close>

definition MAX_BRUTAL_RATE_MBPS :: u64 where
  "MAX_BRUTAL_RATE_MBPS = 1000000"

definition split_legacy_brutal_rate_bps :: "u64 \<Rightarrow> nat \<Rightarrow> nat \<Rightarrow> u64" where
  "split_legacy_brutal_rate_bps total_mbps conns index =
     (if total_mbps = 0 \<or> conns = 0 \<or> index \<ge> conns then 0
      else let total_bps = total_mbps * 1000000 div 8
           in total_bps div of_nat conns + (if of_nat index < total_bps mod of_nat conns then 1 else 0))"

definition brutal_group_id :: "crypto_lib \<Rightarrow> string \<Rightarrow> string \<Rightarrow> u64" where
  "brutal_group_id L domain identity =
     (let digest = lib_sha256 L (as_bytes ''tlsvpn/brutal/'' @ as_bytes domain @ [0] @ as_bytes identity);
          n = rdle64 (take 8 digest)
      in if n = 0 then 1 else n)"

definition group_offer :: "handshake_req \<Rightarrow> bool" where
  "group_offer req \<longleftrightarrow>
     hq_brutal_groups req \<and> hq_brutal_conns req > 0 \<and> hq_brutal_conns req \<le> 65536
     \<and> hq_brutal_conn_index req \<ge> 0 \<and> hq_brutal_conn_index req < hq_brutal_conns req
     \<and> hq_brutal_total_tx req \<le> MAX_BRUTAL_RATE_MBPS \<and> hq_brutal_total_rx req \<le> MAX_BRUTAL_RATE_MBPS"

text \<open>The rate towards the client and the rate of the client.\<close>

definition brutal_rates :: "handshake_req \<Rightarrow> 'c server_core \<Rightarrow> u64 \<times> u64" where
  "brutal_rates req core =
     (let (requested_rx, requested_tx) = (if group_offer req then (hq_brutal_total_rx req, hq_brutal_total_tx req) else (0, 0))
      in (if requested_rx > 0 \<and> (co_brutal_down core = 0 \<or> requested_rx < co_brutal_down core) then requested_rx else co_brutal_down core,
          if requested_tx > 0 \<and> (co_brutal_up core = 0 \<or> requested_tx < co_brutal_up core) then requested_tx else co_brutal_up core))"

text \<open>The arguments of the socket option: total rate, rate of the connection, group.\<close>

definition brutal_call :: "crypto_lib \<Rightarrow> handshake_req \<Rightarrow> 'c server_core \<Rightarrow> string \<Rightarrow> (u64 \<times> u64 \<times> u64) option" where
  "brutal_call L req core token =
     (let (server_tx, client_tx) = brutal_rates req core;
          legacy = (if group_offer req
                    then split_legacy_brutal_rate_bps server_tx (nat (hq_brutal_conns req)) (nat (hq_brutal_conn_index req))
                    else server_tx * 1000000 div 8)
      in if co_brutal core \<and> server_tx > 0
         then Some (server_tx, legacy, if group_offer req then brutal_group_id L ''server'' token else 0) else None)"

subsection \<open>The response\<close>

definition response_enc_salts :: "crypto_lib \<Rightarrow> int \<Rightarrow> bytes \<Rightarrow> bytes \<Rightarrow> string \<times> string" where
  "response_enc_salts L enc_algo salt_a salt_b =
     (if \<not> is_inner_aead_algo enc_algo then ([], []) else (lib_hex_encode L salt_a, lib_hex_encode L salt_b))"

definition with_mask :: "string \<Rightarrow> nat \<Rightarrow> string" where
  "with_mask ip bits = ip @ ''/'' @ show_radix 10 bits"

definition hs_response :: "crypto_lib \<Rightarrow> hs_input \<Rightarrow> handshake_req \<Rightarrow> 'c server_core \<Rightarrow> 'c client_session \<Rightarrow> handshake_resp" where
  "hs_response L i req core s =
     (let e = cs_epoch s; (salt1, salt2) = response_enc_salts L (ep_enc_algo e) (ep_salt_a e) (ep_salt_b e);
          (server_tx, client_tx) = brutal_rates req core
      in \<lparr>hp_protocol_version = PROTOCOL_VERSION, hp_session_epoch = cx_epoch (cs_rx s), hp_success = True, hp_message = ''OK'',
          hp_session_id = cs_session_id s, hp_client_id = hq_client_id req,
          hp_ipv4 = with_mask (cs_ipv4 s) (v4_mask_bits (co_pool core)), hp_ipv6 = with_mask (cs_ipv6 s) (v6_mask_bits (co_pool core)),
          hp_gw_v4 = co_gw_v4 core, hp_gw_v6 = co_gw_v6 core, hp_padding = fst (generate_padding L 100 500 (hi_rng_resp i)),
          hp_brutal_groups = group_offer req, hp_brutal_total_tx = client_tx, hp_brutal_total_rx = server_tx,
          hp_fec = hq_fec req, hp_fec_group = cs_fec_enc_k s, hp_encrypt = co_encrypt core, hp_enc_algo = ep_enc_algo e,
          hp_enc_salt = salt1, hp_enc_salt2 = salt2, hp_session_token = response_resume_token e,
          hp_tls = hi_tls_info i, hp_peer_info = Some (hi_local i)\<rparr>)"

text \<open>The session when a connection is attached to it.\<close>

definition attach_session :: "handshake_req \<Rightarrow> 'c server_core \<Rightarrow> 'c pbackend \<Rightarrow> 'c client_session \<Rightarrow> 'c client_session" where
  "attach_session req core b s =
     (let c = cs_rx s; (server_tx, client_tx) = brutal_rates req core
      in s\<lparr>cs_peer_info := map_option normalize_peer_info (hq_peer_info req),
           cs_rx := (if cx_actor c = None
                     then c\<lparr>cx_fec := map_option (\<lambda>d. set_static_single_path d True) (cx_fec c), cx_progress := cx_fec c \<noteq> None\<rparr> else c),
           cs_port := register_backend b (cs_port s), cs_brutal_tx := server_tx, cs_brutal_rx := client_tx\<rparr>)"

text \<open>The connection when it is attached.\<close>

definition attach_conn :: "hs_input \<Rightarrow> 'c client_session \<Rightarrow> ('c, 't) mio_session \<Rightarrow> ('c, 't) mio_session" where
  "attach_conn i s conn =
     conn\<lparr>ms_tx := (ms_tx conn)\<lparr>ts_epoch := cx_epoch (cs_rx s), ts_backend := (ts_backend (ms_tx conn))\<lparr>pb_rtt := 50000\<rparr>\<rparr>,
          ms_rx := (ms_rx conn)\<lparr>rc_ic_rx := ep_ic_rx (cs_epoch s), rc_epoch := cx_epoch (cs_rx s), rc_has_session := True,
                                 rc_producer := map_option (rx_new_producer (hi_rx_batch i)) (cx_actor (cs_rx s))\<rparr>,
          ms_client := Some (cs_client_id s, cs_arc s)\<rparr>"

record ('c, 't) hs_result =
  hr_outcome :: handshake_outcome
  hr_conn :: "('c, 't) mio_session"
  hr_core :: "'c server_core"
  hr_resp :: "handshake_resp option"
  hr_wire :: bytes
  hr_brutal :: "(u64 \<times> u64 \<times> u64) option"

definition refused :: "handshake_outcome \<Rightarrow> ('c, 't) mio_session \<Rightarrow> 'c server_core \<Rightarrow> ('c, 't) hs_result" where
  "refused oc conn core = \<lparr>hr_outcome = oc, hr_conn = conn, hr_core = core, hr_resp = None, hr_wire = [], hr_brutal = None\<rparr>"

definition put_session :: "'c client_session \<Rightarrow> 'c server_core \<Rightarrow> 'c server_core" where
  "put_session s core = core\<lparr>co_sessions := assoc_put (cs_client_id s) s (co_sessions core)\<rparr>"

text \<open>The part after the session is found: attach, respond, shape.\<close>

definition hs_finish ::
  "'t tls_lib \<Rightarrow> crypto_lib \<Rightarrow> hs_lib \<Rightarrow> hs_input \<Rightarrow> handshake_req \<Rightarrow> 'c client_session \<Rightarrow> ('c, 't) mio_session \<Rightarrow> 'c server_core
     \<Rightarrow> ('c, 't) hs_result option" where
  "hs_finish TL L H i req s0 conn core =
     (let conn1 = attach_conn i s0 conn;
          s = attach_session req core (ts_backend (ms_tx conn1)) s0;
          core1 = put_session s core;
          resp = hs_response L i req core s;
          rng = snd (generate_padding L 100 500 (hi_rng_resp i))
      in do {
           (buf, rng1) \<leftarrow> append_padded_frame L (hi_pad_code i) (hi_pad_cache i) [] 0 (hl_show_resp H resp) None rng;
           case tls_write_all TL (ts_tls (ms_tx conn1)) buf of
             None \<Rightarrow> Some (refused HS_Close conn1 core1)
           | Some t \<Rightarrow>
               do {
                 (close, tx) \<leftarrow> drain_tls TL (hi_now i) (hi_now_us i) ((ms_tx conn1)\<lparr>ts_tls := t\<rparr>);
                 let conn2 = conn1\<lparr>ms_tx := tx\<rparr>;
                 if close
                 then Some \<lparr>hr_outcome = HS_Close, hr_conn = conn2, hr_core = core1, hr_resp = Some resp, hr_wire = buf, hr_brutal = None\<rparr>
                 else
                   let call = brutal_call L req core (hp_session_token resp);
                       applied = (call \<noteq> None \<and> hi_brutal_applied i);
                       s1 = s\<lparr>cs_brutal_applied := cs_brutal_applied s + (if applied then 1 else 0),
                              cs_brutal_error := (if call \<noteq> None then hi_brutal_error i else [])\<rparr>
                   in Some \<lparr>hr_outcome = HS_Ok, hr_conn = conn2\<lparr>ms_brutal_applied := applied\<rparr>, hr_core = put_session s1 core1,
                            hr_resp = Some resp, hr_wire = buf, hr_brutal = call\<rparr>
               }
         })"

definition handle_handshake ::
  "'t tls_lib \<Rightarrow> crypto_lib \<Rightarrow> hs_lib \<Rightarrow> hs_input \<Rightarrow> bytes \<Rightarrow> ('c, 't) mio_session \<Rightarrow> 'c server_core \<Rightarrow> ('c, 't) hs_result option" where
  "handle_handshake TL L H i data conn core =
     (case hl_parse_req H data of
        None \<Rightarrow> Some (refused HS_TarpitClose conn core)
      | Some req0 \<Rightarrow>
          let conn_id = parse_conn_id H (hq_conn_id req0);
              conn1 = conn\<lparr>ms_tx := (ms_tx conn)\<lparr>ts_backend := (ts_backend (ms_tx conn))\<lparr>pb_conn_id := conn_id\<rparr>\<rparr>\<rparr>
          in do {
               r \<leftarrow> hs_admit L H (hi_now_ms i) core (req0\<lparr>hq_conn_id := conn_id\<rparr>);
               case r of
                 Inl oc \<Rightarrow> Some (refused oc conn1 core)
               | Inr (req, core1) \<Rightarrow>
                   do {
                     (found, core2) \<leftarrow> hs_session L i req core1;
                     case found of
                       Inl oc \<Rightarrow> Some (refused oc conn1 core2)
                     | Inr s \<Rightarrow> hs_finish TL L H i req s conn1 core2
                   }
             })"

text \<open>\<open>on_conn_closed\<close>, on the session the connection was attached to.\<close>

definition on_conn_closed :: "nat \<Rightarrow> ('c, 't) mio_session \<Rightarrow> 'c server_core \<Rightarrow> 'c server_core" where
  "on_conn_closed now conn core =
     (case ms_client conn of
        None \<Rightarrow> core
      | Some (cid, arc) \<Rightarrow>
          (case map_of (co_sessions core) cid of
             Some s \<Rightarrow>
               if cs_arc s = arc
               then put_session (session_conn_closed now (pb_chan_id (ts_backend (ms_tx conn))) (ts_epoch (ms_tx conn)) (ms_brutal_applied conn) s) core
               else core
           | None \<Rightarrow> core))"

end
