(* ===== verification/Server_Registry.thy ===== *)
theory Server_Registry
  imports Server_Handshake Vswitch_Props
begin

text \<open>
  The invariant of the server's registry of sessions, across the address pool and the switch: every
  session has addresses of its own, its client id is derived from its MAC, and the switch holds a
  static entry of that MAC for its port. The pool and the switch enter through the laws of two
  locales, interpreted on their models.
\<close>

lemma map_of_assoc_put [simp]: "map_of (assoc_put k v xs) = (map_of xs)(k \<mapsto> v)"
proof
  show "map_of (assoc_put k v xs) x = ((map_of xs)(k \<mapsto> v)) x" for x
    by (induction xs) (auto simp: assoc_put_def)
qed

lemma map_of_assoc_del [simp]: "map_of (assoc_del k xs) = (map_of xs)(k := None)"
proof
  show "map_of (assoc_del k xs) x = ((map_of xs)(k := None)) x" for x
    by (induction xs) (auto simp: assoc_del_def)
qed

lemma distinct_assoc_put: "distinct (map fst xs) \<Longrightarrow> distinct (map fst (assoc_put k v xs))"
  by (auto simp: assoc_put_def distinct_map_filter)

lemma distinct_assoc_del: "distinct (map fst xs) \<Longrightarrow> distinct (map fst (assoc_del k xs))"
  by (simp add: assoc_del_def distinct_map_filter)

lemma length_assoc_put: "length (assoc_put k v xs) \<le> length xs + 1" "map_of xs k \<noteq> None \<Longrightarrow> length (assoc_put k v xs) \<le> length xs"
proof -
  show "length (assoc_put k v xs) \<le> length xs + 1" by (simp add: assoc_put_def)
  show "map_of xs k \<noteq> None \<Longrightarrow> length (assoc_put k v xs) \<le> length xs"
  proof -
    assume "map_of xs k \<noteq> None"
    then obtain w where "(k, w) \<in> set xs" by (auto dest: map_of_SomeD)
    then have "length (filter (\<lambda>p. fst p \<noteq> k) xs) < length xs" by (intro length_filter_less) auto
    then show ?thesis by (simp add: assoc_put_def)
  qed
qed

subsection \<open>Address pools\<close>

text \<open>The used addresses are the gateway's and those leased, one per holder.\<close>

definition own_values :: "'a \<Rightarrow> (string \<Rightarrow> 'a option) \<Rightarrow> bool" where
  "own_values reserved A \<longleftrightarrow> inj_on A (dom A) \<and> reserved \<notin> ran A"

definition leases :: "string set \<Rightarrow> string \<Rightarrow> (string \<Rightarrow> string option) \<Rightarrow> bool" where
  "leases used gw A \<longleftrightarrow> own_values gw A \<and> used = insert gw (ran A)"

lemma own_values_new: "own_values g A \<Longrightarrow> x \<noteq> g \<Longrightarrow> x \<notin> ran A \<Longrightarrow> own_values g (A(k \<mapsto> x))"
  unfolding own_values_def inj_on_def by (auto simp: ran_def dom_def split: if_splits)

lemma own_values_drop: "own_values g A \<Longrightarrow> own_values g (A(k := None))"
  unfolding own_values_def inj_on_def by (auto simp: ran_def dom_def split: if_splits)

lemma ran_drop: "own_values g A \<Longrightarrow> A k = Some x \<Longrightarrow> ran (A(k := None)) = ran A - {x}"
  unfolding own_values_def inj_on_def ran_def dom_def by (auto split: if_splits) (metis option.inject option.distinct(1))

locale address_pool =
  fixes alloc :: "string \<Rightarrow> 'p \<Rightarrow> string \<times> 'p"
    and used :: "'p \<Rightarrow> string set"
  assumes alloc_new: "alloc req p = (s, p') \<Longrightarrow> s \<noteq> [] \<Longrightarrow> s \<notin> used p \<and> used p' = insert s (used p)"
    and alloc_full: "alloc req p = ([], p') \<Longrightarrow> used p' = used p"
begin

lemma lease_new:
  assumes l: "leases (used p) gw A" and a: "alloc req p = (s, p')" "s \<noteq> []" and k: "A k = None"
  shows "leases (used p') gw (A(k \<mapsto> s))"
proof -
  have s: "s \<notin> ran A" "s \<noteq> gw" "used p' = insert s (used p)" using alloc_new [OF a] l by (auto simp: leases_def)
  then show ?thesis using l k own_values_new [of gw A s k] by (auto simp: leases_def)
qed

lemma lease_back:
  assumes "leases (used p) gw A" "alloc req p = (s, p')" "s \<noteq> []"
  shows "used p' - {s} = used p"
  using alloc_new [OF assms(2,3)] by auto

end

lemma lease_drop:
  assumes l: "leases used gw A" and k: "A k = Some s"
  shows "leases (used - {s}) gw (A(k := None))"
proof -
  have "s \<noteq> gw" using l k by (auto simp: leases_def own_values_def ran_def)
  then show ?thesis using l own_values_drop [of gw A k] ran_drop [of gw A k s] k by (auto simp: leases_def)
qed

interpretation v4: address_pool alloc_v4 used_v4
proof
  show "s \<notin> used_v4 p \<and> used_v4 p' = insert s (used_v4 p)" if "alloc_v4 req p = (s, p')" "s \<noteq> []" for req p s p'
    using that by (cases rule: alloc_v4_cases [of req p]) auto
  show "used_v4 p' = used_v4 p" if "alloc_v4 req p = ([], p')" for req p p'
    using that by (cases rule: alloc_v4_cases [of req p]) auto
qed

interpretation v6: address_pool alloc_v6 used_v6
proof
  show "s \<notin> used_v6 p \<and> used_v6 p' = insert s (used_v6 p)" if "alloc_v6 req p = (s, p')" "s \<noteq> []" for req p s p'
    using that by (cases rule: alloc_v6_cases [of req p]) auto
  show "used_v6 p' = used_v6 p" if "alloc_v6 req p = ([], p')" for req p p'
    using that by (cases rule: alloc_v6_cases [of req p]) auto
qed

subsection \<open>Switches\<close>

text \<open>
  A switch as the registry uses it: ports are attached and detached, a MAC is pinned to a port, and
  other traffic neither moves a pinned MAC nor touches the ports. \<open>owners_ok\<close> relates the table of
  attached holders, each with its port object and MAC, to a switch.
\<close>

definition owners_ok ::
  "(string \<Rightarrow> nat \<Rightarrow> mac \<Rightarrow> 's \<Rightarrow> bool) \<Rightarrow> ('s \<Rightarrow> string \<Rightarrow> nat option) \<Rightarrow> string \<Rightarrow> nat \<Rightarrow> (string \<Rightarrow> (nat \<times> mac) option) \<Rightarrow> 's \<Rightarrow> bool" where
  "owners_ok owns ports tap h0 T s \<longleftrightarrow>
     tap \<notin> dom T \<and> ports s = (\<lambda>p. map_option fst (T p))(tap \<mapsto> h0) \<and> (\<forall>p h m. T p = Some (h, m) \<longrightarrow> owns p h m s)"

locale mac_switch =
  fixes attach :: "string \<Rightarrow> nat \<Rightarrow> 's \<Rightarrow> 's"
    and pin :: "nat \<Rightarrow> string \<Rightarrow> mac \<Rightarrow> 's \<Rightarrow> 's"
    and detach :: "string \<Rightarrow> 's \<Rightarrow> 's"
    and traffic :: "'e \<Rightarrow> 's \<Rightarrow> 's"
    and owns :: "string \<Rightarrow> nat \<Rightarrow> mac \<Rightarrow> 's \<Rightarrow> bool"
    and ports :: "'s \<Rightarrow> string \<Rightarrow> nat option"
  assumes ports_attach: "ports (attach p h s) = (ports s)(p \<mapsto> h)"
    and ports_pin: "ports (pin now p m s) = ports s"
    and ports_detach: "ports (detach p s) = (ports s)(p := None)"
    and ports_traffic: "ports (traffic e s) = ports s"
    and owns_attach: "owns p h m s \<Longrightarrow> owns p h m (attach q g s)"
    and owns_pin: "ports s p = Some h \<Longrightarrow> m \<noteq> zero_mac \<Longrightarrow> owns p h m (pin now p m s)"
    and owns_pin_other: "owns p h m s \<Longrightarrow> m \<noteq> m' \<Longrightarrow> owns p h m (pin now q m' s)"
    and owns_detach: "owns p h m s \<Longrightarrow> p \<noteq> q \<Longrightarrow> owns p h m (detach q s)"
    and owns_traffic: "owns p h m s \<Longrightarrow> owns p h m (traffic e s)"
begin

lemma owners_new:
  assumes o: "owners_ok owns ports tap h0 T s" and p: "T p = None" "p \<noteq> tap" and m: "m \<noteq> zero_mac" "\<And>q g m'. T q = Some (g, m') \<Longrightarrow> m' \<noteq> m"
  shows "owners_ok owns ports tap h0 (T(p \<mapsto> (h, m))) (pin now p m (attach p h s))"
proof -
  have "ports (attach p h s) p = Some h" by (simp add: ports_attach)
  then have "owns p h m (pin now p m (attach p h s))" using m(1) by (rule owns_pin)
  moreover have "owns q g m' (pin now p m (attach p h s))" if "T q = Some (g, m')" for q g m'
    using that o m(2) [OF that] owns_pin_other owns_attach unfolding owners_ok_def by blast
  moreover have "ports (pin now p m (attach p h s)) = (\<lambda>q. map_option fst ((T(p \<mapsto> (h, m))) q))(tap \<mapsto> h0)"
    using o p by (auto simp: owners_ok_def ports_pin ports_attach fun_eq_iff)
  ultimately show ?thesis using o p by (auto simp: owners_ok_def)
qed

lemma owners_drop:
  assumes o: "owners_ok owns ports tap h0 T s" and p: "p \<noteq> tap"
  shows "owners_ok owns ports tap h0 (T(p := None)) (detach p s)"
proof -
  have "ports (detach p s) = (\<lambda>q. map_option fst ((T(p := None)) q))(tap \<mapsto> h0)"
    using o p by (auto simp: owners_ok_def ports_detach fun_eq_iff)
  then show ?thesis using o owns_detach by (auto simp: owners_ok_def)
qed

lemma owners_traffic: "owners_ok owns ports tap h0 T s \<Longrightarrow> owners_ok owns ports tap h0 T (traffic e s)"
  unfolding owners_ok_def using ports_traffic owns_traffic by simp

end

text \<open>The traffic of the switch: frames of any port, and the collector.\<close>

datatype traffic = T_Frame "rat \<Rightarrow> rat" nat string "mac option" frame_payload | T_Batch "rat \<Rightarrow> rat" nat string mac "arc_frame list" | T_Gc nat

fun switch_traffic :: "traffic \<Rightarrow> vswitch \<Rightarrow> port_call list \<times> vswitch" where
  "switch_traffic (T_Frame rnd now p r f) s = process_frame_inner rnd now p r f s"
| "switch_traffic (T_Batch rnd now p m fs) s = process_session_batch rnd now p m fs s"
| "switch_traffic (T_Gc now) s = ([], mac_gc now s)"

lemma mac_gc_keeps [simp]: "sw_ports (mac_gc now s) = sw_ports s" "sw_trusted (mac_gc now s) = sw_trusted s"
  by (simp_all add: mac_gc_def retain_macs_def)

lemma add_static_mac_keeps [simp]:
  "sw_ports (add_static_mac now p m s) = sw_ports s" "sw_trusted (add_static_mac now p m s) = sw_trusted s"
  by (simp_all add: add_static_mac_def)

lemma switch_traffic_keeps:
  "sw_ports (snd (switch_traffic e s)) = sw_ports s \<and> sw_trusted (snd (switch_traffic e s)) = sw_trusted s
   \<and> (pinned p h m s \<longrightarrow> pinned p h m (snd (switch_traffic e s)))"
proof (cases e)
  case (T_Batch rnd now q r fs)
  let ?I = "\<lambda>t. sw_ports t = sw_ports s \<and> sw_trusted t = sw_trusted s \<and> (pinned p h m s \<longrightarrow> pinned p h m t)"
  have "?I (snd (process_session_batch rnd now q r fs s))"
    by (rule process_session_batch_snd) (auto intro: pinned_process)
  then show ?thesis using T_Batch by simp
qed (simp_all add: pinned_process pinned_mac_gc)

interpretation sw: mac_switch add_port add_static_mac remove_port "\<lambda>e s. snd (switch_traffic e s)" pinned "\<lambda>s. map_of (sw_ports s)"
proof
  show "map_of (sw_ports (add_port p h s)) = (map_of (sw_ports s))(p \<mapsto> h)" for p h s
    using map_of_assoc_put [of p h "sw_ports s"] by (simp add: add_port_def assoc_put_def)
  show "map_of (sw_ports (remove_port p s)) = (map_of (sw_ports s))(p := None)" for p s
    using map_of_assoc_del [of p "sw_ports s"] by (simp add: remove_port_def retain_macs_def assoc_del_def)
qed (use switch_traffic_keeps in \<open>auto simp: pinned_add_static pinned_add_port pinned_remove_port\<close>)

subsection \<open>The registry\<close>

definition session_wf :: "hs_lib \<Rightarrow> string \<Rightarrow> 'c client_session \<Rightarrow> bool" where
  "session_wf H psk s \<longleftrightarrow>
     is_valid_client_id (cs_client_id s) \<and> cs_client_id s = expected_client_id H (cs_mac s) psk
     \<and> cs_mac s = mac_to_string (cs_mac_bin s) \<and> length (cs_mac_bin s) = 6
     \<and> cs_mac_bin s \<noteq> zero_mac \<and> cs_mac_bin s ! 0 AND 1 = 0"

lemma session_wf_cong:
  "cs_client_id t = cs_client_id s \<Longrightarrow> cs_mac t = cs_mac s \<Longrightarrow> cs_mac_bin t = cs_mac_bin s \<Longrightarrow> session_wf H psk t = session_wf H psk s"
  by (simp add: session_wf_def)

definition attr :: "('c client_session \<Rightarrow> 'a) \<Rightarrow> 'c server_core \<Rightarrow> string \<Rightarrow> 'a option" where
  "attr f core cid = map_option f (map_of (co_sessions core) cid)"

definition bindings_ok :: "(string \<Rightarrow> 'b option) \<Rightarrow> (string \<Rightarrow> (string \<times> 'b) option) \<Rightarrow> bool" where
  "bindings_ok B A \<longleftrightarrow> (\<forall>m b. B m = Some b \<longleftrightarrow> (\<exists>cid. A cid = Some (m, b)))"

definition registry_inv :: "hs_lib \<Rightarrow> nat \<Rightarrow> 'c server_core \<Rightarrow> bool" where
  "registry_inv H h0 core \<longleftrightarrow>
     distinct (map fst (co_sessions core))
     \<and> (\<forall>cid s. map_of (co_sessions core) cid = Some s \<longrightarrow> cs_client_id s = cid \<and> session_wf H (co_psk core) s)
     \<and> leases (used_v4 (co_pool core)) (co_gw_v4 core) (attr cs_ipv4 core)
     \<and> leases (used_v6 (co_pool core)) (co_gw_v6 core) (attr cs_ipv6 core)
     \<and> own_values h0 (attr cs_arc core)
     \<and> bindings_ok (mac_to_ip (co_pool core)) (attr (\<lambda>s. (cs_mac s, cs_ipv4 s, cs_ipv6 s)) core)
     \<and> co_registry core = dom (map_of (co_sessions core))
     \<and> owners_ok pinned (\<lambda>s. map_of (sw_ports s)) TAP_PORT_ID h0 (attr (\<lambda>s. (cs_arc s, cs_mac_bin s)) core) (co_switch core)
     \<and> sw_trusted (co_switch core) = TAP_PORT_ID
     \<and> (co_max_sessions core > 0 \<longrightarrow> int (length (co_sessions core)) \<le> co_max_sessions core)"

lemma registry_invD:
  assumes "registry_inv H h0 core"
  shows "map_of (co_sessions core) cid = Some s \<Longrightarrow> cs_client_id s = cid"
    "map_of (co_sessions core) cid = Some s \<Longrightarrow> session_wf H (co_psk core) s"
    "leases (used_v4 (co_pool core)) (co_gw_v4 core) (attr cs_ipv4 core)"
    "leases (used_v6 (co_pool core)) (co_gw_v6 core) (attr cs_ipv6 core)"
    "own_values h0 (attr cs_arc core)"
    "bindings_ok (mac_to_ip (co_pool core)) (attr (\<lambda>s. (cs_mac s, cs_ipv4 s, cs_ipv6 s)) core)"
    "co_registry core = dom (map_of (co_sessions core))"
    "owners_ok pinned (\<lambda>s. map_of (sw_ports s)) TAP_PORT_ID h0 (attr (\<lambda>s. (cs_arc s, cs_mac_bin s)) core) (co_switch core)"
    "sw_trusted (co_switch core) = TAP_PORT_ID"
    "co_max_sessions core > 0 \<Longrightarrow> int (length (co_sessions core)) \<le> co_max_sessions core"
    "distinct (map fst (co_sessions core))"
  using assms unfolding registry_inv_def by blast+

lemma registry_invI:
  assumes "\<And>cid s. map_of (co_sessions core) cid = Some s \<Longrightarrow> cs_client_id s = cid \<and> session_wf H (co_psk core) s"
    and "leases (used_v4 (co_pool core)) (co_gw_v4 core) (attr cs_ipv4 core)"
    and "leases (used_v6 (co_pool core)) (co_gw_v6 core) (attr cs_ipv6 core)"
    and "own_values h0 (attr cs_arc core)"
    and "bindings_ok (mac_to_ip (co_pool core)) (attr (\<lambda>s. (cs_mac s, cs_ipv4 s, cs_ipv6 s)) core)"
    and "co_registry core = dom (map_of (co_sessions core))"
    and "owners_ok pinned (\<lambda>s. map_of (sw_ports s)) TAP_PORT_ID h0 (attr (\<lambda>s. (cs_arc s, cs_mac_bin s)) core) (co_switch core)"
    and "sw_trusted (co_switch core) = TAP_PORT_ID"
    and "co_max_sessions core > 0 \<Longrightarrow> int (length (co_sessions core)) \<le> co_max_sessions core"
    and "distinct (map fst (co_sessions core))"
  shows "registry_inv H h0 core"
  using assms unfolding registry_inv_def by blast

lemma valid_id_not_tap: "is_valid_client_id cid \<Longrightarrow> cid \<noteq> TAP_PORT_ID"
  by (auto simp: is_valid_client_id_def TAP_PORT_ID_def)

text \<open>What identifies a session never changes while it lives.\<close>

definition same_identity :: "'c client_session \<Rightarrow> 'c client_session \<Rightarrow> bool" where
  "same_identity s t \<longleftrightarrow>
     cs_arc t = cs_arc s \<and> cs_client_id t = cs_client_id s \<and> cs_mac t = cs_mac s \<and> cs_mac_bin t = cs_mac_bin s
     \<and> cs_ipv4 t = cs_ipv4 s \<and> cs_ipv6 t = cs_ipv6 s"

lemma same_identity_trans: "same_identity s t \<Longrightarrow> same_identity t u \<Longrightarrow> same_identity s u"
  by (simp add: same_identity_def)

lemma attr_put:
  "attr f (core\<lparr>co_sessions := assoc_put cid t (co_sessions core)\<rparr>) = (attr f core)(cid \<mapsto> f t)"
  by (simp add: attr_def fun_eq_iff)

lemma attr_put_same:
  "map_of (co_sessions core) cid = Some s \<Longrightarrow> f t = f s \<Longrightarrow> attr f (core\<lparr>co_sessions := assoc_put cid t (co_sessions core)\<rparr>) = attr f core"
  by (auto simp: attr_def fun_eq_iff)

lemma registry_update:
  assumes inv: "registry_inv H h0 core" and s: "map_of (co_sessions core) cid = Some s" and same: "same_identity s t"
  shows "registry_inv H h0 (core\<lparr>co_sessions := assoc_put cid t (co_sessions core)\<rparr>)" (is "registry_inv H h0 ?core")
proof -
  note same' = same [unfolded same_identity_def]
  have a: "attr cs_ipv4 ?core = attr cs_ipv4 core" "attr cs_ipv6 ?core = attr cs_ipv6 core" "attr cs_arc ?core = attr cs_arc core"
    "attr (\<lambda>s. (cs_mac s, cs_ipv4 s, cs_ipv6 s)) ?core = attr (\<lambda>s. (cs_mac s, cs_ipv4 s, cs_ipv6 s)) core"
    "attr (\<lambda>s. (cs_arc s, cs_mac_bin s)) ?core = attr (\<lambda>s. (cs_arc s, cs_mac_bin s)) core"
    by (rule attr_put_same [OF s], simp add: same')+
  have t: "cs_client_id t = cid" "session_wf H (co_psk core) t"
    using registry_invD(1,2) [OF inv s] same' session_wf_cong [of t s] by blast+
  have len: "length (assoc_put cid t (co_sessions core)) \<le> length (co_sessions core)" by (rule length_assoc_put(2)) (simp add: s)
  show ?thesis
  proof (rule registry_invI; (unfold a)?)
    show "cs_client_id u = c \<and> session_wf H (co_psk ?core) u" if "map_of (co_sessions ?core) c = Some u" for c u
      using that t registry_invD(1,2) [OF inv, of c u] by (auto split: if_splits)
    show "co_registry ?core = dom (map_of (co_sessions ?core))" using registry_invD(7) [OF inv] s by auto
    show "int (length (co_sessions ?core)) \<le> co_max_sessions ?core" if "co_max_sessions ?core > 0"
      using that registry_invD(10) [OF inv] len by simp
    show "distinct (map fst (co_sessions ?core))" using distinct_assoc_put [OF registry_invD(11) [OF inv]] by simp
  qed (use registry_invD(3-9) [OF inv] in simp_all)
qed

subsection \<open>Creation and destruction\<close>

lemma bindings_new:
  assumes b: "bindings_ok B A" and k: "A k = None" and m: "\<And>c b'. A c \<noteq> Some (m, b')"
  shows "bindings_ok (B(m \<mapsto> b)) (A(k \<mapsto> (m, b)))"
  unfolding bindings_ok_def
proof (intro allI)
  fix n c
  show "(B(m \<mapsto> b)) n = Some c \<longleftrightarrow> (\<exists>cid. (A(k \<mapsto> (m, b))) cid = Some (n, c))"
  proof (cases "n = m")
    case True
    then show ?thesis using m by auto
  next
    case False
    then have "(A(k \<mapsto> (m, b))) cid = Some (n, c) \<longleftrightarrow> A cid = Some (n, c)" for cid using k by (cases "cid = k") auto
    then show ?thesis using b False by (simp add: bindings_ok_def)
  qed
qed

lemma bindings_drop:
  assumes b: "bindings_ok B A" and k: "A k = Some (m, c)" and m: "\<And>l c'. A l = Some (m, c') \<Longrightarrow> l = k"
  shows "bindings_ok (B(m := None)) (A(k := None))" "B m = Some c"
proof -
  show "B m = Some c" using b k unfolding bindings_ok_def by blast
  show "bindings_ok (B(m := None)) (A(k := None))"
    unfolding bindings_ok_def
  proof (intro allI)
    fix n d
    show "(B(m := None)) n = Some d \<longleftrightarrow> (\<exists>cid. (A(k := None)) cid = Some (n, d))"
    proof (cases "n = m")
      case True
      then show ?thesis using m by auto
    next
      case False
      then have "(A(k := None)) cid = Some (n, d) \<longleftrightarrow> A cid = Some (n, d)" for cid using k by (cases "cid = k") auto
      then show ?thesis using b False by (simp add: bindings_ok_def)
    qed
  qed
qed

lemma same_mac_same_id:
  assumes "registry_inv H h0 core" "map_of (co_sessions core) c = Some s" "map_of (co_sessions core) d = Some t" "cs_mac s = cs_mac t"
  shows "c = d"
proof -
  have "cs_client_id s = c" "session_wf H (co_psk core) s" "cs_client_id t = d" "session_wf H (co_psk core) t"
    using assms by (auto simp: registry_inv_def)
  then show ?thesis using assms(4) unfolding session_wf_def by metis
qed

lemma attr_SomeI: "map_of (co_sessions core) cid = Some s \<Longrightarrow> attr f core cid = Some (f s)"
  by (simp add: attr_def)

lemma registry_destroy:
  assumes inv: "registry_inv H h0 core"
  shows "registry_inv H h0 (destroy_session s core)"
proof (cases "\<exists>t. map_of (co_sessions core) (cs_client_id s) = Some t \<and> cs_arc t = cs_arc s")
  case False
  then show ?thesis using inv by (auto simp: destroy_session_def Let_def split: option.split)
next
  case True
  define cid where "cid = cs_client_id s"
  obtain t where t: "map_of (co_sessions core) cid = Some t" "cs_arc t = cs_arc s" using True cid_def by blast
  obtain r l where rl: "rx_runtime_snapshot t = (r, l)" by (cases "rx_runtime_snapshot t")
  define core' where "core' = destroy_session s core"
  have wf: "cs_client_id t = cid" "session_wf H (co_psk core) t" using inv t by (auto simp: registry_inv_def)
  note A = attr_SomeI [OF t(1)]
  let ?B = "attr (\<lambda>s. (cs_mac s, cs_ipv4 s, cs_ipv6 s)) core"
  have b: "bindings_ok (mac_to_ip (co_pool core)) ?B" using inv by (simp add: registry_inv_def)
  have own: "l = cid" if "?B l = Some (cs_mac t, c')" for l c'
    using that same_mac_same_id [OF inv _ t(1)] by (auto simp: attr_def)
  note bd = bindings_drop [OF b A own]
  have c': "co_sessions core' = assoc_del cid (co_sessions core)" "co_switch core' = remove_port cid (co_switch core)"
    "co_registry core' = co_registry core - {cid}" "co_psk core' = co_psk core" "co_gw_v4 core' = co_gw_v4 core" "co_gw_v6 core' = co_gw_v6 core"
    "co_max_sessions core' = co_max_sessions core"
    "co_pool core' = pool_release (cs_mac t) (cs_ipv4 t) (cs_ipv6 t) (co_pool core)"
    using t rl by (simp_all add: core'_def destroy_session_def cid_def Let_def)
  have p: "used_v4 (co_pool core') = used_v4 (co_pool core) - {cs_ipv4 t}" "used_v6 (co_pool core') = used_v6 (co_pool core) - {cs_ipv6 t}"
    "mac_to_ip (co_pool core') = (mac_to_ip (co_pool core))(cs_mac t := None)"
    using bd(2) by (simp_all add: c' pool_release_def Let_def)
  have at: "attr f core' = (attr f core)(cid := None)" for f :: "'a client_session \<Rightarrow> 'z"
    by (simp add: attr_def c' fun_eq_iff)
  have "registry_inv H h0 core'"
  proof (rule registry_invI)
    show "cs_client_id u = c \<and> session_wf H (co_psk core') u" if "map_of (co_sessions core') c = Some u" for c u
      using that registry_invD(1,2) [OF inv, of c u] by (auto simp: c' split: if_splits)
    show "leases (used_v4 (co_pool core')) (co_gw_v4 core') (attr cs_ipv4 core')"
      unfolding at p c'(1-7) by (rule lease_drop [OF registry_invD(3) [OF inv] A])
    show "leases (used_v6 (co_pool core')) (co_gw_v6 core') (attr cs_ipv6 core')"
      unfolding at p c'(1-7) by (rule lease_drop [OF registry_invD(4) [OF inv] A])
    show "own_values h0 (attr cs_arc core')" unfolding at by (rule own_values_drop [OF registry_invD(5) [OF inv]])
    show "bindings_ok (mac_to_ip (co_pool core')) (attr (\<lambda>s. (cs_mac s, cs_ipv4 s, cs_ipv6 s)) core')" unfolding at p by (rule bd(1))
    show "co_registry core' = dom (map_of (co_sessions core'))" using registry_invD(7) [OF inv] by (auto simp: c')
    have "cid \<noteq> TAP_PORT_ID" using wf(1) wf(2) [unfolded session_wf_def] valid_id_not_tap [of "cs_client_id t"] by blast
    then show "owners_ok pinned (\<lambda>s. map_of (sw_ports s)) TAP_PORT_ID h0 (attr (\<lambda>s. (cs_arc s, cs_mac_bin s)) core') (co_switch core')"
      unfolding at c' by (rule sw.owners_drop [OF registry_invD(8) [OF inv]])
    show "sw_trusted (co_switch core') = TAP_PORT_ID" using registry_invD(9) [OF inv] by (simp add: c' remove_port_def retain_macs_def)
    have "length (assoc_del cid (co_sessions core)) \<le> length (co_sessions core)" by (simp add: assoc_del_def)
    then show "int (length (co_sessions core')) \<le> co_max_sessions core'" if "co_max_sessions core' > 0"
      using that registry_invD(10) [OF inv] by (simp add: c')
    show "distinct (map fst (co_sessions core'))" using distinct_assoc_del [OF registry_invD(11) [OF inv]] by (simp add: c')
  qed
  then show ?thesis by (simp add: core'_def)
qed

lemma mac_to_string_nonempty: "m \<noteq> [] \<Longrightarrow> mac_to_string m \<noteq> []"
  by (cases m rule: list.exhaust; cases "tl m") (simp_all add: mac_to_string_def hex_byte_def)

text \<open>A session record that may enter the registry.\<close>

lemma registry_register:
  assumes inv: "registry_inv H h0 core0" and new: "map_of (co_sessions core0) (cs_client_id s) = None"
    and wf: "session_wf H (co_psk core0) s" and arc: "cs_arc s \<noteq> h0" "cs_arc s \<notin> ran (attr cs_arc core0)"
    and p: "leases (used_v4 p) (co_gw_v4 core0) ((attr cs_ipv4 core0)(cs_client_id s \<mapsto> cs_ipv4 s))"
      "leases (used_v6 p) (co_gw_v6 core0) ((attr cs_ipv6 core0)(cs_client_id s \<mapsto> cs_ipv6 s))" "mac_to_ip p = mac_to_ip (co_pool core0)"
    and room: "co_max_sessions core0 > 0 \<longrightarrow> int (length (co_sessions core0)) < co_max_sessions core0"
  shows "registry_inv H h0 (register_session now s (core0\<lparr>co_pool := p\<rparr>))" (is "registry_inv H h0 ?core")
proof -
  let ?cid = "cs_client_id s"
  have "length (cs_mac_bin s) = 6" "cs_mac s = mac_to_string (cs_mac_bin s)" using wf unfolding session_wf_def by blast+
  then have mac: "cs_mac s \<noteq> []" using mac_to_string_nonempty [of "cs_mac_bin s"] by force
  have c': "co_sessions ?core = assoc_put ?cid s (co_sessions core0)" "co_registry ?core = insert ?cid (co_registry core0)"
    "co_psk ?core = co_psk core0" "co_gw_v4 ?core = co_gw_v4 core0" "co_gw_v6 ?core = co_gw_v6 core0"
    "co_max_sessions ?core = co_max_sessions core0" "used_v4 (co_pool ?core) = used_v4 p" "used_v6 (co_pool ?core) = used_v6 p"
    "mac_to_ip (co_pool ?core) = (mac_to_ip (co_pool core0))(cs_mac s \<mapsto> (cs_ipv4 s, cs_ipv6 s))"
    "co_switch ?core = add_static_mac now ?cid (cs_mac_bin s) (add_port ?cid (cs_arc s) (co_switch core0))"
    using mac p(3) by (simp_all add: register_session_def Let_def)
  have at: "attr f ?core = (attr f core0)(?cid \<mapsto> f s)" for f :: "'a client_session \<Rightarrow> 'z"
    by (simp add: attr_def c'(1) fun_eq_iff)
  have none: "attr f core0 ?cid = None" for f :: "'a client_session \<Rightarrow> 'z" using new by (simp add: attr_def)
  have other: "cs_mac t \<noteq> cs_mac s" if "map_of (co_sessions core0) c = Some t" for c t
  proof
    assume "cs_mac t = cs_mac s"
    then have "c = ?cid" using registry_invD(1,2) [OF inv that] wf unfolding session_wf_def by metis
    then show False using that new by simp
  qed
  show ?thesis
  proof (rule registry_invI)
    show "cs_client_id u = c \<and> session_wf H (co_psk ?core) u" if "map_of (co_sessions ?core) c = Some u" for c u
      using that wf registry_invD(1,2) [OF inv, of c u] unfolding c' by (auto split: if_splits)
    show "leases (used_v4 (co_pool ?core)) (co_gw_v4 ?core) (attr cs_ipv4 ?core)" unfolding at c'(3-9) by (rule p(1))
    show "leases (used_v6 (co_pool ?core)) (co_gw_v6 ?core) (attr cs_ipv6 ?core)" unfolding at c'(3-9) by (rule p(2))
    show "own_values h0 (attr cs_arc ?core)" unfolding at by (rule own_values_new [OF registry_invD(5) [OF inv] arc])
    show "bindings_ok (mac_to_ip (co_pool ?core)) (attr (\<lambda>s. (cs_mac s, cs_ipv4 s, cs_ipv6 s)) ?core)"
      unfolding at c'(9) by (rule bindings_new [OF registry_invD(6) [OF inv] none]) (use other in \<open>auto simp: attr_def\<close>)
    show "co_registry ?core = dom (map_of (co_sessions ?core))" using registry_invD(7) [OF inv] by (simp add: c'(1,2))
    have "?cid \<noteq> TAP_PORT_ID" "cs_mac_bin s \<noteq> zero_mac" using wf valid_id_not_tap [of ?cid] unfolding session_wf_def by blast+
    moreover have "m' \<noteq> cs_mac_bin s" if q: "attr (\<lambda>s. (cs_arc s, cs_mac_bin s)) core0 q = Some (g, m')" for q g m'
    proof -
      obtain t where t: "map_of (co_sessions core0) q = Some t" "m' = cs_mac_bin t"
        using q by (cases "map_of (co_sessions core0) q") (simp_all add: attr_def)
      have "cs_mac t = mac_to_string m'" "cs_mac s = mac_to_string (cs_mac_bin s)"
        using registry_invD(2) [OF inv t(1)] wf t(2) unfolding session_wf_def by blast+
      then show ?thesis using other [OF t(1)] by auto
    qed
    ultimately show "owners_ok pinned (\<lambda>s. map_of (sw_ports s)) TAP_PORT_ID h0 (attr (\<lambda>s. (cs_arc s, cs_mac_bin s)) ?core) (co_switch ?core)"
      unfolding at c'(10) by (intro sw.owners_new [OF registry_invD(8) [OF inv] none])
    show "sw_trusted (co_switch ?core) = TAP_PORT_ID" using registry_invD(9) [OF inv] by (simp add: c'(10) add_port_def)
    show "int (length (co_sessions ?core)) \<le> co_max_sessions ?core" if "co_max_sessions ?core > 0"
      using that room length_assoc_put(1) [of ?cid s "co_sessions core0"] unfolding c' by linarith
    show "distinct (map fst (co_sessions ?core))" using distinct_assoc_put [OF registry_invD(11) [OF inv]] by (simp add: c'(1))
  qed
qed

lemma registry_pool:
  assumes inv: "registry_inv H h0 core" and p: "used_v4 p = used_v4 (co_pool core)" "used_v6 p = used_v6 (co_pool core)" "mac_to_ip p = mac_to_ip (co_pool core)"
  shows "registry_inv H h0 (core\<lparr>co_pool := p\<rparr>)"
  using registry_invD [OF inv] p by (intro registry_invI) (auto simp: attr_def [abs_def])

end
