(* ===== verification/Server_Handshake_Props.thy ===== *)
theory Server_Handshake_Props
  imports Server_Registry
begin

text \<open>
  What a handshake does to the registry: it never panics, keeps the invariant, and either refuses
  the connection (at most starting a new key epoch of the session) or attaches it to a session.
\<close>

subsection \<open>Handshake results\<close>

text \<open>The documented behaviour of the libraries used by the handshake.\<close>

definition hs_libs_ok :: "'t tls_lib \<Rightarrow> ('t \<Rightarrow> nat) \<Rightarrow> crypto_lib \<Rightarrow> bool" where
  "hs_libs_ok TL backlog L \<longleftrightarrow> tls_ok TL backlog \<and> crypto_lib_ok L \<and> (\<forall>b. lib_hex_decode L (hex_byte b) = Some [b])"

lemma domain_for_algo_ok:
  "crypto_lib_ok L \<Longrightarrow> length salt = 8 \<Longrightarrow> is_inner_aead_algo algo \<Longrightarrow> d = ''data'' \<or> d = ''fec'' \<Longrightarrow> \<exists>c. domain_for_algo L psk salt d algo = Inr c"
  by (auto simp: domain_for_algo_def key_label_def derive_key_labeled_def is_inner_aead_algo_def is_gcm_algo_def crypto_lib_ok_def
      ENC_SALT_SIZE_def ENC_ALGO_GCM_def ENC_ALGO_GCM128_def ENC_ALGO_CHACHA20_def ENC_ALGO_XCHACHA20_def Let_def)

lemma hs_admit_total: "hs_admit L H now_ms core req \<noteq> None"
  by (auto simp: hs_admit_def is_valid_session_mac_def canonical_mac_def Let_def split: option.splits prod.splits)

text \<open>What an admitted request satisfies.\<close>

definition admitted :: "crypto_lib \<Rightarrow> hs_lib \<Rightarrow> 'c server_core \<Rightarrow> handshake_req \<Rightarrow> mac \<Rightarrow> bool" where
  "admitted L H core req m \<longleftrightarrow>
     hq_psk req = co_psk_hash core \<and> hq_encrypt req = co_encrypt core \<and> (co_encrypt core \<longrightarrow> hq_enc_algo req = co_enc_algo core)
     \<and> hq_protocol_version req = PROTOCOL_VERSION
     \<and> (hq_fec req \<longrightarrow> co_fec_group_min core \<le> hq_fec_group req \<and> hq_fec_group req \<le> co_fec_group_max core)
     \<and> is_valid_client_instance (hq_client_instance req)
     \<and> is_valid_client_id (hq_client_id req) \<and> hq_client_id req = expected_client_id H (mac_to_string m) (co_psk core)
     \<and> parse_mac_key (lib_hex_decode L) (hq_mac req) = Some m \<and> length m = 6 \<and> m \<noteq> zero_mac \<and> m ! 0 AND 1 = 0"

lemma hs_admit_cases:
  assumes "hs_admit L H now_ms core req = Some (Inr (req', core'))"
  obtains m where "admitted L H core req m" "req' = req\<lparr>hq_mac := mac_to_string m\<rparr>"
    "core' = core\<lparr>co_banned := snd (is_banned now_ms (hq_client_id req) (co_banned core))\<rparr>"
    "\<not> fst (is_banned now_ms (hq_client_id req) (co_banned core))"
proof -
  obtain m where m: "parse_mac_key (lib_hex_decode L) (hq_mac req) = Some m"
    using assms by (auto simp: hs_admit_def canonical_mac_def split: if_splits option.splits)
  have "length m = 6" using parse_mac_key_length [OF m] .
  then show ?thesis using assms that m
    by (auto simp: hs_admit_def admitted_def canonical_mac_def is_valid_session_mac_def zero_mac_def Let_def not_less
        split: if_splits prod.splits)
qed

text \<open>An epoch is kept with its connections, or a new one starts without any.\<close>

definition epoch_step :: "'c client_session \<Rightarrow> 'c client_session \<Rightarrow> bool" where
  "epoch_step s t \<longleftrightarrow>
     cx_epoch (cs_rx t) = cx_epoch (cs_rx s) \<and> cx_active_conns (cs_rx t) = cx_active_conns (cs_rx s)
     \<or> cx_epoch (cs_rx t) = saturating_add (cx_epoch (cs_rx s)) 1 \<and> cx_active_conns (cs_rx t) = 0"

lemma rotate_ok:
  assumes "rotate_session_epoch L psk encrypt inst a b s = Inr t"
  shows "same_identity s t" "epoch_step s t"
  using assms
  by (auto simp: rotate_session_epoch_def same_identity_def epoch_step_def rotate_rx_def Let_def split: sum.splits prod.splits option.splits)

lemma hs_rotate_ok: "same_identity s (snd (hs_rotate L i req core s)) \<and> epoch_step s (snd (hs_rotate L i req core s))"
proof -
  obtain ok e1 where e: "accept_session_resume_token (cs_epoch s) (hq_session_token req) = (ok, e1)" by fastforce
  define s1 where "s1 = s\<lparr>cs_epoch := e1\<rparr>"
  have s1: "same_identity s s1" "epoch_step s s1" by (simp_all add: s1_def same_identity_def epoch_step_def)
  show ?thesis
  proof (cases "rotate_session_epoch L (co_psk core) (co_encrypt core) (hq_client_instance req) (hi_salt_a i) (hi_salt_b i) s1")
    case (Inl err)
    then show ?thesis using s1 by (simp add: hs_rotate_def e flip: s1_def)
  next
    case (Inr s2)
    have "same_identity s s2" "epoch_step s s2"
      using rotate_ok [OF Inr] s1 by (simp_all add: same_identity_def epoch_step_def s1_def)
    then show ?thesis using s1 Inr
      by (cases ok) (simp_all add: hs_rotate_def e same_identity_def epoch_step_def split: option.split flip: s1_def)
  qed
qed

text \<open>Joining refuses with an epoch step, or adds one connection after it.\<close>

definition joined :: "'c client_session \<Rightarrow> 'c client_session \<Rightarrow> bool" where
  "joined s t \<longleftrightarrow>
     (\<exists>u. epoch_step s u \<and> cx_active_conns (cs_rx u) < 16 \<and> cx_epoch (cs_rx t) = cx_epoch (cs_rx u)
        \<and> cx_active_conns (cs_rx t) = cx_active_conns (cs_rx u) + 1)"

lemma hs_join_ok:
  assumes "hs_join L i req core s = (r, t)"
  shows "same_identity s t" "r \<noteq> None \<Longrightarrow> epoch_step s t" "r = None \<Longrightarrow> joined s t"
proof -
  define p where "p = (if ep_instance_id (cs_epoch s) \<noteq> hq_client_instance req then hs_rotate L i req core s
                       else (None, s\<lparr>cs_epoch := promote_pending (hq_session_token req) (cs_epoch s)\<rparr>))"
  obtain q u where pq: "p = (q, u)" by (cases p)
  have u: "same_identity s u" "epoch_step s u"
    using hs_rotate_ok [of s L i req core] pq by (auto simp: p_def same_identity_def epoch_step_def split: if_splits)
  have j: "hs_join L i req core s =
     (if hq_mac req \<noteq> cs_mac s then (Some HS_TarpitClose, s)
      else if ep_enc_algo (cs_epoch s) \<noteq> hq_enc_algo req then (Some HS_Close, s)
      else case q of
             Some oc \<Rightarrow> (Some oc, u)
           | None \<Rightarrow>
               let s2 = u\<lparr>cs_deadline := None\<rparr>
               in if cx_active_conns (cs_rx s2) \<ge> 16 then (Some HS_Close, s2)
                  else (None, s2\<lparr>cs_rx := (cs_rx s2)\<lparr>cx_active_conns := cx_active_conns (cs_rx s2) + 1\<rparr>\<rparr>))"
    by (simp add: hs_join_def pq flip: p_def)
  show "same_identity s t" using assms u unfolding j by (auto simp: same_identity_def Let_def split: if_splits option.splits)
  show "r \<noteq> None \<Longrightarrow> epoch_step s t" using assms u unfolding j by (auto simp: epoch_step_def Let_def split: if_splits option.splits)
  show "joined s t" if "r = None"
    using assms u that unfolding j joined_def by (auto simp: Let_def not_le split: if_splits option.splits intro!: exI [of _ u])
qed

subsection \<open>Creating\<close>

definition same_config :: "'c server_core \<Rightarrow> 'c server_core \<Rightarrow> bool" where
  "same_config core core' \<longleftrightarrow>
     co_psk core' = co_psk core \<and> co_psk_hash core' = co_psk_hash core \<and> co_encrypt core' = co_encrypt core
     \<and> co_enc_algo core' = co_enc_algo core \<and> co_max_sessions core' = co_max_sessions core"

definition config_ok :: "'c server_core \<Rightarrow> bool" where
  "config_ok core \<longleftrightarrow> (co_encrypt core \<longrightarrow> is_inner_aead_algo (co_enc_algo core))"

text \<open>The randomness and the new \<open>Arc\<close> of a handshake.\<close>

definition input_ok :: "hs_input \<Rightarrow> bool" where
  "input_ok i \<longleftrightarrow> length (hi_salt_a i) = 8 \<and> length (hi_salt_b i) = 8 \<and> 4096 \<le> length (hi_pad_cache i)"

lemma new_ciphers_total:
  assumes "crypto_lib_ok L" "config_ok core" "input_ok i"
  shows "new_ciphers L i core \<noteq> None"
proof (cases "co_encrypt core")
  case True
  then have a: "is_inner_aead_algo (co_enc_algo core)" using assms by (simp add: config_ok_def)
  have "length (hi_salt_a i) = 8" "length (hi_salt_b i) = 8" using assms by (simp_all add: input_ok_def)
  note d = domain_for_algo_ok [OF assms(1) _ a]
  obtain tx rx ftx frx where "for_algo L (co_psk core) (hi_salt_b i) (co_enc_algo core) = Inr tx"
    "for_algo L (co_psk core) (hi_salt_a i) (co_enc_algo core) = Inr rx"
    "domain_for_algo L (co_psk core) (hi_salt_b i) ''fec'' (co_enc_algo core) = Inr ftx"
    "domain_for_algo L (co_psk core) (hi_salt_a i) ''fec'' (co_enc_algo core) = Inr frx"
    using d [of "hi_salt_a i" "''data''"] d [of "hi_salt_b i" "''data''"] d [of "hi_salt_a i" "''fec''"] d [of "hi_salt_b i" "''fec''"] assms(3)
    unfolding for_algo_def input_ok_def by blast
  then show ?thesis using True a by (simp add: new_ciphers_def inner_ok_def)
qed (simp add: new_ciphers_def)

text \<open>How a handshake changes the sessions: refusal, join, creation.\<close>

definition refused_change :: "string \<Rightarrow> 'c server_core \<Rightarrow> 'c server_core \<Rightarrow> bool" where
  "refused_change cid core core' \<longleftrightarrow>
     map_of (co_sessions core') = map_of (co_sessions core)
     \<or> (\<exists>s t. map_of (co_sessions core) cid = Some s \<and> map_of (co_sessions core') = (map_of (co_sessions core))(cid \<mapsto> t)
          \<and> same_identity s t \<and> epoch_step s t)"

definition accepted_change :: "nat \<Rightarrow> string \<Rightarrow> 'c client_session \<Rightarrow> 'c server_core \<Rightarrow> 'c server_core \<Rightarrow> bool" where
  "accepted_change arc cid t core core' \<longleftrightarrow>
     cs_client_id t = cid \<and> map_of (co_sessions core') = (map_of (co_sessions core))(cid \<mapsto> t)
     \<and> (case map_of (co_sessions core) cid of
          Some s \<Rightarrow> same_identity s t \<and> joined s t
        | None \<Rightarrow> cs_arc t = arc \<and> cx_epoch (cs_rx t) = 1 \<and> cx_active_conns (cs_rx t) = 1)"

lemma new_session_wf:
  assumes a: "admitted L H core req m" and h: "\<And>b. lib_hex_decode L (hex_byte b) = Some [b]"
    and s: "s = new_session_record L i (req\<lparr>hq_mac := mac_to_string m\<rparr>) ciphers token v4 v6"
  shows "session_wf H (co_psk core) s"
proof -
  have p: "parse_mac_key (lib_hex_decode L) (mac_to_string m) = Some m"
    using parse_mac_to_string [of "lib_hex_decode L" m, OF h] a by (simp add: admitted_def)
  have "cs_client_id s = hq_client_id req" "cs_mac s = mac_to_string m" "cs_mac_bin s = m"
    by (simp_all add: s new_session_record_def Let_def p split: prod.split)
  then show ?thesis using a unfolding session_wf_def admitted_def by metis
qed

lemma hs_create_ok:
  fixes core :: "'c server_core"
  assumes libs: "crypto_lib_ok L" "\<And>b. lib_hex_decode L (hex_byte b) = Some [b]" and cfg: "config_ok core" and i: "input_ok i"
    and inv: "registry_inv H h0 core" and a: "admitted L H core req0 m" and req: "req = req0\<lparr>hq_mac := mac_to_string m\<rparr>"
    and new: "map_of (co_sessions core) (hq_client_id req) = None" and arc: "hi_arc i \<noteq> h0" "hi_arc i \<notin> ran (attr cs_arc core)"
  shows "\<exists>found core'. hs_create L i req core = Some (found, core') \<and> registry_inv H h0 core' \<and> same_config core core'
    \<and> (case found of Inl oc \<Rightarrow> oc \<noteq> HS_Ok \<and> refused_change (hq_client_id req) core core'
       | Inr t \<Rightarrow> accepted_change (hi_arc i) (hq_client_id req) t core core')"
proof (cases "co_max_sessions core > 0 \<and> int (length (co_sessions core)) \<ge> co_max_sessions core")
  case True
  then show ?thesis using inv by (simp add: hs_create_def same_config_def refused_change_def)
next
  case room: False
  obtain ciphers where ci: "new_ciphers L i core = Some ciphers" using new_ciphers_total [OF libs(1) cfg i] by auto
  define rv where "rv = (case (if hq_mac req \<noteq> [] then mac_to_ip (co_pool core) (hq_mac req) else None) of
                                  Some b \<Rightarrow> b | None \<Rightarrow> (hq_ipv4 req, hq_ipv6 req))"
  obtain r4 r6 where rv': "rv = (r4, r6)" by (cases rv)
  obtain v4 p1 where v4: "alloc_v4 r4 (co_pool core) = (v4, p1)" by (cases "alloc_v4 r4 (co_pool core)")
  obtain v6 p2 where v6: "alloc_v6 r6 p1 = (v6, p2)" by (cases "alloc_v6 r6 p1")
  define tok where "tok = (if valid_session_token_format L (hq_session_token req) then Some (hq_session_token req) else new_session_token L (hi_token i))"
  have c: "hs_create L i req core =
     (if v4 = [] then Some (Inl HS_TarpitClose, core\<lparr>co_pool := p1\<rparr>)
      else if v6 = [] then Some (Inl HS_TarpitClose, core\<lparr>co_pool := p2\<lparr>used_v4 := used_v4 p2 - {v4}\<rparr>\<rparr>)
      else case tok of
        None \<Rightarrow> Some (Inl HS_Close, core\<lparr>co_pool := pool_release (hq_mac req) v4 v6 p2\<rparr>)
      | Some token \<Rightarrow>
          let s = new_session_record L i req ciphers token v4 v6
          in Some (Inr s, register_session (hi_now i) s (core\<lparr>co_pool := p2\<rparr>)))"
    unfolding hs_create_def rv_def [symmetric] rv' tok_def [symmetric] if_not_P [OF room] using ci v4 v6 by simp
  let ?cid = "hq_client_id req"
  have p1: "used_v4 p1 = (if v4 = [] then used_v4 (co_pool core) else insert v4 (used_v4 (co_pool core)))" "used_v6 p1 = used_v6 (co_pool core)"
    "mac_to_ip p1 = mac_to_ip (co_pool core)" "v4 \<noteq> [] \<Longrightarrow> v4 \<notin> used_v4 (co_pool core)"
    using v4 by (cases rule: alloc_v4_cases [of r4 "co_pool core"]; auto)+
  have p2: "used_v4 p2 = used_v4 p1" "used_v6 p2 = (if v6 = [] then used_v6 p1 else insert v6 (used_v6 p1))"
    "mac_to_ip p2 = mac_to_ip p1" "v6 \<noteq> [] \<Longrightarrow> v6 \<notin> used_v6 p1"
    using v6 by (cases rule: alloc_v6_cases [of r6 p1]; auto)+
  have refuse: ?thesis if "hs_create L i req core = Some (Inl oc, core\<lparr>co_pool := p\<rparr>)" "oc \<noteq> HS_Ok" "used_v4 p = used_v4 (co_pool core)"
    "used_v6 p = used_v6 (co_pool core)" "mac_to_ip p = mac_to_ip (co_pool core)" for oc p
    using that registry_pool [OF inv that(3-5)] by (simp add: same_config_def refused_change_def)
  have nobind: "mac_to_ip (co_pool core) (hq_mac req) = None"
  proof (rule ccontr)
    assume "mac_to_ip (co_pool core) (hq_mac req) \<noteq> None"
    then obtain c t where t: "map_of (co_sessions core) c = Some t" "cs_mac t = hq_mac req"
      using registry_invD(6) [OF inv] by (auto simp: bindings_ok_def attr_def)
    then have "c = ?cid" using registry_invD(1,2) [OF inv t(1)] a unfolding session_wf_def admitted_def req by simp
    then show False using t new by simp
  qed
  show ?thesis
  proof (cases "v4 = [] \<or> v6 = [] \<or> tok = None")
    case True
    consider "v4 = []" | "v4 \<noteq> []" "v6 = []" | "v4 \<noteq> []" "v6 \<noteq> []" "tok = None" using True by blast
    then show ?thesis
    proof cases
      case 1
      then show ?thesis using c p1 by (intro refuse [of HS_TarpitClose p1]) simp_all
    next
      case 2
      then show ?thesis using c p1 p2 by (intro refuse [of HS_TarpitClose "p2\<lparr>used_v4 := used_v4 p2 - {v4}\<rparr>"]) simp_all
    next
      case 3
      then show ?thesis using c p1 p2 nobind
        by (intro refuse [of HS_Close "pool_release (hq_mac req) v4 v6 p2"]) (simp_all add: pool_release_def Let_def)
    qed
  next
    case False
    then obtain token where ok: "v4 \<noteq> []" "v6 \<noteq> []" "tok = Some token" by auto
    define s :: "'c client_session" where "s = new_session_record L i req ciphers token v4 v6"
    have s: "cs_client_id s = ?cid" "cs_arc s = hi_arc i" "cs_ipv4 s = v4" "cs_ipv6 s = v6" "cx_epoch (cs_rx s) = 1" "cx_active_conns (cs_rx s) = 1"
      by (simp_all add: s_def new_session_record_def Let_def split: prod.split)
    have wf: "session_wf H (co_psk core) s" by (rule new_session_wf [OF a libs(2)]) (simp add: s_def req)
    have n: "attr cs_ipv4 core ?cid = None" "attr cs_ipv6 core ?cid = None" using new by (simp_all add: attr_def)
    have l4: "leases (used_v4 p2) (co_gw_v4 core) ((attr cs_ipv4 core)(?cid \<mapsto> v4))"
      using v4.lease_new [OF registry_invD(3) [OF inv] v4 ok(1) n(1)] p2(1) by simp
    have l6: "leases (used_v6 p2) (co_gw_v6 core) ((attr cs_ipv6 core)(?cid \<mapsto> v6))"
      using v6.lease_new [OF registry_invD(4) [OF inv, folded p1(2)] v6 ok(2) n(2)] .
    have "registry_inv H h0 (register_session (hi_now i) s (core\<lparr>co_pool := p2\<rparr>))"
      by (intro registry_register [OF inv _ wf]) (use room new arc l4 l6 p1(3) p2(3) in \<open>auto simp: s\<close>)
    then show ?thesis using c ok
      by (simp add: s_def [symmetric] accepted_change_def new s same_config_def register_session_def Let_def)
  qed
qed

lemma hs_session_ok:
  assumes libs: "crypto_lib_ok L" "\<And>b. lib_hex_decode L (hex_byte b) = Some [b]" and cfg: "config_ok core" and i: "input_ok i"
    and inv: "registry_inv H h0 core" and a: "admitted L H core req0 m" and req: "req = req0\<lparr>hq_mac := mac_to_string m\<rparr>"
    and arc: "hi_arc i \<noteq> h0" "hi_arc i \<notin> ran (attr cs_arc core)"
  shows "\<exists>found core'. hs_session L i req core = Some (found, core') \<and> registry_inv H h0 core' \<and> same_config core core'
    \<and> (case found of Inl oc \<Rightarrow> oc \<noteq> HS_Ok \<and> refused_change (hq_client_id req) core core'
       | Inr t \<Rightarrow> accepted_change (hi_arc i) (hq_client_id req) t core core')"
proof (cases "map_of (co_sessions core) (hq_client_id req)")
  case None
  then show ?thesis using hs_create_ok [OF libs cfg i inv a req None arc] by (simp add: hs_session_def)
next
  case (Some s)
  let ?cid = "hq_client_id req"
  obtain r t where j: "hs_join L i req core s = (r, t)" by (cases "hs_join L i req core s")
  note jo = hs_join_ok [OF j]
  define core' where "core' = core\<lparr>co_sessions := assoc_put ?cid t (co_sessions core)\<rparr>"
  have e: "hs_session L i req core = Some (case r of Some oc \<Rightarrow> Inl oc | None \<Rightarrow> Inr t, core')"
    by (simp add: hs_session_def Some j core'_def)
  have "registry_inv H h0 core'" unfolding core'_def by (rule registry_update [OF inv Some jo(1)])
  moreover have "same_config core core'" by (simp add: core'_def same_config_def)
  moreover have "map_of (co_sessions core') = (map_of (co_sessions core))(?cid \<mapsto> t)" by (simp add: core'_def)
  moreover have "oc \<noteq> HS_Ok" if "r = Some oc" for oc
    using j that by (auto simp: hs_join_def hs_rotate_def Let_def split: if_splits prod.splits option.splits sum.splits)
  moreover have "cs_client_id t = ?cid" using registry_invD(1) [OF inv Some] jo(1) by (simp add: same_identity_def)
  ultimately show ?thesis using e jo Some by (cases r) (auto simp: refused_change_def accepted_change_def)
qed

subsection \<open>The whole handshake\<close>

text \<open>A session kept but for its contents.\<close>

definition same_life :: "'c client_session \<Rightarrow> 'c client_session \<Rightarrow> bool" where
  "same_life s t \<longleftrightarrow> same_identity s t \<and> cx_epoch (cs_rx t) = cx_epoch (cs_rx s) \<and> cx_active_conns (cs_rx t) = cx_active_conns (cs_rx s)"

lemma attach_session_life: "same_life s (attach_session req core b s)"
  by (simp add: same_life_def same_identity_def attach_session_def Let_def split_beta)

lemma accepted_life:
  assumes "accepted_change arc cid s core core1" "same_life s t" "map_of (co_sessions core2) = (map_of (co_sessions core1))(cid \<mapsto> t)"
  shows "accepted_change arc cid t core core2"
  using assms
  by (auto simp: accepted_change_def same_life_def same_identity_def joined_def split: option.splits)

lemma registry_put:
  assumes inv: "registry_inv H h0 core" and s: "map_of (co_sessions core) (cs_client_id s) = Some s" and l: "same_life s t"
  shows "registry_inv H h0 (put_session t core)" "same_config core (put_session t core)"
    "map_of (co_sessions (put_session t core)) = (map_of (co_sessions core))(cs_client_id s \<mapsto> t)"
proof -
  have id: "cs_client_id t = cs_client_id s" "same_identity s t" using l by (simp_all add: same_life_def same_identity_def)
  show "registry_inv H h0 (put_session t core)" unfolding put_session_def id(1) by (rule registry_update [OF inv s id(2)])
  show "same_config core (put_session t core)" by (simp add: same_config_def put_session_def)
  show "map_of (co_sessions (put_session t core)) = (map_of (co_sessions core))(cs_client_id s \<mapsto> t)" by (simp add: put_session_def id)
qed

lemma same_config_trans: "same_config a b \<Longrightarrow> same_config b c \<Longrightarrow> same_config a c"
  by (simp add: same_config_def)

lemma hs_finish_ok:
  assumes libs: "hs_libs_ok TL backlog L" and i: "input_ok i" and inv: "registry_inv H h0 core"
    and s: "map_of (co_sessions core) (cs_client_id s) = Some s"
  shows "\<exists>r t. hs_finish TL L G i req s conn core = Some r \<and> registry_inv H h0 (hr_core r) \<and> same_config core (hr_core r)
    \<and> map_of (co_sessions (hr_core r)) = (map_of (co_sessions core))(cs_client_id s \<mapsto> t) \<and> same_life s t
    \<and> ms_client (hr_conn r) = Some (cs_client_id s, cs_arc s) \<and> ts_epoch (ms_tx (hr_conn r)) = cx_epoch (cs_rx s)"
proof -
  define conn1 where "conn1 = attach_conn i s conn"
  define t where "t = attach_session req core (ts_backend (ms_tx conn1)) s"
  define core1 where "core1 = put_session t core"
  have lt: "same_life s t" by (simp add: t_def attach_session_life)
  note p1 = registry_put [OF inv s lt, folded core1_def]
  have conn1: "ms_client conn1 = Some (cs_client_id s, cs_arc s)" "ts_epoch (ms_tx conn1) = cx_epoch (cs_rx s)"
    by (simp_all add: conn1_def attach_conn_def)
  have L: "crypto_lib_ok L" "tls_ok TL backlog" using libs by (simp_all add: hs_libs_ok_def)
  obtain buf rng1 where b: "append_padded_frame L (hi_pad_code i) (hi_pad_cache i) [] 0 (hl_show_resp G (hs_response L i req core t)) None
      (snd (generate_padding L 100 500 (hi_rng_resp i))) = Some (buf, rng1)"
    using append_padded_frame_wire [OF L(1)] i unfolding append_padded_frame_def input_ok_def by blast
  have st: "map_of (co_sessions core1) (cs_client_id t) = Some t" using p1(3) lt by (simp add: same_life_def same_identity_def)
  show ?thesis
  proof (cases "tls_write_all TL (ts_tls (ms_tx conn1)) buf")
    case None
    then have "hs_finish TL L G i req s conn core = Some (refused HS_Close conn1 core1)"
      using b by (simp add: hs_finish_def Let_def core1_def t_def conn1_def)
    then show ?thesis using p1 lt conn1 by (auto simp: refused_def)
  next
    case (Some tls)
    obtain close tx where d: "drain_tls TL (hi_now i) (hi_now_us i) ((ms_tx conn1)\<lparr>ts_tls := tls\<rparr>) = Some (close, tx)" "ts_epoch tx = ts_epoch (ms_tx conn1)"
      by (rule drain_tls_returns [OF L(2), of "hi_now i" "hi_now_us i" "(ms_tx conn1)\<lparr>ts_tls := tls\<rparr>" "\<lambda>_. []"]) simp
    define r where "r = hs_finish TL L G i req s conn core"
    define call where "call = brutal_call L req core (hp_session_token (hs_response L i req core t))"
    define t1 where "t1 = t\<lparr>cs_brutal_applied := cs_brutal_applied t + (if call \<noteq> None \<and> hi_brutal_applied i then 1 else 0),
                              cs_brutal_error := (if call \<noteq> None then hi_brutal_error i else [])\<rparr>"
    have r: "r = Some (if close
        then \<lparr>hr_outcome = HS_Close, hr_conn = conn1\<lparr>ms_tx := tx\<rparr>, hr_core = core1, hr_resp = Some (hs_response L i req core t), hr_wire = buf, hr_brutal = None\<rparr>
        else \<lparr>hr_outcome = HS_Ok, hr_conn = conn1\<lparr>ms_tx := tx, ms_brutal_applied := (call \<noteq> None \<and> hi_brutal_applied i)\<rparr>,
              hr_core = put_session t1 core1, hr_resp = Some (hs_response L i req core t), hr_wire = buf, hr_brutal = call\<rparr>)"
      unfolding r_def hs_finish_def conn1_def [symmetric] Let_def t_def [symmetric] core1_def [symmetric] call_def [symmetric] t1_def [symmetric]
      using b Some d by simp
    have "same_life t t1" by (simp add: t1_def same_life_def same_identity_def)
    note p2 = registry_put [OF p1(1) st this]
    have "same_life s t1" using lt by (simp add: t1_def same_life_def same_identity_def)
    then show ?thesis
      using p1 p2 lt conn1 d(2) same_config_trans [OF p1(2) p2(2)]
      by (cases close) (auto simp: r [unfolded r_def] same_life_def same_identity_def)
  qed
qed

lemma registry_ban: "registry_inv H h0 core \<Longrightarrow> registry_inv H h0 (core\<lparr>co_banned := b\<rparr>)"
  using registry_invD [of H h0 core] by (intro registry_invI) (auto simp: attr_def [abs_def])

lemma admitted_ban: "admitted L H (core\<lparr>co_banned := b\<rparr>) req m = admitted L H core req m"
  by (simp add: admitted_def)

text \<open>Either nobody is attached and at most an epoch step happened, or the connection is attached.\<close>

definition handled :: "hs_lib \<Rightarrow> nat \<Rightarrow> nat \<Rightarrow> 'c server_core \<Rightarrow> ('c, 't) hs_result \<Rightarrow> bool" where
  "handled H h0 arc core r \<longleftrightarrow>
     registry_inv H h0 (hr_core r) \<and> same_config core (hr_core r)
     \<and> (hr_outcome r \<noteq> HS_Ok \<and> ms_client (hr_conn r) = None \<and> (\<exists>cid. refused_change cid core (hr_core r))
        \<or> (\<exists>cid t. ms_client (hr_conn r) = Some (cid, cs_arc t) \<and> ts_epoch (ms_tx (hr_conn r)) = cx_epoch (cs_rx t)
             \<and> accepted_change arc cid t core (hr_core r)))"

lemma handle_handshake_ok:
  assumes libs: "hs_libs_ok TL backlog L" and cfg: "config_ok core" and i: "input_ok i" and inv: "registry_inv H h0 core"
    and arc: "hi_arc i \<noteq> h0" "hi_arc i \<notin> ran (attr cs_arc core)" and conn: "ms_client conn = None"
  shows "\<exists>r. handle_handshake TL L H i data conn core = Some r \<and> handled H h0 (hi_arc i) core r"
proof (cases "hl_parse_req H data")
  case None
  then show ?thesis using inv conn by (simp add: handle_handshake_def handled_def refused_def same_config_def refused_change_def)
next
  case (Some req0)
  define conn1 where "conn1 = conn\<lparr>ms_tx := (ms_tx conn)\<lparr>ts_backend := (ts_backend (ms_tx conn))\<lparr>pb_conn_id := parse_conn_id H (hq_conn_id req0)\<rparr>\<rparr>\<rparr>"
  define req1 where "req1 = req0\<lparr>hq_conn_id := parse_conn_id H (hq_conn_id req0)\<rparr>"
  have c1: "ms_client conn1 = None" using conn by (simp add: conn1_def)
  obtain a where a: "hs_admit L H (hi_now_ms i) core req1 = Some a" using hs_admit_total by fastforce
  show ?thesis
  proof (cases a)
    case (Inl oc)
    then have "oc \<noteq> HS_Ok" using a by (auto simp: hs_admit_def Let_def split: if_splits option.splits prod.splits)
    moreover have "handle_handshake TL L H i data conn core = Some (refused oc conn1 core)"
      using a Inl unfolding req1_def by (simp add: handle_handshake_def Some Let_def conn1_def)
    ultimately show ?thesis using inv c1 by (simp add: handled_def refused_def same_config_def refused_change_def)
  next
    case (Inr rc)
    obtain req core1 where rc: "rc = (req, core1)" by (cases rc)
    obtain m where m: "admitted L H core req1 m" "req = req1\<lparr>hq_mac := mac_to_string m\<rparr>"
      "core1 = core\<lparr>co_banned := snd (is_banned (hi_now_ms i) (hq_client_id req1) (co_banned core))\<rparr>"
      using hs_admit_cases [OF a [unfolded Inr rc]] by blast
    have k: "co_sessions core1 = co_sessions core" "same_config core core1" "config_ok core1" "admitted L H core1 req1 m" "attr cs_arc core1 = attr cs_arc core"
      using m(1) cfg unfolding m(3) admitted_ban by (simp_all add: same_config_def config_ok_def attr_def [abs_def])
    have inv1: "registry_inv H h0 core1" unfolding m(3) by (rule registry_ban [OF inv])
    have L: "crypto_lib_ok L" "\<And>b. lib_hex_decode L (hex_byte b) = Some [b]" using libs by (auto simp: hs_libs_ok_def)
    obtain found core2 where f: "hs_session L i req core1 = Some (found, core2)" "registry_inv H h0 core2" "same_config core1 core2"
      "case found of Inl oc \<Rightarrow> oc \<noteq> HS_Ok \<and> refused_change (hq_client_id req) core1 core2 | Inr t \<Rightarrow> accepted_change (hi_arc i) (hq_client_id req) t core1 core2"
      using hs_session_ok [OF L k(3) i inv1 k(4) m(2) arc(1) arc(2) [folded k(5)]] by blast
    have h: "handle_handshake TL L H i data conn core =
        (case found of Inl oc \<Rightarrow> Some (refused oc conn1 core2) | Inr s \<Rightarrow> hs_finish TL L H i req s conn1 core2)"
      using a Inr rc f(1) unfolding req1_def by (cases found) (simp_all add: handle_handshake_def Some Let_def conn1_def)
    have ch: "refused_change cid core1 core2 = refused_change cid core core2" "accepted_change arc cid t core1 c = accepted_change arc cid t core c" for cid arc t c
      by (simp_all add: refused_change_def accepted_change_def k(1))
    show ?thesis
    proof (cases found)
      case (Inl oc)
      then show ?thesis using h f c1 ch same_config_trans [OF k(2) f(3)] by (auto simp: handled_def refused_def)
    next
      case (Inr s)
      then have ac: "accepted_change (hi_arc i) (hq_client_id req) s core core2" using f(4) ch by simp
      then have s: "cs_client_id s = hq_client_id req" "map_of (co_sessions core2) (cs_client_id s) = Some s" by (simp_all add: accepted_change_def)
      obtain r t where r: "hs_finish TL L H i req s conn1 core2 = Some r" "registry_inv H h0 (hr_core r)" "same_config core2 (hr_core r)"
        "map_of (co_sessions (hr_core r)) = (map_of (co_sessions core2))(cs_client_id s \<mapsto> t)" "same_life s t"
        "ms_client (hr_conn r) = Some (cs_client_id s, cs_arc s)" "ts_epoch (ms_tx (hr_conn r)) = cx_epoch (cs_rx s)"
        using hs_finish_ok [OF libs i f(2) s(2), of H req conn1] by blast
      have "accepted_change (hi_arc i) (hq_client_id req) t core (hr_core r)" using accepted_life [OF ac r(5)] r(4) s(1) by simp
      moreover have "ms_client (hr_conn r) = Some (hq_client_id req, cs_arc t)" "ts_epoch (ms_tx (hr_conn r)) = cx_epoch (cs_rx t)"
        using r(5-7) s(1) by (simp_all add: same_life_def same_identity_def)
      moreover have "same_config core (hr_core r)" using same_config_trans [OF k(2)] same_config_trans [OF f(3) r(3)] by blast
      ultimately show ?thesis using h Inr r(1,2) unfolding handled_def by auto
    qed
  qed
qed

end
