(* ===== verification/Server_System.thy ===== *)
theory Server_System
  imports Server_Handshake_Props
begin

text \<open>
  Runs of the server over its registry and its open connections: accepts, handshakes, closes,
  exhausted sequence numbers, the reaper, traffic of the switch and changes of the data path. The
  invariant of the registry holds throughout, and the counter of a session is the number of its
  open connections of the current epoch.
\<close>

subsection \<open>The server as a system\<close>

record ('c, 't) server_sys =
  sv_core :: "'c server_core"
  sv_conns :: "nat \<Rightarrow> ('c, 't) mio_session option"

text \<open>
  The events; \<open>Sv_Data\<close> and \<open>Sv_Io\<close> stand for what the data path does to the receive state and
  port of a session, and to a connection.
\<close>

datatype ('c, 't) server_event =
    Sv_Accept nat "('c, 't) mio_session"
  | Sv_Handshake nat hs_input bytes
  | Sv_Close nat nat
  | Sv_Exhausted string string
  | Sv_Reap nat u64
  | Sv_Traffic traffic
  | Sv_Data string client_rx "'c async_port"
  | Sv_Io nat "('c, 't) mio_session"

definition handshake_step ::
  "'t tls_lib \<Rightarrow> crypto_lib \<Rightarrow> hs_lib \<Rightarrow> nat \<Rightarrow> hs_input \<Rightarrow> bytes \<Rightarrow> ('c, 't) server_sys \<Rightarrow> ('c, 't) server_sys option" where
  "handshake_step TL L H t i data sys =
     (case sv_conns sys t of
        None \<Rightarrow> Some sys
      | Some conn \<Rightarrow>
          if ms_client conn \<noteq> None then Some sys
          else case handle_handshake TL L H i data conn (sv_core sys) of
            None \<Rightarrow> None
          | Some r \<Rightarrow>
              Some (if hr_outcome r = HS_Ok then sys\<lparr>sv_core := hr_core r, sv_conns := (sv_conns sys)(t \<mapsto> hr_conn r)\<rparr>
                    else sys\<lparr>sv_core := on_conn_closed (hi_now i) (hr_conn r) (hr_core r), sv_conns := (sv_conns sys)(t := None)\<rparr>))"

fun sv_step :: "'t tls_lib \<Rightarrow> crypto_lib \<Rightarrow> hs_lib \<Rightarrow> ('c, 't) server_event \<Rightarrow> ('c, 't) server_sys \<Rightarrow> ('c, 't) server_sys option" where
  "sv_step TL L H (Sv_Accept t conn) sys =
     Some (if sv_conns sys t = None then sys\<lparr>sv_conns := (sv_conns sys)(t \<mapsto> conn\<lparr>ms_client := None\<rparr>)\<rparr> else sys)"
| "sv_step TL L H (Sv_Handshake t i data) sys = handshake_step TL L H t i data sys"
| "sv_step TL L H (Sv_Close t now) sys =
     Some (case sv_conns sys t of
             None \<Rightarrow> sys
           | Some conn \<Rightarrow> sys\<lparr>sv_core := on_conn_closed now conn (sv_core sys), sv_conns := (sv_conns sys)(t := None)\<rparr>)"
| "sv_step TL L H (Sv_Exhausted cid fresh) sys =
     Some (case map_of (co_sessions (sv_core sys)) cid of
             None \<Rightarrow> sys
           | Some s \<Rightarrow> sys\<lparr>sv_core := put_session (session_exhausted fresh s) (sv_core sys)\<rparr>)"
| "sv_step TL L H (Sv_Reap now now_ms) sys = Some (sys\<lparr>sv_core := reap_sessions now now_ms (sv_core sys)\<rparr>)"
| "sv_step TL L H (Sv_Traffic e) sys =
     (let core = sv_core sys; sw = set_validate_mac (core_validate core) (co_switch core)
      in Some (sys\<lparr>sv_core := core\<lparr>co_switch := snd (switch_traffic e sw)\<rparr>\<rparr>))"
| "sv_step TL L H (Sv_Data cid rx port) sys =
     Some (case map_of (co_sessions (sv_core sys)) cid of
             None \<Rightarrow> sys
           | Some s \<Rightarrow>
               sys\<lparr>sv_core := put_session
                 (s\<lparr>cs_rx := rx\<lparr>cx_epoch := cx_epoch (cs_rx s), cx_active_conns := cx_active_conns (cs_rx s)\<rparr>, cs_port := port\<rparr>) (sv_core sys)\<rparr>)"
| "sv_step TL L H (Sv_Io t conn') sys =
     Some (case sv_conns sys t of
             None \<Rightarrow> sys
           | Some conn \<Rightarrow>
               sys\<lparr>sv_conns := (sv_conns sys)(t \<mapsto> conn'\<lparr>ms_client := ms_client conn,
                                                        ms_tx := (ms_tx conn')\<lparr>ts_epoch := ts_epoch (ms_tx conn)\<rparr>\<rparr>)\<rparr>)"

fun sv_run :: "'t tls_lib \<Rightarrow> crypto_lib \<Rightarrow> hs_lib \<Rightarrow> ('c, 't) server_event list \<Rightarrow> ('c, 't) server_sys \<Rightarrow> ('c, 't) server_sys option" where
  "sv_run TL L H [] sys = Some sys"
| "sv_run TL L H (ev # evs) sys = (case sv_step TL L H ev sys of None \<Rightarrow> None | Some sys1 \<Rightarrow> sv_run TL L H evs sys1)"

text \<open>The open connections of a session's epoch.\<close>

definition attached :: "(nat \<Rightarrow> ('c, 't) mio_session option) \<Rightarrow> string \<Rightarrow> nat \<Rightarrow> u64 \<Rightarrow> nat set" where
  "attached conns cid arc ep = {t. \<exists>c. conns t = Some c \<and> ms_client c = Some (cid, arc) \<and> ts_epoch (ms_tx c) = ep}"

definition conn_arcs :: "(nat \<Rightarrow> ('c, 't) mio_session option) \<Rightarrow> nat set" where
  "conn_arcs conns = {arc. \<exists>t c cid. conns t = Some c \<and> ms_client c = Some (cid, arc)}"

definition counted :: "nat \<Rightarrow> (nat \<Rightarrow> ('c, 't) mio_session option) \<Rightarrow> 'c client_session \<Rightarrow> bool" where
  "counted n conns s \<longleftrightarrow>
     unat (cx_active_conns (cs_rx s)) = card (attached conns (cs_client_id s) (cs_arc s) (cx_epoch (cs_rx s)))
     \<and> cx_active_conns (cs_rx s) \<le> 16 \<and> unat (cx_epoch (cs_rx s)) \<le> n
     \<and> (\<forall>t c. conns t = Some c \<longrightarrow> ms_client c = Some (cs_client_id s, cs_arc s) \<longrightarrow> ts_epoch (ms_tx c) \<le> cx_epoch (cs_rx s))"

definition sys_inv :: "hs_lib \<Rightarrow> nat \<Rightarrow> nat \<Rightarrow> ('c, 't) server_sys \<Rightarrow> bool" where
  "sys_inv H h0 n sys \<longleftrightarrow>
     registry_inv H h0 (sv_core sys) \<and> config_ok (sv_core sys) \<and> finite (dom (sv_conns sys))
     \<and> (\<forall>cid s. map_of (co_sessions (sv_core sys)) cid = Some s \<longrightarrow> counted n (sv_conns sys) s)"

text \<open>A new \<open>Arc\<close> is none of the live ones; randomness and padding have their lengths.\<close>

fun event_ok :: "nat \<Rightarrow> ('c, 't) server_event \<Rightarrow> ('c, 't) server_sys \<Rightarrow> bool" where
  "event_ok h0 (Sv_Handshake t i data) sys \<longleftrightarrow>
     input_ok i \<and> hi_arc i \<noteq> h0 \<and> hi_arc i \<notin> ran (attr cs_arc (sv_core sys)) \<and> hi_arc i \<notin> conn_arcs (sv_conns sys)"
| "event_ok h0 _ sys \<longleftrightarrow> True"

fun events_ok :: "'t tls_lib \<Rightarrow> crypto_lib \<Rightarrow> hs_lib \<Rightarrow> nat \<Rightarrow> ('c, 't) server_event list \<Rightarrow> ('c, 't) server_sys \<Rightarrow> bool" where
  "events_ok TL L H h0 [] sys \<longleftrightarrow> True"
| "events_ok TL L H h0 (ev # evs) sys \<longleftrightarrow>
     event_ok h0 ev sys \<and> (case sv_step TL L H ev sys of None \<Rightarrow> True | Some sys1 \<Rightarrow> events_ok TL L H h0 evs sys1)"

subsection \<open>Counting connections\<close>

lemma finite_attached: "finite (dom conns) \<Longrightarrow> finite (attached conns cid arc ep)"
  by (rule finite_subset [of _ "dom conns"]) (auto simp: attached_def)

lemma counted_mono: "counted n conns s \<Longrightarrow> n \<le> k \<Longrightarrow> counted k conns s"
  by (simp add: counted_def)

lemma counted_life: "counted n conns s \<Longrightarrow> same_life s t \<Longrightarrow> counted n conns t"
  by (simp add: counted_def same_life_def same_identity_def)

lemma saturating_epoch:
  fixes e :: u64
  assumes "unat e \<le> n" "n + 1 < 2 ^ 64"
  shows "saturating_add e 1 = e + 1" "e < e + 1" "unat (e + 1) = unat e + 1"
proof -
  have l: "unat e + 1 < 2 ^ 64" using assms by simp
  then show "saturating_add e 1 = e + 1" by (simp add: saturating_add_def)
  show u: "unat (e + 1) = unat e + 1" using l by (simp add: unat_word_ariths)
  show "e < e + 1" unfolding word_less_nat_alt u by simp
qed

lemma counted_step:
  assumes c: "counted n conns s" and i: "same_identity s t" and e: "epoch_step s t" and n: "n + 1 < 2 ^ 64"
  shows "counted (n + 1) conns t"
proof (cases "cx_epoch (cs_rx t) = cx_epoch (cs_rx s) \<and> cx_active_conns (cs_rx t) = cx_active_conns (cs_rx s)")
  case True
  then show ?thesis using c i counted_mono [of n conns t "n + 1"] counted_life [of n conns s t] by (simp add: same_life_def)
next
  case False
  let ?e = "cx_epoch (cs_rx s)"
  have le: "unat ?e \<le> n" using c by (simp add: counted_def)
  note se = saturating_epoch [OF le n]
  have t: "cx_epoch (cs_rx t) = ?e + 1" "cx_active_conns (cs_rx t) = 0" using e False se(1) by (auto simp: epoch_step_def)
  have id: "cs_client_id t = cs_client_id s" "cs_arc t = cs_arc s" using i by (simp_all add: same_identity_def)
  have old: "ts_epoch (ms_tx c) \<le> ?e" if "conns k = Some c" "ms_client c = Some (cs_client_id s, cs_arc s)" for k c
    using c that by (simp add: counted_def)
  then have "attached conns (cs_client_id s) (cs_arc s) (?e + 1) = {}" using se(2) by (force simp: attached_def)
  moreover have "ts_epoch (ms_tx c) \<le> ?e + 1" if "conns k = Some c" "ms_client c = Some (cs_client_id s, cs_arc s)" for k c
    using old [OF that] se(2) by (meson order.strict_implies_order order_trans)
  ultimately show ?thesis using t id le se(3) by (simp add: counted_def)
qed

text \<open>Connections of another session, or of none, do not matter.\<close>

lemma counted_other:
  assumes "counted n conns s" and "\<And>c. conns k = Some c \<Longrightarrow> ms_client c \<noteq> Some (cs_client_id s, cs_arc s)"
    and "\<And>c. x = Some c \<Longrightarrow> ms_client c \<noteq> Some (cs_client_id s, cs_arc s)"
  shows "counted n (conns(k := x)) s"
proof -
  have "attached (conns(k := x)) (cs_client_id s) (cs_arc s) ep = attached conns (cs_client_id s) (cs_arc s) ep" for ep
    unfolding attached_def using assms(2,3) by (intro Collect_cong) auto
  then show ?thesis using assms by (auto simp: counted_def)
qed

lemma counted_attach:
  assumes c: "counted n conns u" and f: "finite (dom conns)" and k: "conns k = Some c0" "ms_client c0 = None"
    and c': "ms_client c' = Some (cs_client_id t, cs_arc t)" "ts_epoch (ms_tx c') = cx_epoch (cs_rx t)"
    and t: "same_identity u t" "cx_epoch (cs_rx t) = cx_epoch (cs_rx u)" "cx_active_conns (cs_rx t) = cx_active_conns (cs_rx u) + 1"
      "cx_active_conns (cs_rx u) < 16"
  shows "counted n (conns(k \<mapsto> c')) t"
proof -
  have id: "cs_client_id t = cs_client_id u" "cs_arc t = cs_arc u" using t by (simp_all add: same_identity_def)
  let ?A = "attached conns (cs_client_id u) (cs_arc u) (cx_epoch (cs_rx u))"
  have "attached (conns(k \<mapsto> c')) (cs_client_id t) (cs_arc t) (cx_epoch (cs_rx t)) = insert k ?A"
    using k c' t(2) id by (auto simp: attached_def)
  moreover have "k \<notin> ?A" using k by (simp add: attached_def)
  moreover have u: "unat (cx_active_conns (cs_rx t)) = unat (cx_active_conns (cs_rx u)) + 1"
    using t(3,4) by (simp add: word_less_nat_alt unat_word_ariths)
  moreover have "cx_active_conns (cs_rx t) \<le> 16" using u t(4) by (simp add: word_le_nat_alt word_less_nat_alt)
  ultimately show ?thesis using c c' t(2) id finite_attached [OF f] by (auto simp: counted_def)
qed

lemma counted_detach:
  assumes c: "counted n conns s" and f: "finite (dom conns)" and k: "conns k = Some c0" "ms_client c0 = Some (cs_client_id s, cs_arc s)"
  shows "counted n (conns(k := None)) (session_conn_closed now ch (ts_epoch (ms_tx c0)) brutal s)"
proof -
  let ?A = "attached conns (cs_client_id s) (cs_arc s) (cx_epoch (cs_rx s))"
  let ?t = "session_conn_closed now ch (ts_epoch (ms_tx c0)) brutal s"
  have id: "cs_client_id ?t = cs_client_id s" "cs_arc ?t = cs_arc s" "cx_epoch (cs_rx ?t) = cx_epoch (cs_rx s)"
    by (simp_all add: session_conn_closed_def Let_def)
  have A: "attached (conns(k := None)) (cs_client_id s) (cs_arc s) (cx_epoch (cs_rx s)) = ?A - {k}" by (auto simp: attached_def)
  show ?thesis
  proof (cases "ts_epoch (ms_tx c0) = cx_epoch (cs_rx s)")
    case False
    then have "k \<notin> ?A" using k by (simp add: attached_def)
    moreover have "cx_active_conns (cs_rx ?t) = cx_active_conns (cs_rx s)" using False by (auto simp: session_conn_closed_def Let_def)
    ultimately show ?thesis using c id A by (simp add: counted_def)
  next
    case True
    then have k': "k \<in> ?A" using k by (simp add: attached_def)
    then have "card ?A \<noteq> 0" using finite_attached [OF f] by (metis card_0_eq empty_iff)
    then have n: "unat (cx_active_conns (cs_rx s)) \<noteq> 0" using c by (simp add: counted_def)
    have a: "cx_active_conns (cs_rx ?t) = cx_active_conns (cs_rx s) - 1" using True by (simp add: session_conn_closed_def Let_def)
    have u: "unat (cx_active_conns (cs_rx s) - 1) = unat (cx_active_conns (cs_rx s)) - 1"
      using n by (intro unat_minus_one) auto
    have "card (?A - {k}) = card ?A - 1" using k' by simp
    moreover have "unat (cx_active_conns (cs_rx s)) \<le> 16" using c by (simp add: counted_def word_le_nat_alt)
    then have "cx_active_conns (cs_rx s) - 1 \<le> 16" unfolding word_le_nat_alt u by simp
    ultimately show ?thesis using c id A a u by (simp add: counted_def)
  qed
qed

subsection \<open>Steps\<close>

lemma sys_invD:
  assumes "sys_inv H h0 n sys"
  shows "registry_inv H h0 (sv_core sys)" "config_ok (sv_core sys)" "finite (dom (sv_conns sys))"
    "map_of (co_sessions (sv_core sys)) cid = Some s \<Longrightarrow> counted n (sv_conns sys) s"
    "map_of (co_sessions (sv_core sys)) cid = Some s \<Longrightarrow> cs_client_id s = cid"
  using assms by (auto simp: sys_inv_def registry_inv_def)

lemma sys_inv_mono: "sys_inv H h0 n sys \<Longrightarrow> n \<le> k \<Longrightarrow> sys_inv H h0 k sys"
  using counted_mono by (fastforce simp: sys_inv_def)

text \<open>One session changes in place.\<close>

lemma sys_inv_put:
  assumes inv: "sys_inv H h0 n sys" and s: "map_of (co_sessions (sv_core sys)) cid = Some s" and id: "same_identity s t"
    and c: "counted k (sv_conns sys) t" and nk: "n \<le> k"
  shows "sys_inv H h0 k (sys\<lparr>sv_core := put_session t (sv_core sys)\<rparr>)"
proof -
  have cid: "cs_client_id t = cid" using sys_invD(5) [OF inv s] id by (simp add: same_identity_def)
  have r: "registry_inv H h0 (put_session t (sv_core sys))"
    unfolding put_session_def cid by (rule registry_update [OF sys_invD(1) [OF inv] s id])
  have "counted k (sv_conns sys) u" if "map_of (co_sessions (put_session t (sv_core sys))) d = Some u" for d u
    using that c counted_mono [OF sys_invD(4) [OF inv] nk] by (auto simp: put_session_def cid split: if_splits)
  then show ?thesis using r sys_invD(2,3) [OF inv] by (auto simp: sys_inv_def config_ok_def put_session_def)
qed

lemma close_inv:
  assumes inv: "sys_inv H h0 n sys" and t: "sv_conns sys t = Some conn"
  shows "sys_inv H h0 n (sys\<lparr>sv_core := on_conn_closed now conn (sv_core sys), sv_conns := (sv_conns sys)(t := None)\<rparr>)"
proof -
  let ?conns = "(sv_conns sys)(t := None)"
  have fin: "finite (dom ?conns)" using sys_invD(3) [OF inv] by (simp add: dom_fun_upd)
  have other: "counted n ?conns u" if "map_of (co_sessions (sv_core sys)) d = Some u" "ms_client conn \<noteq> Some (d, cs_arc u)" for d u
    using counted_other [OF sys_invD(4) [OF inv that(1)], of t None] t that sys_invD(5) [OF inv that(1)] by simp
  show ?thesis
  proof (cases "\<exists>cid s. ms_client conn = Some (cid, cs_arc s) \<and> map_of (co_sessions (sv_core sys)) cid = Some s")
    case False
    then have "on_conn_closed now conn (sv_core sys) = sv_core sys"
      by (auto simp: on_conn_closed_def split: option.splits)
    then show ?thesis using inv fin other False by (auto simp: sys_inv_def)
  next
    case True
    then obtain cid s where s: "ms_client conn = Some (cid, cs_arc s)" "map_of (co_sessions (sv_core sys)) cid = Some s" by blast
    define u where "u = session_conn_closed now (pb_chan_id (ts_backend (ms_tx conn))) (ts_epoch (ms_tx conn)) (ms_brutal_applied conn) s"
    have o: "on_conn_closed now conn (sv_core sys) = put_session u (sv_core sys)" using s by (simp add: on_conn_closed_def u_def)
    have id: "same_identity s u" by (simp add: u_def session_conn_closed_def same_identity_def Let_def)
    have cid: "cs_client_id s = cid" "cs_client_id u = cid" using sys_invD(5) [OF inv s(2)] id by (simp_all add: same_identity_def)
    have cu: "counted n ?conns u"
      unfolding u_def by (rule counted_detach [OF sys_invD(4) [OF inv s(2)] sys_invD(3) [OF inv] t]) (use s cid in simp)
    have r: "registry_inv H h0 (put_session u (sv_core sys))"
      unfolding put_session_def cid by (rule registry_update [OF sys_invD(1) [OF inv] s(2) id])
    have "counted n ?conns v" if "map_of (co_sessions (put_session u (sv_core sys))) d = Some v" for d v
      using that cu other [of d v] s(1) by (auto simp: put_session_def cid split: if_splits)
    then show ?thesis using r fin sys_invD(2) [OF inv] unfolding o by (auto simp: sys_inv_def config_ok_def put_session_def)
  qed
qed

lemma exhausted_step: "same_identity s (session_exhausted fresh s)" "epoch_step s (session_exhausted fresh s)"
  by (simp_all add: session_exhausted_def tick_exhausted_def same_identity_def epoch_step_def Let_def)

lemma destroy_sessions: "map_of (co_sessions (destroy_session s core)) cid = Some u \<Longrightarrow> map_of (co_sessions core) cid = Some u"
  by (auto simp: destroy_session_def Let_def split: option.splits if_splits prod.splits)

lemma destroy_config: "config_ok (destroy_session s core) = config_ok core"
  by (simp add: destroy_session_def config_ok_def Let_def split: option.split prod.split)

lemma reap_fold:
  assumes "registry_inv H h0 core"
  shows "registry_inv H h0 (fold destroy_session ss core)" "config_ok (fold destroy_session ss core) = config_ok core"
    "map_of (co_sessions (fold destroy_session ss core)) cid = Some u \<Longrightarrow> map_of (co_sessions core) cid = Some u"
  using assms by (induction ss arbitrary: core) (simp_all add: registry_destroy destroy_config, blast intro: registry_destroy destroy_sessions)

lemma registry_reap_ms: "registry_inv H h0 core \<Longrightarrow> registry_inv H h0 (core\<lparr>co_last_reap_ms := ms\<rparr>)"
  using registry_invD [of H h0 core] by (intro registry_invI) (auto simp: attr_def [abs_def])

lemma reap_inv:
  assumes inv: "sys_inv H h0 n sys"
  shows "sys_inv H h0 n (sys\<lparr>sv_core := reap_sessions now now_ms (sv_core sys)\<rparr>)"
proof -
  note r = reap_fold [OF registry_reap_ms [OF sys_invD(1) [OF inv], of now_ms], where ss = "filter (session_expired now) (map snd (co_sessions (sv_core sys)))"]
  show ?thesis using inv r(1,2) r(3) sys_invD(4) [OF inv]
    by (auto simp: reap_sessions_def sys_inv_def config_ok_def)
qed

lemma traffic_inv:
  assumes inv: "registry_inv H h0 core"
  shows "registry_inv H h0 (core\<lparr>co_switch := snd (switch_traffic e (set_validate_mac f (co_switch core)))\<rparr>)"
proof -
  let ?sw = "set_validate_mac f (co_switch core)"
  let ?T = "attr (\<lambda>s. (cs_arc s, cs_mac_bin s)) core"
  have "owners_ok pinned (\<lambda>s. map_of (sw_ports s)) TAP_PORT_ID h0 ?T ?sw"
    using registry_invD(8) [OF inv] by (simp add: owners_ok_def pinned_def set_validate_mac_def)
  then have o: "owners_ok pinned (\<lambda>s. map_of (sw_ports s)) TAP_PORT_ID h0 ?T (snd (switch_traffic e ?sw))" by (rule sw.owners_traffic)
  have t: "sw_trusted (snd (switch_traffic e ?sw)) = TAP_PORT_ID"
    using switch_traffic_keeps [of e ?sw] registry_invD(9) [OF inv] by (simp add: set_validate_mac_def)
  show ?thesis using registry_invD [OF inv] o t by (intro registry_invI) (auto simp: attr_def [abs_def])
qed

lemma counted_new:
  assumes f: "finite (dom conns)" and k: "conns k = Some c0" "ms_client c0 = None"
    and c': "ms_client c' = Some (cs_client_id t, cs_arc t)" "ts_epoch (ms_tx c') = cx_epoch (cs_rx t)"
    and t: "cx_epoch (cs_rx t) = 1" "cx_active_conns (cs_rx t) = 1" "cs_arc t \<notin> conn_arcs conns"
  shows "counted (n + 1) (conns(k \<mapsto> c')) t"
proof -
  have none: "ms_client c \<noteq> Some (cs_client_id t, cs_arc t)" if "conns j = Some c" for j c using t(3) that by (auto simp: conn_arcs_def)
  then have "attached (conns(k \<mapsto> c')) (cs_client_id t) (cs_arc t) 1 = {k}" using c' t(1) unfolding attached_def by auto
  moreover have "ts_epoch (ms_tx c) \<le> 1" if "(conns(k \<mapsto> c')) j = Some c" "ms_client c = Some (cs_client_id t, cs_arc t)" for j c
    using that none c' t(1) by (auto split: if_splits)
  ultimately show ?thesis using t by (simp add: counted_def word_le_nat_alt)
qed

text \<open>An accepted connection, attached.\<close>

lemma accept_inv:
  assumes inv: "sys_inv H h0 n sys" and n: "n + 1 < 2 ^ 64" and k: "sv_conns sys k = Some c0" "ms_client c0 = None"
    and arc: "arc \<notin> conn_arcs (sv_conns sys)"
    and core': "registry_inv H h0 core'" "same_config (sv_core sys) core'" "accepted_change arc cid t (sv_core sys) core'"
    and c': "ms_client c' = Some (cid, cs_arc t)" "ts_epoch (ms_tx c') = cx_epoch (cs_rx t)"
  shows "sys_inv H h0 (n + 1) (sys\<lparr>sv_core := core', sv_conns := (sv_conns sys)(k \<mapsto> c')\<rparr>)"
proof -
  let ?conns = "(sv_conns sys)(k \<mapsto> c')"
  note fin = sys_invD(3) [OF inv]
  have t: "cs_client_id t = cid" "map_of (co_sessions core') = (map_of (co_sessions (sv_core sys)))(cid \<mapsto> t)" using core'(3) by (simp_all add: accepted_change_def)
  have ct: "counted (n + 1) ?conns t"
  proof (cases "map_of (co_sessions (sv_core sys)) cid")
    case None
    then have "cs_arc t = arc" "cx_epoch (cs_rx t) = 1" "cx_active_conns (cs_rx t) = 1" using core'(3) by (simp_all add: accepted_change_def)
    then show ?thesis using counted_new [OF fin k, of c' t] c' t(1) arc by simp
  next
    case (Some s)
    then obtain u where u: "same_identity s t" "epoch_step s u" "cx_active_conns (cs_rx u) < 16" "cx_epoch (cs_rx t) = cx_epoch (cs_rx u)"
      "cx_active_conns (cs_rx t) = cx_active_conns (cs_rx u) + 1" using core'(3) by (auto simp: accepted_change_def joined_def)
    define v where "v = s\<lparr>cs_rx := cs_rx u\<rparr>"
    have v: "same_identity s v" "epoch_step s v" "same_identity v t" using u(1,2) by (simp_all add: v_def same_identity_def epoch_step_def)
    have "counted (n + 1) (sv_conns sys) v" by (rule counted_step [OF sys_invD(4) [OF inv Some] v(1,2) n])
    then show ?thesis by (rule counted_attach [OF _ fin k]) (use c' t(1) u v in \<open>simp_all add: v_def\<close>)
  qed
  have "counted (n + 1) ?conns u" if "map_of (co_sessions core') d = Some u" for d u
  proof (cases "d = cid")
    case True
    then show ?thesis using that t(2) ct by simp
  next
    case False
    then have u: "map_of (co_sessions (sv_core sys)) d = Some u" using that t(2) by simp
    have "cs_client_id u = d" using sys_invD(5) [OF inv u] .
    then show ?thesis
      using counted_other [OF counted_mono [OF sys_invD(4) [OF inv u], of "n + 1"], of k "Some c'"] k c' False by simp
  qed
  then show ?thesis using core'(1,2) fin sys_invD(2) [OF inv] by (simp add: sys_inv_def config_ok_def same_config_def)
qed

lemma handshake_inv:
  assumes libs: "hs_libs_ok TL backlog L" and inv: "sys_inv H h0 n sys" and n: "n + 1 < 2 ^ 64"
    and ok: "event_ok h0 (Sv_Handshake t i data) sys"
  shows "\<exists>sys'. handshake_step TL L H t i data sys = Some sys' \<and> sys_inv H h0 (n + 1) sys'"
proof (cases "\<exists>conn. sv_conns sys t = Some conn \<and> ms_client conn = None")
  case False
  then have "handshake_step TL L H t i data sys = Some sys" by (auto simp: handshake_step_def split: option.split)
  then show ?thesis using sys_inv_mono [OF inv] by simp
next
  case True
  then obtain conn where conn: "sv_conns sys t = Some conn" "ms_client conn = None" by blast
  have o: "input_ok i" "hi_arc i \<noteq> h0" "hi_arc i \<notin> ran (attr cs_arc (sv_core sys))" "hi_arc i \<notin> conn_arcs (sv_conns sys)" using ok by simp_all
  obtain r where r: "handle_handshake TL L H i data conn (sv_core sys) = Some r" "handled H h0 (hi_arc i) (sv_core sys) r"
    using handle_handshake_ok [OF libs sys_invD(2) [OF inv] o(1) sys_invD(1) [OF inv] o(2,3) conn(2)] by blast
  have h: "registry_inv H h0 (hr_core r)" "same_config (sv_core sys) (hr_core r)" using r(2) by (simp_all add: handled_def)
  have step: "handshake_step TL L H t i data sys =
     Some (if hr_outcome r = HS_Ok then sys\<lparr>sv_core := hr_core r, sv_conns := (sv_conns sys)(t \<mapsto> hr_conn r)\<rparr>
           else sys\<lparr>sv_core := on_conn_closed (hi_now i) (hr_conn r) (hr_core r), sv_conns := (sv_conns sys)(t := None)\<rparr>)"
    using conn r(1) by (simp add: handshake_step_def)
  show ?thesis
  proof (cases "\<exists>cid u. ms_client (hr_conn r) = Some (cid, cs_arc u) \<and> ts_epoch (ms_tx (hr_conn r)) = cx_epoch (cs_rx u)
             \<and> accepted_change (hi_arc i) cid u (sv_core sys) (hr_core r)")
    case True
    then have a: "sys_inv H h0 (n + 1) (sys\<lparr>sv_core := hr_core r, sv_conns := (sv_conns sys)(t \<mapsto> hr_conn r)\<rparr>)"
      using accept_inv [OF inv n conn o(4) h] by blast
    show ?thesis using a close_inv [OF a, of t "hr_conn r" "hi_now i"] step by simp
  next
    case False
    then obtain cid where f: "hr_outcome r \<noteq> HS_Ok" "ms_client (hr_conn r) = None" "refused_change cid (sv_core sys) (hr_core r)"
      using r(2) by (auto simp: handled_def)
    have "counted (n + 1) (sv_conns sys) u" if u: "map_of (co_sessions (hr_core r)) d = Some u" for d u
    proof (cases "map_of (co_sessions (sv_core sys)) d = Some u")
      case True
      then show ?thesis using counted_mono [OF sys_invD(4) [OF inv True]] by simp
    next
      case False
      then obtain s where "map_of (co_sessions (sv_core sys)) d = Some s" "same_identity s u" "epoch_step s u"
        using u f(3) by (auto simp: refused_change_def split: if_splits)
      then show ?thesis using counted_step [OF sys_invD(4) [OF inv]] n by blast
    qed
    then have "sys_inv H h0 (n + 1) (sys\<lparr>sv_core := hr_core r\<rparr>)"
      using h sys_invD(2,3) [OF inv] by (simp add: sys_inv_def config_ok_def same_config_def)
    from close_inv [OF this, of t conn "hi_now i"] show ?thesis using step f(1,2) conn by (simp add: on_conn_closed_def)
  qed
qed

lemma sv_step_inv:
  assumes libs: "hs_libs_ok TL backlog L" and inv: "sys_inv H h0 n sys" and n: "n + 1 < 2 ^ 64" and ok: "event_ok h0 ev sys"
  shows "\<exists>sys'. sv_step TL L H ev sys = Some sys' \<and> sys_inv H h0 (n + 1) sys'"
proof (cases ev)
  case (Sv_Accept t conn)
  have "sys_inv H h0 n (sys\<lparr>sv_conns := (sv_conns sys)(t \<mapsto> conn\<lparr>ms_client := None\<rparr>)\<rparr>)" if "sv_conns sys t = None"
  proof -
    have "counted n ((sv_conns sys)(t \<mapsto> conn\<lparr>ms_client := None\<rparr>)) s" if s: "map_of (co_sessions (sv_core sys)) cid = Some s" for cid s
      by (rule counted_other [OF sys_invD(4) [OF inv s]]) (use \<open>sv_conns sys t = None\<close> in auto)
    then show ?thesis using inv by (auto simp: sys_inv_def)
  qed
  then show ?thesis using Sv_Accept sys_inv_mono [of H h0 n _ "n + 1"] inv by auto
next
  case (Sv_Handshake t i data)
  then show ?thesis using handshake_inv [OF libs inv n] ok by simp
next
  case (Sv_Close t now)
  then show ?thesis using close_inv [OF inv, of t] sys_inv_mono [of H h0 n _ "n + 1"] inv by (cases "sv_conns sys t") auto
next
  case (Sv_Exhausted cid fresh)
  show ?thesis
  proof (cases "map_of (co_sessions (sv_core sys)) cid")
    case None
    then show ?thesis using Sv_Exhausted sys_inv_mono [OF inv] by simp
  next
    case (Some s)
    have "counted (n + 1) (sv_conns sys) (session_exhausted fresh s)"
      by (rule counted_step [OF sys_invD(4) [OF inv Some] exhausted_step n])
    then show ?thesis using sys_inv_put [OF inv Some exhausted_step(1)] Some Sv_Exhausted by simp
  qed
next
  case (Sv_Reap now now_ms)
  then show ?thesis using sys_inv_mono [OF reap_inv [OF inv], of "n + 1"] by simp
next
  case (Sv_Traffic e)
  have "sys_inv H h0 n (sys\<lparr>sv_core := (sv_core sys)\<lparr>co_switch := snd (switch_traffic e (set_validate_mac (core_validate (sv_core sys)) (co_switch (sv_core sys))))\<rparr>\<rparr>)"
    using inv traffic_inv [OF sys_invD(1) [OF inv]] by (auto simp: sys_inv_def config_ok_def)
  then show ?thesis using Sv_Traffic sys_inv_mono [of H h0 n _ "n + 1"] by (simp add: Let_def)
next
  case (Sv_Data cid rx port)
  show ?thesis
  proof (cases "map_of (co_sessions (sv_core sys)) cid")
    case None
    then show ?thesis using Sv_Data sys_inv_mono [OF inv] by simp
  next
    case (Some s)
    let ?t = "s\<lparr>cs_rx := rx\<lparr>cx_epoch := cx_epoch (cs_rx s), cx_active_conns := cx_active_conns (cs_rx s)\<rparr>, cs_port := port\<rparr>"
    have l: "same_life s ?t" by (simp add: same_life_def same_identity_def)
    have "counted (n + 1) (sv_conns sys) ?t" using counted_mono [OF counted_life [OF sys_invD(4) [OF inv Some] l]] by simp
    then show ?thesis using sys_inv_put [OF inv Some, of ?t] l Some Sv_Data by (simp add: same_life_def)
  qed
next
  case (Sv_Io t conn')
  show ?thesis
  proof (cases "sv_conns sys t")
    case None
    then show ?thesis using Sv_Io sys_inv_mono [OF inv] by simp
  next
    case (Some conn)
    let ?c = "conn'\<lparr>ms_client := ms_client conn, ms_tx := (ms_tx conn')\<lparr>ts_epoch := ts_epoch (ms_tx conn)\<rparr>\<rparr>"
    have "attached ((sv_conns sys)(t \<mapsto> ?c)) cid arc ep = attached (sv_conns sys) cid arc ep" for cid arc ep
      unfolding attached_def using Some by (intro Collect_cong) auto
    then have "counted (n + 1) ((sv_conns sys)(t \<mapsto> ?c)) s" if "map_of (co_sessions (sv_core sys)) cid = Some s" for cid s
      using counted_mono [OF sys_invD(4) [OF inv that], of "n + 1"] Some by (auto simp: counted_def)
    then show ?thesis using inv Some Sv_Io by (auto simp: sys_inv_def)
  qed
qed

lemma sv_run_inv:
  assumes libs: "hs_libs_ok TL backlog L"
  shows "sys_inv H h0 n sys \<Longrightarrow> n + length evs < 2 ^ 64 \<Longrightarrow> events_ok TL L H h0 evs sys
    \<Longrightarrow> \<exists>sys'. sv_run TL L H evs sys = Some sys' \<and> sys_inv H h0 (n + length evs) sys'"
proof (induction evs arbitrary: n sys)
  case Nil
  then show ?case by simp
next
  case (Cons ev evs)
  obtain sys1 where s1: "sv_step TL L H ev sys = Some sys1" "sys_inv H h0 (n + 1) sys1"
    using sv_step_inv [OF libs Cons.prems(1)] Cons.prems(2,3) by auto
  then show ?case using Cons.IH [OF s1(2)] Cons.prems(2,3) by auto
qed

subsection \<open>The server from its start\<close>

record server_args =
  sa_psk :: string
  sa_encrypt :: bool
  sa_enc_algo :: string
  sa_min_enc :: string
  sa_max_sessions :: int
  sa_fec_group_min :: int
  sa_fec_group_max :: int
  sa_brutal :: bool
  sa_brutal_up :: u64
  sa_brutal_down :: u64
  sa_v4cidr :: string
  sa_v6cidr :: string

text \<open>The state of \<open>start_server\<close> once the port of the local interface is added.\<close>

definition start_server :: "crypto_lib \<Rightarrow> nat \<Rightarrow> server_args \<Rightarrow> 'c server_core" where
  "start_server L tap a =
     (let (pool, gw_v4, gw_v6) = ip_pool_new (sa_v4cidr a) (sa_v6cidr a);
          (fmin, fmax) = normalize_fec_group_bounds (sa_fec_group_min a) (sa_fec_group_max a)
      in \<lparr>co_psk = sa_psk a, co_psk_hash = hash_psk L (sa_psk a), co_encrypt = sa_encrypt a, co_enc_algo = enc_algo_from_config (sa_enc_algo a),
          co_brutal = sa_brutal a, co_brutal_up = sa_brutal_up a, co_brutal_down = sa_brutal_down a,
          co_switch = add_port TAP_PORT_ID tap vswitch_new, co_sessions = [], co_recovered_retired = 0, co_lost_retired = 0,
          co_pool = pool, co_banned = (\<lambda>_. None), co_registry = {}, co_gw_v4 = gw_v4, co_gw_v6 = gw_v6,
          co_min_enc = min_enc_rank (sa_min_enc a), co_max_sessions = normalize_max_sessions (sa_max_sessions a),
          co_fec_group_min = fmin, co_fec_group_max = fmax, co_last_reap_ms = 0\<rparr>)"

definition server_boot :: "crypto_lib \<Rightarrow> nat \<Rightarrow> server_args \<Rightarrow> ('c, 't) server_sys" where
  "server_boot L tap a = \<lparr>sv_core = start_server L tap a, sv_conns = (\<lambda>_. None)\<rparr>"

lemma start_inv: "sys_inv H tap 0 (server_boot L tap a :: ('c, 't) server_sys)"
proof -
  define core :: "'c server_core" where "core = start_server L tap a"
  have c: "co_sessions core = []" by (simp add: core_def start_server_def split_beta Let_def)
  have e: "attr f core = (\<lambda>_. None)" for f :: "'c client_session \<Rightarrow> 'z" by (simp add: attr_def fun_eq_iff c)
  have i: "is_inner_aead_algo (enc_algo_from_config x)" for x
    by (simp add: enc_algo_from_config_def is_inner_aead_algo_def is_gcm_algo_def Let_def)
  have "registry_inv H tap core"
    by (rule registry_invI, unfold e)
      (auto simp: core_def start_server_def split_beta Let_def ip_pool_new_def leases_def own_values_def bindings_ok_def owners_ok_def
        vswitch_new_def with_flood_budgets_def add_port_def)
  moreover have "config_ok core" using i by (simp add: config_ok_def core_def start_server_def split_beta Let_def)
  ultimately show ?thesis by (simp add: sys_inv_def server_boot_def c flip: core_def)
qed

end
