(* ===== verification/Server_Props.thy ===== *)
theory Server_Props
  imports Server_System Session_Flush
begin

text \<open>
  The properties of the server's registry, switch and handshake together, with a concrete server
  (hexadecimal as the crate does it, JSON and UUIDs by small functions) for the witnesses.
\<close>

subsection \<open>A concrete server\<close>

fun unhex :: "string \<Rightarrow> bytes option" where
  "unhex [] = Some []"
| "unhex [c] = None"
| "unhex (c # d # cs) =
     (case (to_digit 16 c, to_digit 16 d) of
        (Some a, Some b) \<Rightarrow> map_option ((#) (of_nat (a * 16 + b))) (unhex cs)
      | _ \<Rightarrow> None)"

definition hex_lib :: crypto_lib where
  "hex_lib = sample_lib\<lparr>lib_hex_encode := (\<lambda>b. concat (map hex_byte b)), lib_hex_decode := unhex\<rparr>"

definition sample_args :: server_args where
  "sample_args = \<lparr>sa_psk = ''k'', sa_encrypt = False, sa_enc_algo = ''gcm256'', sa_min_enc = [], sa_max_sessions = 0, sa_fec_group_min = 0,
     sa_fec_group_max = 0, sa_brutal = False, sa_brutal_up = 0, sa_brutal_down = 0, sa_v4cidr = ''10.0.0.0/24'', sa_v6cidr = ''fd00::/64''\<rparr>"

definition sample_id :: "u8 \<Rightarrow> string" where
  "sample_id n = (if n = 1 then ''00000000-0000-0000-0000-000000000001'' else ''00000000-0000-0000-0000-000000000002'')"

definition sample_req :: "u8 \<Rightarrow> handshake_req" where
  "sample_req n = \<lparr>hq_protocol_version = 3, hq_client_instance = ''instance-000000000'', hq_conn_id = [],
     hq_client_id = sample_id n,
     hq_psk = hash_psk hex_lib ''k'', hq_mac = mac_to_string [2, 0, 0, 0, 0, n],
     hq_ipv4 = [], hq_ipv6 = [], hq_padding = [],
     hq_brutal_groups = False, hq_brutal_total_tx = 0, hq_brutal_total_rx = 0, hq_brutal_conns = 1, hq_brutal_conn_index = 0,
     hq_fec = False, hq_fec_group = 0, hq_encrypt = False, hq_enc_algo = 0, hq_session_token = [], hq_peer_info = None\<rparr>"

definition sample_hs :: hs_lib where
  "sample_hs = \<lparr>hl_parse_req = (\<lambda>d. Some (sample_req (hd d))), hl_show_resp = (\<lambda>r. []), hl_uuid_parse = (\<lambda>_. None),
     hl_uuid_v5 = (\<lambda>b. if b = as_bytes (mac_to_string [2, 0, 0, 0, 0, 1] @ ''k'') then sample_id 1 else sample_id 2)\<rparr>"

definition sample_input :: "nat \<Rightarrow> hs_input" where
  "sample_input arc = \<lparr>hi_now = 0, hi_now_us = 0, hi_now_ms = 0, hi_rng = 1, hi_rng_resp = 1, hi_salt_a = replicate 8 0, hi_salt_b = replicate 8 1,
     hi_token = Some (replicate 32 0), hi_arc = arc, hi_tls_info = None,
     hi_local = \<lparr>pi_implementation = [], pi_hostname = [], pi_os = [], pi_os_version = [], pi_kernel = [], pi_arch = [], pi_version = [],
       pi_git_commit = [], pi_build_time = []\<rparr>,
     hi_brutal_applied = False, hi_brutal_error = [], hi_pad_code = 0, hi_pad_cache = replicate 4096 0, hi_rx_batch = None\<rparr>"

definition sample_mio :: "(vpn_frame list, nat) mio_session" where
  "sample_mio = \<lparr>ms_tx = tk_tx sample_tick_session, ms_rx = sample_rx_conn None, ms_client = None, ms_brutal_applied = False\<rparr>"

lemma unhex_nibble: "n < 16 \<Longrightarrow> to_digit 16 (hex_nibble n) = Some n"
proof -
  have "\<forall>n\<in>set [0..<16]. to_digit 16 (hex_nibble n) = Some n" by code_simp
  then show "n < 16 \<Longrightarrow> to_digit 16 (hex_nibble n) = Some n" by simp
qed

lemma hex_nibble_mod: "hex_nibble n = hex_nibble (n mod 16)"
  by (simp add: hex_nibble_def)

lemma unhex_byte: "unhex (hex_byte b @ cs) = map_option ((#) b) (unhex cs)"
proof -
  have "unat b < 256" using unsigned_less [of b] by simp
  then have "unat b div 16 < 16" by simp
  moreover have "to_digit 16 (hex_nibble (unat b)) = Some (unat b mod 16)"
    using unhex_nibble [of "unat b mod 16"] hex_nibble_mod [of "unat b"] by simp
  moreover have "of_nat (unat b div 16 * 16 + unat b mod 16) = b" by simp
  ultimately show ?thesis by (simp add: hex_byte_def unhex_nibble)
qed

lemma hex_lib_ok: "hs_libs_ok count_tls (\<lambda>t. t) hex_lib"
proof -
  have "unhex (concat (map hex_byte b)) = Some b" for b by (induction b) (simp_all add: unhex_byte)
  moreover have "length (concat (map hex_byte b)) = 2 * length b" for b by (induction b) (simp_all add: hex_byte_def)
  ultimately have "crypto_lib_ok hex_lib" using sample_lib_ok by (simp add: crypto_lib_ok_def hex_lib_def)
  moreover have "unhex (hex_byte b) = Some [b]" for b using unhex_byte [of b "[]"] by simp
  moreover have "tls_ok count_tls (\<lambda>t. t)" using sample_env by (simp add: writer_env_def)
  ultimately show ?thesis by (simp add: hs_libs_ok_def hex_lib_def)
qed

subsection \<open>The registry in every run\<close>

lemma destroy_other: "cs_client_id u \<noteq> cid \<Longrightarrow> map_of (co_sessions (destroy_session u core)) cid = map_of (co_sessions core) cid"
  by (simp add: destroy_session_def Let_def split: option.split prod.split)

lemma destroy_others:
  "(\<And>u. u \<in> set us \<Longrightarrow> cs_client_id u \<noteq> cid) \<Longrightarrow> map_of (co_sessions (fold destroy_session us core)) cid = map_of (co_sessions core) cid"
  by (induction us arbitrary: core) (simp_all add: destroy_other)

lemma reap_spares:
  assumes inv: "registry_inv H h0 core" and s: "map_of (co_sessions core) cid = Some s" and alive: "cx_active_conns (cs_rx s) \<noteq> 0"
  shows "map_of (co_sessions (reap_sessions now now_ms core)) cid = Some s"
proof -
  let ?ss = "filter (session_expired now) (map snd (co_sessions core))"
  have "cs_client_id u \<noteq> cid" if u: "u \<in> set ?ss" for u
  proof
    assume c: "cs_client_id u = cid"
    obtain d where d: "(d, u) \<in> set (co_sessions core)" "session_expired now u" using u by auto
    then have "map_of (co_sessions core) d = Some u" using registry_invD(11) [OF inv] by simp
    then have "u = s" using registry_invD(1) [OF inv] c s by fastforce
    then show False using d(2) alive by (simp add: session_expired_def)
  qed
  then have "map_of (co_sessions (fold destroy_session ?ss k)) cid = map_of (co_sessions k) cid" for k by (rule destroy_others)
  then show ?thesis using s by (simp add: reap_sessions_def)
qed


definition sample_events :: "(vpn_frame list, nat) server_event list" where
  "sample_events = [Sv_Accept 1 sample_mio, Sv_Handshake 1 (sample_input 1) [1]]"


subsection \<open>Isolation of sessions in the switch\<close>

lemma registry_pinned:
  assumes "registry_inv H tap core" "map_of (co_sessions core) cid = Some s"
  shows "pinned cid (cs_arc s) (cs_mac_bin s) (co_switch core)" "length (cs_mac_bin s) = 6" "cs_mac_bin s ! 0 AND 1 = 0" "cs_mac_bin s \<noteq> zero_mac"
proof -
  have "attr (\<lambda>s. (cs_arc s, cs_mac_bin s)) core cid = Some (cs_arc s, cs_mac_bin s)" using assms(2) by (simp add: attr_def)
  then show "pinned cid (cs_arc s) (cs_mac_bin s) (co_switch core)" using registry_invD(8) [OF assms(1)] unfolding owners_ok_def by blast
  show "length (cs_mac_bin s) = 6" "cs_mac_bin s ! 0 AND 1 = 0" "cs_mac_bin s \<noteq> zero_mac"
    using registry_invD(2) [OF assms] by (simp_all add: session_wf_def)
qed

lemma registry_arcs:
  assumes inv: "registry_inv H tap core" and s: "map_of (co_sessions core) c = Some s" "map_of (co_sessions core) d = Some t" "c \<noteq> d"
  shows "cs_arc s \<noteq> cs_arc t" "cs_arc s \<noteq> tap"
proof -
  have a: "attr cs_arc core c = Some (cs_arc s)" "attr cs_arc core d = Some (cs_arc t)" using s by (simp_all add: attr_def)
  have o: "inj_on (attr cs_arc core) (dom (attr cs_arc core))" "tap \<notin> ran (attr cs_arc core)"
    using registry_invD(5) [OF inv] by (simp_all add: own_values_def)
  show "cs_arc s \<noteq> cs_arc t" using inj_onD [OF o(1), of c d] a s(3) by auto
  show "cs_arc s \<noteq> tap" using o(2) a by (auto simp: ran_def)
qed

text \<open>
  C4. Isolation of sessions: a session cannot send with another source MAC than its own; a unicast
  frame from one session to the MAC of another is handed to that session's port and to nothing
  else, changing nothing in the switch; and no other port but the local interface's can use the
  MAC of a session as its source, so that it cannot move the MAC to itself.
\<close>

theorem session_mac_isolation:
  assumes inv: "registry_inv H tap core" and a: "map_of (co_sessions core) cA = Some A" and b: "map_of (co_sessions core) cB = Some B"
    and ne: "cA \<noteq> cB" and len: "14 \<le> length (as_slice f)"
  shows "(take 6 (drop 6 (as_slice f)) \<noteq> cs_mac_bin A \<longrightarrow>
           fst (process_frame_inner rnd now cA (Some (cs_mac_bin A)) f (co_switch core)) = [])
    \<and> (take 6 (drop 6 (as_slice f)) = cs_mac_bin A \<longrightarrow> take 6 (as_slice f) = cs_mac_bin B \<longrightarrow>
         process_frame_inner rnd now cA (Some (cs_mac_bin A)) f (co_switch core) = ([Call_Owned (cs_arc B) f], co_switch core))
    \<and> (take 6 (drop 6 (as_slice f)) = cs_mac_bin B \<longrightarrow> q \<noteq> cB \<longrightarrow> q \<noteq> TAP_PORT_ID \<longrightarrow>
         process_frame_inner rnd now q None f (co_switch core) = ([], spoof_drop (co_switch core)))
    \<and> cs_arc A \<noteq> cs_arc B \<and> cs_arc B \<noteq> tap"
proof -
  note pa = registry_pinned [OF inv a] and pb = registry_pinned [OF inv b]
  have "process_frame_inner rnd now cA (Some (cs_mac_bin A)) f (co_switch core) = ([Call_Owned (cs_arc B) f], co_switch core)"
    if m: "take 6 (drop 6 (as_slice f)) = cs_mac_bin A" "take 6 (as_slice f) = cs_mac_bin B"
  proof -
    have "as_slice f ! 0 = cs_mac_bin B ! 0" using m(2) nth_0_take [of "as_slice f"] len by simp
    then have "forward rnd now cA f (co_switch core) = ([Call_Owned (cs_arc B) f], co_switch core)"
      using forward_pinned [of cB "cs_arc B" f "co_switch core" cA rnd now] pb m(2) ne len by simp
    then show ?thesis using m(1) pa(4) len by (simp add: process_frame_inner_def)
  qed
  moreover have "fst (process_frame_inner rnd now cA (Some (cs_mac_bin A)) f (co_switch core)) = []" if "take 6 (drop 6 (as_slice f)) \<noteq> cs_mac_bin A"
    using that pa(4) len by (simp add: process_frame_inner_def)
  moreover have "process_frame_inner rnd now q None f (co_switch core) = ([], spoof_drop (co_switch core))"
    if "take 6 (drop 6 (as_slice f)) = cs_mac_bin B" "q \<noteq> cB" "q \<noteq> TAP_PORT_ID"
    using spoofed_static [of cB "cs_arc B" f "co_switch core" q rnd now] that pb(1) len registry_invD(9) [OF inv] by simp
  moreover have "cs_arc A \<noteq> cs_arc B" "cs_arc B \<noteq> tap" using registry_arcs [OF inv a b ne] registry_arcs [OF inv b a] ne by auto
  ultimately show ?thesis by blast
qed

text \<open>Two sessions of the concrete server.\<close>

definition sample_session :: "u8 \<Rightarrow> string \<Rightarrow> string \<Rightarrow> vpn_frame list client_session" where
  "sample_session n v4 v6 = new_session_record hex_lib (sample_input (unat n)) (sample_req n) (ENC_ALGO_NONE, None, None, None, None) [] v4 v6"

definition sample_register :: "vpn_frame list client_session \<Rightarrow> vpn_frame list server_core \<Rightarrow> vpn_frame list server_core" where
  "sample_register s c =
     register_session 0 s (c\<lparr>co_pool := (co_pool c)\<lparr>used_v4 := insert (cs_ipv4 s) (used_v4 (co_pool c)), used_v6 := insert (cs_ipv6 s) (used_v6 (co_pool c))\<rparr>\<rparr>)"

definition one_session :: "vpn_frame list server_core" where
  "one_session = sample_register (sample_session 1 ''10.0.0.2'' ''fd00::2'') (start_server hex_lib 0 sample_args)"

definition two_sessions :: "vpn_frame list server_core" where
  "two_sessions = sample_register (sample_session 2 ''10.0.0.3'' ''fd00::3'') one_session"

lemma sample_session_wf:
  assumes "n = 1 \<or> n = 2"
  shows "session_wf sample_hs ''k'' (sample_session n v4 v6)" "cs_client_id (sample_session n v4 v6) = sample_id n"
    "cs_arc (sample_session n v4 v6) = unat n" "cs_ipv4 (sample_session n v4 v6) = v4" "cs_ipv6 (sample_session n v4 v6) = v6"
    "cs_mac_bin (sample_session n v4 v6) = [2, 0, 0, 0, 0, n]"
proof -
  have p: "parse_mac_key unhex (mac_to_string [2, 0, 0, 0, 0, n]) = Some [2, 0, 0, 0, 0, n]"
    using hex_lib_ok by (intro parse_mac_to_string) (simp_all add: hs_libs_ok_def hex_lib_def)
  show f: "cs_client_id (sample_session n v4 v6) = sample_id n" "cs_arc (sample_session n v4 v6) = unat n" "cs_ipv4 (sample_session n v4 v6) = v4"
    "cs_ipv6 (sample_session n v4 v6) = v6" "cs_mac_bin (sample_session n v4 v6) = [2, 0, 0, 0, 0, n]"
    using p by (simp_all add: sample_session_def new_session_record_def sample_req_def sample_input_def hex_lib_def Let_def)
  have m: "cs_mac (sample_session n v4 v6) = mac_to_string [2, 0, 0, 0, 0, n]"
    by (simp add: sample_session_def new_session_record_def sample_req_def Let_def)
  have "is_valid_client_id (sample_id 1)" "is_valid_client_id (sample_id 2)"
    "expected_client_id sample_hs (mac_to_string [2, 0, 0, 0, 0, 1]) ''k'' = sample_id 1"
    "expected_client_id sample_hs (mac_to_string [2, 0, 0, 0, 0, 2]) ''k'' = sample_id 2" by code_simp+
  then show "session_wf sample_hs ''k'' (sample_session n v4 v6)" using assms f(1,5) m by (auto simp: session_wf_def zero_mac_def eval_nat_numeral)
qed

lemma sample_register_inv:
  assumes inv: "registry_inv sample_hs 0 core" and n: "n = 1 \<or> n = 2" and psk: "co_psk core = ''k''"
    and new: "map_of (co_sessions core) (sample_id n) = None" "v4 \<notin> used_v4 (co_pool core)" "v6 \<notin> used_v6 (co_pool core)" "unat n \<notin> ran (attr cs_arc core)"
    and room: "co_max_sessions core > 0 \<longrightarrow> int (length (co_sessions core)) < co_max_sessions core"
  shows "registry_inv sample_hs 0 (sample_register (sample_session n v4 v6) core)"
proof -
  note s = sample_session_wf [OF n]
  have "leases (insert v (used)) g (A(k \<mapsto> v))" if "leases used g A" "v \<notin> used" "A k = None" for v used g A k
    using that own_values_new [of g A v k] by (auto simp: leases_def)
  moreover have "attr f core (sample_id n) = None" for f :: "vpn_frame list client_session \<Rightarrow> string" using new(1) by (simp add: attr_def)
  moreover have "unat n \<noteq> 0" using n by auto
  ultimately show ?thesis unfolding sample_register_def
    using registry_invD(3,4) [OF inv] new room s psk by (intro registry_register [OF inv]) simp_all
qed

lemma sample_register_fields:
  assumes "n = 1 \<or> n = 2"
  shows "co_sessions (sample_register (sample_session n v4 v6) c) = assoc_put (sample_id n) (sample_session n v4 v6) (co_sessions c)"
    "used_v4 (co_pool (sample_register (sample_session n v4 v6) c)) = insert v4 (used_v4 (co_pool c))"
    "used_v6 (co_pool (sample_register (sample_session n v4 v6) c)) = insert v6 (used_v6 (co_pool c))"
    "co_psk (sample_register (sample_session n v4 v6) c) = co_psk c" "co_max_sessions (sample_register (sample_session n v4 v6) c) = co_max_sessions c"
  using sample_session_wf [OF assms] by (simp_all add: sample_register_def register_session_def Let_def)

text \<open>The addresses of the concrete server, by simplification.\<close>

lemma small_nats: "4 = Suc (Suc (Suc (Suc 0)))" "6 = Suc (Suc (Suc (Suc (Suc (Suc 0)))))" "7 = Suc (Suc (Suc (Suc (Suc (Suc (Suc 0))))))"
  "8 = Suc (Suc (Suc (Suc (Suc (Suc (Suc (Suc 0)))))))" by simp_all

lemmas unroll = arg_cong [OF small_nats(1), of read_octets] arg_cong [OF small_nats(1), of be_enc] arg_cong [OF small_nats(2), of read_groups]
  arg_cong [OF small_nats(3), of replicate] arg_cong [OF small_nats(4), of read_groups]

lemma show_radix_digit: "n < r \<Longrightarrow> show_radix r n = [hex_nibble n]"
  by (rule trans [OF show_radix.simps]) simp

lemma show_radix_step: "2 \<le> r \<Longrightarrow> r \<le> n \<Longrightarrow> show_radix r n = show_radix r (n div r) @ [hex_nibble (n mod r)]"
  by (rule trans [OF show_radix.simps]) simp

lemmas read_eval = before_slash_def prefix_bits_def after_slash_def parse_u32_def to_digit_def read_separator_def read_number_def unroll
lemmas show_eval = show_radix_digit show_radix_step hex_nibble_def unroll

lemma sample_cidr:
  "parse_v4_cidr ''10.0.0.0/24'' = (0x0a000000, 24)" "parse_v6_cidr ''fd00::/64'' = (0xfd000000000000000000000000000000, 64)"
proof -
  have "before_slash ''10.0.0.0/24'' = ''10.0.0.0''" "before_slash ''fd00::/64'' = ''fd00::''"
    "prefix_bits 24 ''10.0.0.0/24'' = 24" "prefix_bits 64 ''fd00::/64'' = 64" by (simp_all add: read_eval)
  moreover have "ipv4_from_str ''10.0.0.0'' = Some 0x0a000000"
    by (simp add: ipv4_from_str_def read_ipv4_def read_eval rd32_def be_dec_def)
  moreover have "ipv6_from_str ''fd00::'' = Some 0xfd000000000000000000000000000000"
    by (simp add: ipv6_from_str_def read_ipv6_def read_ipv4_def read_eval from_segments_def)
  ultimately show "parse_v4_cidr ''10.0.0.0/24'' = (0x0a000000, 24)" "parse_v6_cidr ''fd00::/64'' = (0xfd000000000000000000000000000000, 64)"
    by (simp_all add: parse_v4_cidr_def parse_v6_cidr_def ip4_to_u32_def ip6_to_u128_def Let_def mask_eq_exp_minus_1)
qed

lemma sample_v4:
  "u32_to_ip4 0x0a000001 = ''10.0.0.1''" "u32_to_ip4 0x0a000002 = ''10.0.0.2''"
  by (simp_all add: u32_to_ip4_def ipv4_to_string_def be32_def show_eval)

lemma sample_v6:
  "u128_to_ip6 0xfd000000000000000000000000000001 = ''fd00::1''" "u128_to_ip6 0xfd000000000000000000000000000002 = ''fd00::2''"
  by (simp_all add: u128_to_ip6_def ipv6_to_string_def segments_def upt_rec fmt_segments_def show_eval)

lemma sample_boot:
  "used_v4 (co_pool (start_server hex_lib 0 sample_args)) = {''10.0.0.1''}" "used_v6 (co_pool (start_server hex_lib 0 sample_args)) = {''fd00::1''}"
  "co_psk (start_server hex_lib 0 sample_args) = ''k''" "co_max_sessions (start_server hex_lib 0 sample_args) = 1024"
  "co_sessions (start_server hex_lib 0 sample_args) = []"
  by (simp_all add: start_server_def sample_args_def split_beta Let_def normalize_max_sessions_def ip_pool_new_def sample_cidr sample_v4 sample_v6)

lemma two_sessions_inv:
  "registry_inv sample_hs 0 two_sessions"
  "map_of (co_sessions two_sessions) (sample_id 1) = Some (sample_session 1 ''10.0.0.2'' ''fd00::2'')"
  "map_of (co_sessions two_sessions) (sample_id 2) = Some (sample_session 2 ''10.0.0.3'' ''fd00::3'')"
  "sample_id 1 \<noteq> sample_id 2"
proof -
  have "registry_inv sample_hs 0 (start_server hex_lib 0 sample_args :: vpn_frame list server_core)"
    by (rule sys_invD(1) [OF start_inv, unfolded server_boot_def, simplified])
  then have i1: "registry_inv sample_hs 0 one_session"
    unfolding one_session_def by (rule sample_register_inv) (simp_all add: sample_boot attr_def [abs_def] ran_def)
  have f: "co_sessions one_session = [(sample_id 1, sample_session 1 ''10.0.0.2'' ''fd00::2'')]" "used_v4 (co_pool one_session) = {''10.0.0.2'', ''10.0.0.1''}"
    "used_v6 (co_pool one_session) = {''fd00::2'', ''fd00::1''}" "co_psk one_session = ''k''" "co_max_sessions one_session = 1024"
    by (simp_all add: one_session_def sample_register_fields sample_boot assoc_put_def)
  show ne: "sample_id 1 \<noteq> sample_id 2" by (simp add: sample_id_def)
  have a: "unat (2::u8) \<notin> ran (attr cs_arc one_session)"
    by (auto simp: ran_def attr_def f sample_session_wf split: if_splits)
  show "registry_inv sample_hs 0 two_sessions"
    unfolding two_sessions_def using ne a by (intro sample_register_inv [OF i1]) (simp_all add: f)
  show "map_of (co_sessions two_sessions) (sample_id 1) = Some (sample_session 1 ''10.0.0.2'' ''fd00::2'')"
    "map_of (co_sessions two_sessions) (sample_id 2) = Some (sample_session 2 ''10.0.0.3'' ''fd00::3'')"
    using ne by (simp_all add: two_sessions_def sample_register_fields f)
qed

theorem session_mac_isolation_witness:
  "process_frame_inner (\<lambda>q. q) 0 (sample_id 1) (Some [2, 0, 0, 0, 0, 1]) (Owned ([2, 0, 0, 0, 0, 2] @ [2, 0, 0, 0, 0, 1] @ [8, 0]))
     (co_switch two_sessions) = ([Call_Owned 2 (Owned ([2, 0, 0, 0, 0, 2] @ [2, 0, 0, 0, 0, 1] @ [8, 0]))], co_switch two_sessions)"
  using session_mac_isolation [OF two_sessions_inv, of "Owned ([2, 0, 0, 0, 0, 2] @ [2, 0, 0, 0, 0, 1] @ [8, 0])" "\<lambda>q. q" 0]
  by (simp add: sample_session_wf)

end
