(* ===== verification/Spec2Isabelle.thy ===== *)
theory Spec2Isabelle
  imports Tlsvpn_Prelude Protocol Utils Crypto Frame Buffer Reorder Reorder_Delivery
    Fec_Xor Fec Fec_Decode Fec_Receive Fec_Recovery Fec_Encode
    Rx_Actor Rx_Session Adaptive Adaptive_Props Adaptive_Fair
    Owned_Queue Port Port_Send Port_Run Port_Trace
    Session_Tx Session_Tx_Props Session_Rx Session_Rx_Props
    Client_Rx Client_Rx_Props Client_Tx Client_Tx_Props Session_Tick
    Tunnel_Send Tunnel_Writers Tunnel_Receive Tunnel Session_Flush
    Vswitch Vswitch_Props Ip_Addr Ip_Pool Server_Session Server_Handshake
    Server_Registry Server_Handshake_Props Server_System Server_Props
begin

text \<open>
  Verification development for tlsvpn-rs, a layer-2 VPN over parallel TLS/TCP connections.
\<close>

end
